(* ===== verification/Prelude.thy ===== *)
theory Prelude
  imports Main "HOL-Library.Word" "HOL-Library.Signed_Division" "HOL-Library.Multiset"
begin

text \<open>
  Shared vocabulary of the development: the machine integers of the Rust sources and their
  checked, saturating and signed operations; the result combinators that model the \<open>?\<close>
  operator, with and without a mutable state; ordered maps (\<open>BTreeMap\<close>) as sorted
  association lists behind the interface \<open>ordered_map\<close>; and the list, option and word lemmas
  that the component theories use.

  The plain operators \<open>+\<close>, \<open>-\<close>, \<open>*\<close> of the sources are the word operations, which wrap
  around: this is the release profile, the one the README builds and the workspace manifest
  leaves at its defaults.  The \<open>checked_\<close> operations of the sources are the functions below.
\<close>

named_theorems word_nat \<open>facts that move machine arithmetic to the natural numbers\<close>
named_theorems result_simps \<open>evaluation and inversion of the result combinators\<close>

section \<open>Machine integers\<close>

type_synonym u8 = "8 word"
type_synonym u32 = "32 word"
type_synonym u64 = "64 word"
type_synonym u128 = "128 word"

text \<open>Signed integers are words read through \<^const>\<open>sint\<close>.\<close>

type_synonym i64 = "64 word"
type_synonym i128 = "128 word"

text \<open>The alloy primitives: an address is 20 bytes, a hash 32 bytes.\<close>

type_synonym Address = "160 word"
type_synonym B256 = "256 word"

definition checked_add :: "'a::len word \<Rightarrow> 'a word \<Rightarrow> 'a word option" where
  "checked_add a b = (if unat a + unat b < 2 ^ LENGTH('a) then Some (a + b) else None)"

definition checked_sub :: "'a::len word \<Rightarrow> 'a word \<Rightarrow> 'a word option" where
  "checked_sub a b = (if b \<le> a then Some (a - b) else None)"

definition checked_mul :: "'a::len word \<Rightarrow> 'a word \<Rightarrow> 'a word option" where
  "checked_mul a b = (if unat a * unat b < 2 ^ LENGTH('a) then Some (a * b) else None)"

definition checked_div :: "'a::len word \<Rightarrow> 'a word \<Rightarrow> 'a word option" where
  "checked_div a b = (if b = 0 then None else Some (a div b))"

definition saturating_sub :: "'a::len word \<Rightarrow> 'a word \<Rightarrow> 'a word" where
  "saturating_sub a b = (if b \<le> a then a - b else 0)"

definition in_signed_range :: "nat \<Rightarrow> int \<Rightarrow> bool" where
  "in_signed_range n i \<longleftrightarrow> - (2 ^ (n - 1)) \<le> i \<and> i < 2 ^ (n - 1)"

text \<open>\<open>checked_add\<close>, \<open>checked_mul\<close> and \<open>checked_div\<close> on a signed integer; division truncates.\<close>

definition schecked_add :: "'a::len word \<Rightarrow> 'a word \<Rightarrow> 'a word option" where
  "schecked_add a b = (if in_signed_range LENGTH('a) (sint a + sint b) then Some (a + b) else None)"

definition schecked_mul :: "'a::len word \<Rightarrow> 'a word \<Rightarrow> 'a word option" where
  "schecked_mul a b = (if in_signed_range LENGTH('a) (sint a * sint b) then Some (a * b) else None)"

definition schecked_div :: "'a::len word \<Rightarrow> 'a word \<Rightarrow> 'a word option" where
  "schecked_div a b =
     (if b = 0 \<or> \<not> in_signed_range LENGTH('a) (sint a sdiv sint b) then None
      else Some (word_of_int (sint a sdiv sint b)))"

section \<open>Results\<close>

text \<open>
  A \<open>Result<T, E>\<close> is a value of \<open>'e + 'a\<close>.  A function that also has \<open>&mut\<close> parameters
  returns the result together with the parameters' final value, on the error path as well:
  Rust does not undo what was written before an early return.
\<close>

definition ok_or :: "'e \<Rightarrow> 'a option \<Rightarrow> 'e + 'a" where
  "ok_or e x = (case x of None \<Rightarrow> Inl e | Some a \<Rightarrow> Inr a)"

definition bindE :: "'e + 'a \<Rightarrow> ('a \<Rightarrow> 'e + 'b) \<Rightarrow> 'e + 'b" where
  "bindE m f = (case m of Inl e \<Rightarrow> Inl e | Inr a \<Rightarrow> f a)"

definition bindR :: "('e + 'a) \<times> 's \<Rightarrow> ('a \<Rightarrow> 's \<Rightarrow> ('e + 'b) \<times> 's) \<Rightarrow> ('e + 'b) \<times> 's" where
  "bindR m f = (case m of (Inl e, s) \<Rightarrow> (Inl e, s) | (Inr a, s) \<Rightarrow> f a s)"

definition map_err :: "('e \<Rightarrow> 'f) \<Rightarrow> 'e + 'a \<Rightarrow> 'f + 'a" where
  "map_err f m = (case m of Inl e \<Rightarrow> Inl (f e) | Inr a \<Rightarrow> Inr a)"

definition is_ok :: "'e + 'a \<Rightarrow> bool" where
  "is_ok m = (case m of Inl _ \<Rightarrow> False | Inr _ \<Rightarrow> True)"

section \<open>Ordered maps\<close>

text \<open>
  \<open>BTreeMap\<close>: the entries in ascending order of their keys.  Iteration is the list itself.
\<close>

type_synonym ('k, 'v) btree_map = "('k \<times> 'v) list"

definition bt_invar :: "('k::linorder, 'v) btree_map \<Rightarrow> bool" where
  "bt_invar m \<longleftrightarrow> sorted_wrt (<) (map fst m)"

definition bt_insert :: "'k::linorder \<Rightarrow> 'v \<Rightarrow> ('k, 'v) btree_map \<Rightarrow> ('k, 'v) btree_map" where
  "bt_insert k v m = takeWhile (\<lambda>e. fst e < k) m @ (k, v) # dropWhile (\<lambda>e. fst e \<le> k) m"

definition bt_remove :: "'k \<Rightarrow> ('k, 'v) btree_map \<Rightarrow> ('k, 'v) btree_map" where
  "bt_remove k m = filter (\<lambda>e. fst e \<noteq> k) m"

definition bt_get :: "('k, 'v) btree_map \<Rightarrow> 'k \<Rightarrow> 'v option" where
  "bt_get m k = map_of m k"

definition bt_keys :: "('k, 'v) btree_map \<Rightarrow> 'k list" where
  "bt_keys m = map fst m"

section \<open>Lemmas on machine integers\<close>

lemma checked_add_Some [word_nat]:
  "checked_add a b = Some c \<longleftrightarrow> c = a + b \<and> unat (a + b) = unat a + unat b"
  by (auto simp: checked_add_def unat_add_lem)

lemma checked_mul_Some [word_nat]:
  "checked_mul a b = Some c \<longleftrightarrow> c = a * b \<and> unat (a * b) = unat a * unat b"
  by (auto simp: checked_mul_def unat_mult_lem)

lemma checked_sub_Some [word_nat]:
  "checked_sub a b = Some c \<longleftrightarrow> c = a - b \<and> b \<le> a"
  by (auto simp: checked_sub_def)

lemma checked_div_Some [word_nat]:
  "checked_div a b = Some c \<longleftrightarrow> c = a div b \<and> b \<noteq> 0"
  by (auto simp: checked_div_def)

lemma checked_add_None: "checked_add a b = None \<longleftrightarrow> 2 ^ LENGTH('a) \<le> unat a + unat b"
  for a b :: "'a::len word"
  by (auto simp: checked_add_def)

lemma unat_saturating_sub [word_nat]: "unat (saturating_sub a b) = unat a - unat b"
  by (auto simp: saturating_sub_def unat_sub word_le_nat_alt)

lemma saturating_sub_le [simp]: "saturating_sub a b \<le> a"
  by (simp add: word_le_nat_alt word_nat)

lemma saturating_sub_zero [simp]: "saturating_sub a 0 = a"
  by (simp add: saturating_sub_def)

text \<open>Widening a \<open>u64\<close> or a \<open>u32\<close> to \<open>u128\<close> keeps the value, and a product of two widened
  values fits: the overflow branches behind such products are dead code.\<close>

lemma unat_ucast_u64_u128 [simp]: "unat (ucast (a::u64) :: u128) = unat a"
  by (simp add: unsigned_ucast_eq take_bit_nat_eq_self order.strict_trans [OF unsigned_less])

lemma unat_ucast_u32_u128 [simp]: "unat (ucast (a::u32) :: u128) = unat a"
  by (simp add: unsigned_ucast_eq take_bit_nat_eq_self order.strict_trans [OF unsigned_less])

lemma unat_ucast_u32_u64 [simp]: "unat (ucast (a::u32) :: u64) = unat a"
  by (simp add: unsigned_ucast_eq take_bit_nat_eq_self order.strict_trans [OF unsigned_less])

lemma unat_ucast_u128_u64 [word_nat]: "unat (ucast (a::u128) :: u64) = unat a mod 2 ^ 64"
  by (simp add: unsigned_ucast_eq take_bit_eq_mod)

lemma u64_less: "unat (a::u64) < 2 ^ 64"
  using unsigned_less [of a] by simp

lemma u32_less: "unat (a::u32) < 2 ^ 32"
  using unsigned_less [of a] by simp

lemma u128_less: "unat (a::u128) < 2 ^ 128"
  using unsigned_less [of a] by simp

lemma u64_mult_less: "unat (a::u64) * unat (b::u64) < 2 ^ 128"
proof -
  have "unat a * unat b < 2 ^ 64 * 2 ^ 64"
    by (intro mult_strict_mono u64_less) simp_all
  then show ?thesis by simp
qed

lemma widening_mult [word_nat]:
  "unat (ucast (a::u64) * ucast (b::u64) :: u128) = unat a * unat b"
proof -
  have "unat (ucast a :: u128) * unat (ucast b :: u128) < 2 ^ LENGTH(128)"
    using u64_mult_less [of a b] by simp
  then show ?thesis
    by (simp add: unat_mult_lem [THEN iffD1])
qed

lemma checked_mul_widening [simp]:
  "checked_mul (ucast (a::u64)) (ucast (b::u64)) = Some (ucast a * ucast b :: u128)"
  using u64_mult_less [of a b] by (simp add: checked_mul_def)

lemma checked_add_widening [simp]:
  "checked_add (ucast (a::u64)) (ucast (b::u64)) = Some (ucast a + ucast b :: u128)"
  using u64_less [of a] u64_less [of b] by (simp add: checked_add_def)

lemma unat_add_widening [word_nat]:
  "unat (ucast (a::u64) + ucast (b::u64) :: u128) = unat a + unat b"
proof -
  have "unat (ucast a :: u128) + unat (ucast b :: u128) < 2 ^ LENGTH(128)"
    using u64_less [of a] u64_less [of b] by simp
  then show ?thesis
    by (simp add: unat_add_lem [THEN iffD1])
qed

lemma ucast_u64_u128_zero_iff [simp]: "(ucast (a::u64) :: u128) = 0 \<longleftrightarrow> a = 0"
  by (metis unat_ucast_u64_u128 unat_0 unsigned_0 word_unat_eq_iff)

lemma ucast_u64_u128_inj [simp]: "(ucast (a::u64) :: u128) = ucast b \<longleftrightarrow> a = b"
  by (metis unat_ucast_u64_u128 word_unat_eq_iff)

lemma unat_min: "unat (min a b) = min (unat a) (unat b)" for a b :: "'a::len word"
  by (simp add: min_def word_le_nat_alt)

lemma unat_max: "unat (max a b) = max (unat a) (unat b)" for a b :: "'a::len word"
  by (simp add: max_def word_le_nat_alt)

lemmas word_min_max = unat_min unat_max

section \<open>Lemmas on results\<close>

lemma ok_or_simps [simp]: "ok_or e None = Inl e" "ok_or e (Some a) = Inr a"
  by (simp_all add: ok_or_def)

lemma ok_or_Inr [result_simps]: "ok_or e x = Inr a \<longleftrightarrow> x = Some a"
  by (cases x) simp_all

lemma ok_or_Inl [result_simps]: "ok_or e x = Inl d \<longleftrightarrow> x = None \<and> d = e"
  by (cases x) auto

lemma bindE_simps [simp]: "bindE (Inl e) f = Inl e" "bindE (Inr a) f = f a"
  by (simp_all add: bindE_def)

lemma bindE_Inr [result_simps]: "bindE m f = Inr b \<longleftrightarrow> (\<exists>a. m = Inr a \<and> f a = Inr b)"
  by (cases m) simp_all

lemma bindR_simps [simp]: "bindR (Inl e, s) f = (Inl e, s)" "bindR (Inr a, s) f = f a s"
  by (simp_all add: bindR_def)

lemma bindR_Inr [result_simps]:
  "bindR m f = (Inr b, t) \<longleftrightarrow> (\<exists>a s. m = (Inr a, s) \<and> f a s = (Inr b, t))"
  by (auto simp: bindR_def split: prod.splits sum.splits)

lemma map_err_simps [simp]: "map_err g (Inl e) = Inl (g e)" "map_err g (Inr a) = Inr a"
  by (simp_all add: map_err_def)

lemma map_err_Inr [result_simps]: "map_err g m = Inr a \<longleftrightarrow> m = Inr a"
  by (cases m) simp_all

lemma map_err_Inl: "map_err g m = Inl d \<longleftrightarrow> (\<exists>e. m = Inl e \<and> d = g e)"
  by (cases m) auto

lemma bindR_Inl:
  "bindR m f = (Inl e, t) \<longleftrightarrow> m = (Inl e, t) \<or> (\<exists>a s. m = (Inr a, s) \<and> f a s = (Inl e, t))"
  by (auto simp: bindR_def split: prod.splits sum.splits)

text \<open>An invariant of the state is kept by a sequence if each part keeps it, whatever the results.\<close>

lemma bindR_snd:
  assumes "I (snd m)" "\<And>a s. m = (Inr a, s) \<Longrightarrow> I s \<Longrightarrow> I (snd (f a s))"
  shows "I (snd (bindR m f))"
  using assms by (auto simp: bindR_def split: prod.splits sum.splits)

lemmas result_errors = map_err_Inl bindR_Inl

lemma is_ok_simps [simp]: "is_ok (Inr a)" "\<not> is_ok (Inl e)"
  by (simp_all add: is_ok_def)

lemma is_ok_iff: "is_ok m \<longleftrightarrow> (\<exists>a. m = Inr a)"
  by (cases m) simp_all

section \<open>The interface of an ordered map\<close>

text \<open>
  What a client of \<open>BTreeMap\<close> relies on: lookups after an insert and a remove, and that
  \<open>keys()\<close> enumerates the bound keys in ascending order.
\<close>

locale ordered_map =
  fixes insert :: "'k::linorder \<Rightarrow> 'v \<Rightarrow> 'm \<Rightarrow> 'm"
    and remove :: "'k \<Rightarrow> 'm \<Rightarrow> 'm"
    and get :: "'m \<Rightarrow> 'k \<Rightarrow> 'v option"
    and keys :: "'m \<Rightarrow> 'k list"
    and invar :: "'m \<Rightarrow> bool"
  assumes get_insert: "invar m \<Longrightarrow> get (insert k v m) = (get m)(k \<mapsto> v)"
    and get_remove: "invar m \<Longrightarrow> get (remove k m) = (get m)(k := None)"
    and invar_insert: "invar m \<Longrightarrow> invar (insert k v m)"
    and invar_remove: "invar m \<Longrightarrow> invar (remove k m)"
    and set_keys: "set (keys m) = dom (get m)"
    and keys_ascending: "invar m \<Longrightarrow> sorted_wrt (<) (keys m)"
begin

lemma keys_distinct: "invar m \<Longrightarrow> distinct (keys m)"
  using keys_ascending strict_sorted_iff by blast

lemma keys_sorted: "invar m \<Longrightarrow> sorted (keys m)"
  using keys_ascending strict_sorted_iff by blast

text \<open>The first key is the least bound key and the last key the greatest, which is what
  \<open>keys().next()\<close> and \<open>keys().next_back()\<close> return.\<close>

lemma hd_key_least:
  assumes "invar m" "keys m \<noteq> []" "get m k \<noteq> None"
  shows "hd (keys m) \<le> k"
proof -
  have "k \<in> set (keys m)"
    using assms(3) by (auto simp: set_keys)
  then show ?thesis
    using keys_sorted [OF assms(1)] assms(2) by (cases "keys m") auto
qed

lemma last_key_greatest:
  assumes "invar m" "keys m \<noteq> []" "get m k \<noteq> None"
  shows "k \<le> last (keys m)"
proof -
  have "k \<in> set (keys m)"
    using assms(3) by (auto simp: set_keys)
  moreover have "sorted (butlast (keys m) @ [last (keys m)])"
    using keys_sorted [OF assms(1)] assms(2) by simp
  moreover have "set (keys m) = set (butlast (keys m)) \<union> {last (keys m)}"
    using assms(2) by (metis append_butlast_last_id list.set set_append)
  ultimately show ?thesis
    by (auto simp: sorted_append)
qed

lemma keys_insert: "invar m \<Longrightarrow> set (keys (insert k v m)) = {k} \<union> set (keys m)"
  by (auto simp: set_keys get_insert)

lemma keys_remove: "invar m \<Longrightarrow> set (keys (remove k m)) = set (keys m) - {k}"
  by (auto simp: set_keys get_remove)

end

section \<open>Sorted association lists are ordered maps\<close>

lemma bt_invar_Nil [simp]: "bt_invar []"
  by (simp add: bt_invar_def)

lemma bt_get_Nil [simp]: "bt_get [] k = None"
  by (simp add: bt_get_def)

lemma bt_get_map_of: "bt_get m = map_of m"
  by (simp add: fun_eq_iff bt_get_def)

lemma bt_invar_Cons:
  "bt_invar (e # m) \<longleftrightarrow> (\<forall>x\<in>set m. fst e < fst x) \<and> bt_invar m"
  by (auto simp: bt_invar_def)

lemma bt_insert_Nil [simp]: "bt_insert k v [] = [(k, v)]"
  by (simp add: bt_insert_def)

lemma bt_insert_Cons:
  "bt_invar (e # m) \<Longrightarrow> bt_insert k v (e # m) =
     (if fst e < k then e # bt_insert k v m else if fst e = k then (k, v) # m else (k, v) # e # m)"
proof -
  assume "bt_invar (e # m)"
  then have "\<forall>x\<in>set m. fst e < fst x"
    by (simp add: bt_invar_Cons)
  then have "fst e = k \<Longrightarrow> dropWhile (\<lambda>x. fst x \<le> k) m = m"
    by (cases m) auto
  then show ?thesis
    by (auto simp: bt_insert_def)
qed

lemma set_bt_insert: "set (bt_insert k v m) \<subseteq> {(k, v)} \<union> set m"
  by (auto simp: bt_insert_def dest: set_takeWhileD set_dropWhileD)

lemma bt_get_insert: "bt_invar m \<Longrightarrow> bt_get (bt_insert k v m) = (bt_get m)(k \<mapsto> v)"
proof (induction m)
  case Nil
  then show ?case by (auto simp: bt_get_def)
next
  case (Cons e m)
  have "bt_get (bt_insert k v m) = (bt_get m)(k \<mapsto> v)"
    by (rule Cons.IH) (use Cons.prems in \<open>simp add: bt_invar_Cons\<close>)
  with Cons.prems show ?case
    by (cases e) (auto simp: bt_insert_Cons bt_get_def fun_eq_iff)
qed

lemma bt_invar_insert: "bt_invar m \<Longrightarrow> bt_invar (bt_insert k v m)"
proof (induction m)
  case Nil
  then show ?case by (simp add: bt_invar_def)
next
  case (Cons e m)
  then show ?case
    using set_bt_insert [of k v m] by (fastforce simp: bt_insert_Cons bt_invar_Cons)
qed

lemma bt_get_remove: "bt_get (bt_remove k m) = (bt_get m)(k := None)"
  by (induction m) (auto simp: bt_get_def bt_remove_def fun_eq_iff)

lemma bt_invar_remove: "bt_invar m \<Longrightarrow> bt_invar (bt_remove k m)"
  by (induction m) (auto simp: bt_invar_Cons bt_remove_def)

interpretation bt: ordered_map bt_insert bt_remove bt_get bt_keys bt_invar
proof unfold_locales
  show "set (bt_keys m) = dom (bt_get m)" for m :: "('a, 'b) btree_map"
    by (simp add: bt_keys_def bt_get_map_of dom_map_of_conv_image_fst)
  show "bt_invar m \<Longrightarrow> sorted_wrt (<) (bt_keys m)" for m :: "('a, 'b) btree_map"
    by (simp add: bt_invar_def bt_keys_def)
qed (simp_all add: bt_get_insert bt_get_remove bt_invar_insert bt_invar_remove)

lemmas bt_laws = bt.get_insert bt.get_remove bt.invar_insert bt.invar_remove

section \<open>Lemmas on lists\<close>

lemma filter_remove1_distinct:
  "distinct xs \<Longrightarrow> filter (\<lambda>x. x \<noteq> y) xs = remove1 y xs"
  by (induction xs) (auto simp: filter_id_conv)

lemma filter_neq_absent: "y \<notin> set xs \<Longrightarrow> filter (\<lambda>x. x \<noteq> y) xs = xs"
  by (induction xs) auto

lemma map_fun_upd_absent: "y \<notin> set xs \<Longrightarrow> map (f(y := v)) xs = map f xs"
  by (induction xs) auto

lemma sum_list_filter_neq:
  "distinct xs \<Longrightarrow> y \<in> set xs \<Longrightarrow>
     sum_list (map f xs) = f y + sum_list (map f (filter (\<lambda>x. x \<noteq> y) xs))" for f :: "'a \<Rightarrow> nat"
  by (induction xs) (auto simp: filter_neq_absent)

lemma sum_list_map_update:
  "distinct xs \<Longrightarrow> y \<in> set xs \<Longrightarrow>
     sum_list (map (f(y := v)) xs) + f y = sum_list (map f xs) + v" for f :: "'a \<Rightarrow> nat"
proof (induction xs)
  case (Cons x xs)
  show ?case
  proof (cases "x = y")
    case True
    with Cons.prems show ?thesis
      by (simp add: map_fun_upd_absent fun_upd_same del: fun_upd_apply)
  next
    case False
    then have "(f(y := v)) x = f x" by simp
    with Cons False show ?thesis by (simp del: fun_upd_apply)
  qed
qed simp

end
