(* ===== verification/Core_Types.thy ===== *)
theory Core_Types
  imports Prelude
begin

text \<open>
  The shared types of \<open>crates/types/src\<close> (\<open>common.rs\<close>, \<open>engine.rs\<close>, \<open>state.rs\<close>, \<open>tx.rs\<close>):
  permissions, orders, positions, markets, funding rates, assets, fills and events, each with
  its methods.  A constructor \<open>Enum::Variant\<close> of the source is \<open>Enum_Variant\<close> here where
  the plain name is taken, and a struct's fields carry a short prefix.
\<close>

unbundle bit_operations_syntax

section \<open>common.rs\<close>

record TxReceipt =
  rcpt_tx_hash :: B256
  rcpt_block_height :: u64
  rcpt_tx_index :: u64
  rcpt_success :: bool
  rcpt_gas_used :: u64
  rcpt_error :: "string option"

definition is_success :: "TxReceipt \<Rightarrow> bool" where
  "is_success r = rcpt_success r"

definition is_failure :: "TxReceipt \<Rightarrow> bool" where
  "is_failure r = (\<not> rcpt_success r)"

type_synonym Permissions = u64

definition PLACE_ORDER :: u64 where "PLACE_ORDER = 1"
definition CANCEL_ORDER :: u64 where "CANCEL_ORDER = 2"
definition MODIFY_ORDER :: u64 where "MODIFY_ORDER = 4"
definition CLOSE_POSITION :: u64 where "CLOSE_POSITION = 8"
definition WITHDRAW :: u64 where "WITHDRAW = 16"
definition ALL_PERMISSIONS :: u64 where "ALL_PERMISSIONS = 31"

definition perm_has :: "Permissions \<Rightarrow> u64 \<Rightarrow> bool" where
  "perm_has p permission \<longleftrightarrow> p AND permission \<noteq> 0"

definition perm_with :: "Permissions \<Rightarrow> u64 \<Rightarrow> Permissions" where
  "perm_with p permission = p OR permission"

definition perm_without :: "Permissions \<Rightarrow> u64 \<Rightarrow> Permissions" where
  "perm_without p permission = p AND NOT permission"

definition perm_not :: "Permissions \<Rightarrow> Permissions" where
  "perm_not p = NOT p AND ALL_PERMISSIONS"

definition perm_new :: "u64 \<Rightarrow> Permissions" where "perm_new bits = bits"
definition perm_empty :: Permissions where "perm_empty = 0"
definition perm_all :: Permissions where "perm_all = ALL_PERMISSIONS"
definition perm_default :: Permissions where "perm_default = perm_empty"

definition perm_bitor :: "Permissions \<Rightarrow> Permissions \<Rightarrow> Permissions" where
  "perm_bitor p q = p OR q"

definition perm_bitand :: "Permissions \<Rightarrow> Permissions \<Rightarrow> Permissions" where
  "perm_bitand p q = p AND q"

definition can_place_order :: "Permissions \<Rightarrow> bool" where
  "can_place_order p = perm_has p PLACE_ORDER"

definition can_cancel_order :: "Permissions \<Rightarrow> bool" where
  "can_cancel_order p = perm_has p CANCEL_ORDER"

definition can_modify_order :: "Permissions \<Rightarrow> bool" where
  "can_modify_order p = perm_has p MODIFY_ORDER"

definition can_close_position :: "Permissions \<Rightarrow> bool" where
  "can_close_position p = perm_has p CLOSE_POSITION"

definition can_withdraw :: "Permissions \<Rightarrow> bool" where
  "can_withdraw p = perm_has p WITHDRAW"

section \<open>tx.rs\<close>

datatype OrderType =
    OrderType_Market
  | OrderType_Limit
  | OrderType_StopMarket
  | OrderType_StopLimit
  | OrderType_TakeProfitMarket
  | OrderType_TakeProfitLimit

fun is_market :: "OrderType \<Rightarrow> bool" where
  "is_market OrderType_Market = True"
| "is_market OrderType_StopMarket = True"
| "is_market OrderType_TakeProfitMarket = True"
| "is_market _ = False"

fun is_limit :: "OrderType \<Rightarrow> bool" where
  "is_limit OrderType_Limit = True"
| "is_limit OrderType_StopLimit = True"
| "is_limit OrderType_TakeProfitLimit = True"
| "is_limit _ = False"

fun has_trigger :: "OrderType \<Rightarrow> bool" where
  "has_trigger OrderType_StopMarket = True"
| "has_trigger OrderType_StopLimit = True"
| "has_trigger OrderType_TakeProfitMarket = True"
| "has_trigger OrderType_TakeProfitLimit = True"
| "has_trigger _ = False"

datatype TimeInForce = GTC | IOC | FOK | PostOnly

fun requires_immediate_execution :: "TimeInForce \<Rightarrow> bool" where
  "requires_immediate_execution IOC = True"
| "requires_immediate_execution FOK = True"
| "requires_immediate_execution _ = False"

section \<open>state.rs\<close>

record Position =
  pos_size :: u64
  pos_entry_price :: u64
  pos_is_long :: bool
  pos_margin :: u128
  pos_funding_index :: u128

definition position_is_empty :: "Position \<Rightarrow> bool" where
  "position_is_empty p \<longleftrightarrow> pos_size p = 0"

definition position_notional_value :: "Position \<Rightarrow> u128" where
  "position_notional_value p = ucast (pos_size p) * ucast (pos_entry_price p)"

definition position_leverage :: "Position \<Rightarrow> u64" where
  "position_leverage p =
     (if pos_margin p = 0 then 0 else ucast (position_notional_value p div pos_margin p))"

datatype OrderStatus = Active | Filled | Cancelled

fun is_terminal :: "OrderStatus \<Rightarrow> bool" where
  "is_terminal Filled = True"
| "is_terminal Cancelled = True"
| "is_terminal Active = False"

fun can_match :: "OrderStatus \<Rightarrow> bool" where
  "can_match Active = True"
| "can_match _ = False"

record Order =
  ord_id :: u64
  ord_market_id :: u32
  ord_owner :: Address
  ord_is_buy :: bool
  ord_price :: u64
  ord_original_size :: u64
  ord_remaining_size :: u64
  ord_status :: OrderStatus
  ord_created_at :: u64
  ord_reduce_only :: bool
  ord_post_only :: bool

definition filled_size :: "Order \<Rightarrow> u64" where
  "filled_size ord = saturating_sub (ord_original_size ord) (ord_remaining_size ord)"

definition is_fully_filled :: "Order \<Rightarrow> bool" where
  "is_fully_filled ord \<longleftrightarrow> ord_remaining_size ord = 0"

definition fill_percentage :: "Order \<Rightarrow> u64" where
  "fill_percentage ord =
     (if ord_original_size ord = 0 then 0
      else ucast ((ucast (filled_size ord) * 100 :: u128) div ucast (ord_original_size ord)))"

record Market =
  mkt_id :: u32
  mkt_symbol :: string
  mkt_base_asset_id :: u32
  mkt_quote_asset_id :: u32
  mkt_tick_size :: u64
  mkt_price_decimals :: u8
  mkt_size_decimals :: u8
  mkt_min_order_size :: u64
  mkt_max_order_size :: u64
  mkt_max_leverage :: u32
  mkt_maintenance_margin_bps :: u32
  mkt_initial_margin_bps :: u32
  mkt_liquidation_fee_bps :: u32
  mkt_funding_interval :: u64
  mkt_max_funding_rate_bps :: u32

definition normalize_price :: "Market \<Rightarrow> u64 \<Rightarrow> u64" where
  "normalize_price m price =
     (if mkt_tick_size m = 0 then price
      else ((price + mkt_tick_size m div 2) div mkt_tick_size m) * mkt_tick_size m)"

definition validate_price :: "Market \<Rightarrow> u64 \<Rightarrow> bool" where
  "validate_price m price = (if mkt_tick_size m = 0 then True else price mod mkt_tick_size m = 0)"

definition price_to_tick :: "Market \<Rightarrow> u64 \<Rightarrow> u64" where
  "price_to_tick m price = (if mkt_tick_size m = 0 then price else price div mkt_tick_size m)"

definition tick_to_price :: "Market \<Rightarrow> u64 \<Rightarrow> u64" where
  "tick_to_price m tick = tick * mkt_tick_size m"

definition validate_size :: "Market \<Rightarrow> u64 \<Rightarrow> bool" where
  "validate_size m sz \<longleftrightarrow> mkt_min_order_size m \<le> sz \<and> sz \<le> mkt_max_order_size m"

definition calculate_margin :: "Market \<Rightarrow> u64 \<Rightarrow> u64 \<Rightarrow> u32 \<Rightarrow> u128" where
  "calculate_margin m sz price leverage =
     (if leverage = 0 then 0 else (ucast sz * ucast price) div ucast leverage)"

record FundingRate =
  fr_rate :: i64
  fr_last_update :: u64
  fr_index :: i128
  fr_mark_price :: u64
  fr_oracle_price :: u64

definition default_funding_rate :: FundingRate where
  "default_funding_rate =
     \<lparr>fr_rate = 0, fr_last_update = 0, fr_index = 0, fr_mark_price = 0, fr_oracle_price = 0\<rparr>"

definition funding_is_positive :: "FundingRate \<Rightarrow> bool" where
  "funding_is_positive f \<longleftrightarrow> 0 < sint (fr_rate f)"

definition funding_is_negative :: "FundingRate \<Rightarrow> bool" where
  "funding_is_negative f \<longleftrightarrow> sint (fr_rate f) < 0"

definition premium :: "FundingRate \<Rightarrow> i128" where
  "premium f = ucast (fr_mark_price f) - ucast (fr_oracle_price f)"

record Asset =
  asset_id :: u32
  asset_symbol :: string
  asset_name :: string
  asset_decimals :: u8
  asset_is_collateral :: bool
  asset_collateral_weight_bps :: u32

text \<open>\<open>10u128.pow\<close> wraps around; \<open>None\<close> is the panic of a division by zero.\<close>

definition display_amount :: "Asset \<Rightarrow> u128 \<Rightarrow> u128 option" where
  "display_amount a raw =
     (let scale = 10 ^ unat (asset_decimals a) in if scale = 0 then None else Some (raw div scale))"

definition collateral_value :: "Asset \<Rightarrow> u128 \<Rightarrow> u128" where
  "collateral_value a amount =
     (if \<not> asset_is_collateral a then 0
      else amount * ucast (asset_collateral_weight_bps a) div 10000)"

section \<open>engine.rs\<close>

record Fill =
  fill_maker :: Address
  fill_taker :: Address
  fill_market_id :: u32
  fill_price :: u64
  fill_size :: u64
  fill_taker_is_buy :: bool
  fill_maker_order_id :: u64
  fill_taker_order_id :: u64

definition fill_notional_value :: "Fill \<Rightarrow> u128" where
  "fill_notional_value f = ucast (fill_price f) * ucast (fill_size f)"

definition maker_is_buy :: "Fill \<Rightarrow> bool" where
  "maker_is_buy f = (\<not> fill_taker_is_buy f)"

datatype BalanceChangeReason =
    BalanceChangeReason_Deposit
  | BalanceChangeReason_Withdraw
  | BalanceChangeReason_Transfer
  | BalanceChangeReason_TradeFee
  | BalanceChangeReason_FundingPayment
  | BalanceChangeReason_FundingReceipt
  | BalanceChangeReason_Liquidation
  | BalanceChangeReason_PnLSettlement
  | BalanceChangeReason_BridgeDeposit
  | BalanceChangeReason_BridgeWithdraw

definition balance_reason_is_inflow :: "BalanceChangeReason \<Rightarrow> bool" where
  "balance_reason_is_inflow r \<longleftrightarrow>
     r \<in> {BalanceChangeReason_Deposit, BalanceChangeReason_FundingReceipt,
          BalanceChangeReason_BridgeDeposit}"

definition balance_reason_is_outflow :: "BalanceChangeReason \<Rightarrow> bool" where
  "balance_reason_is_outflow r \<longleftrightarrow>
     r \<in> {BalanceChangeReason_Withdraw, BalanceChangeReason_TradeFee,
          BalanceChangeReason_FundingPayment, BalanceChangeReason_BridgeWithdraw}"

definition balance_reason_is_trade_related :: "BalanceChangeReason \<Rightarrow> bool" where
  "balance_reason_is_trade_related r \<longleftrightarrow> r \<in> {BalanceChangeReason_TradeFee, BalanceChangeReason_PnLSettlement}"

definition balance_reason_is_funding_related :: "BalanceChangeReason \<Rightarrow> bool" where
  "balance_reason_is_funding_related r \<longleftrightarrow>
     r \<in> {BalanceChangeReason_FundingPayment, BalanceChangeReason_FundingReceipt}"

definition balance_reason_is_bridge_related :: "BalanceChangeReason \<Rightarrow> bool" where
  "balance_reason_is_bridge_related r \<longleftrightarrow>
     r \<in> {BalanceChangeReason_BridgeDeposit, BalanceChangeReason_BridgeWithdraw}"

datatype InsuranceFundChangeReason =
    InsuranceFundChangeReason_LiquidationFee
  | InsuranceFundChangeReason_LiquidationCoverage
  | InsuranceFundChangeReason_AdminDeposit
  | InsuranceFundChangeReason_AdminWithdraw

definition insurance_reason_is_inflow :: "InsuranceFundChangeReason \<Rightarrow> bool" where
  "insurance_reason_is_inflow r \<longleftrightarrow>
     r \<in> {InsuranceFundChangeReason_LiquidationFee, InsuranceFundChangeReason_AdminDeposit}"

definition insurance_reason_is_outflow :: "InsuranceFundChangeReason \<Rightarrow> bool" where
  "insurance_reason_is_outflow r \<longleftrightarrow>
     r \<in> {InsuranceFundChangeReason_LiquidationCoverage, InsuranceFundChangeReason_AdminWithdraw}"

definition insurance_reason_is_liquidation_related :: "InsuranceFundChangeReason \<Rightarrow> bool" where
  "insurance_reason_is_liquidation_related r \<longleftrightarrow>
     r \<in> {InsuranceFundChangeReason_LiquidationFee, InsuranceFundChangeReason_LiquidationCoverage}"

definition insurance_reason_is_admin_action :: "InsuranceFundChangeReason \<Rightarrow> bool" where
  "insurance_reason_is_admin_action r \<longleftrightarrow>
     r \<in> {InsuranceFundChangeReason_AdminDeposit, InsuranceFundChangeReason_AdminWithdraw}"

text \<open>The variants of \<open>Event\<close>, with their fields in the order of the source.\<close>

datatype Event =
    Event_BalanceChanged Address u32 u128 u128 BalanceChangeReason
  | Event_Transfer Address Address u32 u128
  | Event_NonceUpdated Address u64 u64
  | Event_OrderPlaced u64 Address u32 bool u64 u64 OrderType
  | Event_OrderCancelled u64 Address u32 u64
  | Event_OrderFilled u64 u64 Address Address u32 u64 u64 bool u128 u128
  | Event_PositionOpened Address u32 bool u64 u64 u128
  | Event_PositionClosed Address u32 u64 u64 i128 bool
  | Event_PositionModified Address u32 u128 u128
  | Event_PositionLiquidated Address u32 "Address option" u64 u64 u128 u128 u128
  | Event_FundingPaid Address u32 i128 bool i64 i128
  | Event_FundingRateUpdated u32 i64 u64 u64 i128
  | Event_BridgeDeposit Address Address u32 u128 B256
  | Event_BridgeWithdraw Address Address u32 u128 Address B256
  | Event_AgentSet Address Address u64
  | Event_AgentRemoved Address Address
  | Event_MarketUpdated u32 string
  | Event_InsuranceFundUpdated u32 u128 u128 InsuranceFundChangeReason

fun is_account_event :: "Event \<Rightarrow> bool" where
  "is_account_event (Event_BalanceChanged _ _ _ _ _) = True"
| "is_account_event (Event_Transfer _ _ _ _) = True"
| "is_account_event (Event_NonceUpdated _ _ _) = True"
| "is_account_event _ = False"

fun is_order_event :: "Event \<Rightarrow> bool" where
  "is_order_event (Event_OrderPlaced _ _ _ _ _ _ _) = True"
| "is_order_event (Event_OrderCancelled _ _ _ _) = True"
| "is_order_event (Event_OrderFilled _ _ _ _ _ _ _ _ _ _) = True"
| "is_order_event _ = False"

fun is_position_event :: "Event \<Rightarrow> bool" where
  "is_position_event (Event_PositionOpened _ _ _ _ _ _) = True"
| "is_position_event (Event_PositionClosed _ _ _ _ _ _) = True"
| "is_position_event (Event_PositionModified _ _ _ _) = True"
| "is_position_event (Event_PositionLiquidated _ _ _ _ _ _ _ _) = True"
| "is_position_event _ = False"

fun is_funding_event :: "Event \<Rightarrow> bool" where
  "is_funding_event (Event_FundingPaid _ _ _ _ _ _) = True"
| "is_funding_event (Event_FundingRateUpdated _ _ _ _ _) = True"
| "is_funding_event _ = False"

fun is_bridge_event :: "Event \<Rightarrow> bool" where
  "is_bridge_event (Event_BridgeDeposit _ _ _ _ _) = True"
| "is_bridge_event (Event_BridgeWithdraw _ _ _ _ _ _) = True"
| "is_bridge_event _ = False"

fun is_agent_event :: "Event \<Rightarrow> bool" where
  "is_agent_event (Event_AgentSet _ _ _) = True"
| "is_agent_event (Event_AgentRemoved _ _) = True"
| "is_agent_event _ = False"

record DomainEvent =
  dev_block_height :: u64
  dev_tx_hash :: B256
  dev_event_index :: u32
  dev_timestamp :: u64
  dev_event :: Event

definition new_domain_event :: "u64 \<Rightarrow> B256 \<Rightarrow> u32 \<Rightarrow> u64 \<Rightarrow> Event \<Rightarrow> DomainEvent" where
  "new_domain_event height tx_hash idx timestamp event =
     \<lparr>dev_block_height = height, dev_tx_hash = tx_hash, dev_event_index = idx,
      dev_timestamp = timestamp, dev_event = event\<rparr>"

section \<open>Properties\<close>

subsection \<open>Permissions\<close>

text \<open>Adding and removing a permission are inverse on that permission and leave every
  disjoint permission alone.\<close>

lemma perm_has_with: "perm_has (perm_with p q) r \<longleftrightarrow> perm_has p r \<or> perm_has q r"
  by (auto simp: perm_has_def perm_with_def bit_eq_iff bit_simps)

lemma perm_has_without: "perm_has (perm_without p q) r \<longleftrightarrow> perm_has p (r AND NOT q)"
  by (simp add: perm_has_def perm_without_def and.assoc and.commute and.left_commute)

lemma perm_without_self: "\<not> perm_has (perm_without p q) q"
  by (auto simp: perm_has_def perm_without_def bit_eq_iff bit_simps)

lemma perm_not_not: "p AND ALL_PERMISSIONS = p \<Longrightarrow> perm_not (perm_not p) = p"
  by (auto simp: perm_not_def bit_eq_iff bit_simps)

subsection \<open>Classifications\<close>

lemma order_type_partition: "is_market t = (\<not> is_limit t)"
  by (cases t) simp_all

lemma terminal_iff_not_matchable: "is_terminal s = (\<not> can_match s)"
  by (cases s) simp_all

text \<open>No event belongs to two of the six classes.\<close>

lemma event_classes_disjoint:
  "length (filter (\<lambda>c. c e) [is_account_event, is_order_event, is_position_event,
      is_funding_event, is_bridge_event, is_agent_event]) \<le> 1"
  by (cases e) simp_all

lemma balance_reasons_disjoint: "\<not> (balance_reason_is_inflow r \<and> balance_reason_is_outflow r)"
  by (auto simp: balance_reason_is_inflow_def balance_reason_is_outflow_def)

text \<open>Every reason for a change of an insurance fund is in one of the two groups and in one of the two directions.\<close>

lemma insurance_reasons_partition:
  "insurance_reason_is_admin_action r = (\<not> insurance_reason_is_liquidation_related r)"
  "insurance_reason_is_outflow r = (\<not> insurance_reason_is_inflow r)"
  by (cases r; simp add: insurance_reason_is_admin_action_def insurance_reason_is_liquidation_related_def
      insurance_reason_is_outflow_def insurance_reason_is_inflow_def)+

subsection \<open>Assets\<close>

text \<open>The scale fits for up to 38 decimals; from 128 on it is a multiple of the word size and the
  division panics.\<close>

lemma display_amount_exact:
  assumes "unat (asset_decimals a) \<le> 38"
  shows "map_option unat (display_amount a raw) = Some (unat raw div 10 ^ unat (asset_decimals a))"
proof -
  have "(10::nat) ^ unat (asset_decimals a) \<le> 10 ^ 38" using assms by (intro power_increasing) simp_all
  then have "(10::nat) ^ unat (asset_decimals a) < 2 ^ 128" by (rule le_less_trans) simp
  then have scale: "unat (10 ^ unat (asset_decimals a) :: u128) = 10 ^ unat (asset_decimals a)"
    by (intro of_nat_inverse) simp_all
  then have "(10 ^ unat (asset_decimals a) :: u128) \<noteq> 0"
    by (metis power_eq_0_iff unsigned_0 zero_neq_numeral)
  with scale show ?thesis by (simp add: display_amount_def Let_def unat_div)
qed

lemma display_amount_panics: "128 \<le> unat (asset_decimals a) \<Longrightarrow> display_amount a raw = None"
proof -
  assume "128 \<le> unat (asset_decimals a)"
  then obtain n where n: "unat (asset_decimals a) = 128 + n" using le_Suc_ex by blast
  have "(10 ^ (128 + n) :: u128) = 10 ^ 128 * 10 ^ n" by (simp add: power_add)
  also have "(10 ^ 128 :: u128) = 0" by simp
  finally show "display_amount a raw = None" by (simp add: display_amount_def n)
qed

subsection \<open>Orders\<close>

lemma filled_plus_remaining:
  "ord_remaining_size x \<le> ord_original_size x \<Longrightarrow>
     unat (filled_size x) + unat (ord_remaining_size x) = unat (ord_original_size x)"
  by (simp add: filled_size_def word_nat word_le_nat_alt)

subsection \<open>Prices and ticks\<close>

lemma unat_half_tick: "unat (t div 2) = unat t div 2" for t :: u64
  by (simp add: unat_div)

lemma normalize_price_unat:
  assumes "mkt_tick_size m \<noteq> 0" and "unat p + unat (mkt_tick_size m) div 2 < 2 ^ 64"
  shows "unat (normalize_price m p) =
    (unat p + unat (mkt_tick_size m) div 2) div unat (mkt_tick_size m) * unat (mkt_tick_size m)"
proof -
  let ?t = "mkt_tick_size m"
  have sum: "unat (p + ?t div 2) = unat p + unat ?t div 2"
    using assms(2) by (subst unat_add_lem [THEN iffD1]) (simp_all add: unat_half_tick)
  have "unat ((p + ?t div 2) div ?t) * unat ?t \<le> unat p + unat ?t div 2"
    by (simp add: unat_div sum)
  then have "unat ((p + ?t div 2) div ?t) * unat ?t < 2 ^ LENGTH(64)"
    using assms(2) by simp
  then have "unat ((p + ?t div 2) div ?t * ?t) = unat ((p + ?t div 2) div ?t) * unat ?t"
    by (simp only: unat_mult_lem)
  with assms(1) show ?thesis
    by (simp add: normalize_price_def unat_div sum)
qed

lemma validate_price_unat:
  "validate_price m p \<longleftrightarrow> mkt_tick_size m = 0 \<or> unat (mkt_tick_size m) dvd unat p"
  by (auto simp: validate_price_def word_unat_eq_iff unat_mod mod_eq_0_iff_dvd)

end
