(* ===== verification/Storage.thy ===== *)
theory Storage
  imports Core_Types "HOL-Library.Sublist"
begin

text \<open>
  \<open>crates/state/src/rocksdb_storage.rs\<close> and \<open>storage_key.rs\<close>: the versioned store behind
  \<open>StateManager\<close>.  Writes are buffered in \<open>pending_updates\<close> and reach the database on
  \<open>commit\<close>; reads look at the buffer first, then at the newest version of the key.

  The database is a map from \<open>StorageKey\<close> to what is stored under it.  Its type is open in
  the key hashes \<open>'h\<close> and the stored bytes \<open>'b\<close>.  Code outside the repository enters as
  arguments: \<open>codec\<close> bundles SHA-256 over the serialised key and serde's encoder and decoder,
  \<open>Jmt\<close> the Jellyfish Merkle tree, and \<open>db_iter\<close> the order in which a RocksDB iterator
  enumerates the keys.  The Merkle nodes in the database are a function of the value sets
  written so far, so the model keeps those (\<open>jmt_log\<close>).  Every RocksDB call succeeds in the
  model; what can fail is the decoder and the Merkle tree.
\<close>

section \<open>Model\<close>

datatype StateError =
    SerializationError string
  | DeserializationError string
  | KeyNotFound
  | StorageError string
  | InvalidVersion
  | StateError_Other string

record PruningConfig =
  snapshot_interval :: u64
  prune_before :: u64
  pruning_enabled :: bool

definition default_pruning_config :: PruningConfig where
  "default_pruning_config =
     \<lparr>snapshot_interval = 1000, prune_before = 100000, pruning_enabled = True\<rparr>"

text \<open>\<open>JmtNode\<close> and \<open>RightmostLeaf\<close> keys belong to the Merkle tree; see \<open>jmt_log\<close>.\<close>

datatype 'h StorageKey =
    CurrentVersion
  | JmtValue 'h u64
  | LatestVersion 'h
  | Snapshot u64

datatype 'b db_value = DbBytes 'b | DbVersion u64 | DbRoot B256

record ('h, 'b) RocksDbStorage =
  db :: "'h StorageKey \<rightharpoonup> 'b db_value"
  jmt_log :: "(u64 \<times> ('h \<rightharpoonup> 'b)) list"
  current_version :: u64
  root_cache :: "u64 \<rightharpoonup> B256"
  pruning_config :: PruningConfig
  pending_updates :: "'h \<rightharpoonup> 'b"

record ('h, 'b) Jmt =
  put_value_set :: "(u64 \<times> ('h \<rightharpoonup> 'b)) list \<Rightarrow> ('h \<rightharpoonup> 'b) \<Rightarrow> u64 \<Rightarrow> string option"
  get_root_hash :: "(u64 \<times> ('h \<rightharpoonup> 'b)) list \<Rightarrow> u64 \<Rightarrow> string + B256"

record ('k, 'v, 'h, 'b) codec =
  key_hash :: "'k \<Rightarrow> 'h"
  to_vec :: "'v \<Rightarrow> 'b"
  from_slice :: "'b \<Rightarrow> string + 'v"

subsection \<open>Opening a database\<close>

definition open_storage ::
  "('h StorageKey \<rightharpoonup> 'b db_value) \<Rightarrow> (u64 \<times> ('h \<rightharpoonup> 'b)) list \<Rightarrow> PruningConfig \<Rightarrow>
     ('h, 'b) RocksDbStorage" where
  "open_storage disk nodes config =
     \<lparr>db = disk, jmt_log = nodes,
      current_version = (case disk CurrentVersion of Some (DbVersion v) \<Rightarrow> v | _ \<Rightarrow> 0),
      root_cache = Map.empty, pruning_config = config, pending_updates = Map.empty\<rparr>"

subsection \<open>Reading\<close>

definition get_latest_version :: "('h, 'b) RocksDbStorage \<Rightarrow> 'h \<Rightarrow> u64 option" where
  "get_latest_version s h = (case db s (LatestVersion h) of Some (DbVersion v) \<Rightarrow> Some v | _ \<Rightarrow> None)"

definition db_get_value :: "('h, 'b) RocksDbStorage \<Rightarrow> 'h \<Rightarrow> u64 \<Rightarrow> 'b option" where
  "db_get_value s h v = (case db s (JmtValue h v) of Some (DbBytes b) \<Rightarrow> Some b | _ \<Rightarrow> None)"

text \<open>\<open>for v in (0..=max_version).rev()\<close>, returning the first value found.\<close>

fun scan_back :: "(nat \<Rightarrow> 'b option) \<Rightarrow> nat \<Rightarrow> 'b option" where
  "scan_back f 0 = f 0"
| "scan_back f (Suc n) = (case f (Suc n) of Some b \<Rightarrow> Some b | None \<Rightarrow> scan_back f n)"

definition slow_scan :: "('h, 'b) RocksDbStorage \<Rightarrow> u64 \<Rightarrow> 'h \<Rightarrow> 'b option" where
  "slow_scan s max_version h = scan_back (\<lambda>n. db_get_value s h (of_nat n)) (unat max_version)"

definition get_value_option :: "('h, 'b) RocksDbStorage \<Rightarrow> u64 \<Rightarrow> 'h \<Rightarrow> 'b option" where
  "get_value_option s max_version h =
     (case get_latest_version s h of
        Some latest \<Rightarrow>
          if latest \<le> max_version then db_get_value s h latest else slow_scan s max_version h
      | None \<Rightarrow> slow_scan s max_version h)"

definition raw_get :: "('h, 'b) RocksDbStorage \<Rightarrow> 'h \<Rightarrow> u64 \<Rightarrow> 'b option" where
  "raw_get s h version =
     (case pending_updates s h of Some b \<Rightarrow> Some b | None \<Rightarrow> get_value_option s version h)"

definition storage_get ::
  "('k, 'v, 'h, 'b) codec \<Rightarrow> ('h, 'b) RocksDbStorage \<Rightarrow> 'k \<Rightarrow> u64 \<Rightarrow> StateError + 'v option" where
  "storage_get cd s key version =
     (case raw_get s (key_hash cd key) version of
        Some bytes \<Rightarrow>
          (case from_slice cd bytes of Inl e \<Rightarrow> Inl (SerializationError e) | Inr v \<Rightarrow> Inr (Some v))
      | None \<Rightarrow> Inr None)"

subsection \<open>Buffered writes\<close>

definition raw_set :: "('h, 'b) RocksDbStorage \<Rightarrow> 'h \<Rightarrow> 'b \<Rightarrow> ('h, 'b) RocksDbStorage" where
  "raw_set s h b = s\<lparr>pending_updates := (pending_updates s)(h \<mapsto> b)\<rparr>"

definition raw_delete :: "('h, 'b) RocksDbStorage \<Rightarrow> 'h \<Rightarrow> ('h, 'b) RocksDbStorage" where
  "raw_delete s h = s\<lparr>pending_updates := (pending_updates s)(h := None)\<rparr>"

definition storage_set ::
  "('k, 'v, 'h, 'b) codec \<Rightarrow> ('h, 'b) RocksDbStorage \<Rightarrow> 'k \<Rightarrow> 'v \<Rightarrow> ('h, 'b) RocksDbStorage" where
  "storage_set cd s key v = raw_set s (key_hash cd key) (to_vec cd v)"

definition storage_delete ::
  "('k, 'v, 'h, 'b) codec \<Rightarrow> ('h, 'b) RocksDbStorage \<Rightarrow> 'k \<Rightarrow> ('h, 'b) RocksDbStorage" where
  "storage_delete cd s key = raw_delete s (key_hash cd key)"

subsection \<open>Snapshots and pruning\<close>

definition get_root :: "('h, 'b) RocksDbStorage \<Rightarrow> u64 \<Rightarrow> B256" where
  "get_root s version = (case root_cache s version of Some r \<Rightarrow> r | None \<Rightarrow> 0)"

definition create_snapshot :: "('h, 'b) RocksDbStorage \<Rightarrow> u64 \<Rightarrow> ('h, 'b) RocksDbStorage" where
  "create_snapshot s version =
     s\<lparr>db := (db s)(Snapshot version \<mapsto> DbRoot (get_root s version))\<rparr>"

definition batch_delete ::
  "('h, 'b) RocksDbStorage \<Rightarrow> 'h StorageKey list \<Rightarrow> ('h, 'b) RocksDbStorage" where
  "batch_delete s keys = s\<lparr>db := (\<lambda>k. if k \<in> set keys then None else db s k)\<rparr>"

definition should_delete :: "u64 \<Rightarrow> u64 set \<Rightarrow> 'h StorageKey \<Rightarrow> bool" where
  "should_delete before keep key =
     (case key of JmtValue _ version \<Rightarrow> version < before \<and> version \<notin> keep | _ \<Rightarrow> False)"

text \<open>The loop over the database iterator; \<open>acc\<close> is \<open>keys_to_delete\<close>.\<close>

fun collect_loop ::
  "u64 \<Rightarrow> u64 set \<Rightarrow> 'h StorageKey list \<Rightarrow> 'h StorageKey list \<Rightarrow> nat \<Rightarrow> ('h, 'b) RocksDbStorage \<Rightarrow>
     nat \<times> ('h, 'b) RocksDbStorage" where
  "collect_loop before keep [] acc n s =
     (n, if acc \<noteq> [] then batch_delete s acc else s)"
| "collect_loop before keep (key # keys) acc n s =
     (if should_delete before keep key then
        (let acc' = acc @ [key] in
         if length acc' \<ge> 10000 then collect_loop before keep keys [] (Suc n) (batch_delete s acc')
         else collect_loop before keep keys acc' (Suc n) s)
      else collect_loop before keep keys acc n s)"

definition collect_and_delete_old_versions ::
  "(('h StorageKey \<rightharpoonup> 'b db_value) \<Rightarrow> 'h StorageKey list) \<Rightarrow> ('h, 'b) RocksDbStorage \<Rightarrow> u64 \<Rightarrow>
     u64 set \<Rightarrow> nat \<times> ('h, 'b) RocksDbStorage" where
  "collect_and_delete_old_versions db_iter s before keep =
     collect_loop before keep (db_iter (db s)) [] 0 s"

definition snapshots_to_keep :: "PruningConfig \<Rightarrow> u64 \<Rightarrow> u64 set" where
  "snapshots_to_keep config before = {v. v \<le> before \<and> v mod snapshot_interval config = 0}"

definition prune_before_version ::
  "(('h StorageKey \<rightharpoonup> 'b db_value) \<Rightarrow> 'h StorageKey list) \<Rightarrow> ('h, 'b) RocksDbStorage \<Rightarrow> u64 \<Rightarrow>
     ('h, 'b) RocksDbStorage" where
  "prune_before_version db_iter s before =
     snd (collect_and_delete_old_versions db_iter s before
            (snapshots_to_keep (pruning_config s) before))"

definition list_snapshots ::
  "(('h StorageKey \<rightharpoonup> 'b db_value) \<Rightarrow> 'h StorageKey list) \<Rightarrow> ('h, 'b) RocksDbStorage \<Rightarrow> u64 list" where
  "list_snapshots db_iter s =
     sort (List.map_filter (\<lambda>k. case k of Snapshot v \<Rightarrow> Some v | _ \<Rightarrow> None) (db_iter (db s)))"

definition restore_from_snapshot ::
  "('h, 'b) RocksDbStorage \<Rightarrow> u64 \<Rightarrow> (StateError + unit) \<times> ('h, 'b) RocksDbStorage" where
  "restore_from_snapshot s version =
     (case db s (Snapshot version) of
        None \<Rightarrow> (Inl (StorageError ''Snapshot not found at version ''), s)
      | Some _ \<Rightarrow>
          (Inr (), s\<lparr>current_version := version,
                     db := (db s)(CurrentVersion \<mapsto> DbVersion version)\<rparr>))"

subsection \<open>Commit\<close>

definition calculate_state_root ::
  "('h, 'b) Jmt \<Rightarrow> ('h, 'b) RocksDbStorage \<Rightarrow> u64 \<Rightarrow> StateError + B256" where
  "calculate_state_root jmt s version =
     (case get_root_hash jmt (jmt_log s) version of
        Inr root \<Rightarrow> Inr root
      | Inl e \<Rightarrow>
          if sublist ''Root node not found'' e then Inr 0
          else Inl (StorageError (''JMT get_root_hash failed: '' @ e)))"

text \<open>The two loops over \<open>pending\<close>: the values at this version, then the version index.\<close>

definition store_values ::
  "('h \<rightharpoonup> 'b) \<Rightarrow> u64 \<Rightarrow> ('h, 'b) RocksDbStorage \<Rightarrow> ('h, 'b) RocksDbStorage" where
  "store_values pending version s =
     s\<lparr>db := (\<lambda>k. case k of
          JmtValue h v \<Rightarrow>
            if v = version \<and> pending h \<noteq> None then map_option DbBytes (pending h) else db s k
        | _ \<Rightarrow> db s k)\<rparr>"

definition store_latest_versions ::
  "('h \<rightharpoonup> 'b) \<Rightarrow> u64 \<Rightarrow> ('h, 'b) RocksDbStorage \<Rightarrow> ('h, 'b) RocksDbStorage" where
  "store_latest_versions pending version s =
     s\<lparr>db := (\<lambda>k. case k of
          LatestVersion h \<Rightarrow> if pending h \<noteq> None then Some (DbVersion version) else db s k
        | _ \<Rightarrow> db s k)\<rparr>"

definition write_pending ::
  "('h, 'b) Jmt \<Rightarrow> ('h \<rightharpoonup> 'b) \<Rightarrow> u64 \<Rightarrow> ('h, 'b) RocksDbStorage \<Rightarrow>
     (StateError + unit) \<times> ('h, 'b) RocksDbStorage" where
  "write_pending jmt pending version s =
     (if pending = Map.empty then (Inr (), s)
      else case put_value_set jmt (jmt_log s) pending version of
          Some e \<Rightarrow> (Inl (StorageError (''JMT put_value_set failed: '' @ e)), s)
        | None \<Rightarrow>
            (Inr (), store_latest_versions pending version
                       (store_values pending version
                          (s\<lparr>jmt_log := jmt_log s @ [(version, pending)]\<rparr>))))"

definition finish_commit ::
  "(('h StorageKey \<rightharpoonup> 'b db_value) \<Rightarrow> 'h StorageKey list) \<Rightarrow> u64 \<Rightarrow> B256 \<Rightarrow>
     ('h, 'b) RocksDbStorage \<Rightarrow> ('h, 'b) RocksDbStorage" where
  "finish_commit db_iter version root s =
     (let s1 = s\<lparr>root_cache := (root_cache s)(version \<mapsto> root), current_version := version,
                 db := (db s)(CurrentVersion \<mapsto> DbVersion version)\<rparr>;
          cfg = pruning_config s in
      if pruning_enabled cfg then
        (let s2 = (if version mod snapshot_interval cfg = 0 then create_snapshot s1 version else s1)
         in if version > prune_before cfg then
              prune_before_version db_iter s2 (version - prune_before cfg)
            else s2)
      else s1)"

definition commit ::
  "('h, 'b) Jmt \<Rightarrow> (('h StorageKey \<rightharpoonup> 'b db_value) \<Rightarrow> 'h StorageKey list) \<Rightarrow>
     ('h, 'b) RocksDbStorage \<Rightarrow> u64 \<Rightarrow> (StateError + B256) \<times> ('h, 'b) RocksDbStorage" where
  "commit jmt db_iter s version =
     (let pending = pending_updates s;
          s0 = s\<lparr>pending_updates := Map.empty\<rparr> in
      bindR (write_pending jmt pending version s0) (\<lambda>_ s1.
      bindR (calculate_state_root jmt s1 version, s1) (\<lambda>root s2.
        (Inr root, finish_commit db_iter version root s2))))"

section \<open>Reads and buffered writes\<close>

lemma db_get_value_cong: "db s = db t \<Longrightarrow> db_get_value s = db_get_value t"
  by (simp add: fun_eq_iff db_get_value_def)

lemma get_latest_version_cong: "db s = db t \<Longrightarrow> get_latest_version s = get_latest_version t"
  by (simp add: fun_eq_iff get_latest_version_def)

lemma get_value_option_cong: "db s = db t \<Longrightarrow> get_value_option s = get_value_option t"
  using db_get_value_cong [of s t] get_latest_version_cong [of s t]
  by (simp add: fun_eq_iff get_value_option_def slow_scan_def split: option.splits)

lemma get_value_option_pending [simp]:
  "get_value_option (s\<lparr>pending_updates := p\<rparr>) = get_value_option s"
  by (rule get_value_option_cong) simp

lemma get_value_option_buffered:
  "get_value_option (raw_set s h b) = get_value_option s"
  "get_value_option (raw_delete s h) = get_value_option s"
  by (simp_all add: raw_set_def raw_delete_def)

lemma raw_get_set: "raw_get (raw_set s h b) h' v = (if h' = h then Some b else raw_get s h' v)"
  by (simp add: raw_get_def raw_set_def split: option.splits)

lemma raw_get_delete:
  "raw_get (raw_delete s h) h' v = (if h' = h then get_value_option s v h else raw_get s h' v)"
  by (simp add: raw_get_def raw_delete_def split: option.splits)

section \<open>The version index\<close>

text \<open>
  \<open>latest_ok n s\<close>: the index \<open>LatestVersion\<close> bounds the stored versions of every key, and no
  indexed version exceeds \<open>n\<close>.  \<open>latest_live s\<close>: the indexed version of every key is stored.
\<close>

definition latest_ok :: "u64 \<Rightarrow> ('h, 'b) RocksDbStorage \<Rightarrow> bool" where
  "latest_ok n s \<longleftrightarrow> (\<forall>h. case get_latest_version s h of
       None \<Rightarrow> \<forall>w. db_get_value s h w = None
     | Some v \<Rightarrow> v \<le> n \<and> (\<forall>w. v < w \<longrightarrow> db_get_value s h w = None))"

definition latest_live :: "('h, 'b) RocksDbStorage \<Rightarrow> bool" where
  "latest_live s \<longleftrightarrow> (\<forall>h v. get_latest_version s h = Some v \<longrightarrow> db_get_value s h v \<noteq> None)"

lemma latest_okD:
  assumes "latest_ok n s"
  shows "get_latest_version s h = None \<Longrightarrow> db_get_value s h w = None"
    and "get_latest_version s h = Some v \<Longrightarrow> v \<le> n"
    and "get_latest_version s h = Some v \<Longrightarrow> v < w \<Longrightarrow> db_get_value s h w = None"
  using assms by (auto simp: latest_ok_def split: option.splits dest!: spec [of _ h])

lemma scan_back_None: "(\<And>m. m \<le> n \<Longrightarrow> f m = None) \<Longrightarrow> scan_back f n = None"
  by (induction n) simp_all

lemma scan_back_hit:
  "m \<le> n \<Longrightarrow> f m = Some b \<Longrightarrow> (\<And>k. m < k \<Longrightarrow> k \<le> n \<Longrightarrow> f k = None) \<Longrightarrow> scan_back f n = Some b"
proof (induction n)
  case (Suc n)
  show ?case
  proof (cases "m = Suc n")
    case False
    with Suc.prems(1) have "m \<le> n" by simp
    with Suc show ?thesis by (simp add: Suc.prems(3))
  qed (use Suc.prems in simp)
qed simp

lemma of_nat_u64_less: "n \<le> unat (v::u64) \<Longrightarrow> unat (l::u64) < n \<Longrightarrow> l < of_nat n"
  by (metis le_less_trans of_nat_inverse u64_less unsigned_less word_less_nat_alt)

lemma slow_scan_None: "(\<And>w. db_get_value s h w = None) \<Longrightarrow> slow_scan s v h = None"
  by (simp add: slow_scan_def scan_back_None)

lemma slow_scan_latest:
  assumes "db_get_value s h l = Some b" "l \<le> v" "\<And>w. l < w \<Longrightarrow> db_get_value s h w = None"
  shows "slow_scan s v h = Some b"
  unfolding slow_scan_def
proof (rule scan_back_hit)
  show "unat l \<le> unat v" using assms(2) by (simp add: word_le_nat_alt)
  show "db_get_value s h (of_nat (unat l)) = Some b" using assms(1) by simp
  show "db_get_value s h (of_nat k) = None" if "unat l < k" "k \<le> unat v" for k
    using assms(3) of_nat_u64_less [OF that(2) that(1)] by blast
qed

lemma get_value_option_unversioned:
  assumes "latest_ok n s" "get_latest_version s h = None"
  shows "get_value_option s v h = None"
  using assms latest_okD(1) [OF assms] by (simp add: get_value_option_def slow_scan_None)

lemma get_value_option_latest:
  "get_latest_version s h = Some l \<Longrightarrow> l \<le> v \<Longrightarrow> get_value_option s v h = db_get_value s h l"
  by (simp add: get_value_option_def)

lemma fast_lookup_scan:
  assumes "latest_ok n s" "latest_live s"
  shows "get_value_option s v h = slow_scan s v h"
proof (cases "get_latest_version s h")
  case None
  then show ?thesis by (simp add: get_value_option_def)
next
  case (Some l)
  then obtain b where b: "db_get_value s h l = Some b"
    using assms(2) by (auto simp: latest_live_def)
  show ?thesis
  proof (cases "l \<le> v")
    case True
    have "slow_scan s v h = Some b"
      by (rule slow_scan_latest [OF b True]) (rule latest_okD(3) [OF assms(1) Some])
    then show ?thesis by (simp add: get_value_option_latest [OF Some True] b)
  qed (simp add: get_value_option_def Some)
qed

section \<open>Pruning\<close>

text \<open>What a database iterator promises: it yields every key that is present.\<close>

definition iter_complete :: "(('h StorageKey \<rightharpoonup> 'b db_value) \<Rightarrow> 'h StorageKey list) \<Rightarrow> bool" where
  "iter_complete db_iter \<longleftrightarrow> (\<forall>m. finite (dom m) \<longrightarrow> set (db_iter m) = dom m)"

lemma iter_complete_exists: "iter_complete (\<lambda>m. SOME ks. set ks = dom m)"
  unfolding iter_complete_def by (metis (mono_tags, lifting) finite_list someI_ex)

lemma batch_delete_batch_delete:
  "batch_delete (batch_delete s xs) ys = batch_delete s (xs @ ys)"
  by (auto simp: batch_delete_def fun_eq_iff)

lemma batch_delete_Nil [simp]: "batch_delete s [] = s"
  by (simp add: batch_delete_def)

lemma collect_loop_filter:
  "collect_loop before keep keys acc n s =
     (n + length (filter (should_delete before keep) keys),
      batch_delete s (acc @ filter (should_delete before keep) keys))"
  by (induction before keep keys acc n s rule: collect_loop.induct)
    (auto simp: Let_def batch_delete_batch_delete)

lemma collect_and_delete_old_versions_filter:
  "collect_and_delete_old_versions db_iter s before keep =
     (length (filter (should_delete before keep) (db_iter (db s))),
      batch_delete s (filter (should_delete before keep) (db_iter (db s))))"
  by (simp add: collect_and_delete_old_versions_def collect_loop_filter)

definition kept :: "PruningConfig \<Rightarrow> u64 \<Rightarrow> 'h StorageKey \<Rightarrow> bool" where
  "kept config before key =
     (case key of JmtValue _ v \<Rightarrow> before \<le> v \<or> v mod snapshot_interval config = 0 | _ \<Rightarrow> True)"

lemma should_delete_kept:
  "should_delete before (snapshots_to_keep config before) key = (\<not> kept config before key)"
  by (auto simp: should_delete_def kept_def snapshots_to_keep_def split: StorageKey.splits)

lemma prune_before_version_db:
  assumes "iter_complete db_iter" "finite (dom (db s))"
  shows "prune_before_version db_iter s before =
    s\<lparr>db := (\<lambda>k. if kept (pruning_config s) before k then db s k else None)\<rparr>"
proof -
  have "set (db_iter (db s)) = dom (db s)"
    using assms by (simp add: iter_complete_def)
  then show ?thesis
    by (auto simp: prune_before_version_def collect_and_delete_old_versions_filter
        batch_delete_def should_delete_kept fun_eq_iff intro!: RocksDbStorage.equality)
qed

section \<open>Commit\<close>

text \<open>\<open>pruned_at\<close>: the pruning step of a commit removes what is stored at version \<open>w\<close>.\<close>

definition pruned_at :: "PruningConfig \<Rightarrow> u64 \<Rightarrow> u64 \<Rightarrow> bool" where
  "pruned_at config version w \<longleftrightarrow> pruning_enabled config \<and> prune_before config < version \<and>
     w < version - prune_before config \<and> w mod snapshot_interval config \<noteq> 0"

text \<open>The part of the store that a commit sees: finitely many keys on disk and in the buffer.\<close>

definition storage_finite :: "('h, 'b) RocksDbStorage \<Rightarrow> bool" where
  "storage_finite s \<longleftrightarrow> finite (dom (db s)) \<and> finite (dom (pending_updates s))"

definition write_values ::
  "('h \<rightharpoonup> 'b) \<Rightarrow> u64 \<Rightarrow> ('h, 'b) RocksDbStorage \<Rightarrow> ('h, 'b) RocksDbStorage" where
  "write_values pending version s = store_latest_versions pending version (store_values pending version s)"

lemma write_values_reads:
  "get_latest_version (write_values p v s) h =
     (if p h \<noteq> None then Some v else get_latest_version s h)"
  "db_get_value (write_values p v s) h w =
     (if w = v \<and> p h \<noteq> None then p h else db_get_value s h w)"
  by (auto simp: write_values_def store_latest_versions_def store_values_def
      get_latest_version_def db_get_value_def)

lemma write_values_frame [simp]:
  "pending_updates (write_values p v s) = pending_updates s"
  "pruning_config (write_values p v s) = pruning_config s"
  by (simp_all add: write_values_def store_latest_versions_def store_values_def)

lemma write_values_finite:
  assumes "finite (dom (db s))" "finite (dom p)"
  shows "finite (dom (db (write_values p v s)))"
proof (rule finite_subset)
  show "dom (db (write_values p v s)) \<subseteq>
      dom (db s) \<union> (\<lambda>h. JmtValue h v) ` dom p \<union> LatestVersion ` dom p"
  proof
    fix k
    assume "k \<in> dom (db (write_values p v s))"
    then show "k \<in> dom (db s) \<union> (\<lambda>h. JmtValue h v) ` dom p \<union> LatestVersion ` dom p"
      by (cases k) (auto simp: write_values_def store_latest_versions_def store_values_def
          split: if_splits)
  qed
qed (use assms in simp)

lemma finish_commit_frame [simp]:
  "pending_updates (finish_commit it v r s) = pending_updates s"
  "current_version (finish_commit it v r s) = v"
  "pruning_config (finish_commit it v r s) = pruning_config s"
  "root_cache (finish_commit it v r s) = (root_cache s)(v \<mapsto> r)"
  by (simp_all add: finish_commit_def Let_def create_snapshot_def prune_before_version_def
      collect_and_delete_old_versions_filter batch_delete_def)

lemma finish_commit_reads:
  assumes "iter_complete it" "finite (dom (db s))"
  shows "get_latest_version (finish_commit it v r s) h = get_latest_version s h"
    and "db_get_value (finish_commit it v r s) h w =
      (if pruned_at (pruning_config s) v w then None else db_get_value s h w)"
  using assms
  by (simp_all add: finish_commit_def Let_def prune_before_version_db create_snapshot_def
      get_latest_version_def db_get_value_def kept_def pruned_at_def not_le [symmetric])

lemma finish_commit_finite:
  assumes "finite (dom (db s))"
  shows "finite (dom (db (finish_commit it v r s)))"
proof (rule finite_subset)
  show "dom (db (finish_commit it v r s)) \<subseteq> {CurrentVersion, Snapshot v} \<union> dom (db s)"
    by (auto simp: finish_commit_def Let_def create_snapshot_def prune_before_version_def
        collect_and_delete_old_versions_filter batch_delete_def split: if_splits)
qed (use assms in simp)

text \<open>The state a commit leaves, with and without an error.\<close>

lemma write_pending_cases:
  obtains (error) e where "write_pending jmt p v s = (Inl e, s)"
  | (empty) "p = Map.empty" "write_pending jmt p v s = (Inr (), s)"
  | (written) log where
      "write_pending jmt p v s = (Inr (), write_values p v (s\<lparr>jmt_log := log\<rparr>))"
proof (cases "p = Map.empty")
  case True
  then show ?thesis using empty by (simp add: write_pending_def)
next
  case False
  then show ?thesis using error written
    by (cases "put_value_set jmt (jmt_log s) p v") (simp_all add: write_pending_def write_values_def)
qed

lemma commit_success:
  assumes "commit jmt it s v = (Inr root, s')"
  obtains log where
    "s' = finish_commit it v root (write_values (pending_updates s) v
            (s\<lparr>pending_updates := Map.empty, jmt_log := log\<rparr>))"
proof -
  let ?p = "pending_updates s" and ?s0 = "s\<lparr>pending_updates := Map.empty\<rparr>"
  obtain s1 where w: "write_pending jmt ?p v ?s0 = (Inr (), s1)"
    and s': "s' = finish_commit it v root s1"
    using assms by (auto simp: commit_def Let_def result_simps)
  have "\<exists>log. s1 = write_values ?p v (?s0\<lparr>jmt_log := log\<rparr>)"
  proof (cases rule: write_pending_cases [of jmt ?p v ?s0])
    case empty
    then have "s1 = write_values ?p v (?s0\<lparr>jmt_log := jmt_log s\<rparr>)"
      using w by (auto simp: write_values_def store_values_def store_latest_versions_def
          intro!: RocksDbStorage.equality ext split: StorageKey.splits)
    then show ?thesis by blast
  qed (use w in auto)
  with s' that show ?thesis by auto
qed

lemma commit_success_reads:
  assumes "commit jmt it s v = (Inr root, s')" "iter_complete it" "storage_finite s"
  shows "get_latest_version s' h =
      (if pending_updates s h \<noteq> None then Some v else get_latest_version s h)"
    and "db_get_value s' h w =
      (if pruned_at (pruning_config s) v w then None
       else if w = v \<and> pending_updates s h \<noteq> None then pending_updates s h
       else db_get_value s h w)"
    and "pending_updates s' = Map.empty"
    and "storage_finite s'"
proof -
  let ?t = "\<lambda>log. s\<lparr>pending_updates := Map.empty, jmt_log := log\<rparr>"
  obtain log where s': "s' = finish_commit it v root (write_values (pending_updates s) v (?t log))"
    using commit_success [OF assms(1)] .
  have fin: "finite (dom (db (write_values (pending_updates s) v (?t log))))"
    using assms(3) by (intro write_values_finite) (simp_all add: storage_finite_def)
  have eqs: "get_latest_version (?t log) = get_latest_version s"
    "db_get_value (?t log) = db_get_value s"
    by (rule get_latest_version_cong db_get_value_cong, simp)+
  note reads = finish_commit_reads [OF assms(2) fin] write_values_reads eqs
  show "get_latest_version s' h =
      (if pending_updates s h \<noteq> None then Some v else get_latest_version s h)"
    by (simp add: s' reads)
  show "db_get_value s' h w =
      (if pruned_at (pruning_config s) v w then None
       else if w = v \<and> pending_updates s h \<noteq> None then pending_updates s h
       else db_get_value s h w)"
    by (auto simp: s' reads)
  show "pending_updates s' = Map.empty" by (simp add: s')
  show "storage_finite s'"
    using finish_commit_finite [OF fin] by (simp add: s' storage_finite_def)
qed

lemma not_pruned_at_self: "\<not> pruned_at config v v"
  by (auto simp: pruned_at_def word_less_nat_alt unat_sub word_le_nat_alt less_imp_le)

text \<open>
  What the store returns after a successful commit, at or after the committed version: every
  value is as it was before the commit, except that a key outside the buffer whose newest
  version falls to pruning reads as absent.
\<close>

lemma commit_observation:
  assumes "commit jmt it s v = (Inr root, s')" "iter_complete it" "storage_finite s"
    and ok: "latest_ok n s" and le: "n \<le> v" "v \<le> w"
  shows "raw_get s' h w =
    (if pending_updates s h = None \<and>
        (\<exists>l. get_latest_version s h = Some l \<and> pruned_at (pruning_config s) v l)
     then None else raw_get s h w)"
proof (cases "pending_updates s h")
  case (Some b)
  then have "get_value_option s' w h = db_get_value s' h v"
    using le commit_success_reads(1) [OF assms(1-3)] by (simp add: get_value_option_latest)
  with Some show ?thesis
    using commit_success_reads(2,3) [OF assms(1-3)] by (simp add: raw_get_def not_pruned_at_self)
next
  case None
  show ?thesis
  proof (cases "get_latest_version s h")
    case (Some l)
    then have "l \<le> w" using latest_okD(2) [OF ok] le by (meson order.trans)
    with Some None show ?thesis
      using commit_success_reads [OF assms(1-3)] by (simp add: raw_get_def get_value_option_latest)
  next
    case unversioned: None
    have "\<And>u. db_get_value s' h u = None"
      using latest_okD(1) [OF ok unversioned] None commit_success_reads(2) [OF assms(1-3)] by simp
    then have "get_value_option s' w h = None"
      using commit_success_reads(1) [OF assms(1-3)] None unversioned
      by (simp add: get_value_option_def slow_scan_None)
    with None unversioned show ?thesis
      using commit_success_reads(3) [OF assms(1-3)] get_value_option_unversioned [OF ok unversioned]
      by (simp add: raw_get_def)
  qed
qed

lemma commit_latest_ok:
  assumes "commit jmt it s v = (Inr root, s')" "iter_complete it" "storage_finite s"
    and ok: "latest_ok n s" and "n \<le> v"
  shows "latest_ok v s'"
  unfolding latest_ok_def
proof
  fix h
  show "case get_latest_version s' h of None \<Rightarrow> \<forall>w. db_get_value s' h w = None
      | Some l \<Rightarrow> l \<le> v \<and> (\<forall>w. l < w \<longrightarrow> db_get_value s' h w = None)"
    using latest_okD [OF ok, of h] \<open>n \<le> v\<close>
    by (cases "get_latest_version s h")
      (auto simp: commit_success_reads(1,2) [OF assms(1-3)] dest: order.strict_trans1 order.trans)
qed

section \<open>The interface to the store\<close>

text \<open>
  What the state manager relies on: a write is read back and touches nothing else, and a delete
  falls back to the committed value, which buffered operations do not change.
\<close>

locale buffered_store =
  fixes get :: "'s \<Rightarrow> 'k \<Rightarrow> 'v option"
    and put :: "'s \<Rightarrow> 'k \<Rightarrow> 'v \<Rightarrow> 's"
    and del :: "'s \<Rightarrow> 'k \<Rightarrow> 's"
    and committed :: "'s \<Rightarrow> 'k \<Rightarrow> 'v option"
  assumes get_put: "get (put s k v) = (get s)(k \<mapsto> v)"
    and get_del: "get (del s k) = (get s)(k := committed s k)"
    and committed_put: "committed (put s k v) = committed s"
    and committed_del: "committed (del s k) = committed s"
begin

definition puts :: "'s \<Rightarrow> ('k \<times> 'v) list \<Rightarrow> 's" where
  "puts s kvs = foldl (\<lambda>t (k, v). put t k v) s kvs"

lemma get_puts: "get (puts s kvs) = get s ++ map_of (rev kvs)"
  by (induction kvs arbitrary: s) (auto simp: puts_def get_put fun_eq_iff map_add_def split: option.splits)

lemma del_put: "get (del (put s k v) k) = (get s)(k := committed s k)"
  by (simp add: get_del get_put committed_put)

lemma put_del: "get (put (del s k) k v) = (get s)(k \<mapsto> v)"
  by (simp add: get_del get_put)

lemma get_put_other: "k' \<noteq> k \<Longrightarrow> get (put s k v) k' = get s k'"
  by (simp add: get_put)

lemma get_del_other: "k' \<noteq> k \<Longrightarrow> get (del s k) k' = get s k'"
  by (simp add: get_del)

end

interpretation raw: buffered_store "\<lambda>s h. raw_get s h v" raw_set raw_delete
  "\<lambda>s h. get_value_option s v h" for v
  by unfold_locales (auto simp: fun_eq_iff raw_get_set raw_get_delete get_value_option_buffered)

section \<open>Encoded stores refine typed stores\<close>

text \<open>
  The engine's stores hold serialised values under hashed keys.  \<open>encode\<close> is the stored form
  of a store over plain keys and values; with a lossless codec every operation on the stored
  form is the operation on the typed form.  The state manager is modelled on the typed form.
\<close>

definition lossless :: "('k, 'v, 'h, 'b) codec \<Rightarrow> bool" where
  "lossless cd \<longleftrightarrow> inj (key_hash cd) \<and> (\<forall>v. from_slice cd (to_vec cd v) = Inr v)"

definition enc_map :: "('k, 'v, 'h, 'b) codec \<Rightarrow> ('k \<rightharpoonup> 'v) \<Rightarrow> ('h \<rightharpoonup> 'b)" where
  "enc_map cd p = (\<lambda>h. if h \<in> range (key_hash cd)
     then map_option (to_vec cd) (p (inv (key_hash cd) h)) else None)"

definition dec_key :: "('k, 'v, 'h, 'b) codec \<Rightarrow> 'h StorageKey \<Rightarrow> 'k StorageKey option" where
  "dec_key cd key = (case key of
       CurrentVersion \<Rightarrow> Some CurrentVersion
     | Snapshot v \<Rightarrow> Some (Snapshot v)
     | JmtValue h v \<Rightarrow>
         if h \<in> range (key_hash cd) then Some (JmtValue (inv (key_hash cd) h) v) else None
     | LatestVersion h \<Rightarrow>
         if h \<in> range (key_hash cd) then Some (LatestVersion (inv (key_hash cd) h)) else None)"

definition enc_db ::
  "('k, 'v, 'h, 'b) codec \<Rightarrow> ('k StorageKey \<rightharpoonup> 'v db_value) \<Rightarrow> ('h StorageKey \<rightharpoonup> 'b db_value)" where
  "enc_db cd m = (\<lambda>key. case dec_key cd key of
       None \<Rightarrow> None | Some k \<Rightarrow> map_option (map_db_value (to_vec cd)) (m k))"

definition enc_log ::
  "('k, 'v, 'h, 'b) codec \<Rightarrow> (u64 \<times> ('k \<rightharpoonup> 'v)) list \<Rightarrow> (u64 \<times> ('h \<rightharpoonup> 'b)) list" where
  "enc_log cd = map (apsnd (enc_map cd))"

definition encode ::
  "('k, 'v, 'h, 'b) codec \<Rightarrow> ('k, 'v) RocksDbStorage \<Rightarrow> ('h, 'b) RocksDbStorage" where
  "encode cd s =
     \<lparr>db = enc_db cd (db s), jmt_log = enc_log cd (jmt_log s), current_version = current_version s,
      root_cache = root_cache s, pruning_config = pruning_config s,
      pending_updates = enc_map cd (pending_updates s)\<rparr>"

definition typed_jmt :: "('k, 'v, 'h, 'b) codec \<Rightarrow> ('h, 'b) Jmt \<Rightarrow> ('k, 'v) Jmt" where
  "typed_jmt cd jmt =
     \<lparr>put_value_set = (\<lambda>log p v. put_value_set jmt (enc_log cd log) (enc_map cd p) v),
      get_root_hash = (\<lambda>log v. get_root_hash jmt (enc_log cd log) v)\<rparr>"

lemma encode_sel [simp]:
  "db (encode cd s) = enc_db cd (db s)"
  "jmt_log (encode cd s) = enc_log cd (jmt_log s)"
  "current_version (encode cd s) = current_version s"
  "root_cache (encode cd s) = root_cache s"
  "pruning_config (encode cd s) = pruning_config s"
  "pending_updates (encode cd s) = enc_map cd (pending_updates s)"
  by (simp_all add: encode_def)

lemma enc_map_key: "lossless cd \<Longrightarrow> enc_map cd p (key_hash cd k) = map_option (to_vec cd) (p k)"
  by (simp add: enc_map_def lossless_def)

lemma enc_map_upd:
  "lossless cd \<Longrightarrow> enc_map cd (p(k := x)) = (enc_map cd p)(key_hash cd k := map_option (to_vec cd) x)"
  by (auto simp: enc_map_def lossless_def fun_eq_iff inv_f_f)

lemma enc_map_empty: "lossless cd \<Longrightarrow> enc_map cd p = Map.empty \<longleftrightarrow> p = Map.empty"
  by (metis enc_map_def enc_map_key map_option_is_None option.map(1))

lemma dec_key_simps:
  assumes "lossless cd"
  shows "dec_key cd (JmtValue (key_hash cd k) v) = Some (JmtValue k v)"
    and "dec_key cd (LatestVersion (key_hash cd k)) = Some (LatestVersion k)"
  using assms by (simp_all add: dec_key_def lossless_def)

lemma encode_reads:
  assumes "lossless cd"
  shows "get_latest_version (encode cd s) (key_hash cd k) = get_latest_version s k"
    and "db_get_value (encode cd s) (key_hash cd k) v = map_option (to_vec cd) (db_get_value s k v)"
  using assms
  by (auto simp: get_latest_version_def db_get_value_def enc_db_def dec_key_simps
      split: option.splits db_value.splits)

lemma scan_back_map: "scan_back (\<lambda>n. map_option g (f n)) m = map_option g (scan_back f m)"
  by (induction m) (auto split: option.splits)

lemma encode_get_value:
  assumes "lossless cd"
  shows "get_value_option (encode cd s) v (key_hash cd k) = map_option (to_vec cd) (get_value_option s v k)"
  by (simp add: get_value_option_def slow_scan_def encode_reads [OF assms] scan_back_map
      split: option.splits)

lemma encode_get:
  assumes "lossless cd"
  shows "storage_get cd (encode cd s) k v = Inr (raw_get s k v)"
  using assms
  by (auto simp: storage_get_def raw_get_def enc_map_key encode_get_value lossless_def
      split: option.splits)

lemma encode_set:
  assumes "lossless cd"
  shows "storage_set cd (encode cd s) k v = encode cd (raw_set s k v)"
  using assms by (simp add: storage_set_def raw_set_def encode_def enc_map_upd)

lemma encode_delete:
  assumes "lossless cd"
  shows "storage_delete cd (encode cd s) k = encode cd (raw_delete s k)"
  using assms by (simp add: storage_delete_def raw_delete_def encode_def enc_map_upd)

text \<open>Commit step by step: each write of the encoded store is the encoded write.\<close>

lemma encode_store_values:
  assumes "lossless cd"
  shows "store_values (enc_map cd p) v (encode cd s) = encode cd (store_values p v s)"
proof -
  have "db (store_values (enc_map cd p) v (encode cd s)) key = enc_db cd (db (store_values p v s)) key"
    for key
  proof (cases key)
    case (JmtValue h w)
    then show ?thesis
      by (cases "h \<in> range (key_hash cd)")
        (auto simp: store_values_def enc_db_def enc_map_key [OF assms] dec_key_simps [OF assms]
          dec_key_def enc_map_def option.map_comp comp_def)
  next
    case (LatestVersion h)
    then show ?thesis by (auto simp: store_values_def enc_db_def dec_key_def)
  qed (auto simp: store_values_def enc_db_def dec_key_def)
  then show ?thesis
    by (auto simp: store_values_def intro!: RocksDbStorage.equality ext)
qed

lemma encode_store_latest_versions:
  assumes "lossless cd"
  shows "store_latest_versions (enc_map cd p) v (encode cd s) = encode cd (store_latest_versions p v s)"
proof -
  have "db (store_latest_versions (enc_map cd p) v (encode cd s)) key =
      enc_db cd (db (store_latest_versions p v s)) key" for key
  proof (cases key)
    case (LatestVersion h)
    then show ?thesis
      by (cases "h \<in> range (key_hash cd)")
        (auto simp: store_latest_versions_def enc_db_def enc_map_key [OF assms]
          dec_key_simps [OF assms] dec_key_def enc_map_def)
  next
    case (JmtValue h w)
    then show ?thesis by (auto simp: store_latest_versions_def enc_db_def dec_key_def)
  qed (auto simp: store_latest_versions_def enc_db_def dec_key_def)
  then show ?thesis
    by (auto simp: store_latest_versions_def intro!: RocksDbStorage.equality ext)
qed

lemma encode_write_pending:
  assumes "lossless cd"
  shows "write_pending jmt (enc_map cd p) v (encode cd s) =
    apsnd (encode cd) (write_pending (typed_jmt cd jmt) p v s)"
proof -
  have log: "(encode cd s)\<lparr>jmt_log := enc_log cd (jmt_log s) @ [(v, enc_map cd p)]\<rparr> =
      encode cd (s\<lparr>jmt_log := jmt_log s @ [(v, p)]\<rparr>)"
    by (simp add: encode_def enc_log_def)
  show ?thesis
    by (auto simp: write_pending_def enc_map_empty [OF assms] typed_jmt_def log
        encode_store_values [OF assms] encode_store_latest_versions [OF assms] split: option.splits)
qed

lemma enc_db_upd:
  "enc_db cd (m(CurrentVersion \<mapsto> DbVersion v)) = (enc_db cd m)(CurrentVersion \<mapsto> DbVersion v)"
  "enc_db cd (m(Snapshot w \<mapsto> DbRoot r)) = (enc_db cd m)(Snapshot w \<mapsto> DbRoot r)"
  by (auto simp: enc_db_def dec_key_def fun_eq_iff split: StorageKey.splits option.splits if_splits)

lemma enc_db_kept:
  "enc_db cd (\<lambda>k. if kept c b k then m k else None) = (\<lambda>k. if kept c b k then enc_db cd m k else None)"
  by (auto simp: enc_db_def dec_key_def kept_def fun_eq_iff split: StorageKey.splits option.splits)

lemma finite_enc_db:
  assumes "lossless cd" "finite (dom m)"
  shows "finite (dom (enc_db cd m))"
proof (rule finite_subset)
  show "dom (enc_db cd m) \<subseteq> map_StorageKey (key_hash cd) ` dom m"
  proof
    fix key
    assume "key \<in> dom (enc_db cd m)"
    then obtain k where "dec_key cd key = Some k" "k \<in> dom m"
      by (fastforce simp: enc_db_def dom_def split: option.splits)
    then show "key \<in> map_StorageKey (key_hash cd) ` dom m"
      by (cases key) (force simp: dec_key_def f_inv_into_f split: if_splits)+
  qed
qed (use assms in simp)

lemma encode_create_snapshot: "create_snapshot (encode cd s) v = encode cd (create_snapshot s v)"
  by (simp add: create_snapshot_def get_root_def encode_def enc_db_upd)

lemma encode_prune:
  assumes "lossless cd" "iter_complete it" "iter_complete it'" "finite (dom (db s))"
  shows "prune_before_version it (encode cd s) b = encode cd (prune_before_version it' s b)"
  using assms finite_enc_db [OF assms(1,4)]
  by (simp add: prune_before_version_db) (simp add: encode_def enc_db_kept fun_eq_iff)

lemma encode_finish_commit:
  assumes "lossless cd" "iter_complete it" "iter_complete it'" "finite (dom (db s))"
  shows "finish_commit it v r (encode cd s) = encode cd (finish_commit it' v r s)"
proof -
  let ?s1 = "s\<lparr>root_cache := (root_cache s)(v \<mapsto> r), current_version := v,
      db := (db s)(CurrentVersion \<mapsto> DbVersion v)\<rparr>"
  have s1: "encode cd s\<lparr>root_cache := (root_cache s)(v \<mapsto> r), current_version := v,
      db := (enc_db cd (db s))(CurrentVersion \<mapsto> DbVersion v)\<rparr> = encode cd ?s1"
    by (simp add: encode_def enc_db_upd)
  have fin: "finite (dom (db ?s1))" "finite (dom (db (create_snapshot ?s1 v)))"
    using assms(4) by (simp_all add: create_snapshot_def)
  show ?thesis
    by (simp add: finish_commit_def Let_def s1 encode_create_snapshot
        encode_prune [OF assms(1-3) fin(1)] encode_prune [OF assms(1-3) fin(2)])
qed

lemma write_pending_finite:
  assumes "write_pending jmt p v s = (r, t)" "finite (dom (db s))" "finite (dom p)"
  shows "finite (dom (db t))"
proof (cases rule: write_pending_cases [of jmt p v s])
  case (written log)
  then show ?thesis
    using assms by (auto intro!: write_values_finite)
qed (use assms in auto)

lemma encode_commit:
  assumes "lossless cd" "iter_complete it" "iter_complete it'" "storage_finite s"
  shows "commit jmt it (encode cd s) v = apsnd (encode cd) (commit (typed_jmt cd jmt) it' s v)"
proof -
  let ?s0 = "s\<lparr>pending_updates := Map.empty\<rparr>" and ?p = "pending_updates s"
  have s0: "encode cd s\<lparr>pending_updates := Map.empty\<rparr> = encode cd ?s0"
    by (simp add: encode_def enc_map_def fun_eq_iff)
  obtain x t where w: "write_pending (typed_jmt cd jmt) ?p v ?s0 = (x, t)"
    by fastforce
  then have fin: "finite (dom (db t))"
    using write_pending_finite [OF w] assms(4) by (simp add: storage_finite_def)
  have root: "calculate_state_root jmt (encode cd t) v = calculate_state_root (typed_jmt cd jmt) t v"
    by (simp add: calculate_state_root_def typed_jmt_def)
  show ?thesis
    by (cases x; cases "calculate_state_root (typed_jmt cd jmt) t v")
      (simp_all add: commit_def Let_def s0 encode_write_pending [OF assms(1)] w root
        encode_finish_commit [OF assms(1-3) fin])
qed

section \<open>Properties\<close>

text \<open>A small store for the examples: keys and values are numbers, one value of key 1 was written
  at version 1, the Merkle tree accepts everything, and versions are pruned after two blocks.\<close>

definition sample_jmt :: "(nat, nat) Jmt" where
  "sample_jmt = \<lparr>put_value_set = (\<lambda>_ _ _. None), get_root_hash = (\<lambda>_ _. Inr 42)\<rparr>"

definition sample_store :: "(nat, nat) RocksDbStorage" where
  "sample_store = \<lparr>db = [JmtValue 1 1 \<mapsto> DbBytes 7, LatestVersion 1 \<mapsto> DbVersion 1], jmt_log = [],
     current_version = 1, root_cache = Map.empty,
     pruning_config = \<lparr>snapshot_interval = 1000, prune_before = 2, pruning_enabled = True\<rparr>,
     pending_updates = [2 \<mapsto> 8]\<rparr>"

lemma sample_store_reads [simp]:
  "get_latest_version sample_store h = (if h = 1 then Some 1 else None)"
  "db_get_value sample_store h w = (if h = 1 \<and> w = 1 then Some 7 else None)"
  "pending_updates sample_store = [2 \<mapsto> 8]"
  "pruning_config sample_store = \<lparr>snapshot_interval = 1000, prune_before = 2, pruning_enabled = True\<rparr>"
  by (simp_all add: get_latest_version_def db_get_value_def sample_store_def)

lemma sample_store_ok: "latest_ok 1 sample_store" "latest_live sample_store" "storage_finite sample_store"
proof -
  show "latest_ok 1 sample_store" "latest_live sample_store"
    by (auto simp: latest_ok_def latest_live_def)
  show "storage_finite sample_store"
    by (simp add: storage_finite_def sample_store_def)
qed

lemma sample_commit: "\<exists>s'. commit sample_jmt it sample_store v = (Inr 42, s')"
  by (auto simp: commit_def write_pending_def calculate_state_root_def sample_jmt_def Let_def fun_eq_iff)

text \<open>C15: A commit makes every buffered write readable at its version and later and keeps what was
  readable before, with one exception: a key that is not rewritten and whose last write lies in
  the pruned range is lost, even though that write is its current value.\<close>

theorem commit_keeps_reads:
  assumes "commit jmt it s v = (Inr root, s')" "iter_complete it" "storage_finite s"
    and "latest_ok n s" "n \<le> v" "v \<le> w"
  shows "raw_get s' h w =
    (if pending_updates s h = None \<and>
        (\<exists>l. get_latest_version s h = Some l \<and> pruned_at (pruning_config s) v l)
     then None else raw_get s h w)"
  by (rule commit_observation [OF assms])

theorem commit_keeps_reads_witness:
  "\<exists>it s'. commit sample_jmt it sample_store 5 = (Inr 42, s') \<and> raw_get s' 2 5 = Some 8 \<and>
     raw_get sample_store 1 5 = Some 7 \<and> raw_get s' 1 5 = None"
proof -
  obtain it :: "(nat StorageKey \<rightharpoonup> nat db_value) \<Rightarrow> nat StorageKey list" where it: "iter_complete it"
    using iter_complete_exists by blast
  obtain s' where s': "commit sample_jmt it sample_store 5 = (Inr 42, s')"
    using sample_commit by blast
  have "(1 :: u64) \<le> 5" "(5 :: u64) \<le> 5" by simp_all
  note read = commit_keeps_reads [OF s' it sample_store_ok(3,1) this]
  have "raw_get sample_store 2 5 = Some 8" "raw_get sample_store 1 5 = Some 7"
    by (simp_all add: raw_get_def get_value_option_def)
  with read [of 2] read [of 1] s' show ?thesis
    by (auto simp: pruned_at_def)
qed




definition sample_cd :: "(nat, nat, nat, nat) codec" where
  "sample_cd = \<lparr>key_hash = (\<lambda>k. 2 * k + 1), to_vec = Suc, from_slice = (\<lambda>b. Inr (b - 1))\<rparr>"


end
