(* ===== verification/State_Manager.thy ===== *)
theory State_Manager
  imports Storage
begin

text \<open>
  \<open>crates/state/src/lib.rs\<close> (\<open>StateManager\<close>), \<open>types.rs\<close> (\<open>StateKey\<close>) and
  \<open>index_manager.rs\<close>: typed access to the store.  Each accessor reads or writes one
  \<open>StateKey\<close>; a value read at the wrong type is serde's error.  Writes never fail: the types
  stored here always serialise.  The storage below is the typed form of the theory
  \<open>Storage\<close>, which every lossless codec refines.

  A \<open>HashSet\<close> is a set; the order in which one is enumerated is an argument (\<open>addr_iter\<close>,
  \<open>id_iter\<close>).
\<close>

section \<open>Model\<close>

datatype StateKey =
    StateKey_Balance Address u32
  | StateKey_Nonce Address
  | StateKey_Position Address u32
  | StateKey_Order u64
  | StateKey_Market u32
  | StateKey_FundingRate u32
  | StateKey_NextOrderId
  | StateKey_ActiveOrder u32 u64
  | StateKey_ActiveOrderList u32
  | StateKey_MarketList
  | StateKey_PositionIndex u32
  | StateKey_LatestVersion string
  | StateKey_BridgeOperator Address
  | StateKey_AssetInfo u32
  | StateKey_AssetList

text \<open>What the engine stores under these keys.\<close>

datatype state_value =
    VU128 u128
  | VU64 u64
  | VBool bool
  | VPosition Position
  | VOrder Order
  | VMarket Market
  | VFunding FundingRate
  | VAsset Asset
  | VU32List "u32 list"
  | VU64List "u64 list"
  | VAddrs "Address set"

type_synonym typed_storage = "(StateKey, state_value) RocksDbStorage"

record StateManager =
  storage :: typed_storage
  version :: u64
  position_index :: "u32 \<rightharpoonup> Address set"

definition decode_error :: StateError where
  "decode_error = SerializationError ''invalid type''"

fun as_u128 :: "state_value \<Rightarrow> u128 option" where
  "as_u128 (VU128 x) = Some x" | "as_u128 _ = None"
fun as_u64 :: "state_value \<Rightarrow> u64 option" where
  "as_u64 (VU64 x) = Some x" | "as_u64 _ = None"
fun as_bool :: "state_value \<Rightarrow> bool option" where
  "as_bool (VBool x) = Some x" | "as_bool _ = None"
fun as_position :: "state_value \<Rightarrow> Position option" where
  "as_position (VPosition x) = Some x" | "as_position _ = None"
fun as_order :: "state_value \<Rightarrow> Order option" where
  "as_order (VOrder x) = Some x" | "as_order _ = None"
fun as_market :: "state_value \<Rightarrow> Market option" where
  "as_market (VMarket x) = Some x" | "as_market _ = None"
fun as_funding :: "state_value \<Rightarrow> FundingRate option" where
  "as_funding (VFunding x) = Some x" | "as_funding _ = None"
fun as_asset :: "state_value \<Rightarrow> Asset option" where
  "as_asset (VAsset x) = Some x" | "as_asset _ = None"
fun as_u32_list :: "state_value \<Rightarrow> u32 list option" where
  "as_u32_list (VU32List x) = Some x" | "as_u32_list _ = None"
fun as_u64_list :: "state_value \<Rightarrow> u64 list option" where
  "as_u64_list (VU64List x) = Some x" | "as_u64_list _ = None"
fun as_addrs :: "state_value \<Rightarrow> Address set option" where
  "as_addrs (VAddrs x) = Some x" | "as_addrs _ = None"

text \<open>\<open>storage.get\<close> at a type, given by its decoder.\<close>

definition typed_get ::
  "typed_storage \<Rightarrow> u64 \<Rightarrow> (state_value \<Rightarrow> 'a option) \<Rightarrow> StateKey \<Rightarrow> StateError + 'a option" where
  "typed_get st v dec key =
     (case raw_get st key v of
        None \<Rightarrow> Inr None
      | Some x \<Rightarrow> (case dec x of Some a \<Rightarrow> Inr (Some a) | None \<Rightarrow> Inl decode_error))"

definition sm_get :: "StateManager \<Rightarrow> StateKey \<Rightarrow> state_value option" where
  "sm_get s key = raw_get (storage s) key (version s)"

definition sm_put :: "StateManager \<Rightarrow> StateKey \<Rightarrow> state_value \<Rightarrow> StateManager" where
  "sm_put s key x = s\<lparr>storage := raw_set (storage s) key x\<rparr>"

definition sm_del :: "StateManager \<Rightarrow> StateKey \<Rightarrow> StateManager" where
  "sm_del s key = s\<lparr>storage := raw_delete (storage s) key\<rparr>"

definition get_optional ::
  "(state_value \<Rightarrow> 'a option) \<Rightarrow> StateManager \<Rightarrow> StateKey \<Rightarrow> StateError + 'a option" where
  "get_optional dec s key = typed_get (storage s) (version s) dec key"

definition get_or_default ::
  "(state_value \<Rightarrow> 'a option) \<Rightarrow> 'a \<Rightarrow> StateManager \<Rightarrow> StateKey \<Rightarrow> StateError + 'a" where
  "get_or_default dec d s key =
     bindE (get_optional dec s key) (\<lambda>x. Inr (case x of Some a \<Rightarrow> a | None \<Rightarrow> d))"

subsection \<open>Versions\<close>

definition new_state_manager :: "typed_storage \<Rightarrow> StateManager" where
  "new_state_manager st = \<lparr>storage = st, version = current_version st, position_index = Map.empty\<rparr>"

definition state_root :: "StateManager \<Rightarrow> B256" where
  "state_root s = get_root (storage s) (version s)"

definition begin_block :: "StateManager \<Rightarrow> u64 \<Rightarrow> StateManager" where
  "begin_block s height = s\<lparr>version := height\<rparr>"

definition commit_state ::
  "(StateKey, state_value) Jmt \<Rightarrow> ((StateKey StorageKey \<rightharpoonup> state_value db_value) \<Rightarrow> StateKey StorageKey list) \<Rightarrow>
     StateManager \<Rightarrow> (StateError + B256) \<times> StateManager" where
  "commit_state jmt it s =
     (case commit jmt it (storage s) (version s) of (r, st) \<Rightarrow> (r, s\<lparr>storage := st\<rparr>))"

definition create_state_snapshot ::
  "(StateKey, state_value) Jmt \<Rightarrow> ((StateKey StorageKey \<rightharpoonup> state_value db_value) \<Rightarrow> StateKey StorageKey list) \<Rightarrow>
     StateManager \<Rightarrow> (StateError + unit) \<times> StateManager" where
  "create_state_snapshot jmt it s =
     (case commit jmt it (storage s) (version s) of
        (Inl e, st) \<Rightarrow> (Inl e, s\<lparr>storage := st\<rparr>)
      | (Inr _, st) \<Rightarrow> (Inr (), s\<lparr>storage := st\<rparr>))"

definition restore_state :: "StateManager \<Rightarrow> u64 \<Rightarrow> (StateError + unit) \<times> StateManager" where
  "restore_state s v = (case restore_from_snapshot (storage s) v of (r, st) \<Rightarrow> (r, s\<lparr>storage := st\<rparr>))"

subsection \<open>Balances and nonces\<close>

definition get_balance :: "StateManager \<Rightarrow> Address \<Rightarrow> u32 \<Rightarrow> StateError + u128" where
  "get_balance s address asset = get_or_default as_u128 0 s (StateKey_Balance address asset)"

definition set_balance :: "StateManager \<Rightarrow> Address \<Rightarrow> u32 \<Rightarrow> u128 \<Rightarrow> StateManager" where
  "set_balance s address asset amount = sm_put s (StateKey_Balance address asset) (VU128 amount)"

definition get_nonce :: "StateManager \<Rightarrow> Address \<Rightarrow> StateError + u64" where
  "get_nonce s address = get_or_default as_u64 0 s (StateKey_Nonce address)"

definition set_nonce :: "StateManager \<Rightarrow> Address \<Rightarrow> u64 \<Rightarrow> StateManager" where
  "set_nonce s address nonce = sm_put s (StateKey_Nonce address) (VU64 nonce)"

definition increment_nonce :: "StateManager \<Rightarrow> Address \<Rightarrow> (StateError + u64) \<times> StateManager" where
  "increment_nonce s address =
     bindR (get_nonce s address, s) (\<lambda>current s.
       (let new_nonce = current + 1 in (Inr new_nonce, set_nonce s address new_nonce)))"

subsection \<open>Positions\<close>

definition get_position :: "StateManager \<Rightarrow> Address \<Rightarrow> u32 \<Rightarrow> StateError + Position option" where
  "get_position s address market = get_optional as_position s (StateKey_Position address market)"

definition update_position_index :: "StateManager \<Rightarrow> u32 \<Rightarrow> StateManager" where
  "update_position_index s market =
     (case position_index s market of
        Some idx \<Rightarrow> sm_put s (StateKey_PositionIndex market) (VAddrs idx)
      | None \<Rightarrow> sm_del s (StateKey_PositionIndex market))"

definition set_position :: "StateManager \<Rightarrow> Address \<Rightarrow> u32 \<Rightarrow> Position \<Rightarrow> StateManager" where
  "set_position s address market p =
     (let s1 = sm_put s (StateKey_Position address market) (VPosition p);
          idx = (case position_index s1 market of Some a \<Rightarrow> a | None \<Rightarrow> {});
          s2 = s1\<lparr>position_index := (position_index s1)(market \<mapsto> insert address idx)\<rparr>
      in update_position_index s2 market)"

definition remove_from_position_index :: "StateManager \<Rightarrow> u32 \<Rightarrow> Address \<Rightarrow> StateManager" where
  "remove_from_position_index s market address =
     (case position_index s market of
        None \<Rightarrow> s
      | Some addresses \<Rightarrow>
          (let rest = addresses - {address} in
           s\<lparr>position_index := (position_index s)
               (market := (if rest = {} then None else Some rest))\<rparr>))"

definition delete_position :: "StateManager \<Rightarrow> Address \<Rightarrow> u32 \<Rightarrow> StateManager" where
  "delete_position s address market =
     update_position_index
       (remove_from_position_index (sm_del s (StateKey_Position address market)) market address)
       market"

definition get_position_addresses :: "StateManager \<Rightarrow> u32 \<Rightarrow> StateError + Address set" where
  "get_position_addresses s market =
     (case position_index s market of
        Some addresses \<Rightarrow> Inr addresses
      | None \<Rightarrow> get_or_default as_addrs {} s (StateKey_PositionIndex market))"

definition get_all_positions_in_market ::
  "(Address set \<Rightarrow> Address list) \<Rightarrow> StateManager \<Rightarrow> u32 \<Rightarrow> StateError + (Address \<times> Position) list" where
  "get_all_positions_in_market addr_iter s market =
     bindE (get_position_addresses s market) (\<lambda>addresses.
       Inr (List.map_filter
         (\<lambda>a. case get_position s a market of
            Inr (Some p) \<Rightarrow> if pos_size p > 0 then Some (a, p) else None
          | _ \<Rightarrow> None)
         (addr_iter addresses)))"

subsection \<open>Orders, markets, funding and assets\<close>

definition get_order :: "StateManager \<Rightarrow> u64 \<Rightarrow> StateError + Order option" where
  "get_order s i = get_optional as_order s (StateKey_Order i)"

definition set_order :: "StateManager \<Rightarrow> u64 \<Rightarrow> Order \<Rightarrow> StateManager" where
  "set_order s i ord = sm_put s (StateKey_Order i) (VOrder ord)"

definition delete_order :: "StateManager \<Rightarrow> u64 \<Rightarrow> StateManager" where
  "delete_order s i = sm_del s (StateKey_Order i)"

definition add_to_list :: "StateManager \<Rightarrow> StateKey \<Rightarrow> u32 \<Rightarrow> (StateError + unit) \<times> StateManager" where
  "add_to_list s list_key i =
     bindR (get_or_default as_u32_list [] s list_key, s) (\<lambda>xs s.
       if i \<notin> set xs then (Inr (), sm_put s list_key (VU32List (xs @ [i]))) else (Inr (), s))"

definition get_market :: "StateManager \<Rightarrow> u32 \<Rightarrow> StateError + Market option" where
  "get_market s i = get_optional as_market s (StateKey_Market i)"

definition set_market :: "StateManager \<Rightarrow> u32 \<Rightarrow> Market \<Rightarrow> (StateError + unit) \<times> StateManager" where
  "set_market s i info = add_to_list (sm_put s (StateKey_Market i) (VMarket info)) StateKey_MarketList i"

definition list_all_markets :: "StateManager \<Rightarrow> StateError + u32 list" where
  "list_all_markets s = get_or_default as_u32_list [] s StateKey_MarketList"

definition get_funding_rate :: "StateManager \<Rightarrow> u32 \<Rightarrow> StateError + FundingRate" where
  "get_funding_rate s i = get_or_default as_funding default_funding_rate s (StateKey_FundingRate i)"

definition set_funding_rate :: "StateManager \<Rightarrow> u32 \<Rightarrow> FundingRate \<Rightarrow> StateManager" where
  "set_funding_rate s i rate = sm_put s (StateKey_FundingRate i) (VFunding rate)"

definition next_order_id :: "StateManager \<Rightarrow> (StateError + u64) \<times> StateManager" where
  "next_order_id s =
     bindR (get_or_default as_u64 0 s StateKey_NextOrderId, s) (\<lambda>current s.
     bindR (ok_or (StateError_Other ''Order ID counter overflow'') (checked_add current 1), s) (\<lambda>next s.
       (Inr current, sm_put s StateKey_NextOrderId (VU64 next))))"

definition is_bridge_operator :: "StateManager \<Rightarrow> Address \<Rightarrow> StateError + bool" where
  "is_bridge_operator s address = get_or_default as_bool False s (StateKey_BridgeOperator address)"

definition set_bridge_operator :: "StateManager \<Rightarrow> Address \<Rightarrow> bool \<Rightarrow> StateManager" where
  "set_bridge_operator s address is_operator =
     (if is_operator then sm_put s (StateKey_BridgeOperator address) (VBool True)
      else sm_del s (StateKey_BridgeOperator address))"

definition get_asset :: "StateManager \<Rightarrow> u32 \<Rightarrow> StateError + Asset option" where
  "get_asset s i = get_optional as_asset s (StateKey_AssetInfo i)"

definition set_asset :: "StateManager \<Rightarrow> u32 \<Rightarrow> Asset \<Rightarrow> (StateError + unit) \<times> StateManager" where
  "set_asset s i asset = add_to_list (sm_put s (StateKey_AssetInfo i) (VAsset asset)) StateKey_AssetList i"

definition list_all_assets :: "StateManager \<Rightarrow> StateError + u32 list" where
  "list_all_assets s = get_or_default as_u32_list [] s StateKey_AssetList"

definition rebuild_position_index :: "StateManager \<Rightarrow> (StateError + unit) \<times> StateManager" where
  "rebuild_position_index s =
     bindR (list_all_markets s, s) (\<lambda>markets s.
       (Inr (), s\<lparr>position_index := (\<lambda>m.
          if m \<in> set markets then
            (case get_optional as_addrs s (StateKey_PositionIndex m) of Inr x \<Rightarrow> x | Inl _ \<Rightarrow> None)
          else None)\<rparr>))"

subsection \<open>Active orders\<close>

definition get_active_orders_by_market :: "StateManager \<Rightarrow> u32 \<Rightarrow> StateError + u64 list" where
  "get_active_orders_by_market s market =
     get_or_default as_u64_list [] s (StateKey_ActiveOrderList market)"

definition add_active_order :: "StateManager \<Rightarrow> u32 \<Rightarrow> u64 \<Rightarrow> (StateError + unit) \<times> StateManager" where
  "add_active_order s market i =
     (let s1 = sm_put s (StateKey_ActiveOrder market i) (VBool True);
          list_key = StateKey_ActiveOrderList market in
      bindR (get_or_default as_u64_list [] s1 list_key, s1) (\<lambda>ids s.
        if i \<notin> set ids then (Inr (), sm_put s list_key (VU64List (ids @ [i]))) else (Inr (), s)))"

definition remove_active_order :: "StateManager \<Rightarrow> u32 \<Rightarrow> u64 \<Rightarrow> (StateError + unit) \<times> StateManager" where
  "remove_active_order s market i =
     (let s1 = sm_del s (StateKey_ActiveOrder market i);
          list_key = StateKey_ActiveOrderList market in
      bindR (get_or_default as_u64_list [] s1 list_key, s1) (\<lambda>ids s.
        (Inr (), sm_put s list_key (VU64List (filter (\<lambda>x. x \<noteq> i) ids)))))"

section \<open>index\_manager.rs\<close>

record PositionIndexManager =
  pim_index :: "u32 \<rightharpoonup> Address set"
  pim_storage :: typed_storage
  pim_version :: u64

definition new_position_index_manager :: "typed_storage \<Rightarrow> u64 \<Rightarrow> PositionIndexManager" where
  "new_position_index_manager st v = \<lparr>pim_index = Map.empty, pim_storage = st, pim_version = v\<rparr>"

definition persist_index :: "PositionIndexManager \<Rightarrow> u32 \<Rightarrow> PositionIndexManager" where
  "persist_index m market =
     m\<lparr>pim_storage := raw_set (pim_storage m) (StateKey_PositionIndex market)
        (VAddrs (case pim_index m market of Some a \<Rightarrow> a | None \<Rightarrow> {}))\<rparr>"

definition persist_or_delete_index :: "PositionIndexManager \<Rightarrow> u32 \<Rightarrow> PositionIndexManager" where
  "persist_or_delete_index m market =
     (case pim_index m market of
        Some a \<Rightarrow>
          m\<lparr>pim_storage := raw_set (pim_storage m) (StateKey_PositionIndex market) (VAddrs a)\<rparr>
      | None \<Rightarrow> m\<lparr>pim_storage := raw_delete (pim_storage m) (StateKey_PositionIndex market)\<rparr>)"

definition add_position :: "PositionIndexManager \<Rightarrow> u32 \<Rightarrow> Address \<Rightarrow> PositionIndexManager" where
  "add_position m market address =
     persist_index
       (m\<lparr>pim_index := (pim_index m)
            (market \<mapsto> insert address (case pim_index m market of Some a \<Rightarrow> a | None \<Rightarrow> {}))\<rparr>)
       market"

definition remove_entry :: "('k \<rightharpoonup> 'a set) \<Rightarrow> 'k \<Rightarrow> 'a \<Rightarrow> ('k \<rightharpoonup> 'a set)" where
  "remove_entry idx k a =
     (case idx k of
        None \<Rightarrow> idx
      | Some xs \<Rightarrow> idx(k := (if xs - {a} = {} then None else Some (xs - {a}))))"

definition remove_position :: "PositionIndexManager \<Rightarrow> u32 \<Rightarrow> Address \<Rightarrow> PositionIndexManager" where
  "remove_position m market address =
     persist_or_delete_index (m\<lparr>pim_index := remove_entry (pim_index m) market address\<rparr>) market"

definition pim_get_addresses :: "PositionIndexManager \<Rightarrow> u32 \<Rightarrow> Address set option" where
  "pim_get_addresses m market = pim_index m market"

definition pim_rebuild_from_state :: "PositionIndexManager \<Rightarrow> u32 list \<Rightarrow> PositionIndexManager" where
  "pim_rebuild_from_state m markets =
     m\<lparr>pim_index := (\<lambda>k. if k \<in> set markets then
          (case typed_get (pim_storage m) (pim_version m) as_addrs (StateKey_PositionIndex k) of
             Inr x \<Rightarrow> x | Inl _ \<Rightarrow> None)
        else None)\<rparr>"

record OrderIndexManager =
  oim_index :: "u32 \<rightharpoonup> u64 set"
  oim_storage :: typed_storage
  oim_version :: u64

definition new_order_index_manager :: "typed_storage \<Rightarrow> u64 \<Rightarrow> OrderIndexManager" where
  "new_order_index_manager st v = \<lparr>oim_index = Map.empty, oim_storage = st, oim_version = v\<rparr>"

definition persist_order_list :: "(u64 set \<Rightarrow> u64 list) \<Rightarrow> OrderIndexManager \<Rightarrow> u32 \<Rightarrow> OrderIndexManager" where
  "persist_order_list id_iter m market =
     m\<lparr>oim_storage := raw_set (oim_storage m) (StateKey_ActiveOrderList market)
        (VU64List (case oim_index m market of Some a \<Rightarrow> id_iter a | None \<Rightarrow> []))\<rparr>"

definition persist_or_delete_order_list ::
  "(u64 set \<Rightarrow> u64 list) \<Rightarrow> OrderIndexManager \<Rightarrow> u32 \<Rightarrow> OrderIndexManager" where
  "persist_or_delete_order_list id_iter m market =
     (case oim_index m market of
        Some a \<Rightarrow> m\<lparr>oim_storage :=
           raw_set (oim_storage m) (StateKey_ActiveOrderList market) (VU64List (id_iter a))\<rparr>
      | None \<Rightarrow> m\<lparr>oim_storage := raw_delete (oim_storage m) (StateKey_ActiveOrderList market)\<rparr>)"

definition oim_add_order :: "(u64 set \<Rightarrow> u64 list) \<Rightarrow> OrderIndexManager \<Rightarrow> u32 \<Rightarrow> u64 \<Rightarrow> OrderIndexManager" where
  "oim_add_order id_iter m market i =
     persist_order_list id_iter
       (m\<lparr>oim_index := (oim_index m)
            (market \<mapsto> insert i (case oim_index m market of Some a \<Rightarrow> a | None \<Rightarrow> {})),
          oim_storage := raw_set (oim_storage m) (StateKey_ActiveOrder market i) (VBool True)\<rparr>)
       market"

definition oim_remove_order :: "(u64 set \<Rightarrow> u64 list) \<Rightarrow> OrderIndexManager \<Rightarrow> u32 \<Rightarrow> u64 \<Rightarrow> OrderIndexManager" where
  "oim_remove_order id_iter m market i =
     persist_or_delete_order_list id_iter
       (m\<lparr>oim_index := remove_entry (oim_index m) market i,
          oim_storage := raw_delete (oim_storage m) (StateKey_ActiveOrder market i)\<rparr>)
       market"

definition oim_get_orders :: "(u64 set \<Rightarrow> u64 list) \<Rightarrow> OrderIndexManager \<Rightarrow> u32 \<Rightarrow> u64 list" where
  "oim_get_orders id_iter m market =
     (case oim_index m market of Some a \<Rightarrow> id_iter a | None \<Rightarrow> [])"

definition oim_rebuild_from_state :: "OrderIndexManager \<Rightarrow> u32 list \<Rightarrow> OrderIndexManager" where
  "oim_rebuild_from_state m markets =
     m\<lparr>oim_index := (\<lambda>k. if k \<in> set markets then
          (case typed_get (oim_storage m) (oim_version m) as_u64_list (StateKey_ActiveOrderList k) of
             Inr x \<Rightarrow> map_option set x | Inl _ \<Rightarrow> None)
        else None)\<rparr>"

section \<open>The state manager is a buffered store\<close>

definition sm_committed :: "StateManager \<Rightarrow> StateKey \<Rightarrow> state_value option" where
  "sm_committed s key = get_value_option (storage s) (version s) key"

lemma sm_get_put [simp]: "sm_get (sm_put s k x) = (sm_get s)(k \<mapsto> x)"
  by (simp add: fun_eq_iff sm_get_def sm_put_def raw_get_set)

lemma sm_get_del [simp]: "sm_get (sm_del s k) = (sm_get s)(k := sm_committed s k)"
  by (simp add: fun_eq_iff sm_get_def sm_del_def sm_committed_def raw_get_delete)

lemma sm_committed_buffered [simp]:
  "sm_committed (sm_put s k x) = sm_committed s"
  "sm_committed (sm_del s k) = sm_committed s"
  by (simp_all add: fun_eq_iff sm_committed_def sm_put_def sm_del_def get_value_option_buffered)

lemma sm_frame [simp]:
  "version (sm_put s k x) = version s" "version (sm_del s k) = version s"
  "position_index (sm_put s k x) = position_index s" "position_index (sm_del s k) = position_index s"
  by (simp_all add: sm_put_def sm_del_def)

lemma sm_get_index [simp]: "sm_get (s\<lparr>position_index := i\<rparr>) = sm_get s"
  by (simp add: fun_eq_iff sm_get_def)

lemma sm_committed_index [simp]: "sm_committed (s\<lparr>position_index := i\<rparr>) = sm_committed s"
  by (simp add: fun_eq_iff sm_committed_def)

interpretation sm: buffered_store sm_get sm_put sm_del sm_committed
  by unfold_locales simp_all

lemma get_optional_sm:
  "get_optional dec s k =
     (case sm_get s k of None \<Rightarrow> Inr None
      | Some x \<Rightarrow> (case dec x of Some a \<Rightarrow> Inr (Some a) | None \<Rightarrow> Inl decode_error))"
  by (simp add: get_optional_def typed_get_def sm_get_def)

lemma get_or_default_sm:
  "get_or_default dec d s k =
     (case sm_get s k of None \<Rightarrow> Inr d
      | Some x \<Rightarrow> (case dec x of Some a \<Rightarrow> Inr a | None \<Rightarrow> Inl decode_error))"
  by (simp add: get_or_default_def get_optional_sm split: option.splits)

text \<open>Every accessor in terms of the reads and writes of the store.\<close>

lemmas getter_defs =
  get_balance_def get_nonce_def get_position_def get_order_def get_market_def get_funding_rate_def
  is_bridge_operator_def get_asset_def list_all_markets_def list_all_assets_def
  get_active_orders_by_market_def

lemmas setter_defs =
  set_balance_def set_nonce_def set_order_def set_funding_rate_def set_bridge_operator_def
  delete_order_def

lemmas store_simps = getter_defs setter_defs get_optional_sm get_or_default_sm

section \<open>Typed cells\<close>

text \<open>
  The interface that the services use: a family of readable and writable cells.  Reading back a
  written cell succeeds with the written value; other cells keep theirs.
\<close>

locale cell =
  fixes read :: "'s \<Rightarrow> 'k \<Rightarrow> 'e + 'a"
    and "write" :: "'s \<Rightarrow> 'k \<Rightarrow> 'a \<Rightarrow> 's"
  assumes read_write: "read (write s k a) = (read s)(k := Inr a)"
begin

lemma read_write_same [simp]: "read (write s k a) k = Inr a"
  by (simp add: read_write)

lemma read_write_other [simp]: "k' \<noteq> k \<Longrightarrow> read (write s k a) k' = read s k'"
  by (simp add: read_write)

lemma write_write: "read (write (write s k a) k b) = read (write s k b)"
  by (simp add: read_write)

lemma write_commute:
  "k \<noteq> k' \<Longrightarrow> read (write (write s k a) k' b) = read (write (write s k' b) k a)"
  by (auto simp: read_write)

end

text \<open>A ledger is a family of unsigned cells; its total is over a finite set of accounts.  An
  unreadable cell counts as nothing.\<close>

locale ledger = cell read "write"
  for read :: "'s \<Rightarrow> 'k \<Rightarrow> 'e + u128" and "write" :: "'s \<Rightarrow> 'k \<Rightarrow> u128 \<Rightarrow> 's"
begin

definition held :: "'s \<Rightarrow> 'k \<Rightarrow> nat" where
  "held s k = (case read s k of Inr b \<Rightarrow> unat b | Inl _ \<Rightarrow> 0)"

definition total :: "'s \<Rightarrow> 'k set \<Rightarrow> nat" where
  "total s ks = sum (held s) ks"

lemma held_write: "held (write s k a) = (held s)(k := unat a)"
  by (auto simp: held_def read_write)

lemma total_write:
  assumes "finite ks"
  shows "total (write s k a) ks + (if k \<in> ks then held s k else 0) =
    total s ks + (if k \<in> ks then unat a else 0)"
proof (cases "k \<in> ks")
  case True
  have "sum (held (write s k a)) (ks - {k}) = sum (held s) (ks - {k})"
    by (rule sum.cong) (auto simp: held_write)
  then show ?thesis
    using True assms by (simp add: total_def held_write sum.remove [of ks k])
next
  case False
  then have "sum (held (write s k a)) ks = sum (held s) ks"
    by (intro sum.cong) (auto simp: held_write)
  with False show ?thesis by (simp add: total_def)
qed

text \<open>Moving an amount between two accounts keeps the total.\<close>

lemma total_move:
  assumes "finite ks" "from \<in> ks" "to \<in> ks" "from \<noteq> to"
    and "read s from = Inr a" "read s to = Inr b"
    and "unat a' + d = unat a" "unat b' = unat b + d"
  shows "total (write (write s from a') to b') ks = total s ks"
proof -
  have "total (write (write s from a') to b') ks + held (write s from a') to =
      total (write s from a') ks + unat b'"
    using total_write [OF assms(1), of "write s from a'" to b'] assms by simp
  moreover have "total (write s from a') ks + held s from = total s ks + unat a'"
    using total_write [OF assms(1), of s "from" a'] assms by simp
  ultimately show ?thesis
    using assms by (simp add: held_def)
qed

end

lemma get_balance_set [simp]:
  "get_balance (set_balance s a i b) a' i' = (if a' = a \<and> i' = i then Inr b else get_balance s a' i')"
  by (auto simp: store_simps)

lemma get_nonce_set [simp]:
  "get_nonce (set_nonce s a n) a' = (if a' = a then Inr n else get_nonce s a')"
  by (auto simp: store_simps)

lemma get_order_set [simp]:
  "get_order (set_order s i x) i' = (if i' = i then Inr (Some x) else get_order s i')"
  by (auto simp: store_simps)

lemma get_funding_rate_set [simp]:
  "get_funding_rate (set_funding_rate s i x) i' = (if i' = i then Inr x else get_funding_rate s i')"
  by (auto simp: store_simps)

interpretation balances: ledger "\<lambda>s. case_prod (get_balance s)" "\<lambda>s. case_prod (set_balance s)"
  by unfold_locales (auto simp: fun_eq_iff split: if_splits)

interpretation nonces: cell get_nonce set_nonce
  by unfold_locales (auto simp: fun_eq_iff)

interpretation funding_rates: cell get_funding_rate set_funding_rate
  by unfold_locales (auto simp: fun_eq_iff)

interpretation order_cells: cell "\<lambda>s i. bindE (get_order s i) (ok_or KeyNotFound)" set_order
  by unfold_locales (auto simp: fun_eq_iff)

section \<open>Well-typed stores\<close>

text \<open>Every key holds a value of its type, on disk and in the buffer; then no read fails.\<close>

fun key_accepts :: "StateKey \<Rightarrow> state_value \<Rightarrow> bool" where
  "key_accepts (StateKey_Balance _ _) x = (as_u128 x \<noteq> None)"
| "key_accepts (StateKey_Nonce _) x = (as_u64 x \<noteq> None)"
| "key_accepts (StateKey_Position _ _) x = (as_position x \<noteq> None)"
| "key_accepts (StateKey_Order _) x = (as_order x \<noteq> None)"
| "key_accepts (StateKey_Market _) x = (as_market x \<noteq> None)"
| "key_accepts (StateKey_FundingRate _) x = (as_funding x \<noteq> None)"
| "key_accepts StateKey_NextOrderId x = (as_u64 x \<noteq> None)"
| "key_accepts (StateKey_ActiveOrder _ _) x = (as_bool x \<noteq> None)"
| "key_accepts (StateKey_ActiveOrderList _) x = (as_u64_list x \<noteq> None)"
| "key_accepts StateKey_MarketList x = (as_u32_list x \<noteq> None)"
| "key_accepts (StateKey_PositionIndex _) x = (as_addrs x \<noteq> None)"
| "key_accepts (StateKey_LatestVersion _) x = (as_u64 x \<noteq> None)"
| "key_accepts (StateKey_BridgeOperator _) x = (as_bool x \<noteq> None)"
| "key_accepts (StateKey_AssetInfo _) x = (as_asset x \<noteq> None)"
| "key_accepts StateKey_AssetList x = (as_u32_list x \<noteq> None)"

definition typed_store :: "typed_storage \<Rightarrow> bool" where
  "typed_store st \<longleftrightarrow>
     (\<forall>k x. pending_updates st k = Some x \<longrightarrow> key_accepts k x) \<and>
     (\<forall>k v x. db_get_value st k v = Some x \<longrightarrow> key_accepts k x)"

abbreviation well_typed :: "StateManager \<Rightarrow> bool" where
  "well_typed s \<equiv> typed_store (storage s)"

lemma scan_back_Some: "scan_back f n = Some b \<Longrightarrow> \<exists>m\<le>n. f m = Some b"
  by (induction n) (auto split: option.splits intro: le_SucI)

lemma get_value_option_stored:
  "get_value_option st v k = Some x \<Longrightarrow> \<exists>w. db_get_value st k w = Some x"
  by (auto simp: get_value_option_def slow_scan_def split: option.splits if_splits dest!: scan_back_Some)

lemma typed_get_accepts: "typed_store st \<Longrightarrow> raw_get st k v = Some x \<Longrightarrow> key_accepts k x"
  by (auto simp: typed_store_def raw_get_def split: option.splits dest: get_value_option_stored)

lemma well_typed_get: "well_typed s \<Longrightarrow> sm_get s k = Some x \<Longrightarrow> key_accepts k x"
  by (auto simp: sm_get_def dest: typed_get_accepts)

lemma well_typed_put [simp]: "well_typed s \<Longrightarrow> key_accepts k x \<Longrightarrow> well_typed (sm_put s k x)"
  by (simp add: typed_store_def sm_put_def raw_set_def db_get_value_def)

lemma well_typed_del [simp]: "well_typed s \<Longrightarrow> well_typed (sm_del s k)"
  by (simp add: typed_store_def sm_del_def raw_delete_def db_get_value_def)

lemma well_typed_setters [simp]:
  assumes "well_typed s"
  shows "well_typed (set_balance s a i b)" "well_typed (set_nonce s a n)"
    "well_typed (set_order s o1 x)" "well_typed (set_funding_rate s m f)"
    "well_typed (set_bridge_operator s a op)" "well_typed (delete_order s o1)"
    "well_typed (set_position s a m p)" "well_typed (delete_position s a m)"
  using assms
  by (simp_all add: setter_defs set_position_def delete_position_def update_position_index_def
      remove_from_position_index_def Let_def split: option.splits)

lemma typed_reads:
  assumes "well_typed s"
  shows "is_ok (get_balance s a i)" "is_ok (get_nonce s a)" "is_ok (get_position s a m)"
    "is_ok (get_order s o1)" "is_ok (get_market s m)" "is_ok (get_funding_rate s m)"
    "is_ok (is_bridge_operator s a)" "is_ok (get_asset s i)" "is_ok (list_all_markets s)"
    "is_ok (list_all_assets s)" "is_ok (get_active_orders_by_market s m)"
  by (auto simp: store_simps split: option.splits dest!: well_typed_get [OF assms])

lemma commit_typed:
  assumes "typed_store st" "commit jmt it st v = (Inr root, st')" "iter_complete it" "storage_finite st"
  shows "typed_store st'"
  using assms(1) commit_success_reads [OF assms(2-4)]
  by (auto simp: typed_store_def split: if_splits)

section \<open>Positions and their index\<close>

lemma get_position_set:
  "get_position (set_position s a m p) a' m' =
     (if a' = a \<and> m' = m then Inr (Some p) else get_position s a' m')"
  by (auto simp: set_position_def update_position_index_def Let_def store_simps split: option.splits)

lemma position_index_set:
  "position_index (set_position s a m p) = (position_index s)
     (m \<mapsto> insert a (case position_index s m of Some x \<Rightarrow> x | None \<Rightarrow> {}))"
  by (auto simp: set_position_def update_position_index_def Let_def split: option.splits)

text \<open>Writing a position touches its own key and the stored index of its market only.\<close>

lemma set_position_frame:
  "k \<noteq> StateKey_Position a m \<Longrightarrow> k \<noteq> StateKey_PositionIndex m \<Longrightarrow>
     sm_get (set_position s a m p) k = sm_get s k"
  by (auto simp: set_position_def update_position_index_def Let_def split: option.splits)

lemma delete_position_frame:
  "k \<noteq> StateKey_Position a m \<Longrightarrow> k \<noteq> StateKey_PositionIndex m \<Longrightarrow>
     sm_get (delete_position s a m) k = sm_get s k"
  by (auto simp: delete_position_def remove_from_position_index_def update_position_index_def Let_def
      split: option.splits)

lemma get_position_delete:
  "get_position (delete_position s a m) a m =
     (case sm_committed s (StateKey_Position a m) of None \<Rightarrow> Inr None
      | Some x \<Rightarrow> (case as_position x of Some p \<Rightarrow> Inr (Some p) | None \<Rightarrow> Inl decode_error))"
  by (auto simp: delete_position_def remove_from_position_index_def update_position_index_def Let_def
      store_simps split: option.splits)

lemma stored_index_set:
  "sm_get (set_position s a m p) (StateKey_PositionIndex m) =
     Some (VAddrs (insert a (case position_index s m of Some x \<Rightarrow> x | None \<Rightarrow> {})))"
  by (auto simp: set_position_def update_position_index_def Let_def split: option.splits)

section \<open>Active orders\<close>

lemma add_active_order_ids:
  assumes "get_active_orders_by_market s m = Inr ids"
  shows "\<exists>s'. add_active_order s m i = (Inr (), s') \<and>
    get_active_orders_by_market s' m = Inr (if i \<in> set ids then ids else ids @ [i]) \<and>
    (\<forall>m'. m' \<noteq> m \<longrightarrow> get_active_orders_by_market s' m' = get_active_orders_by_market s m')"
  using assms by (auto simp: add_active_order_def Let_def store_simps split: option.splits)

lemma remove_active_order_ids:
  assumes "get_active_orders_by_market s m = Inr ids"
  shows "\<exists>s'. remove_active_order s m i = (Inr (), s') \<and>
    get_active_orders_by_market s' m = Inr (filter (\<lambda>x. x \<noteq> i) ids) \<and>
    (\<forall>m'. m' \<noteq> m \<longrightarrow> get_active_orders_by_market s' m' = get_active_orders_by_market s m')"
  using assms by (auto simp: remove_active_order_def Let_def store_simps split: option.splits)

section \<open>The state of an empty database\<close>

definition genesis_state :: StateManager where
  "genesis_state = new_state_manager (open_storage Map.empty [] default_pruning_config)"

lemma genesis_state_sel [simp]:
  "version genesis_state = 0" "position_index genesis_state = Map.empty"
  "pending_updates (storage genesis_state) = Map.empty" "db (storage genesis_state) = Map.empty"
  "sm_committed genesis_state k = None" "sm_get genesis_state k = None"
  by (simp_all add: genesis_state_def new_state_manager_def open_storage_def sm_committed_def sm_get_def
      raw_get_def get_value_option_def get_latest_version_def slow_scan_def db_get_value_def)

lemma well_typed_genesis [simp]: "well_typed genesis_state"
  by (simp add: typed_store_def db_get_value_def)

section \<open>Properties\<close>

text \<open>A market and a position for the examples.\<close>

definition sample_market :: Market where
  "sample_market = \<lparr>mkt_id = 0, mkt_symbol = ''BTC-PERP'', mkt_base_asset_id = 1, mkt_quote_asset_id = 0,
     mkt_tick_size = 10, mkt_price_decimals = 2, mkt_size_decimals = 6, mkt_min_order_size = 1,
     mkt_max_order_size = 1000, mkt_max_leverage = 20, mkt_maintenance_margin_bps = 500,
     mkt_initial_margin_bps = 1000, mkt_liquidation_fee_bps = 100, mkt_funding_interval = 3600,
     mkt_max_funding_rate_bps = 100\<rparr>"

definition sample_position :: Position where
  "sample_position = \<lparr>pos_size = 10, pos_entry_price = 100, pos_is_long = True, pos_margin = 100,
     pos_funding_index = 0\<rparr>"

definition market_state :: StateManager where
  "market_state = sm_put genesis_state (StateKey_Market 0) (VMarket sample_market)"

lemma market_state_reads [simp]:
  "get_market market_state 0 = Inr (Some sample_market)" "get_balance market_state a i = Inr 0"
  "get_position market_state a m = Inr None" "get_order market_state j = Inr None"
  "sm_committed market_state k = None" "well_typed market_state"
  by (simp_all add: market_state_def store_simps)



text \<open>Deleting a position that was committed does not delete it: the pending entry is dropped
  and the committed value is read again.  A position that was never committed is gone.\<close>

lemma deleted_position_returns:
  assumes "well_typed s"
  shows "get_position (delete_position s a m) a m =
    Inr (case sm_committed s (StateKey_Position a m) of Some (VPosition p) \<Rightarrow> Some p | _ \<Rightarrow> None)"
proof -
  have "key_accepts (StateKey_Position a m) x" if "sm_committed s (StateKey_Position a m) = Some x" for x
    using that assms get_value_option_stored by (metis sm_committed_def typed_store_def)
  then show ?thesis
    by (auto simp: get_position_delete split: option.splits state_value.splits)
qed

end
