(* ===== verification/Transactions.thy ===== *)
theory Transactions
  imports State_Manager
begin

text \<open>
  \<open>crates/tx/src/lib.rs\<close> and \<open>error.rs\<close>, with \<open>crates/state/src/access.rs\<close>: transactions,
  their two signing hashes (EIP-712 for users, Borsh for agents), the encoders of the EIP-712
  data, the size guard of decoding, and the state accesses a transaction declares.

  SHA-256, Keccak-256 and the Borsh serialiser are arguments (\<open>tx_codec\<close>).  A string is the
  list of its UTF-8 bytes, and byte arrays are lists of \<open>u8\<close>.
\<close>

section \<open>Model\<close>

datatype TxError =
    TxError_DecodeError string
  | TxError_EncodeError string
  | TxError_InvalidSignature
  | TxError_InvalidNonce u64 u64
  | TxError_InsufficientBalance string string
  | TxError_OrderNotFound string
  | TxError_PositionNotFound string
  | TxError_InvalidOrderParams string
  | TxError_AgentNotAuthorized
  | TxError_SelfTrade
  | TxError_MarketNotFound string
  | TxError_PostOnlyWouldTake
  | TxError_ReduceOnlyWouldIncrease
  | TxError_Other string

record TypedDataDomain =
  dom_name :: string
  dom_version :: string
  dom_chain_id :: "256 word"
  dom_verifying_contract :: "Address option"

definition default_domain :: TypedDataDomain where
  "default_domain = \<lparr>dom_name = ''Pranklin'', dom_version = ''1'', dom_chain_id = 1337,
                     dom_verifying_contract = None\<rparr>"

definition new_domain :: "string \<Rightarrow> string \<Rightarrow> u64 \<Rightarrow> TypedDataDomain" where
  "new_domain name ver chain_id = \<lparr>dom_name = name, dom_version = ver,
     dom_chain_id = ucast chain_id, dom_verifying_contract = None\<rparr>"

datatype TxSignature =
    TxSignature_EIP712 TypedDataDomain "u8 list"
  | TxSignature_RawBorsh "u8 list"

record DepositTx =
  dep_amount :: u128
  dep_asset_id :: u32

record WithdrawTx =
  wd_amount :: u128
  wd_asset_id :: u32
  wd_to :: Address

record PlaceOrderTx =
  po_market_id :: u32
  po_is_buy :: bool
  po_order_type :: OrderType
  po_price :: u64
  po_size :: u64
  po_time_in_force :: TimeInForce
  po_reduce_only :: bool
  po_post_only :: bool

record CancelOrderTx =
  co_order_id :: u64

record ModifyOrderTx =
  mo_order_id :: u64
  mo_new_price :: u64
  mo_new_size :: u64

record ClosePositionTx =
  cp_market_id :: u32
  cp_size :: u64

record SetAgentTx =
  sa_agent :: Address
  sa_permissions :: u64

record RemoveAgentTx =
  ra_agent :: Address

record TransferTx =
  tr_to :: Address
  tr_amount :: u128
  tr_asset_id :: u32

record BridgeDepositTx =
  bd_user :: Address
  bd_amount :: u128
  bd_asset_id :: u32
  bd_external_tx_hash :: B256

record BridgeWithdrawTx =
  bw_user :: Address
  bw_amount :: u128
  bw_asset_id :: u32
  bw_destination :: Address
  bw_external_tx_hash :: B256

datatype TxPayload =
    TxPayload_Deposit DepositTx
  | TxPayload_Withdraw WithdrawTx
  | TxPayload_PlaceOrder PlaceOrderTx
  | TxPayload_CancelOrder CancelOrderTx
  | TxPayload_ModifyOrder ModifyOrderTx
  | TxPayload_ClosePosition ClosePositionTx
  | TxPayload_SetAgent SetAgentTx
  | TxPayload_RemoveAgent RemoveAgentTx
  | TxPayload_Transfer TransferTx
  | TxPayload_BridgeDeposit BridgeDepositTx
  | TxPayload_BridgeWithdraw BridgeWithdrawTx

record Transaction =
  tx_nonce :: u64
  tx_from :: Address
  tx_payload :: TxPayload
  tx_signature :: TxSignature

record tx_codec =
  keccak256 :: "u8 list \<Rightarrow> B256"
  sha256 :: "u8 list \<Rightarrow> B256"
  borsh_payload :: "TxPayload \<Rightarrow> u8 list"
  borsh_tx :: "Transaction \<Rightarrow> u8 list"
  borsh_from_slice :: "u8 list \<Rightarrow> string + Transaction"

subsection \<open>Constructors and signatures\<close>

definition new_raw :: "u64 \<Rightarrow> Address \<Rightarrow> TxPayload \<Rightarrow> Transaction" where
  "new_raw n sender p = \<lparr>tx_nonce = n, tx_from = sender, tx_payload = p,
     tx_signature = TxSignature_RawBorsh (replicate 65 0)\<rparr>"

definition new_eip712_with_domain ::
  "u64 \<Rightarrow> Address \<Rightarrow> TxPayload \<Rightarrow> TypedDataDomain \<Rightarrow> Transaction" where
  "new_eip712_with_domain n sender p domain = \<lparr>tx_nonce = n, tx_from = sender, tx_payload = p,
     tx_signature = TxSignature_EIP712 domain (replicate 65 0)\<rparr>"

definition new_eip712 :: "u64 \<Rightarrow> Address \<Rightarrow> TxPayload \<Rightarrow> Transaction" where
  "new_eip712 n sender p = new_eip712_with_domain n sender p default_domain"

fun sig_bytes :: "TxSignature \<Rightarrow> u8 list" where
  "sig_bytes (TxSignature_RawBorsh b) = b"
| "sig_bytes (TxSignature_EIP712 _ b) = b"

fun set_sig_bytes :: "TxSignature \<Rightarrow> u8 list \<Rightarrow> TxSignature" where
  "set_sig_bytes (TxSignature_RawBorsh _) b = TxSignature_RawBorsh b"
| "set_sig_bytes (TxSignature_EIP712 d _) b = TxSignature_EIP712 d b"

definition with_signature :: "Transaction \<Rightarrow> u8 list \<Rightarrow> Transaction" where
  "with_signature t b = t\<lparr>tx_signature := set_sig_bytes (tx_signature t) b\<rparr>"

definition signature_bytes :: "Transaction \<Rightarrow> u8 list" where
  "signature_bytes t = sig_bytes (tx_signature t)"

subsection \<open>Byte encodings\<close>

definition be_bytes :: "nat \<Rightarrow> 'a::len word \<Rightarrow> u8 list" where
  "be_bytes n x = map (\<lambda>i. ucast (drop_bit (8 * (n - 1 - i)) x)) [0..<n]"

definition le_bytes :: "nat \<Rightarrow> 'a::len word \<Rightarrow> u8 list" where
  "le_bytes n x = rev (be_bytes n x)"

definition string_bytes :: "string \<Rightarrow> u8 list" where
  "string_bytes s = map of_char s"

definition address_as_bytes32 :: "Address \<Rightarrow> u8 list" where
  "address_as_bytes32 a = replicate 12 0 @ be_bytes 20 a"

definition uint_as_bytes32 :: "'a::len word \<Rightarrow> u8 list" where
  "uint_as_bytes32 x = be_bytes 32 (ucast x :: 256 word)"

definition bool_as_bytes32 :: "bool \<Rightarrow> u8 list" where
  "bool_as_bytes32 b = uint_as_bytes32 (if b then 1 else 0 :: u8)"

fun order_type_u8 :: "OrderType \<Rightarrow> u8" where
  "order_type_u8 OrderType_Market = 0"
| "order_type_u8 OrderType_Limit = 1"
| "order_type_u8 OrderType_StopMarket = 2"
| "order_type_u8 OrderType_StopLimit = 3"
| "order_type_u8 OrderType_TakeProfitMarket = 4"
| "order_type_u8 OrderType_TakeProfitLimit = 5"

fun time_in_force_u8 :: "TimeInForce \<Rightarrow> u8" where
  "time_in_force_u8 GTC = 0"
| "time_in_force_u8 IOC = 1"
| "time_in_force_u8 FOK = 2"
| "time_in_force_u8 PostOnly = 3"

subsection \<open>EIP-712\<close>

definition domain_data :: "tx_codec \<Rightarrow> TypedDataDomain \<Rightarrow> u8 list" where
  "domain_data c d =
     be_bytes 32 (keccak256 c (string_bytes ''EIP712Domain(string name,string version,uint256 chainId)'')) @
     be_bytes 32 (keccak256 c (string_bytes (dom_name d))) @
     be_bytes 32 (keccak256 c (string_bytes (dom_version d))) @
     be_bytes 32 (dom_chain_id d)"

definition domain_hash :: "tx_codec \<Rightarrow> TypedDataDomain \<Rightarrow> B256" where
  "domain_hash c d = keccak256 c (domain_data c d)"

fun eip712_type_string :: "TxPayload \<Rightarrow> string" where
  "eip712_type_string (TxPayload_Deposit _) =
     ''Deposit(uint64 nonce,address from,uint128 amount,uint32 assetId)''"
| "eip712_type_string (TxPayload_Withdraw _) =
     ''Withdraw(uint64 nonce,address from,uint128 amount,uint32 assetId,address to)''"
| "eip712_type_string (TxPayload_PlaceOrder _) =
     ''PlaceOrder(uint64 nonce,address from,uint32 marketId,bool isBuy,uint8 orderType,uint64 price,uint64 size,uint8 timeInForce,bool reduceOnly,bool postOnly)''"
| "eip712_type_string (TxPayload_CancelOrder _) =
     ''CancelOrder(uint64 nonce,address from,uint64 orderId)''"
| "eip712_type_string (TxPayload_Transfer _) =
     ''Transfer(uint64 nonce,address from,address to,uint128 amount,uint32 assetId)''"
| "eip712_type_string _ = ''GenericTx(uint64 nonce,address from,bytes payload)''"

definition eip712_type_hash :: "tx_codec \<Rightarrow> TxPayload \<Rightarrow> B256" where
  "eip712_type_hash c p = keccak256 c (string_bytes (eip712_type_string p))"

text \<open>\<open>Eip712DataEncoder\<close>: the fields after \<open>nonce\<close> and \<open>from\<close>, each as 32 bytes.\<close>

fun eip712_fields :: "tx_codec \<Rightarrow> TxPayload \<Rightarrow> u8 list list" where
  "eip712_fields c (TxPayload_Deposit d) =
     [uint_as_bytes32 (dep_amount d), uint_as_bytes32 (dep_asset_id d)]"
| "eip712_fields c (TxPayload_Withdraw w) =
     [uint_as_bytes32 (wd_amount w), uint_as_bytes32 (wd_asset_id w), address_as_bytes32 (wd_to w)]"
| "eip712_fields c (TxPayload_PlaceOrder x) =
     [uint_as_bytes32 (po_market_id x), bool_as_bytes32 (po_is_buy x),
      uint_as_bytes32 (order_type_u8 (po_order_type x)), uint_as_bytes32 (po_price x),
      uint_as_bytes32 (po_size x), uint_as_bytes32 (time_in_force_u8 (po_time_in_force x)),
      bool_as_bytes32 (po_reduce_only x), bool_as_bytes32 (po_post_only x)]"
| "eip712_fields c (TxPayload_CancelOrder x) = [uint_as_bytes32 (co_order_id x)]"
| "eip712_fields c (TxPayload_Transfer t) =
     [address_as_bytes32 (tr_to t), uint_as_bytes32 (tr_amount t), uint_as_bytes32 (tr_asset_id t)]"
| "eip712_fields c p = [be_bytes 32 (keccak256 c (borsh_payload c p))]"

definition eip712_data :: "tx_codec \<Rightarrow> TxPayload \<Rightarrow> u64 \<Rightarrow> Address \<Rightarrow> u8 list" where
  "eip712_data c p n sender =
     uint_as_bytes32 n @ address_as_bytes32 sender @ concat (eip712_fields c p)"

definition eip712_encode_data :: "tx_codec \<Rightarrow> TxPayload \<Rightarrow> u64 \<Rightarrow> Address \<Rightarrow> B256" where
  "eip712_encode_data c p n sender = keccak256 c (eip712_data c p n sender)"

definition struct_hash_data :: "tx_codec \<Rightarrow> Transaction \<Rightarrow> u8 list" where
  "struct_hash_data c t =
     be_bytes 32 (eip712_type_hash c (tx_payload t)) @
     be_bytes 32 (eip712_encode_data c (tx_payload t) (tx_nonce t) (tx_from t))"

definition final_data :: "tx_codec \<Rightarrow> Transaction \<Rightarrow> TypedDataDomain \<Rightarrow> u8 list" where
  "final_data c t d =
     [0x19, 0x01] @ be_bytes 32 (domain_hash c d) @ be_bytes 32 (keccak256 c (struct_hash_data c t))"

definition eip712_signing_hash :: "tx_codec \<Rightarrow> Transaction \<Rightarrow> TypedDataDomain \<Rightarrow> B256" where
  "eip712_signing_hash c t d = keccak256 c (final_data c t d)"

subsection \<open>Hashes and decoding\<close>

definition raw_signing_data :: "tx_codec \<Rightarrow> Transaction \<Rightarrow> u8 list" where
  "raw_signing_data c t =
     le_bytes 8 (tx_nonce t) @ be_bytes 20 (tx_from t) @ borsh_payload c (tx_payload t)"

definition raw_signing_hash :: "tx_codec \<Rightarrow> Transaction \<Rightarrow> B256" where
  "raw_signing_hash c t = sha256 c (raw_signing_data c t)"

definition signing_hash :: "tx_codec \<Rightarrow> Transaction \<Rightarrow> B256" where
  "signing_hash c t =
     (case tx_signature t of
        TxSignature_RawBorsh _ \<Rightarrow> raw_signing_hash c t
      | TxSignature_EIP712 domain _ \<Rightarrow> eip712_signing_hash c t domain)"

definition tx_hash :: "tx_codec \<Rightarrow> Transaction \<Rightarrow> B256" where
  "tx_hash c t = sha256 c (borsh_tx c t)"

definition MAX_TX_SIZE :: nat where
  "MAX_TX_SIZE = 100000"

definition decode_tx :: "tx_codec \<Rightarrow> u8 list \<Rightarrow> TxError + Transaction" where
  "decode_tx c data =
     (if length data > MAX_TX_SIZE then Inl (TxError_Other ''Transaction too large'')
      else map_err TxError_DecodeError (borsh_from_slice c data))"

subsection \<open>Declared state accesses\<close>

datatype StateAccess =
    StateAccess_Balance Address u32
  | StateAccess_Nonce Address
  | StateAccess_Position Address u32
  | StateAccess_Order u64
  | StateAccess_OrderList u32
  | StateAccess_Market u32
  | StateAccess_FundingRate u32
  | StateAccess_AssetInfo u32
  | StateAccess_BridgeOperator Address

datatype AccessMode = AccessMode_Read | AccessMode_Write

definition balance_with_asset :: "Address \<Rightarrow> u32 \<Rightarrow> (StateAccess \<times> AccessMode) list" where
  "balance_with_asset a i =
     [(StateAccess_Balance a i, AccessMode_Write), (StateAccess_AssetInfo i, AccessMode_Read)]"

definition declare_accesses :: "Transaction \<Rightarrow> (StateAccess \<times> AccessMode) list" where
  "declare_accesses t =
     (let sender = tx_from t in
      (StateAccess_Nonce sender, AccessMode_Write) #
      (case tx_payload t of
         TxPayload_Deposit d \<Rightarrow> balance_with_asset sender (dep_asset_id d)
       | TxPayload_Withdraw w \<Rightarrow> balance_with_asset sender (wd_asset_id w)
       | TxPayload_PlaceOrder x \<Rightarrow>
           [(StateAccess_Balance sender 0, AccessMode_Write),
            (StateAccess_Position sender (po_market_id x), AccessMode_Write),
            (StateAccess_OrderList (po_market_id x), AccessMode_Write),
            (StateAccess_Market (po_market_id x), AccessMode_Read),
            (StateAccess_FundingRate (po_market_id x), AccessMode_Read)]
       | TxPayload_CancelOrder x \<Rightarrow> [(StateAccess_Order (co_order_id x), AccessMode_Write)]
       | TxPayload_ModifyOrder x \<Rightarrow> [(StateAccess_Order (mo_order_id x), AccessMode_Write)]
       | TxPayload_ClosePosition x \<Rightarrow>
           [(StateAccess_Position sender (cp_market_id x), AccessMode_Write),
            (StateAccess_OrderList (cp_market_id x), AccessMode_Write),
            (StateAccess_Market (cp_market_id x), AccessMode_Read)]
       | TxPayload_SetAgent _ \<Rightarrow> []
       | TxPayload_RemoveAgent _ \<Rightarrow> []
       | TxPayload_Transfer x \<Rightarrow>
           [(StateAccess_Balance sender (tr_asset_id x), AccessMode_Write),
            (StateAccess_Balance (tr_to x) (tr_asset_id x), AccessMode_Write),
            (StateAccess_AssetInfo (tr_asset_id x), AccessMode_Read)]
       | TxPayload_BridgeDeposit x \<Rightarrow>
           (StateAccess_BridgeOperator sender, AccessMode_Read) #
           balance_with_asset (bd_user x) (bd_asset_id x)
       | TxPayload_BridgeWithdraw x \<Rightarrow>
           (StateAccess_BridgeOperator sender, AccessMode_Read) #
           balance_with_asset (bw_user x) (bw_asset_id x)))"

section \<open>Encodings are injective\<close>

lemma length_be_bytes [simp]: "length (be_bytes n x) = n"
  by (simp add: be_bytes_def)

lemma be_bytes_inj:
  fixes x y :: "'a::len word"
  assumes "be_bytes n x = be_bytes n y" "LENGTH('a) \<le> 8 * n"
  shows "x = y"
proof (rule bit_eqI)
  fix k
  assume "possible_bit TYPE('a word) k"
  then have "k < LENGTH('a)" by simp
  then have k: "k div 8 < n" using assms(2) by linarith
  let ?i = "n - 1 - k div 8"
  have i: "?i < n" "8 * (n - 1 - ?i) = 8 * (k div 8)" using k by auto
  have "(ucast (drop_bit (8 * (k div 8)) x) :: u8) = ucast (drop_bit (8 * (k div 8)) y)"
    using arg_cong [OF assms(1), of "\<lambda>l. l ! ?i"] i by (simp add: be_bytes_def)
  then have "bit (ucast (drop_bit (8 * (k div 8)) x) :: u8) (k mod 8) =
      bit (ucast (drop_bit (8 * (k div 8)) y) :: u8) (k mod 8)"
    by simp
  then show "bit x k = bit y k"
    by (simp add: bit_ucast_iff bit_drop_bit_eq)
qed

lemma ucast_up_inj: "LENGTH('a) \<le> LENGTH('b) \<Longrightarrow> (ucast x :: 'b::len word) = ucast y \<Longrightarrow> x = y"
  for x y :: "'a::len word"
  by (metis is_up.rep_eq source_size target_size ucast_up_ucast_id)

lemma uint_as_bytes32_inj:
  "LENGTH('a) \<le> 256 \<Longrightarrow> uint_as_bytes32 x = uint_as_bytes32 y \<longleftrightarrow> x = y" for x y :: "'a::len word"
  using be_bytes_inj [of 32 "ucast x :: 256 word" "ucast y"] ucast_up_inj [where 'b = 256, of x y]
  by (auto simp: uint_as_bytes32_def)

lemma length_bytes32 [simp]:
  "length (uint_as_bytes32 x) = 32" "length (address_as_bytes32 a) = 32"
  "length (bool_as_bytes32 b) = 32"
  by (simp_all add: uint_as_bytes32_def address_as_bytes32_def bool_as_bytes32_def)

lemma address_as_bytes32_inj: "address_as_bytes32 a = address_as_bytes32 b \<longleftrightarrow> a = b"
  using be_bytes_inj [of 20 a b] by (auto simp: address_as_bytes32_def)

lemma bool_as_bytes32_inj: "bool_as_bytes32 a = bool_as_bytes32 b \<longleftrightarrow> a = b"
  by (auto simp: bool_as_bytes32_def uint_as_bytes32_inj)

lemma order_type_u8_inj: "order_type_u8 a = order_type_u8 b \<longleftrightarrow> a = b"
  by (cases a; cases b) simp_all

lemma time_in_force_u8_inj: "time_in_force_u8 a = time_in_force_u8 b \<longleftrightarrow> a = b"
  by (cases a; cases b) simp_all

lemmas bytes32_inj =
  uint_as_bytes32_inj address_as_bytes32_inj bool_as_bytes32_inj order_type_u8_inj time_in_force_u8_inj

lemma be_bytes32_inj: "be_bytes 32 x = be_bytes 32 y \<longleftrightarrow> x = y" for x y :: B256
  using be_bytes_inj [of 32 x y] by auto

lemma le_bytes8_inj: "le_bytes 8 x = le_bytes 8 y \<longleftrightarrow> x = y" for x y :: u64
  using be_bytes_inj [of 8 x y] by (auto simp: le_bytes_def)

lemma length_le_bytes [simp]: "length (le_bytes n x) = n"
  by (simp add: le_bytes_def)

text \<open>The bytes an agent signs determine the nonce, the sender and the payload.\<close>

lemma raw_signing_data_inj:
  assumes "inj_on (borsh_payload c) {tx_payload t, tx_payload t'}"
    and "raw_signing_data c t = raw_signing_data c t'"
  shows "tx_nonce t = tx_nonce t' \<and> tx_from t = tx_from t' \<and> tx_payload t = tx_payload t'"
  using assms be_bytes_inj [of 20 "tx_from t" "tx_from t'"]
  by (auto simp: raw_signing_data_def le_bytes8_inj dest: inj_onD)

section \<open>What a signature commits to\<close>

text \<open>
  Keccak-256 has collisions, so no statement can assume it injective.  The strings a signing
  hash feeds to Keccak-256 are finitely many; what is assumed is that none of those collide.
\<close>

fun generic_payload :: "TxPayload \<Rightarrow> bool" where
  "generic_payload (TxPayload_Deposit _) = False"
| "generic_payload (TxPayload_Withdraw _) = False"
| "generic_payload (TxPayload_PlaceOrder _) = False"
| "generic_payload (TxPayload_CancelOrder _) = False"
| "generic_payload (TxPayload_Transfer _) = False"
| "generic_payload _ = True"

definition hashed_strings :: "tx_codec \<Rightarrow> Transaction \<Rightarrow> TypedDataDomain \<Rightarrow> u8 list set" where
  "hashed_strings c t d =
     {final_data c t d, struct_hash_data c t,
      eip712_data c (tx_payload t) (tx_nonce t) (tx_from t),
      string_bytes (eip712_type_string (tx_payload t)), borsh_payload c (tx_payload t)}"

lemma string_bytes_inj: "string_bytes s = string_bytes s' \<longleftrightarrow> s = s'"
proof -
  have unat_char: "unat (of_char a :: u8) = of_char a" for a
    by (subst of_nat_of_char [symmetric]) (simp add: unat_of_nat)
  have "inj (of_char :: char \<Rightarrow> u8)"
    by (rule injI) (metis unat_char of_char_eqI)
  then show ?thesis
    by (auto simp: string_bytes_def dest: map_injective)
qed

lemma type_string_generic:
  "eip712_type_string p = ''GenericTx(uint64 nonce,address from,bytes payload)'' \<longleftrightarrow> generic_payload p"
  by (cases p) simp_all

lemma eip712_fields_generic:
  "generic_payload p \<Longrightarrow> eip712_fields c p = [be_bytes 32 (keccak256 c (borsh_payload c p))]"
  by (cases p) simp_all

text \<open>Within one EIP-712 type, the encoded fields determine the payload.\<close>

lemma eip712_fields_inj:
  assumes "eip712_type_string p = eip712_type_string p'"
    and "concat (eip712_fields c p) = concat (eip712_fields c p')"
    and "inj_on (keccak256 c) {borsh_payload c p, borsh_payload c p'}"
    and "inj_on (borsh_payload c) {p, p'}"
  shows "p = p'"
proof (cases "generic_payload p")
  case True
  then have "generic_payload p'"
    using assms(1) by (metis type_string_generic)
  with True assms(2-4) show ?thesis
    by (auto simp: eip712_fields_generic be_bytes32_inj dest: inj_onD)
next
  case False
  with assms(1,2) show ?thesis
    by (cases p; cases p') (auto simp: bytes32_inj)
qed

lemma eip712_data_inj:
  assumes "eip712_data c p n a = eip712_data c p' n' a'"
    and "eip712_type_string p = eip712_type_string p'"
    and "inj_on (keccak256 c) {borsh_payload c p, borsh_payload c p'}"
    and "inj_on (borsh_payload c) {p, p'}"
  shows "n = n' \<and> a = a' \<and> p = p'"
  using assms eip712_fields_inj [OF assms(2) _ assms(3,4)]
  by (auto simp: eip712_data_def bytes32_inj)

lemma eip712_signing_hash_binds:
  assumes "eip712_signing_hash c t d = eip712_signing_hash c t' d'"
    and inj: "inj_on (keccak256 c) (hashed_strings c t d \<union> hashed_strings c t' d')"
    and borsh: "inj_on (borsh_payload c) {tx_payload t, tx_payload t'}"
  shows "tx_nonce t = tx_nonce t' \<and> tx_from t = tx_from t' \<and> tx_payload t = tx_payload t' \<and>
    domain_hash c d = domain_hash c d'"
proof -
  note D = inj_onD [OF inj]
  have final: "final_data c t d = final_data c t' d'"
    using assms(1) by (intro D) (simp_all add: eip712_signing_hash_def hashed_strings_def)
  then have dom: "domain_hash c d = domain_hash c d'"
    and "keccak256 c (struct_hash_data c t) = keccak256 c (struct_hash_data c t')"
    by (simp_all add: final_data_def be_bytes32_inj)
  then have "struct_hash_data c t = struct_hash_data c t'"
    by (intro D) (simp_all add: hashed_strings_def)
  then have ty: "eip712_type_hash c (tx_payload t) = eip712_type_hash c (tx_payload t')"
    and data: "eip712_encode_data c (tx_payload t) (tx_nonce t) (tx_from t) =
        eip712_encode_data c (tx_payload t') (tx_nonce t') (tx_from t')"
    by (simp_all add: struct_hash_data_def be_bytes32_inj)
  have "string_bytes (eip712_type_string (tx_payload t)) =
      string_bytes (eip712_type_string (tx_payload t'))"
    using ty by (intro D) (simp_all add: eip712_type_hash_def hashed_strings_def)
  moreover have "eip712_data c (tx_payload t) (tx_nonce t) (tx_from t) =
      eip712_data c (tx_payload t') (tx_nonce t') (tx_from t')"
    using data by (intro D) (simp_all add: eip712_encode_data_def hashed_strings_def)
  moreover have "inj_on (keccak256 c)
      {borsh_payload c (tx_payload t), borsh_payload c (tx_payload t')}"
    by (rule inj_on_subset [OF inj]) (auto simp: hashed_strings_def)
  ultimately show ?thesis
    using eip712_data_inj [OF _ _ _ borsh] dom by (simp add: string_bytes_inj)
qed

lemma signing_hash_with_signature: "signing_hash c (with_signature t b) = signing_hash c t"
  by (cases "tx_signature t")
    (simp_all add: signing_hash_def with_signature_def raw_signing_hash_def raw_signing_data_def
      eip712_signing_hash_def final_data_def struct_hash_data_def)

lemma decode_encode:
  assumes "borsh_from_slice c (borsh_tx c t) = Inr t" "length (borsh_tx c t) \<le> MAX_TX_SIZE"
  shows "decode_tx c (borsh_tx c t) = Inr t"
  using assms by (simp add: decode_tx_def)

section \<open>Properties\<close>

text \<open>C37: Two EIP-712 transactions with the same signing hash have the same nonce, sender and payload
  and the same domain hash, unless Keccak-256 collides on the strings hashed for them or two
  payloads have one Borsh encoding.  The domain hash does not cover the verifying contract.\<close>

theorem eip712_signature_binds:
  assumes "eip712_signing_hash c t d = eip712_signing_hash c t' d'"
    and "inj_on (keccak256 c) (hashed_strings c t d \<union> hashed_strings c t' d')"
    and "inj_on (borsh_payload c) {tx_payload t, tx_payload t'}"
  shows "tx_nonce t = tx_nonce t' \<and> tx_from t = tx_from t' \<and> tx_payload t = tx_payload t' \<and>
    domain_hash c d = domain_hash c d' \<and>
    domain_hash c (d\<lparr>dom_verifying_contract := v\<rparr>) = domain_hash c d"
  using eip712_signing_hash_binds [OF assms] by (simp add: domain_hash_def domain_data_def)

definition length_codec :: tx_codec where
  "length_codec = \<lparr>keccak256 = (\<lambda>b. of_nat (length b)), sha256 = (\<lambda>b. of_nat (length b)),
     borsh_payload = (\<lambda>_. []), borsh_tx = (\<lambda>t. [ucast (tx_nonce t)]),
     borsh_from_slice = (\<lambda>b. Inr (new_raw (ucast (hd b)) 7 (TxPayload_CancelOrder \<lparr>co_order_id = 3\<rparr>)))\<rparr>"

definition cancel_tx :: Transaction where
  "cancel_tx = new_raw 5 7 (TxPayload_CancelOrder \<lparr>co_order_id = 3\<rparr>)"

theorem eip712_signature_binds_witness:
  "domain_hash length_codec default_domain =
     domain_hash length_codec (default_domain\<lparr>dom_verifying_contract := Some 9\<rparr>)"
proof -
  let ?d = "default_domain" and ?d' = "default_domain\<lparr>dom_verifying_contract := Some 9\<rparr>"
  have same: "final_data length_codec cancel_tx ?d' = final_data length_codec cancel_tx ?d"
    by (simp add: final_data_def domain_hash_def domain_data_def)
  then have hash: "eip712_signing_hash length_codec cancel_tx ?d = eip712_signing_hash length_codec cancel_tx ?d'"
    by (simp add: eip712_signing_hash_def)
  have lens: "length (final_data c t d) = 66" "length (struct_hash_data c t) = 64" for c t d
    by (simp_all add: final_data_def struct_hash_data_def)
  have data: "length (eip712_data c (tx_payload cancel_tx) n a) = 96"
    "length (string_bytes (eip712_type_string (tx_payload cancel_tx))) = 53" for c n a
    by (simp_all add: eip712_data_def cancel_tx_def new_raw_def string_bytes_def)
  have "inj_on (keccak256 length_codec) {u, v, w, x, []}"
    if "length u = 66" "length v = 64" "length w = 96" "length x = 53" for u v w x
    using that by (auto simp: inj_on_def length_codec_def)
  moreover have bp: "borsh_payload length_codec p = []" for p
    by (simp add: length_codec_def)
  from calculation [OF lens data] have inj: "inj_on (keccak256 length_codec)
      (hashed_strings length_codec cancel_tx ?d \<union> hashed_strings length_codec cancel_tx ?d')"
    unfolding hashed_strings_def same bp Un_absorb .
  have borsh: "inj_on (borsh_payload length_codec) {tx_payload cancel_tx, tx_payload cancel_tx}"
    by simp
  from eip712_signature_binds [OF hash inj borsh, of None] show ?thesis
    by (elim conjE)
qed

text \<open>A raw signing hash commits to the nonce, the sender and the payload, unless SHA-256 collides
  on the two signed strings or two payloads have one Borsh encoding; and it does not depend on
  the signature bytes, so that signing a transaction leaves its signing hash as it was.\<close>

lemma raw_signature_binds:
  assumes "raw_signing_hash c t = raw_signing_hash c t'"
    and "inj_on (sha256 c) {raw_signing_data c t, raw_signing_data c t'}"
    and "inj_on (borsh_payload c) {tx_payload t, tx_payload t'}"
  shows "tx_nonce t = tx_nonce t' \<and> tx_from t = tx_from t' \<and> tx_payload t = tx_payload t' \<and>
    signing_hash c (with_signature t sig) = signing_hash c t"
proof -
  have "raw_signing_data c t = raw_signing_data c t'"
    using assms(1,2) by (auto simp: raw_signing_hash_def dest: inj_onD)
  from raw_signing_data_inj [OF assms(3) this] show ?thesis
    by (simp add: signing_hash_with_signature)
qed

end
