(* ===== verification/Engine_Base.thy ===== *)
theory Engine_Base
  imports Transactions
begin

text \<open>
  The engine's error type and constants (\<open>crates/engine/src/error.rs\<close>, \<open>constants.rs\<close>), and
  the conversions of state errors that the \<open>?\<close> operator performs in the engine.
\<close>

datatype EngineError =
    MarketNotFound
  | OrderNotFound
  | PositionNotFound
  | InsufficientBalance
  | InsufficientMargin
  | Unauthorized
  | InvalidOrderParams
  | OrderNotFilled
  | SelfTrade
  | PostOnlyWouldTake
  | ReduceOnlyWouldIncrease
  | LeverageTooHigh
  | WouldBeLiquidated
  | Overflow
  | DivisionByZero
  | EngineError_StateError StateError
  | EngineError_TxError TxError
  | EngineError_Other string

definition BASIS_POINTS :: u128 where "BASIS_POINTS = 10000"
definition DEFAULT_LIQUIDATOR_FEE_BPS :: u32 where "DEFAULT_LIQUIDATOR_FEE_BPS = 5000"
definition DEFAULT_INSURANCE_FEE_BPS :: u32 where "DEFAULT_INSURANCE_FEE_BPS = 5000"
definition DEFAULT_MIN_INSURANCE_RATIO_BPS :: u32 where "DEFAULT_MIN_INSURANCE_RATIO_BPS = 100"
definition MARGIN_BUFFER_BPS :: u32 where "MARGIN_BUFFER_BPS = 200"
definition MIN_LIQUIDATION_PCT :: u64 where "MIN_LIQUIDATION_PCT = 10"
definition DEFAULT_MAX_FUNDING_RATE_BPS :: u32 where "DEFAULT_MAX_FUNDING_RATE_BPS = 1000"

text \<open>A state operation used with \<open>?\<close> in the engine.\<close>

abbreviation of_state :: "StateError + 'a \<Rightarrow> EngineError + 'a" where
  "of_state \<equiv> map_err EngineError_StateError"

definition lift_state :: "(StateError + 'a) \<times> 's \<Rightarrow> (EngineError + 'a) \<times> 's" where
  "lift_state r = (of_state (fst r), snd r)"

lemma lift_state_simps [simp]:
  "lift_state (Inl e, s) = (Inl (EngineError_StateError e), s)"
  "lift_state (Inr a, s) = (Inr a, s)"
  by (simp_all add: lift_state_def)

lemma lift_state_snd [simp]: "snd (lift_state r) = snd r"
  by (simp add: lift_state_def)

lemma lift_state_Inr [result_simps]: "lift_state m = (Inr a, s) \<longleftrightarrow> m = (Inr a, s)"
  by (cases m) (auto simp: lift_state_def result_simps)

end
