(* ===== verification/Orderbook.thy ===== *)
theory Orderbook
  imports Engine_Base "HOL-Library.Sublist"
begin

text \<open>
  \<open>crates/engine/src/orderbook.rs\<close>: price levels, the book of both sides of every market, and
  matching.  A \<open>VecDeque\<close> is a list, front first; a \<open>BTreeMap\<close> is an ordered map of the
  prelude.  \<open>match_order\<close> changes the state manager and the opposing book as it goes; when a
  state read fails in the middle, the changes made so far remain, as in the source.
\<close>

section \<open>Model\<close>

record PriceLevel =
  lvl_orders :: "u64 list"
  lvl_total_size :: u64

type_synonym book = "(u64, PriceLevel) btree_map"

definition new_level :: PriceLevel where
  "new_level = \<lparr>lvl_orders = [], lvl_total_size = 0\<rparr>"

definition level_add :: "PriceLevel \<Rightarrow> u64 \<Rightarrow> u64 \<Rightarrow> PriceLevel" where
  "level_add l i sz = \<lparr>lvl_orders = lvl_orders l @ [i], lvl_total_size = lvl_total_size l + sz\<rparr>"

definition level_remove :: "PriceLevel \<Rightarrow> u64 \<Rightarrow> u64 \<Rightarrow> PriceLevel" where
  "level_remove l i sz =
     (if i \<in> set (lvl_orders l) then
        \<lparr>lvl_orders = remove1 i (lvl_orders l),
         lvl_total_size = saturating_sub (lvl_total_size l) sz\<rparr>
      else l)"

definition level_is_empty :: "PriceLevel \<Rightarrow> bool" where
  "level_is_empty l \<longleftrightarrow> lvl_orders l = []"

record OrderbookManager =
  ob_orders :: "u64 \<rightharpoonup> Order"
  orders_by_market :: "u32 \<rightharpoonup> u64 set"
  bids :: "u32 \<rightharpoonup> book"
  asks :: "u32 \<rightharpoonup> book"

definition new_orderbook :: OrderbookManager where
  "new_orderbook =
     \<lparr>ob_orders = Map.empty, orders_by_market = Map.empty, bids = Map.empty, asks = Map.empty\<rparr>"

definition or_default :: "'a \<Rightarrow> 'a option \<Rightarrow> 'a" where
  "or_default d x = (case x of Some a \<Rightarrow> a | None \<Rightarrow> d)"

definition book_add :: "book \<Rightarrow> u64 \<Rightarrow> u64 \<Rightarrow> u64 \<Rightarrow> book" where
  "book_add b price i sz = bt_insert price (level_add (or_default new_level (bt_get b price)) i sz) b"

definition add_order :: "OrderbookManager \<Rightarrow> u64 \<Rightarrow> Order \<Rightarrow> OrderbookManager" where
  "add_order ob i x =
     (let m = ord_market_id x;
          ob1 = ob\<lparr>ob_orders := (ob_orders ob)(i \<mapsto> x),
                   orders_by_market := (orders_by_market ob)
                     (m \<mapsto> insert i (or_default {} (orders_by_market ob m)))\<rparr>
      in if ord_is_buy x then
           ob1\<lparr>bids := (bids ob)(m \<mapsto>
             book_add (or_default [] (bids ob m)) (ord_price x) i (ord_remaining_size x))\<rparr>
         else
           ob1\<lparr>asks := (asks ob)(m \<mapsto>
             book_add (or_default [] (asks ob m)) (ord_price x) i (ord_remaining_size x))\<rparr>)"

definition book_remove :: "book \<Rightarrow> u64 \<Rightarrow> u64 \<Rightarrow> u64 \<Rightarrow> book" where
  "book_remove b price i sz =
     (case bt_get b price of
        None \<Rightarrow> b
      | Some l \<Rightarrow>
          (let l' = level_remove l i sz in
           if level_is_empty l' then bt_remove price b else bt_insert price l' b))"

definition remove_order :: "OrderbookManager \<Rightarrow> u64 \<Rightarrow> Order \<Rightarrow> OrderbookManager" where
  "remove_order ob i x =
     (let m = ord_market_id x;
          rm = (\<lambda>side. case side m of
                  None \<Rightarrow> side
                | Some b \<Rightarrow> side(m \<mapsto> book_remove b (ord_price x) i (ord_remaining_size x)));
          ob1 = ob\<lparr>ob_orders := (ob_orders ob)(i := None),
                   orders_by_market := (orders_by_market ob)
                     (m := map_option (\<lambda>xs. xs - {i}) (orders_by_market ob m))\<rparr>
      in if ord_is_buy x then ob1\<lparr>bids := rm (bids ob)\<rparr> else ob1\<lparr>asks := rm (asks ob)\<rparr>)"

subsection \<open>Matching\<close>

text \<open>The variables that the two loops of \<open>match_order\<close> update.\<close>

record match_vars =
  mv_state :: StateManager
  mv_level :: PriceLevel
  mv_fills :: "Fill list"
  mv_remaining :: u64

definition make_fill :: "Order \<Rightarrow> u64 \<Rightarrow> u64 \<Rightarrow> Order \<Rightarrow> u64 \<Rightarrow> Fill" where
  "make_fill taker price maker_id maker sz =
     \<lparr>fill_maker = ord_owner maker, fill_taker = ord_owner taker,
      fill_market_id = ord_market_id taker, fill_price = price, fill_size = sz,
      fill_taker_is_buy = ord_is_buy taker, fill_maker_order_id = maker_id,
      fill_taker_order_id = ord_id taker\<rparr>"

text \<open>One iteration of the inner loop, once the maker order is found and is not the taker's own.\<close>

definition fill_maker_order ::
  "Order \<Rightarrow> u64 \<Rightarrow> u64 \<Rightarrow> Order \<Rightarrow> match_vars \<Rightarrow> (EngineError + unit) \<times> match_vars" where
  "fill_maker_order taker price i maker v =
     (let sz = min (mv_remaining v) (ord_remaining_size maker);
          v1 = v\<lparr>mv_fills := mv_fills v @ [make_fill taker price i maker sz],
                 mv_remaining := mv_remaining v - sz\<rparr>;
          left = ord_remaining_size maker - sz in
      if left = 0 then
        (let s1 = set_order (mv_state v) i (maker\<lparr>ord_remaining_size := left, ord_status := Filled\<rparr>) in
         case remove_active_order s1 (ord_market_id maker) i of
           (Inl e, s2) \<Rightarrow> (Inl (EngineError_StateError e), v1\<lparr>mv_state := s2\<rparr>)
         | (Inr _, s2) \<Rightarrow>
             (Inr (), v1\<lparr>mv_state := s2, mv_level := level_remove (mv_level v) i sz\<rparr>))
      else
        (Inr (), v1\<lparr>mv_state := set_order (mv_state v) i (maker\<lparr>ord_remaining_size := left\<rparr>),
                    mv_level := (mv_level v)\<lparr>lvl_total_size := lvl_total_size (mv_level v) - sz\<rparr>\<rparr>))"

fun match_level :: "Order \<Rightarrow> u64 \<Rightarrow> u64 list \<Rightarrow> match_vars \<Rightarrow> (EngineError + unit) \<times> match_vars" where
  "match_level taker price [] v = (Inr (), v)"
| "match_level taker price (i # ids) v =
     (if mv_remaining v = 0 then (Inr (), v)
      else case get_order (mv_state v) i of
          Inl e \<Rightarrow> (Inl (EngineError_StateError e), v)
        | Inr None \<Rightarrow> match_level taker price ids v
        | Inr (Some maker) \<Rightarrow>
            if ord_owner maker = ord_owner taker then match_level taker price ids v
            else bindR (fill_maker_order taker price i maker v)
                   (\<lambda>_. match_level taker price ids))"

definition price_unacceptable :: "Order \<Rightarrow> u64 \<Rightarrow> bool" where
  "price_unacceptable taker price \<longleftrightarrow>
     (ord_is_buy taker \<and> ord_price taker > 0 \<and> price > ord_price taker) \<or>
     (\<not> ord_is_buy taker \<and> ord_price taker > 0 \<and> price < ord_price taker)"

text \<open>The outer loop: the state, the book, the fills and the remaining size.\<close>

fun match_prices ::
  "Order \<Rightarrow> u64 list \<Rightarrow> StateManager \<times> book \<times> Fill list \<times> u64 \<Rightarrow>
     (EngineError + unit) \<times> StateManager \<times> book \<times> Fill list \<times> u64" where
  "match_prices taker [] v = (Inr (), v)"
| "match_prices taker (price # prices) (s, b, fills, remaining) =
     (if price_unacceptable taker price then (Inr (), s, b, fills, remaining)
      else case bt_get b price of
          None \<Rightarrow>
            if remaining = 0 then (Inr (), s, b, fills, remaining)
            else match_prices taker prices (s, b, fills, remaining)
        | Some l \<Rightarrow>
            (case match_level taker price (lvl_orders l)
                    \<lparr>mv_state = s, mv_level = l, mv_fills = fills, mv_remaining = remaining\<rparr> of
               (Inl e, v) \<Rightarrow>
                 (Inl e, mv_state v, bt_insert price (mv_level v) b, mv_fills v, mv_remaining v)
             | (Inr _, v) \<Rightarrow>
                 (let b' = (if level_is_empty (mv_level v) then bt_remove price b
                            else bt_insert price (mv_level v) b) in
                  if mv_remaining v = 0 then (Inr (), mv_state v, b', mv_fills v, mv_remaining v)
                  else match_prices taker prices (mv_state v, b', mv_fills v, mv_remaining v))))"

definition opposing :: "OrderbookManager \<Rightarrow> Order \<Rightarrow> book option" where
  "opposing ob taker =
     (if ord_is_buy taker then asks ob (ord_market_id taker) else bids ob (ord_market_id taker))"

definition set_opposing :: "OrderbookManager \<Rightarrow> Order \<Rightarrow> book \<Rightarrow> OrderbookManager" where
  "set_opposing ob taker b =
     (if ord_is_buy taker then ob\<lparr>asks := (asks ob)(ord_market_id taker \<mapsto> b)\<rparr>
      else ob\<lparr>bids := (bids ob)(ord_market_id taker \<mapsto> b)\<rparr>)"

definition would_match :: "OrderbookManager \<Rightarrow> Order \<Rightarrow> bool" where
  "would_match ob taker =
     (case opposing ob taker of
        None \<Rightarrow> False
      | Some b \<Rightarrow>
          if b = [] then False
          else
            (let best = (if ord_is_buy taker then hd (bt_keys b) else last (bt_keys b)) in
             if ord_price taker = 0 then True
             else if ord_is_buy taker \<and> ord_price taker \<ge> best then True
             else if \<not> ord_is_buy taker \<and> ord_price taker \<le> best then True
             else False))"

definition match_order ::
  "OrderbookManager \<Rightarrow> StateManager \<Rightarrow> Order \<Rightarrow>
     (EngineError + Fill list) \<times> OrderbookManager \<times> StateManager" where
  "match_order ob s taker =
     (if ord_post_only taker \<and> would_match ob taker then (Inl PostOnlyWouldTake, ob, s)
      else case opposing ob taker of
          None \<Rightarrow> (Inr [], ob, s)
        | Some b \<Rightarrow>
            (let prices = (if ord_is_buy taker then bt_keys b else rev (bt_keys b)) in
             case match_prices taker prices (s, b, [], ord_remaining_size taker) of
               (Inl e, s', b', _, _) \<Rightarrow> (Inl e, set_opposing ob taker b', s')
             | (Inr _, s', b', fills, _) \<Rightarrow> (Inr fills, set_opposing ob taker b', s')))"

subsection \<open>Queries\<close>

definition get_orders_for_market :: "(u64 set \<Rightarrow> u64 list) \<Rightarrow> OrderbookManager \<Rightarrow> u32 \<Rightarrow> u64 list" where
  "get_orders_for_market id_iter ob m =
     (case orders_by_market ob m of Some xs \<Rightarrow> id_iter xs | None \<Rightarrow> [])"

definition get_best_bid :: "OrderbookManager \<Rightarrow> u32 \<Rightarrow> u64 option" where
  "get_best_bid ob m =
     (case bids ob m of
        None \<Rightarrow> None
      | Some b \<Rightarrow> if bt_keys b = [] then None else Some (last (bt_keys b)))"

definition get_best_ask :: "OrderbookManager \<Rightarrow> u32 \<Rightarrow> u64 option" where
  "get_best_ask ob m =
     (case asks ob m of
        None \<Rightarrow> None
      | Some b \<Rightarrow> if bt_keys b = [] then None else Some (hd (bt_keys b)))"

definition get_depth :: "OrderbookManager \<Rightarrow> u32 \<Rightarrow> nat \<Rightarrow> (u64 \<times> u64) list \<times> (u64 \<times> u64) list" where
  "get_depth ob m levels =
     (let show_level = (\<lambda>e. (fst e, lvl_total_size (snd e))) in
      (case bids ob m of None \<Rightarrow> [] | Some b \<Rightarrow> map show_level (take levels (rev b)),
       case asks ob m of None \<Rightarrow> [] | Some b \<Rightarrow> map show_level (take levels b)))"

section \<open>Invariants of the two loops\<close>

text \<open>Keys that matching may write: orders and the lists of active orders.\<close>

fun order_key :: "StateKey \<Rightarrow> bool" where
  "order_key (StateKey_Order _) = True"
| "order_key (StateKey_ActiveOrder _ _) = True"
| "order_key (StateKey_ActiveOrderList _) = True"
| "order_key _ = False"

lemma remove_active_order_frame:
  assumes "remove_active_order s m i = (r, s')"
  shows "get_order s' = get_order s"
    and "\<not> order_key k \<Longrightarrow> sm_get s' k = sm_get s k"
    and "position_index s' = position_index s"
  using assms
  by (auto simp: fun_eq_iff remove_active_order_def Let_def store_simps bindR_def
      split: option.splits sum.splits)

text \<open>A predicate that every fill of a maker order keeps is kept by the loops.\<close>

definition keeps_fill :: "Order \<Rightarrow> u64 \<Rightarrow> (match_vars \<Rightarrow> bool) \<Rightarrow> bool" where
  "keeps_fill taker price P \<longleftrightarrow> (\<forall>i maker v r v'.
     P v \<longrightarrow> mv_remaining v \<noteq> 0 \<longrightarrow> get_order (mv_state v) i = Inr (Some maker) \<longrightarrow>
     ord_owner maker \<noteq> ord_owner taker \<longrightarrow>
     fill_maker_order taker price i maker v = (r, v') \<longrightarrow> P v')"

lemma match_level_keeps:
  assumes step: "keeps_fill taker price P"
  shows "P v \<Longrightarrow> match_level taker price ids v = (r, v') \<Longrightarrow> P v'"
proof (induction ids arbitrary: v)
  case (Cons i ids)
  show ?case
  proof (cases "mv_remaining v = 0")
    case True
    with Cons.prems show ?thesis by simp
  next
    case rem: False
    show ?thesis
    proof (cases "get_order (mv_state v) i")
      case (Inl e)
      with Cons.prems rem show ?thesis by auto
    next
      case (Inr mo)
      show ?thesis
      proof (cases "\<exists>maker. mo = Some maker \<and> ord_owner maker \<noteq> ord_owner taker")
        case True
        then obtain maker where maker: "mo = Some maker" "ord_owner maker \<noteq> ord_owner taker" by blast
        obtain r1 v1 where f: "fill_maker_order taker price i maker v = (r1, v1)" by fastforce
        have "P v1"
          using step Cons.prems(1) rem Inr maker f by (auto simp: keeps_fill_def)
        then show ?thesis
          using Cons rem Inr maker f by (cases r1) auto
      next
        case False
        then show ?thesis
          using Cons rem Inr by (cases mo) auto
      qed
    qed
  qed
qed simp

text \<open>The same for the outer loop, for a predicate on its four variables.\<close>

definition keeps_fill_prices ::
  "Order \<Rightarrow> u64 set \<Rightarrow> (StateManager \<Rightarrow> Fill list \<Rightarrow> u64 \<Rightarrow> bool) \<Rightarrow> bool" where
  "keeps_fill_prices taker ps P \<longleftrightarrow> (\<forall>price\<in>ps. \<not> price_unacceptable taker price \<longrightarrow>
     keeps_fill taker price (\<lambda>v. P (mv_state v) (mv_fills v) (mv_remaining v)))"

lemma match_prices_keeps:
  "keeps_fill_prices taker (set prices) P \<Longrightarrow> P s fills remaining \<Longrightarrow>
   match_prices taker prices (s, b, fills, remaining) = (r, s', b', fills', remaining') \<Longrightarrow>
   P s' fills' remaining'"
proof (induction prices arbitrary: s b fills remaining)
  case (Cons price prices)
  have IH: "\<And>s b fills remaining. P s fills remaining \<Longrightarrow>
      match_prices taker prices (s, b, fills, remaining) = (r, s', b', fills', remaining') \<Longrightarrow>
      P s' fills' remaining'"
    by (rule Cons.IH) (use Cons.prems(1) in \<open>auto simp: keeps_fill_prices_def\<close>)
  show ?case
  proof (cases "price_unacceptable taker price")
    case True
    with Cons.prems show ?thesis by simp
  next
    case ok: False
    show ?thesis
    proof (cases "bt_get b price")
      case None
      with Cons.prems ok IH show ?thesis by (auto split: if_splits)
    next
      case (Some l)
      let ?v = "\<lparr>mv_state = s, mv_level = l, mv_fills = fills, mv_remaining = remaining\<rparr>"
      obtain r1 v1 where m: "match_level taker price (lvl_orders l) ?v = (r1, v1)" by fastforce
      have "P (mv_state v1) (mv_fills v1) (mv_remaining v1)"
        by (rule match_level_keeps [OF _ _ m]) (use Cons.prems ok in \<open>auto simp: keeps_fill_prices_def\<close>)
      then show ?thesis
        using Cons.prems(3) ok Some m IH by (cases r1) (auto simp: Let_def split: if_splits)
    qed
  qed
qed simp

text \<open>What one fill does to the four variables; the level is treated below.\<close>

lemma fill_maker_order_vars:
  assumes "fill_maker_order taker price i maker v = (r, v')"
  defines "sz \<equiv> min (mv_remaining v) (ord_remaining_size maker)"
  shows "mv_fills v' = mv_fills v @ [make_fill taker price i maker sz]"
    and "mv_remaining v' = mv_remaining v - sz"
    and "\<exists>st. get_order (mv_state v') = (get_order (mv_state v))
           (i := Inr (Some (maker\<lparr>ord_remaining_size := ord_remaining_size maker - sz, ord_status := st\<rparr>)))"
proof -
  show "mv_fills v' = mv_fills v @ [make_fill taker price i maker sz]"
    and "mv_remaining v' = mv_remaining v - sz"
    using assms(1) by (auto simp: fill_maker_order_def sz_def Let_def split: if_splits prod.splits sum.splits)
  let ?m = "maker\<lparr>ord_remaining_size := ord_remaining_size maker - sz\<rparr>"
  have "get_order (mv_state v') = get_order (set_order (mv_state v) i (?m\<lparr>ord_status := Filled\<rparr>)) \<or>
      get_order (mv_state v') = get_order (set_order (mv_state v) i ?m)"
    using assms(1)
    by (auto simp: fill_maker_order_def sz_def Let_def dest!: remove_active_order_frame(1)
        split: if_splits prod.splits sum.splits)
  then show "\<exists>st. get_order (mv_state v') = (get_order (mv_state v))
      (i := Inr (Some (maker\<lparr>ord_remaining_size := ord_remaining_size maker - sz, ord_status := st\<rparr>)))"
  proof
    assume "get_order (mv_state v') = get_order (set_order (mv_state v) i ?m)"
    then show ?thesis
      by (intro exI [of _ "ord_status maker"]) (simp add: fun_eq_iff)
  qed (auto simp: fun_eq_iff)
qed

section \<open>Sizes\<close>

text \<open>The size the fills account for, in total and of one maker order.\<close>

definition filled_total :: "Fill list \<Rightarrow> nat" where
  "filled_total fills = sum_list (map (\<lambda>f. unat (fill_size f)) fills)"

definition filled_of :: "Fill list \<Rightarrow> u64 \<Rightarrow> nat" where
  "filled_of fills i = filled_total (filter (\<lambda>f. fill_maker_order_id f = i) fills)"

definition remaining_of :: "StateManager \<Rightarrow> u64 \<Rightarrow> nat" where
  "remaining_of s i =
     (case get_order s i of Inr (Some x) \<Rightarrow> unat (ord_remaining_size x) | _ \<Rightarrow> 0)"

lemma filled_simps [simp]:
  "filled_total [] = 0" "filled_total (f # fs) = unat (fill_size f) + filled_total fs"
  "filled_total (fs @ gs) = filled_total fs + filled_total gs"
  "filled_of [] i = 0" "filled_of (fs @ gs) i = filled_of fs i + filled_of gs i"
  "filled_of [f] i = (if fill_maker_order_id f = i then unat (fill_size f) else 0)"
  by (simp_all add: filled_total_def filled_of_def)

lemma unat_sub_min: "unat (a - min a b) = unat a - min (unat a) (unat b)"
  "unat (b - min a b) = unat b - min (unat a) (unat b)" for a b :: "'a::len word"
  by (simp_all add: unat_sub unat_min word_le_nat_alt)

lemma make_fill_sel [simp]:
  "fill_size (make_fill taker p i m sz) = sz" "fill_maker_order_id (make_fill taker p i m sz) = i"
  "fill_price (make_fill taker p i m sz) = p" "fill_maker (make_fill taker p i m sz) = ord_owner m"
  "fill_taker (make_fill taker p i m sz) = ord_owner taker"
  "fill_market_id (make_fill taker p i m sz) = ord_market_id taker"
  "fill_taker_is_buy (make_fill taker p i m sz) = ord_is_buy taker"
  "fill_taker_order_id (make_fill taker p i m sz) = ord_id taker"
  by (simp_all add: make_fill_def)

lemma keeps_taker_size:
  "keeps_fill_prices taker ps (\<lambda>s fills remaining. unat remaining + filled_total fills = n)"
  by (auto simp: keeps_fill_prices_def keeps_fill_def fill_maker_order_vars unat_sub_min unat_min)

lemma keeps_maker_size:
  "keeps_fill_prices taker ps (\<lambda>s fills remaining. remaining_of s i + filled_of fills i = n)"
  unfolding keeps_fill_prices_def keeps_fill_def
proof (intro ballI impI allI)
  fix price j maker v r v'
  assume inv: "remaining_of (mv_state v) i + filled_of (mv_fills v) i = n"
    and maker: "get_order (mv_state v) j = Inr (Some maker)"
    and fill: "fill_maker_order taker price j maker v = (r, v')"
  obtain st where st: "get_order (mv_state v') = (get_order (mv_state v))
      (j := Inr (Some (maker\<lparr>ord_remaining_size := ord_remaining_size maker -
         min (mv_remaining v) (ord_remaining_size maker), ord_status := st\<rparr>)))"
    using fill_maker_order_vars(3) [OF fill] by blast
  show "remaining_of (mv_state v') i + filled_of (mv_fills v') i = n"
    using inv maker
    by (auto simp: remaining_of_def st fill_maker_order_vars(1) [OF fill] unat_sub_min unat_min)
qed

text \<open>What holds of each single fill.\<close>

definition fill_ok :: "Order \<Rightarrow> Fill \<Rightarrow> bool" where
  "fill_ok taker f \<longleftrightarrow>
     fill_taker f = ord_owner taker \<and> fill_maker f \<noteq> ord_owner taker \<and>
     fill_market_id f = ord_market_id taker \<and> fill_taker_is_buy f = ord_is_buy taker \<and>
     fill_taker_order_id f = ord_id taker \<and>
     (ord_price taker = 0 \<or>
      (if ord_is_buy taker then fill_price f \<le> ord_price taker else ord_price taker \<le> fill_price f))"

lemma keeps_fill_ok: "keeps_fill_prices taker ps (\<lambda>s fills remaining. \<forall>f\<in>set fills. fill_ok taker f)"
  by (auto simp: keeps_fill_prices_def keeps_fill_def fill_maker_order_vars fill_ok_def
      price_unacceptable_def word_gt_0 not_less)

text \<open>Matching writes orders and active-order lists, nothing else.\<close>

lemma keeps_other_keys:
  "\<not> order_key k \<Longrightarrow> keeps_fill_prices taker ps (\<lambda>s fills remaining. sm_get s k = x)"
  by (auto simp: keeps_fill_prices_def keeps_fill_def fill_maker_order_def Let_def set_order_def
      remove_active_order_frame(2) split: if_splits prod.splits sum.splits)

lemma match_order_success:
  assumes "match_order ob s taker = (Inr fills, ob', s')"
  obtains "fills = []" "ob' = ob" "s' = s"
  | b b' remaining where "opposing ob taker = Some b" "ob' = set_opposing ob taker b'"
      "match_prices taker (if ord_is_buy taker then bt_keys b else rev (bt_keys b))
         (s, b, [], ord_remaining_size taker) = (Inr (), s', b', fills, remaining)"
  using assms
  by (auto simp: match_order_def Let_def split: if_splits option.splits prod.splits sum.splits)

lemma match_order_keeps:
  assumes "match_order ob s taker = (Inr fills, ob', s')"
    and "\<And>ps. keeps_fill_prices taker ps P" "P s [] (ord_remaining_size taker)"
  shows "\<exists>remaining. P s' fills remaining"
  using assms(1)
proof (cases rule: match_order_success)
  case (2 b b' remaining)
  then show ?thesis
    using match_prices_keeps [OF assms(2,3)] by blast
qed (use assms(3) in auto)

section \<open>Price-time priority\<close>

definition level_ids :: "book \<Rightarrow> u64 \<Rightarrow> u64 list" where
  "level_ids b p = (case bt_get b p of Some l \<Rightarrow> lvl_orders l | None \<Rightarrow> [])"

text \<open>The resting orders in the order in which they are to be filled: by price, and within a
  price by arrival.\<close>

definition priority_queue :: "book \<Rightarrow> u64 list \<Rightarrow> (u64 \<times> u64) list" where
  "priority_queue b prices = concat (map (\<lambda>p. map (Pair p) (level_ids b p)) prices)"

definition fill_key :: "Fill \<Rightarrow> u64 \<times> u64" where
  "fill_key f = (fill_price f, fill_maker_order_id f)"

lemma match_level_fifo:
  "match_level taker price ids v = (r, v') \<Longrightarrow>
     \<exists>gs. mv_fills v' = mv_fills v @ gs \<and> subseq (map fill_key gs) (map (Pair price) ids)"
proof (induction ids arbitrary: v)
  case (Cons i ids)
  have skip: "\<exists>gs. mv_fills v' = mv_fills v @ gs \<and> subseq (map fill_key gs) (map (Pair price) (i # ids))"
    if "match_level taker price ids v = (r, v')"
    using Cons.IH [OF that] by (auto intro: list_emb_Cons)
  have stop: ?case if "v' = v"
    using that by auto
  show ?case
  proof (cases "mv_remaining v = 0")
    case True
    with Cons.prems stop show ?thesis by simp
  next
    case rem: False
    show ?thesis
    proof (cases "get_order (mv_state v) i")
      case (Inl e)
      with Cons.prems rem stop show ?thesis by simp
    next
      case (Inr mo)
      show ?thesis
      proof (cases "\<exists>maker. mo = Some maker \<and> ord_owner maker \<noteq> ord_owner taker")
        case True
        then obtain maker where maker: "mo = Some maker" "ord_owner maker \<noteq> ord_owner taker" by blast
        obtain r1 v1 where f: "fill_maker_order taker price i maker v = (r1, v1)" by fastforce
        obtain g where g: "mv_fills v1 = mv_fills v @ [g]" "fill_key g = (price, i)"
          using fill_maker_order_vars(1) [OF f] by (simp add: fill_key_def)
        have rest: "(r, v') = (case r1 of Inl e \<Rightarrow> (Inl e, v1) | Inr _ \<Rightarrow> match_level taker price ids v1)"
          using Cons.prems rem Inr maker f by (cases r1) auto
        show ?thesis
        proof (cases r1)
          case (Inl e)
          with rest g show ?thesis by (intro exI [of _ "[g]"]) simp
        next
          case (Inr u)
          then obtain gs where "mv_fills v' = mv_fills v1 @ gs"
            "subseq (map fill_key gs) (map (Pair price) ids)"
            using Cons.IH [of v1] rest by auto
          with g show ?thesis by (intro exI [of _ "g # gs"]) simp
        qed
      next
        case False
        then have "match_level taker price ids v = (r, v')"
          using Cons.prems rem Inr by (cases mo) auto
        then show ?thesis by (rule skip)
      qed
    qed
  qed
qed auto

lemma priority_queue_cong:
  assumes "\<And>p. p \<in> set prices \<Longrightarrow> bt_get b' p = bt_get b p"
  shows "priority_queue b' prices = priority_queue b prices"
proof -
  have "map (\<lambda>p. map (Pair p) (level_ids b' p)) prices = map (\<lambda>p. map (Pair p) (level_ids b p)) prices"
    using assms by (intro map_cong) (simp_all add: level_ids_def)
  then show ?thesis by (simp only: priority_queue_def)
qed

lemma match_prices_priority:
  "match_prices taker prices (s, b, fills, remaining) = (r, s', b', fills', remaining') \<Longrightarrow>
   bt_invar b \<Longrightarrow> distinct prices \<Longrightarrow>
   \<exists>gs. fills' = fills @ gs \<and> subseq (map fill_key gs) (priority_queue b prices)"
proof (induction prices arbitrary: s b fills remaining)
  case (Cons price prices)
  have stop: ?case if "fills' = fills" using that by auto
  show ?case
  proof (cases "price_unacceptable taker price")
    case True
    with Cons.prems stop show ?thesis by simp
  next
    case ok: False
    show ?thesis
    proof (cases "bt_get b price")
      case None
      show ?thesis
      proof (cases "remaining = 0")
        case True
        with Cons.prems(1) ok None stop show ?thesis by simp
      next
        case False
        then have "match_prices taker prices (s, b, fills, remaining) = (r, s', b', fills', remaining')"
          using Cons.prems(1) ok None by simp
        with Cons.IH [OF this] Cons.prems None show ?thesis
          by (simp add: priority_queue_def level_ids_def)
      qed
    next
      case (Some l)
      let ?v = "\<lparr>mv_state = s, mv_level = l, mv_fills = fills, mv_remaining = remaining\<rparr>"
      obtain r1 v1 where m: "match_level taker price (lvl_orders l) ?v = (r1, v1)" by fastforce
      then obtain gs where gs: "mv_fills v1 = fills @ gs"
        "subseq (map fill_key gs) (map (Pair price) (level_ids b price))"
        using match_level_fifo [OF m] Some by (auto simp: level_ids_def)
      let ?b = "if level_is_empty (mv_level v1) then bt_remove price b else bt_insert price (mv_level v1) b"
      have inv: "bt_invar ?b" using Cons.prems(2) by (simp add: bt_laws)
      have eq: "priority_queue ?b prices = priority_queue b prices"
        by (rule priority_queue_cong) (use Cons.prems in \<open>auto simp: bt_laws\<close>)
      have head: "\<exists>gs. fills' = fills @ gs \<and> subseq (map fill_key gs) (priority_queue b (price # prices))"
        if "fills' = fills @ gs"
        using gs(2) that by (auto simp: priority_queue_def)
      show ?thesis
      proof (cases "is_ok r1 \<and> mv_remaining v1 \<noteq> 0")
        case True
        then have "match_prices taker prices (mv_state v1, ?b, mv_fills v1, mv_remaining v1) =
            (r, s', b', fills', remaining')"
          using Cons.prems(1) ok Some m by (cases r1) (simp_all add: Let_def)
        with Cons.IH [OF this inv] Cons.prems(3) eq obtain hs where
          "fills' = mv_fills v1 @ hs" "subseq (map fill_key hs) (priority_queue b prices)"
          by auto
        with gs show ?thesis
          by (intro exI [of _ "gs @ hs"]) (simp add: priority_queue_def list_emb_append_mono)
      next
        case False
        then have "fills' = mv_fills v1"
          using Cons.prems(1) ok Some m by (cases r1) (auto simp: Let_def)
        with head gs(1) show ?thesis by simp
      qed
    qed
  qed
qed auto

section \<open>The book agrees with the stored orders\<close>

text \<open>
  \<open>resting\<close>: the stored order is active, unfilled in part, and belongs to this side, market
  and price.  A level is right when its queue has no duplicates, holds resting orders only, and
  its \<open>total_size\<close> is the sum of what they have left; a side when it is ordered and every level
  is right and not empty.
\<close>

definition resting :: "StateManager \<Rightarrow> u32 \<Rightarrow> bool \<Rightarrow> u64 \<Rightarrow> u64 \<Rightarrow> bool" where
  "resting s m buy p i =
     (case get_order s i of
        Inr (Some x) \<Rightarrow> ord_market_id x = m \<and> ord_is_buy x = buy \<and> ord_price x = p \<and>
          ord_remaining_size x \<noteq> 0 \<and> ord_status x = Active
      | _ \<Rightarrow> False)"

definition level_ok :: "StateManager \<Rightarrow> u32 \<Rightarrow> bool \<Rightarrow> u64 \<Rightarrow> PriceLevel \<Rightarrow> bool" where
  "level_ok s m buy p l \<longleftrightarrow> distinct (lvl_orders l) \<and> (\<forall>i\<in>set (lvl_orders l). resting s m buy p i) \<and>
     unat (lvl_total_size l) = sum_list (map (remaining_of s) (lvl_orders l))"

definition side_ok :: "StateManager \<Rightarrow> u32 \<Rightarrow> bool \<Rightarrow> book \<Rightarrow> bool" where
  "side_ok s m buy b \<longleftrightarrow> bt_invar b \<and>
     (\<forall>p l. bt_get b p = Some l \<longrightarrow> lvl_orders l \<noteq> [] \<and> level_ok s m buy p l)"

definition book_ok :: "StateManager \<Rightarrow> OrderbookManager \<Rightarrow> bool" where
  "book_ok s ob \<longleftrightarrow>
     (\<forall>m b. bids ob m = Some b \<longrightarrow> side_ok s m True b) \<and>
     (\<forall>m b. asks ob m = Some b \<longrightarrow> side_ok s m False b)"

lemma restingE:
  assumes "resting s m buy p i"
  obtains x where "get_order s i = Inr (Some x)" "ord_market_id x = m" "ord_is_buy x = buy"
    "ord_price x = p" "ord_remaining_size x \<noteq> 0" "ord_status x = Active"
  using assms by (auto simp: resting_def split: sum.splits option.splits)

lemma resting_unique:
  "resting s m buy p i \<Longrightarrow> resting s m' buy' p' i \<Longrightarrow> m = m' \<and> buy = buy' \<and> p = p'"
  by (auto elim!: restingE)

lemma resting_cong: "get_order s i = get_order s' i \<Longrightarrow> resting s m buy p i = resting s' m buy p i"
  by (simp add: resting_def)

lemma level_ok_cong:
  assumes "level_ok s m buy p l" "\<And>i. i \<in> set (lvl_orders l) \<Longrightarrow> get_order s' i = get_order s i"
  shows "level_ok s' m buy p l"
proof -
  have "map (remaining_of s') (lvl_orders l) = map (remaining_of s) (lvl_orders l)"
    using assms(2) by (intro map_cong) (simp_all add: remaining_of_def)
  moreover have "\<forall>i\<in>set (lvl_orders l). resting s' m buy p i"
    using assms resting_cong by (metis level_ok_def)
  ultimately show ?thesis
    using assms(1) by (simp only: level_ok_def)
qed

lemma remaining_of_upd:
  "get_order s' = (get_order s)(i := Inr (Some x)) \<Longrightarrow>
     remaining_of s' = (remaining_of s)(i := unat (ord_remaining_size x))"
  by (auto simp: remaining_of_def fun_eq_iff)

lemma level_total_ge:
  assumes "level_ok s m buy p l" "i \<in> set (lvl_orders l)"
  shows "remaining_of s i \<le> unat (lvl_total_size l)"
  using assms sum_list_filter_neq [of "lvl_orders l" i "remaining_of s"]
  by (simp add: level_ok_def)

text \<open>The two outcomes of a fill on the maker's level.\<close>

lemma fill_level_full:
  assumes ok: "level_ok s m buy p l" and i: "i \<in> set (lvl_orders l)"
    and x: "get_order s i = Inr (Some x)"
    and s': "\<And>j. j \<noteq> i \<Longrightarrow> get_order s' j = get_order s j"
  shows "level_ok s' m buy p (level_remove l i (ord_remaining_size x))"
proof -
  let ?ids = "filter (\<lambda>j. j \<noteq> i) (lvl_orders l)"
  have ids: "remove1 i (lvl_orders l) = ?ids" "distinct (lvl_orders l)"
    using ok by (simp_all add: level_ok_def filter_remove1_distinct)
  have same: "sum_list (map (remaining_of s') ?ids) = sum_list (map (remaining_of s) ?ids)"
    by (intro arg_cong [of _ _ sum_list] map_cong) (auto simp: remaining_of_def s')
  have "sum_list (map (remaining_of s) (lvl_orders l)) =
      remaining_of s i + sum_list (map (remaining_of s) ?ids)"
    by (rule sum_list_filter_neq) (use ids i in auto)
  then have "unat (lvl_total_size l) = unat (ord_remaining_size x) + sum_list (map (remaining_of s) ?ids)"
    using ok x by (simp add: level_ok_def remaining_of_def)
  then show ?thesis
    using ok i by (auto simp: level_ok_def level_remove_def ids word_nat resting_def s' same)
qed

lemma fill_level_partial:
  assumes ok: "level_ok s m buy p l" and i: "i \<in> set (lvl_orders l)"
    and x: "get_order s i = Inr (Some x)"
    and sz: "sz < ord_remaining_size x"
    and s': "get_order s' = (get_order s)(i := Inr (Some (x\<lparr>ord_remaining_size := ord_remaining_size x - sz\<rparr>)))"
  shows "level_ok s' m buy p (l\<lparr>lvl_total_size := lvl_total_size l - sz\<rparr>)"
proof -
  let ?left = "unat (ord_remaining_size x - sz)"
  have left: "?left = unat (ord_remaining_size x) - unat sz" "ord_remaining_size x - sz \<noteq> 0"
    using sz by (auto simp: unat_sub less_imp_le)
  have rem: "remaining_of s i = unat (ord_remaining_size x)"
    by (simp add: remaining_of_def x)
  then have sub: "unat (lvl_total_size l - sz) = unat (lvl_total_size l) - unat sz"
    using level_total_ge [OF ok i] sz by (simp add: unat_sub word_le_nat_alt word_less_nat_alt)
  have "sum_list (map (remaining_of s') (lvl_orders l)) + unat (ord_remaining_size x) =
      sum_list (map (remaining_of s) (lvl_orders l)) + ?left"
    using sum_list_map_update [of "lvl_orders l" i "remaining_of s" ?left] ok i rem
    by (simp add: level_ok_def remaining_of_upd [OF s'] del: fun_upd_apply)
  then have "unat (lvl_total_size l - sz) = sum_list (map (remaining_of s') (lvl_orders l))"
    using ok sz by (simp add: sub left level_ok_def word_less_nat_alt)
  moreover have "\<forall>j\<in>set (lvl_orders l). resting s' m buy p j"
  proof
    fix j
    assume "j \<in> set (lvl_orders l)"
    then have "resting s m buy p j" using ok by (simp add: level_ok_def)
    then show "resting s' m buy p j"
      using x left by (cases "j = i") (auto simp: resting_def s')
  qed
  ultimately show ?thesis
    using ok by (simp add: level_ok_def)
qed

text \<open>A fill changes the stored order of its maker, and keeps the maker's level right.\<close>

lemma fill_maker_order_level:
  assumes ok: "level_ok (mv_state v) m buy p (mv_level v)" and i: "i \<in> set (lvl_orders (mv_level v))"
    and maker: "get_order (mv_state v) i = Inr (Some maker)" and rem: "mv_remaining v \<noteq> 0"
    and fill: "fill_maker_order taker price i maker v = (Inr u, v')"
  shows "level_ok (mv_state v') m buy p (mv_level v')"
    and "set (lvl_orders (mv_level v)) - {i} \<subseteq> set (lvl_orders (mv_level v'))"
proof -
  let ?sz = "min (mv_remaining v) (ord_remaining_size maker)"
  have "level_ok (mv_state v') m buy p (mv_level v') \<and>
      set (lvl_orders (mv_level v)) - {i} \<subseteq> set (lvl_orders (mv_level v'))"
  proof (cases "ord_remaining_size maker - ?sz = 0")
    case True
    then have sz: "?sz = ord_remaining_size maker" by simp
    then have "get_order (mv_state v') = (get_order (mv_state v))
        (i := Inr (Some (maker\<lparr>ord_remaining_size := 0, ord_status := Filled\<rparr>)))"
      using fill by (auto simp: fill_maker_order_def Let_def fun_eq_iff
          dest!: remove_active_order_frame(1) split: prod.splits sum.splits)
    from fill_level_full [OF ok i maker, of "mv_state v'"] this
    have "level_ok (mv_state v') m buy p (mv_level v')"
      using fill sz by (auto simp: fill_maker_order_def Let_def split: prod.splits sum.splits)
    moreover have "mv_level v' = level_remove (mv_level v) i ?sz"
      using fill sz by (auto simp: fill_maker_order_def Let_def split: prod.splits sum.splits)
    ultimately show ?thesis
      by (auto simp: level_remove_def) (metis in_set_remove1)
  next
    case False
    then have sz: "?sz < ord_remaining_size maker"
      by (metis min.cobounded2 order_le_less right_minus_eq)
    have v': "mv_state v' = set_order (mv_state v) i
          (maker\<lparr>ord_remaining_size := ord_remaining_size maker - ?sz\<rparr>)"
        "mv_level v' = (mv_level v)\<lparr>lvl_total_size := lvl_total_size (mv_level v) - ?sz\<rparr>"
      using fill False by (auto simp: fill_maker_order_def Let_def)
    have "get_order (mv_state v') = (get_order (mv_state v))
        (i := Inr (Some (maker\<lparr>ord_remaining_size := ord_remaining_size maker - ?sz\<rparr>)))"
      by (simp add: v' fun_eq_iff)
    from fill_level_partial [OF ok i maker sz this] show ?thesis by (auto simp: v')
  qed
  then show "level_ok (mv_state v') m buy p (mv_level v')"
    and "set (lvl_orders (mv_level v)) - {i} \<subseteq> set (lvl_orders (mv_level v'))"
    by blast+
qed

lemma match_level_ok:
  "match_level taker price ids v = (Inr u, v') \<Longrightarrow> level_ok (mv_state v) m buy p (mv_level v) \<Longrightarrow>
   distinct ids \<Longrightarrow> set ids \<subseteq> set (lvl_orders (mv_level v)) \<Longrightarrow>
   level_ok (mv_state v') m buy p (mv_level v') \<and>
   (\<forall>j. j \<notin> set ids \<longrightarrow> get_order (mv_state v') j = get_order (mv_state v) j)"
proof (induction ids arbitrary: v)
  case (Cons i ids)
  show ?case
  proof (cases "mv_remaining v = 0")
    case True
    with Cons.prems show ?thesis by simp
  next
    case rem: False
    have i: "i \<in> set (lvl_orders (mv_level v))" using Cons.prems(4) by simp
    then have "resting (mv_state v) m buy p i"
      using Cons.prems(2) by (simp add: level_ok_def)
    then obtain maker where maker: "get_order (mv_state v) i = Inr (Some maker)"
      by (auto elim: restingE)
    show ?thesis
    proof (cases "ord_owner maker = ord_owner taker")
      case True
      with Cons.prems rem maker Cons.IH [of v] show ?thesis by auto
    next
      case False
      then obtain u1 v1 where f: "fill_maker_order taker price i maker v = (Inr u1, v1)"
        and m: "match_level taker price ids v1 = (Inr u, v')"
        using Cons.prems(1) rem maker by (auto simp: result_simps)
      note lv = fill_maker_order_level [OF Cons.prems(2) i maker rem f]
      have "level_ok (mv_state v') m buy p (mv_level v') \<and>
          (\<forall>j. j \<notin> set ids \<longrightarrow> get_order (mv_state v') j = get_order (mv_state v1) j)"
        by (rule Cons.IH [OF m lv(1)]) (use Cons.prems lv(2) in auto)
      moreover have "\<And>j. j \<noteq> i \<Longrightarrow> get_order (mv_state v1) j = get_order (mv_state v) j"
        using fill_maker_order_vars(3) [OF f] by auto
      ultimately show ?thesis by auto
    qed
  qed
qed simp

lemma side_ok_cong:
  assumes "side_ok s m buy b" "\<And>p j. resting s m buy p j \<Longrightarrow> get_order s' j = get_order s j"
  shows "side_ok s' m buy b"
  unfolding side_ok_def
proof (intro conjI allI impI)
  show "bt_invar b" using assms(1) by (simp add: side_ok_def)
  fix p l
  assume "bt_get b p = Some l"
  then have l: "lvl_orders l \<noteq> []" "level_ok s m buy p l"
    using assms(1) by (simp_all add: side_ok_def)
  show "lvl_orders l \<noteq> []" by (rule l)
  show "level_ok s' m buy p l"
    by (rule level_ok_cong [OF l(2)]) (use l(2) assms(2) in \<open>auto simp: level_ok_def\<close>)
qed

text \<open>One price level of the outer loop.\<close>

lemma match_one_price_ok:
  assumes ok: "side_ok s m buy b" and l: "bt_get b price = Some l"
    and match: "match_level taker price (lvl_orders l)
        \<lparr>mv_state = s, mv_level = l, mv_fills = fills, mv_remaining = remaining\<rparr> = (Inr u, v)"
  shows "side_ok (mv_state v) m buy
      (if level_is_empty (mv_level v) then bt_remove price b else bt_insert price (mv_level v) b)"
    and "\<And>j. (\<And>p. \<not> resting s m buy p j) \<Longrightarrow> get_order (mv_state v) j = get_order s j"
proof -
  have lok: "level_ok s m buy price l" and inv: "bt_invar b"
    using ok l by (simp_all add: side_ok_def)
  then have mv: "level_ok (mv_state v) m buy price (mv_level v)"
    "\<And>j. j \<notin> set (lvl_orders l) \<Longrightarrow> get_order (mv_state v) j = get_order s j"
    using match_level_ok [OF match, of m buy price] by (simp_all add: level_ok_def)
  have others: "level_ok (mv_state v) m buy p k" if "bt_get b p = Some k" "p \<noteq> price" for p k
  proof (rule level_ok_cong)
    show k: "level_ok s m buy p k" using ok that(1) by (simp add: side_ok_def)
    fix i
    assume "i \<in> set (lvl_orders k)"
    then have "resting s m buy p i" using k by (simp add: level_ok_def)
    then have "i \<notin> set (lvl_orders l)"
      using lok that(2) by (auto simp: level_ok_def dest: resting_unique)
    then show "get_order (mv_state v) i = get_order s i" by (rule mv(2))
  qed
  show "side_ok (mv_state v) m buy
      (if level_is_empty (mv_level v) then bt_remove price b else bt_insert price (mv_level v) b)"
    using mv(1) others ok inv
    by (auto simp: side_ok_def bt_laws level_is_empty_def split: if_splits)
  show "get_order (mv_state v) j = get_order s j" if "\<And>p. \<not> resting s m buy p j" for j
    using that lok by (intro mv(2)) (auto simp: level_ok_def)
qed

lemma match_prices_ok:
  "match_prices taker prices (s, b, fills, remaining) = (Inr u, s', b', fills', remaining') \<Longrightarrow>
   side_ok s m buy b \<Longrightarrow>
   side_ok s' m buy b' \<and> (\<forall>j. (\<forall>p. \<not> resting s m buy p j) \<longrightarrow> get_order s' j = get_order s j)"
proof (induction prices arbitrary: s b fills remaining)
  case (Cons price prices)
  show ?case
  proof (cases "price_unacceptable taker price")
    case True
    with Cons.prems show ?thesis by simp
  next
    case ok: False
    show ?thesis
    proof (cases "bt_get b price")
      case None
      then show ?thesis
        using Cons.prems ok Cons.IH by (cases "remaining = 0") auto
    next
      case (Some l)
      let ?v = "\<lparr>mv_state = s, mv_level = l, mv_fills = fills, mv_remaining = remaining\<rparr>"
      obtain u1 v1 where m: "match_level taker price (lvl_orders l) ?v = (Inr u1, v1)"
        using Cons.prems(1) ok Some
        by (cases "match_level taker price (lvl_orders l) ?v") (auto split: sum.splits)
      let ?b = "if level_is_empty (mv_level v1) then bt_remove price b else bt_insert price (mv_level v1) b"
      note step = match_one_price_ok [OF Cons.prems(2) Some m]
      have still: "resting (mv_state v1) m buy p j = resting s m buy p j"
        if "\<forall>p. \<not> resting s m buy p j" for p j
        using step(2) that by (intro resting_cong) blast
      show ?thesis
      proof (cases "mv_remaining v1 = 0")
        case True
        then show ?thesis
          using Cons.prems(1) ok Some m step by (auto simp: Let_def)
      next
        case False
        then have "match_prices taker prices (mv_state v1, ?b, mv_fills v1, mv_remaining v1) =
            (Inr u, s', b', fills', remaining')"
          using Cons.prems(1) ok Some m by (simp add: Let_def)
        from Cons.IH [OF this step(1)] still step(2) show ?thesis by simp
      qed
    qed
  qed
qed simp

lemma opposing_ok:
  "book_ok s ob \<Longrightarrow> opposing ob taker = Some b \<Longrightarrow>
     side_ok s (ord_market_id taker) (\<not> ord_is_buy taker) b"
  by (auto simp: book_ok_def opposing_def split: if_splits)

lemma match_order_book_ok:
  assumes match: "match_order ob s taker = (Inr fills, ob', s')" and ok: "book_ok s ob"
  shows "book_ok s' ob'"
  using match
proof (cases rule: match_order_success)
  case 1
  with ok show ?thesis by simp
next
  case (2 b b' remaining)
  let ?m = "ord_market_id taker" and ?buy = "\<not> ord_is_buy taker"
  have side: "side_ok s' ?m ?buy b'"
    and same: "\<And>j. (\<forall>p. \<not> resting s ?m ?buy p j) \<Longrightarrow> get_order s' j = get_order s j"
    using match_prices_ok [OF 2(3) opposing_ok [OF ok 2(1)]] by blast+
  have other: "side_ok s' m buy c" if "side_ok s m buy c" "m \<noteq> ?m \<or> buy \<noteq> ?buy" for m buy c
    by (rule side_ok_cong [OF that(1)], rule same) (use that(2) resting_unique in blast)
  show ?thesis
    using ok side other unfolding 2(2) book_ok_def
    by (auto simp: set_opposing_def)
qed

section \<open>Adding and removing orders\<close>

lemma add_order_level_ok:
  assumes "level_ok s m buy p l" "resting s m buy p i" "i \<notin> set (lvl_orders l)"
    and "unat (lvl_total_size l) + remaining_of s i < 2 ^ 64" "unat sz = remaining_of s i"
  shows "level_ok s m buy p (level_add l i sz)"
proof -
  have "unat (lvl_total_size l + sz) = unat (lvl_total_size l) + unat sz"
    using assms(4,5) by (subst unat_add_lem [THEN iffD1]) simp_all
  with assms show ?thesis
    by (simp add: level_ok_def level_add_def)
qed

lemma new_level_ok: "level_ok s m buy p new_level"
  by (simp add: level_ok_def new_level_def)

lemma book_add_ok:
  assumes ok: "side_ok s m buy b" and i: "resting s m buy p i" "i \<notin> set (level_ids b p)"
    and sz: "unat sz = remaining_of s i"
      "unat (lvl_total_size (or_default new_level (bt_get b p))) + remaining_of s i < 2 ^ 64"
  shows "side_ok s m buy (book_add b p i sz)"
proof -
  let ?l = "or_default new_level (bt_get b p)"
  have l: "level_ok s m buy p ?l"
    using ok by (auto simp: or_default_def side_ok_def new_level_ok split: option.splits)
  have new: "i \<notin> set (lvl_orders ?l)"
    using i(2) by (auto simp: or_default_def level_ids_def new_level_def split: option.splits)
  have "level_ok s m buy p (level_add ?l i sz)"
    by (rule add_order_level_ok [OF l i(1) new sz(2,1)])
  then show ?thesis
    using ok by (auto simp: side_ok_def book_add_def bt_laws level_add_def)
qed

lemma side_ok_Nil: "side_ok s m buy []"
  by (simp add: side_ok_def)

definition same_side :: "OrderbookManager \<Rightarrow> Order \<Rightarrow> book" where
  "same_side ob x =
     or_default [] ((if ord_is_buy x then bids ob else asks ob) (ord_market_id x))"

lemma same_side_ok: "book_ok s ob \<Longrightarrow> side_ok s (ord_market_id x) (ord_is_buy x) (same_side ob x)"
  by (auto simp: book_ok_def same_side_def or_default_def side_ok_Nil split: option.splits)

lemma add_order_book_ok:
  assumes ok: "book_ok s ob" and x: "get_order s i = Inr (Some x)" "ord_status x = Active"
      "ord_remaining_size x \<noteq> 0"
    and new: "i \<notin> set (level_ids (same_side ob x) (ord_price x))"
    and fits: "unat (lvl_total_size (or_default new_level (bt_get (same_side ob x) (ord_price x)))) +
        unat (ord_remaining_size x) < 2 ^ 64"
  shows "book_ok s (add_order ob i x)"
proof -
  have "resting s (ord_market_id x) (ord_is_buy x) (ord_price x) i"
    using x by (simp add: resting_def)
  then have "side_ok s (ord_market_id x) (ord_is_buy x)
      (book_add (same_side ob x) (ord_price x) i (ord_remaining_size x))"
    using new fits x by (intro book_add_ok [OF same_side_ok [OF ok]]) (simp_all add: remaining_of_def)
  then show ?thesis
    using ok by (auto simp: book_ok_def add_order_def same_side_def Let_def)
qed

lemma book_remove_ok:
  assumes ok: "side_ok s m buy b" and x: "get_order s i = Inr (Some x)"
    and here: "ord_market_id x = m" "ord_is_buy x = buy"
    and same: "\<And>j. j \<noteq> i \<Longrightarrow> get_order s' j = get_order s j"
    and i: "i \<in> set (level_ids b (ord_price x))"
  shows "side_ok s' m buy (book_remove b (ord_price x) i (ord_remaining_size x))"
proof -
  obtain l where l: "bt_get b (ord_price x) = Some l" "i \<in> set (lvl_orders l)"
    using i by (cases "bt_get b (ord_price x)") (auto simp: level_ids_def)
  have lok: "level_ok s' m buy (ord_price x) (level_remove l i (ord_remaining_size x))"
    using ok l by (intro fill_level_full [OF _ l(2) x same]) (simp add: side_ok_def)
  have others: "level_ok s' m buy p k" if "bt_get b p = Some k" "p \<noteq> ord_price x" for p k
  proof (rule level_ok_cong)
    show k: "level_ok s m buy p k" using ok that(1) by (simp add: side_ok_def)
    show "get_order s' j = get_order s j" if "j \<in> set (lvl_orders k)" for j
      using that k x \<open>p \<noteq> ord_price x\<close> by (intro same) (auto simp: level_ok_def elim!: restingE)
  qed
  show ?thesis
    using ok l lok others
    by (auto simp: side_ok_def book_remove_def bt_laws Let_def level_is_empty_def split: if_splits)
qed

text \<open>Removing an order from the book once its stored copy has changed, as cancelling does.\<close>

lemma remove_order_book_ok:
  assumes ok: "book_ok s ob" and x: "get_order s i = Inr (Some x)"
    and same: "\<And>j. j \<noteq> i \<Longrightarrow> get_order s' j = get_order s j"
    and i: "i \<in> set (level_ids (same_side ob x) (ord_price x))"
  shows "book_ok s' (remove_order ob i x)"
proof -
  have side: "side_ok s' (ord_market_id x) (ord_is_buy x)
      (book_remove (same_side ob x) (ord_price x) i (ord_remaining_size x))"
    by (rule book_remove_ok [OF same_side_ok [OF ok] x _ _ same i]) simp_all
  have other: "side_ok s' m buy c"
    if "side_ok s m buy c" "m \<noteq> ord_market_id x \<or> buy \<noteq> ord_is_buy x" for m buy c
    by (rule side_ok_cong [OF that(1)], rule same) (use that(2) x in \<open>auto elim!: restingE\<close>)
  have "(if ord_is_buy x then bids ob else asks ob) (ord_market_id x) \<noteq> None"
    using i by (auto simp: same_side_def or_default_def level_ids_def split: option.splits)
  then show ?thesis
    using ok side other
    by (auto simp: book_ok_def remove_order_def same_side_def or_default_def Let_def split: if_splits)
qed

section \<open>Post-only orders and the best prices\<close>

lemma match_order_post_only:
  assumes "ord_post_only taker" "match_order ob s taker = (r, ob', s')"
  shows "r = Inl PostOnlyWouldTake \<or> (r = Inr [] \<and> s' = s)"
proof (cases "would_match ob taker")
  case True
  with assms show ?thesis by (simp add: match_order_def)
next
  case no: False
  show ?thesis
  proof (cases "opposing ob taker")
    case None
    with assms no show ?thesis by (simp add: match_order_def)
  next
    case (Some b)
    let ?prices = "if ord_is_buy taker then bt_keys b else rev (bt_keys b)"
    have "?prices = [] \<or> price_unacceptable taker (hd ?prices)"
      using no Some
      by (auto simp: would_match_def price_unacceptable_def bt_keys_def hd_rev Let_def word_gt_0
          split: if_splits)
    then have "match_prices taker ?prices (s, b, [], ord_remaining_size taker) =
        (Inr (), s, b, [], ord_remaining_size taker)"
      by (cases ?prices) auto
    with assms no Some show ?thesis by (simp add: match_order_def Let_def)
  qed
qed

lemma best_prices:
  assumes "book_ok s ob"
  shows "get_best_ask ob m = Some p \<Longrightarrow> asks ob m = Some b \<Longrightarrow>
      (\<exists>i. resting s m False p i) \<and> (\<forall>q. bt_get b q \<noteq> None \<longrightarrow> p \<le> q)"
    and "get_best_bid ob m = Some p \<Longrightarrow> bids ob m = Some b \<Longrightarrow>
      (\<exists>i. resting s m True p i) \<and> (\<forall>q. bt_get b q \<noteq> None \<longrightarrow> q \<le> p)"
proof -
  have level: "\<exists>i. resting s m buy q i" if "side_ok s m buy c" "q \<in> set (bt_keys c)" for buy c q
  proof -
    have "bt_get c q \<noteq> None" using that(2) by (auto simp: bt.set_keys)
    then obtain l where "bt_get c q = Some l" by blast
    then have "lvl_orders l \<noteq> []" "level_ok s m buy q l" using that(1) by (simp_all add: side_ok_def)
    then show ?thesis by (metis level_ok_def list.set_intros(1) list.exhaust)
  qed
  show "(\<exists>i. resting s m False p i) \<and> (\<forall>q. bt_get b q \<noteq> None \<longrightarrow> p \<le> q)"
    if "get_best_ask ob m = Some p" "asks ob m = Some b"
  proof -
    have "side_ok s m False b" "p = hd (bt_keys b)" "bt_keys b \<noteq> []"
      using that assms by (auto simp: get_best_ask_def book_ok_def split: if_splits)
    then show ?thesis
      using level [of False b p] bt.hd_key_least [of b] by (simp add: side_ok_def)
  qed
  show "(\<exists>i. resting s m True p i) \<and> (\<forall>q. bt_get b q \<noteq> None \<longrightarrow> q \<le> p)"
    if "get_best_bid ob m = Some p" "bids ob m = Some b"
  proof -
    have "side_ok s m True b" "p = last (bt_keys b)" "bt_keys b \<noteq> []"
      using that assms by (auto simp: get_best_bid_def book_ok_def split: if_splits)
    then show ?thesis
      using level [of True b p] bt.last_key_greatest [of b] by (simp add: side_ok_def)
  qed
qed

section \<open>Properties\<close>

text \<open>A book with two asks of account 9 at price 100 and one at price 110, and a buyer.\<close>

definition ask_order :: "u64 \<Rightarrow> u64 \<Rightarrow> u64 \<Rightarrow> Order" where
  "ask_order i price sz = \<lparr>ord_id = i, ord_market_id = 0, ord_owner = 9, ord_is_buy = False, ord_price = price,
     ord_original_size = sz, ord_remaining_size = sz, ord_status = Active, ord_created_at = 0,
     ord_reduce_only = False, ord_post_only = False\<rparr>"

definition buy_order :: "u64 \<Rightarrow> u64 \<Rightarrow> Order" where
  "buy_order price sz = \<lparr>ord_id = 5, ord_market_id = 0, ord_owner = 7, ord_is_buy = True, ord_price = price,
     ord_original_size = sz, ord_remaining_size = sz, ord_status = Active, ord_created_at = 0,
     ord_reduce_only = False, ord_post_only = False\<rparr>"

definition ask_state :: StateManager where
  "ask_state = set_order (set_order (set_order market_state 1 (ask_order 1 100 4)) 2 (ask_order 2 100 5))
     3 (ask_order 3 110 6)"

definition ask_book :: OrderbookManager where
  "ask_book = add_order (add_order (add_order new_orderbook 3 (ask_order 3 110 6)) 1 (ask_order 1 100 4))
     2 (ask_order 2 100 5)"

lemma ask_state_orders [simp]:
  "get_order ask_state 1 = Inr (Some (ask_order 1 100 4))" "get_order ask_state 2 = Inr (Some (ask_order 2 100 5))"
  "get_order ask_state 3 = Inr (Some (ask_order 3 110 6))"
  by (simp_all add: ask_state_def)

lemma ask_book_sides [simp]:
  "bids ask_book = Map.empty"
  "asks ask_book m = (if m = 0 then Some [(100, \<lparr>lvl_orders = [1, 2], lvl_total_size = 9\<rparr>),
     (110, \<lparr>lvl_orders = [3], lvl_total_size = 6\<rparr>)] else None)"
  by (simp_all add: ask_book_def add_order_def new_orderbook_def ask_order_def or_default_def book_add_def
      bt_get_def bt_insert_def level_add_def new_level_def Let_def)

lemma ask_book_ok: "book_ok ask_state ask_book"
proof -
  have lvl: "level_ok ask_state 0 False 100 \<lparr>lvl_orders = [1, 2], lvl_total_size = 9\<rparr>"
    "level_ok ask_state 0 False 110 \<lparr>lvl_orders = [3], lvl_total_size = 6\<rparr>"
    by (simp_all add: level_ok_def resting_def remaining_of_def) (simp_all add: ask_order_def)
  then show ?thesis
    by (auto simp: book_ok_def side_ok_def bt_invar_def bt_get_def split: if_splits)
qed

text \<open>The buyer of 7 takes all of order 1 and 3 of order 2.\<close>

lemma ask_match:
  "\<exists>ob' s'. match_order ask_book ask_state (buy_order 100 7) =
     (Inr [make_fill (buy_order 100 7) 100 1 (ask_order 1 100 4) 4,
           make_fill (buy_order 100 7) 100 2 (ask_order 2 100 5) 3], ob', s')"
proof -
  obtain s1 where s1: "remove_active_order (set_order ask_state 1 ((ask_order 1 100 4)\<lparr>ord_remaining_size := 0, ord_status := Filled\<rparr>)) 0 1 = (Inr (), s1)"
    by (auto simp: remove_active_order_def Let_def store_simps ask_state_def market_state_def)
  then have "get_order s1 2 = Inr (Some (ask_order 2 100 5))"
    by (simp add: remove_active_order_frame(1) [OF s1])
  with s1 show ?thesis
    by (simp add: match_order_def opposing_def buy_order_def bt_keys_def price_unacceptable_def bt_get_def
        fill_maker_order_def Let_def ask_order_def level_remove_def level_is_empty_def)
qed

text \<open>C2: Matching conserves size.  The fills account exactly for what the taker lost of its
  remaining size, never more than it had, and every maker order loses exactly what its fills
  account for; what is left of a maker is what the state stores.\<close>

theorem match_conserves_size:
  assumes "match_order ob s taker = (Inr fills, ob', s')"
  shows "filled_total fills \<le> unat (ord_remaining_size taker) \<and>
    (\<forall>i. remaining_of s' i + filled_of fills i = remaining_of s i)"
proof -
  have "\<exists>remaining :: u64. unat remaining + filled_total fills = unat (ord_remaining_size taker)"
    by (rule match_order_keeps [OF assms keeps_taker_size]) simp
  then obtain remaining :: u64 where "unat remaining + filled_total fills = unat (ord_remaining_size taker)" ..
  moreover have "remaining_of s' i + filled_of fills i = remaining_of s i" for i
    using match_order_keeps [OF assms keeps_maker_size] by auto
  ultimately show ?thesis by auto
qed

theorem match_conserves_size_witness:
  "\<exists>fills ob' s'. match_order ask_book ask_state (buy_order 100 7) = (Inr fills, ob', s') \<and>
     filled_total fills = 7 \<and> remaining_of s' 1 = 0 \<and> remaining_of s' 2 = 2"
proof -
  obtain ob' s' where m: "match_order ask_book ask_state (buy_order 100 7) =
     (Inr [make_fill (buy_order 100 7) 100 1 (ask_order 1 100 4) 4,
           make_fill (buy_order 100 7) 100 2 (ask_order 2 100 5) 3], ob', s')"
    using ask_match by blast
  have sizes: "remaining_of ask_state 1 = 4" "remaining_of ask_state 2 = 5"
    by (simp_all add: remaining_of_def) (simp_all add: ask_order_def)
  have all: "\<forall>i. remaining_of s' i + filled_of
      [make_fill (buy_order 100 7) 100 1 (ask_order 1 100 4) 4,
       make_fill (buy_order 100 7) 100 2 (ask_order 2 100 5) 3] i = remaining_of ask_state i"
    using match_conserves_size [OF m] by blast
  have "remaining_of s' 1 = 0" "remaining_of s' 2 = 2"
    using spec [OF all, of 1] spec [OF all, of 2] by (simp_all add: sizes filled_of_def)
  with m show ?thesis by simp
qed

text \<open>C1: Matching follows price-time priority.  The fills are a subsequence of the queue that lists
  the opposing orders by price, best price first, and within a price by arrival; no fill is at a
  price worse than the taker's limit, and no order is filled against its own owner.\<close>

theorem match_price_time_priority:
  assumes "match_order ob s taker = (Inr fills, ob', s')" "opposing ob taker = Some b" "bt_invar b"
  shows "subseq (map fill_key fills)
      (priority_queue b (if ord_is_buy taker then bt_keys b else rev (bt_keys b))) \<and>
    (\<forall>f\<in>set fills. fill_ok taker f)"
proof
  show "\<forall>f\<in>set fills. fill_ok taker f"
    using match_order_keeps [OF assms(1) keeps_fill_ok] by auto
  have "distinct (bt_keys b)"
    using bt.keys_distinct [OF assms(3)] .
  then have "distinct (if ord_is_buy taker then bt_keys b else rev (bt_keys b))" by simp
  note prio = match_prices_priority [OF _ assms(3) this]
  from assms(1) show "subseq (map fill_key fills)
      (priority_queue b (if ord_is_buy taker then bt_keys b else rev (bt_keys b)))"
  proof (cases rule: match_order_success)
    case (2 c b' remaining)
    then show ?thesis using prio [of taker s "[]"] assms(2) by fastforce
  qed simp
qed

theorem match_price_time_priority_witness:
  "\<exists>fills ob' s'. match_order ask_book ask_state (buy_order 100 7) = (Inr fills, ob', s') \<and>
     map fill_key fills = [(100, 1), (100, 2)] \<and>
     subseq (map fill_key fills) [(100, 1), (100, 2), (110, 3)]"
proof -
  obtain ob' s' where m: "match_order ask_book ask_state (buy_order 100 7) =
     (Inr [make_fill (buy_order 100 7) 100 1 (ask_order 1 100 4) 4,
           make_fill (buy_order 100 7) 100 2 (ask_order 2 100 5) 3], ob', s')"
    using ask_match by blast
  have opp: "opposing ask_book (buy_order 100 7) =
      Some [(100, \<lparr>lvl_orders = [1, 2], lvl_total_size = 9\<rparr>), (110, \<lparr>lvl_orders = [3], lvl_total_size = 6\<rparr>)]"
    by (simp add: opposing_def buy_order_def)
  have inv: "bt_invar [(100 :: u64, \<lparr>lvl_orders = [1, 2], lvl_total_size = 9\<rparr>), (110, \<lparr>lvl_orders = [3], lvl_total_size = 6\<rparr>)]"
    by (simp add: bt_invar_def)
  show ?thesis
    using match_price_time_priority [OF m opp inv] m
    by (auto simp: priority_queue_def level_ids_def bt_get_def bt_keys_def buy_order_def fill_key_def)
qed


end
