(* ===== verification/Position_Manager.thy ===== *)
theory Position_Manager
  imports Engine_Base
begin

text \<open>
  \<open>crates/engine/src/position.rs\<close>: how a trade changes a position, unrealised profit and loss,
  and the liquidation price.  The lemmas read the machine arithmetic as integers: the signed
  size of a position moves by the traded amount, the entry price is the weighted average, and
  the profit is the price difference times the size.
\<close>

section \<open>Model\<close>

definition increase_position ::
  "Position \<Rightarrow> u64 \<Rightarrow> u64 \<Rightarrow> u32 \<Rightarrow> EngineError + Position" where
  "increase_position p sz price initial_margin_bps =
     bindE (ok_or Overflow (checked_mul (ucast (pos_size p)) (ucast (pos_entry_price p) :: u128))) (\<lambda>old_value.
     bindE (ok_or Overflow (checked_mul (ucast sz) (ucast price :: u128))) (\<lambda>new_value.
     bindE (ok_or Overflow (checked_add old_value new_value)) (\<lambda>total_value.
     bindE (ok_or Overflow (checked_add (ucast (pos_size p)) (ucast sz :: u128))) (\<lambda>total_size.
       if total_size > 0 then
         bindE (ok_or Overflow (checked_mul new_value (ucast initial_margin_bps))) (\<lambda>x.
         bindE (ok_or Overflow (checked_add (pos_margin p) (x div BASIS_POINTS))) (\<lambda>margin.
           Inr (p\<lparr>pos_entry_price := ucast (total_value div total_size),
                  pos_size := ucast total_size, pos_margin := margin\<rparr>)))
       else Inr p))))"

definition calculate_initial_margin :: "u64 \<Rightarrow> u64 \<Rightarrow> u32 \<Rightarrow> EngineError + u128" where
  "calculate_initial_margin sz price initial_margin_bps =
     bindE (ok_or Overflow (checked_mul (ucast sz) (ucast price :: u128))) (\<lambda>position_value.
     bindE (ok_or Overflow (checked_mul position_value (ucast initial_margin_bps))) (\<lambda>x.
       ok_or DivisionByZero (checked_div x BASIS_POINTS)))"

text \<open>The last case of the match: part of the position is closed.\<close>

definition reduce_position :: "Position \<Rightarrow> u64 \<Rightarrow> EngineError + Position" where
  "reduce_position p sz =
     (if pos_size p = 0 then Inl (EngineError_Other ''Cannot reduce zero-sized position'')
      else
        bindE (ok_or Overflow (checked_mul (ucast sz) (10000 :: u128))) (\<lambda>x.
        bindE (ok_or Overflow (checked_mul (pos_margin p) (x div ucast (pos_size p)))) (\<lambda>y.
          Inr (p\<lparr>pos_size := pos_size p - sz,
                 pos_margin := saturating_sub (pos_margin p) (y div 10000)\<rparr>))))"

definition update_position ::
  "StateManager \<Rightarrow> Address \<Rightarrow> u32 \<Rightarrow> u64 \<Rightarrow> u64 \<Rightarrow> bool \<Rightarrow> u32 \<Rightarrow> (EngineError + unit) \<times> StateManager" where
  "update_position s trader market sz price is_buy initial_margin_bps =
     bindR (of_state (get_position s trader market), s) (\<lambda>position s.
       case position of
         Some p \<Rightarrow>
           if pos_is_long p = is_buy then
             bindR (increase_position p sz price initial_margin_bps, s) (\<lambda>p' s.
               (Inr (), set_position s trader market p'))
           else if sz \<ge> pos_size p then
             (let remaining = sz - pos_size p in
              if remaining > 0 then
                bindR (calculate_initial_margin remaining price initial_margin_bps, s) (\<lambda>new_margin s.
                  (Inr (), set_position s trader market
                     (p\<lparr>pos_size := remaining, pos_entry_price := price, pos_is_long := is_buy,
                        pos_margin := new_margin\<rparr>)))
              else (Inr (), delete_position s trader market))
           else
             bindR (reduce_position p sz, s) (\<lambda>p' s. (Inr (), set_position s trader market p'))
       | None \<Rightarrow>
           bindR (calculate_initial_margin sz price initial_margin_bps, s) (\<lambda>margin s.
             (Inr (), set_position s trader market
                \<lparr>pos_size = sz, pos_entry_price = price, pos_is_long = is_buy,
                 pos_margin = margin, pos_funding_index = 0\<rparr>)))"

definition calculate_pnl :: "Position \<Rightarrow> u64 \<Rightarrow> EngineError + (u128 \<times> bool)" where
  "calculate_pnl p mark_price =
     (if pos_size p = 0 then Inr (0, True)
      else
        bindE (ok_or Overflow (checked_mul (ucast (pos_size p)) (ucast (pos_entry_price p) :: u128))) (\<lambda>entry_value.
        bindE (ok_or Overflow (checked_mul (ucast (pos_size p)) (ucast mark_price :: u128))) (\<lambda>mark_value.
          Inr (if pos_is_long p then
                 if mark_value \<ge> entry_value then (mark_value - entry_value, True)
                 else (entry_value - mark_value, False)
               else if entry_value \<ge> mark_value then (entry_value - mark_value, True)
               else (mark_value - entry_value, False)))))"

definition calculate_liquidation_price :: "Position \<Rightarrow> u32 \<Rightarrow> EngineError + u64" where
  "calculate_liquidation_price p maintenance_margin_bps =
     (if pos_size p = 0 then Inr 0
      else
        bindE (ok_or Overflow (checked_mul (ucast (pos_entry_price p)) (ucast maintenance_margin_bps :: u128))) (\<lambda>x.
        (let margin_factor = x div BASIS_POINTS in
         bindE (ok_or Overflow
             (if pos_is_long p then checked_sub (ucast (pos_entry_price p)) margin_factor
              else checked_add (ucast (pos_entry_price p)) margin_factor)) (\<lambda>liq_price.
           Inr (ucast liq_price)))))"

section \<open>Profit and loss\<close>

definition side_sign :: "bool \<Rightarrow> int" where
  "side_sign long = (if long then 1 else -1)"

definition signed_size :: "Position \<Rightarrow> int" where
  "signed_size p = side_sign (pos_is_long p) * int (unat (pos_size p))"

text \<open>A profit or loss as an integer.\<close>

definition pnl_value :: "u128 \<times> bool \<Rightarrow> int" where
  "pnl_value x = (if snd x then int (unat (fst x)) else - int (unat (fst x)))"

lemma unat_diff: "b \<le> a \<Longrightarrow> int (unat (a - b)) = int (unat a) - int (unat b)" for a b :: "'a::len word"
  by (simp only: unat_sub of_nat_diff word_le_nat_alt)

lemma int_widening_mult:
  "int (unat (ucast (a::u64) * ucast (b::u64) :: u128)) = int (unat a) * int (unat b)"
  by (simp only: widening_mult of_nat_mult)

text \<open>The magnitude and direction of a difference of two values.\<close>

lemma pnl_value_diff:
  "pnl_value (if b \<le> a then (a - b, True) else (b - a, False)) = int (unat a) - int (unat b)"
proof (cases "b \<le> a")
  case True
  then show ?thesis by (simp only: pnl_value_def fst_conv snd_conv if_True unat_diff)
next
  case False
  then have "a \<le> b" by simp
  then show ?thesis
    by (simp only: False pnl_value_def fst_conv snd_conv if_False unat_diff)
qed

lemma pnl_value_of:
  assumes "calculate_pnl p mark = Inr x"
  shows "pnl_value x = signed_size p * (int (unat mark) - int (unat (pos_entry_price p)))"
proof (cases "pos_size p = 0")
  case True
  with assms show ?thesis by (auto simp: calculate_pnl_def pnl_value_def signed_size_def)
next
  case False
  let ?e = "ucast (pos_size p) * ucast (pos_entry_price p) :: u128"
  let ?m = "ucast (pos_size p) * ucast mark :: u128"
  have "x = (if pos_is_long p then (if ?e \<le> ?m then (?m - ?e, True) else (?e - ?m, False))
             else (if ?m \<le> ?e then (?e - ?m, True) else (?m - ?e, False)))"
    using assms False by (simp add: calculate_pnl_def)
  then have "pnl_value x = side_sign (pos_is_long p) * (int (unat ?m) - int (unat ?e))"
    by (cases "pos_is_long p") (simp_all only: pnl_value_diff if_True if_False side_sign_def, simp_all)
  then show ?thesis
    by (simp only: int_widening_mult signed_size_def) (simp add: algebra_simps)
qed

lemma calculate_pnl_ok: "is_ok (calculate_pnl p mark)"
  by (simp add: calculate_pnl_def)

lemma pnl_total: "\<exists>x. calculate_pnl p mark = Inr x"
  using calculate_pnl_ok is_ok_iff by blast

section \<open>Entry price\<close>

lemma BASIS_POINTS_unat [simp]: "unat BASIS_POINTS = 10000"
  by (simp add: BASIS_POINTS_def)

lemma weighted_average_bounds:
  fixes a b x y :: nat
  assumes "0 < a + b"
  shows "min x y \<le> (a * x + b * y) div (a + b)" "(a * x + b * y) div (a + b) \<le> max x y"
proof -
  have "(a + b) * min x y \<le> a * x + b * y"
    by (simp add: distrib_right add_mono mult_le_mono2)
  then show "min x y \<le> (a * x + b * y) div (a + b)"
    using assms by (simp add: less_eq_div_iff_mult_less_eq mult.commute)
  have "a * x + b * y \<le> (a + b) * max x y"
    by (simp add: distrib_right add_mono mult_le_mono2)
  then show "(a * x + b * y) div (a + b) \<le> max x y"
    using assms by (metis div_le_mono nonzero_mult_div_cancel_left less_numeral_extra(3))
qed

lemma increase_position_entry:
  assumes "increase_position p sz price bps = Inr p'" and "0 < unat (pos_size p) + unat sz"
  shows "unat (pos_entry_price p') =
      (unat (pos_size p) * unat (pos_entry_price p) + unat sz * unat price) div (unat (pos_size p) + unat sz)"
    and "unat (pos_size p') = (unat (pos_size p) + unat sz) mod 2 ^ 64"
    and "pos_is_long p' = pos_is_long p"
    and "pos_margin p \<le> pos_margin p'"
proof -
  let ?old = "ucast (pos_size p) * ucast (pos_entry_price p) :: u128"
  let ?new = "ucast sz * ucast price :: u128"
  let ?total = "ucast (pos_size p) + ucast sz :: u128"
  have "unat ?total = unat (pos_size p) + unat sz" by (simp add: word_nat)
  then have pos: "?total > 0"
    using assms(2) by (simp add: word_less_nat_alt)
  then have p': "unat (?old + ?new) = unat ?old + unat ?new"
    "pos_entry_price p' = ucast ((?old + ?new) div ?total)"
    "pos_size p' = ucast ?total" "pos_is_long p' = pos_is_long p" "pos_margin p \<le> pos_margin p'"
    using assms(1)
    by (auto simp: increase_position_def result_simps word_nat word_le_nat_alt split: if_splits)
  let ?avg = "(unat (pos_size p) * unat (pos_entry_price p) + unat sz * unat price) div (unat (pos_size p) + unat sz)"
  have "?avg \<le> max (unat (pos_entry_price p)) (unat price)"
    by (rule weighted_average_bounds) (rule assms(2))
  also have "\<dots> < 2 ^ 64" by (simp add: u64_less [simplified])
  finally have lt: "?avg < 2 ^ 64" .
  have "unat ((?old + ?new) div ?total) = ?avg"
    by (simp add: unat_div p'(1) word_nat)
  with lt show "unat (pos_entry_price p') = ?avg"
    by (simp add: p'(2) word_nat)
  show "unat (pos_size p') = (unat (pos_size p) + unat sz) mod 2 ^ 64"
    by (simp add: p'(3) word_nat)
qed (use assms in \<open>auto simp: increase_position_def result_simps word_nat word_le_nat_alt split: if_splits\<close>)

section \<open>How a trade moves a position\<close>

definition net_size :: "StateManager \<Rightarrow> Address \<Rightarrow> u32 \<Rightarrow> int" where
  "net_size s trader market =
     (case get_position s trader market of Inr (Some p) \<Rightarrow> signed_size p | _ \<Rightarrow> 0)"

text \<open>
  The two situations in which the stored size is not the traded size: the sum of two sizes on
  the same side leaves the range of \<open>u64\<close> and is truncated, and a position that is closed in
  full was already committed, so that \<open>delete\<close> uncovers it again.
\<close>

definition trade_fits :: "StateManager \<Rightarrow> Address \<Rightarrow> u32 \<Rightarrow> u64 \<Rightarrow> bool \<Rightarrow> bool" where
  "trade_fits s trader market sz is_buy =
     (case get_position s trader market of
        Inr (Some p) \<Rightarrow>
          if pos_is_long p = is_buy then unat (pos_size p) + unat sz < 2 ^ 64
          else sz = pos_size p \<longrightarrow> sm_committed s (StateKey_Position trader market) = None
      | _ \<Rightarrow> True)"

lemma net_size_set [simp]: "net_size (set_position s t m p) t m = signed_size p"
  by (simp add: net_size_def get_position_set)

lemma reduce_position_size:
  assumes "reduce_position p sz = Inr p'"
  shows "pos_size p' = pos_size p - sz" "pos_is_long p' = pos_is_long p" "pos_margin p' \<le> pos_margin p"
    "pos_entry_price p' = pos_entry_price p"
  using assms by (auto simp: reduce_position_def result_simps split: if_splits)

lemma update_position_existing:
  assumes pos: "get_position s t m = Inr (Some p)"
    and upd: "update_position s t m sz price buy bps = (Inr (), s')"
  shows "(pos_is_long p = buy \<and> (\<exists>p'. increase_position p sz price bps = Inr p' \<and> s' = set_position s t m p')) \<or>
    (pos_is_long p \<noteq> buy \<and> pos_size p < sz \<and>
       (\<exists>p'. pos_size p' = sz - pos_size p \<and> pos_is_long p' = buy \<and> s' = set_position s t m p')) \<or>
    (pos_is_long p \<noteq> buy \<and> sz = pos_size p \<and> s' = delete_position s t m) \<or>
    (pos_is_long p \<noteq> buy \<and> sz < pos_size p \<and>
       (\<exists>p'. reduce_position p sz = Inr p' \<and> s' = set_position s t m p'))"
proof (cases "pos_is_long p = buy")
  case True
  with assms show ?thesis by (auto simp: update_position_def result_simps)
next
  case other: False
  show ?thesis
  proof (cases "pos_size p \<le> sz")
    case True
    show ?thesis
    proof (cases "sz = pos_size p")
      case True
      with assms other show ?thesis by (auto simp: update_position_def)
    next
      case False
      then have "pos_size p < sz" "sz - pos_size p > 0" "sz - pos_size p \<noteq> 0"
        using True by (auto simp: word_gt_0)
      then obtain mg where "s' = set_position s t m (p\<lparr>pos_size := sz - pos_size p,
          pos_entry_price := price, pos_is_long := buy, pos_margin := mg\<rparr>)"
        using assms other True by (auto simp: update_position_def result_simps Let_def)
      then have "\<exists>p'. pos_size p' = sz - pos_size p \<and> pos_is_long p' = buy \<and> s' = set_position s t m p'"
        by (intro exI conjI) simp_all
      with other \<open>pos_size p < sz\<close> show ?thesis by blast
    qed
  next
    case False
    then have "sz < pos_size p" by simp
    with assms other False show ?thesis
      by (auto simp: update_position_def result_simps)
  qed
qed

lemma int_unat_diff_less: "a < b \<Longrightarrow> int (unat (b - a)) = int (unat b) - int (unat a)" for a b :: "'a::len word"
  by (rule unat_diff) simp

lemma update_position_net:
  assumes upd: "update_position s t m sz price buy bps = (Inr (), s')" and fits: "trade_fits s t m sz buy"
  shows "net_size s' t m = net_size s t m + side_sign buy * int (unat sz)"
proof (cases "get_position s t m")
  case (Inl e)
  with upd show ?thesis by (simp add: update_position_def)
next
  case (Inr x)
  show ?thesis
  proof (cases x)
    case None
    with Inr upd have "\<exists>mg. s' = set_position s t m \<lparr>pos_size = sz, pos_entry_price = price,
        pos_is_long = buy, pos_margin = mg, pos_funding_index = 0\<rparr>"
      by (auto simp: update_position_def result_simps)
    with Inr None show ?thesis by (auto simp: net_size_def get_position_set signed_size_def)
  next
    case (Some p)
    with Inr have pos: "get_position s t m = Inr (Some p)" by simp
    have net: "net_size s t m = signed_size p" by (simp add: net_size_def pos)
    note neg = int_unat_diff_less
    from update_position_existing [OF pos upd] show ?thesis
    proof (elim disjE conjE exE)
      fix p'
      assume p': "pos_is_long p = buy" "increase_position p sz price bps = Inr p'" "s' = set_position s t m p'"
      have fit: "unat (pos_size p) + unat sz < 2 ^ 64"
        using fits p'(1) by (simp add: trade_fits_def pos)
      have "unat (pos_size p') = unat (pos_size p) + unat sz \<and> pos_is_long p' = pos_is_long p"
      proof (cases "0 < unat (pos_size p) + unat sz")
        case True
        then show ?thesis using increase_position_entry [OF p'(2)] fit by simp
      next
        case False
        then have "pos_size p = 0" "sz = 0" by (simp_all add: unat_eq_zero)
        with p'(2) show ?thesis by (auto simp: increase_position_def result_simps checked_add_Some)
      qed
      then show ?thesis
        using p' by (simp add: net signed_size_def algebra_simps del: of_nat_unat)
    next
      fix p'
      assume "pos_is_long p \<noteq> buy" "pos_size p < sz" "pos_size p' = sz - pos_size p" "pos_is_long p' = buy"
        "s' = set_position s t m p'"
      then show ?thesis
        by (auto simp: net signed_size_def side_sign_def neg simp del: of_nat_unat)
    next
      assume "pos_is_long p \<noteq> buy" "sz = pos_size p" "s' = delete_position s t m"
      moreover from this have "sm_committed s (StateKey_Position t m) = None"
        using fits by (auto simp: trade_fits_def pos)
      ultimately have "get_position s' t m = Inr None" by (simp add: get_position_delete)
      then show ?thesis
        using \<open>pos_is_long p \<noteq> buy\<close> \<open>sz = pos_size p\<close>
        by (simp add: net_size_def pos signed_size_def side_sign_def)
    next
      fix p'
      assume "pos_is_long p \<noteq> buy" "sz < pos_size p" "reduce_position p sz = Inr p'" "s' = set_position s t m p'"
      then show ?thesis
        by (auto simp: net signed_size_def side_sign_def neg reduce_position_size simp del: of_nat_unat)
    qed
  qed
qed

text \<open>A failed update changes nothing, and an update touches one trader's position only.\<close>

lemma update_position_error: "update_position s t m sz price buy bps = (Inl e, s') \<Longrightarrow> s' = s"
  by (auto simp: update_position_def bindR_def Let_def split: option.splits sum.splits if_splits prod.splits)

lemma update_position_frame:
  assumes "update_position s t m sz price buy bps = (r, s')"
    and "k \<noteq> StateKey_Position t m" "k \<noteq> StateKey_PositionIndex m"
  shows "sm_get s' k = sm_get s k"
  using assms
  by (auto simp: update_position_def bindR_def Let_def set_position_frame delete_position_frame
      split: option.splits sum.splits if_splits prod.splits)

section \<open>Properties\<close>

lemma sample_position_sel [simp]:
  "pos_size sample_position = 10" "pos_entry_price sample_position = 100" "pos_is_long sample_position"
  "pos_margin sample_position = 100"
  by (simp_all add: sample_position_def)

text \<open>C25: Increasing a position gives it the size-weighted average entry price, rounded down, which
  lies between the old entry price and the trade price; the side is kept and the margin never
  falls.  The new size is the sum modulo \<open>2\<^sup>6\<^sup>4\<close>: the code truncates it without a check.\<close>

theorem increase_averages_entry:
  assumes "increase_position p sz price bps = Inr p'" "0 < unat (pos_size p) + unat sz"
  shows "unat (pos_entry_price p') =
      (unat (pos_size p) * unat (pos_entry_price p) + unat sz * unat price) div (unat (pos_size p) + unat sz) \<and>
    min (pos_entry_price p) price \<le> pos_entry_price p' \<and> pos_entry_price p' \<le> max (pos_entry_price p) price \<and>
    unat (pos_size p') = (unat (pos_size p) + unat sz) mod 2 ^ 64 \<and>
    pos_is_long p' = pos_is_long p \<and> pos_margin p \<le> pos_margin p'"
  using increase_position_entry [OF assms] weighted_average_bounds [OF assms(2)]
  by (simp add: word_le_nat_alt word_min_max)

theorem increase_averages_entry_witness:
  "\<exists>p'. increase_position sample_position 30 140 1000 = Inr p' \<and> unat (pos_entry_price p') = 130"
proof -
  obtain p' where p': "increase_position sample_position 30 140 1000 = Inr p'"
    by (simp add: increase_position_def checked_mul_def checked_add_def BASIS_POINTS_def)
  have "0 < unat (pos_size sample_position) + unat (30 :: u64)"
    by simp
  from increase_averages_entry [OF p' this] p' show ?thesis
    by simp
qed

text \<open>C26: The unrealised profit or loss is total: for every position and every price it is computed
  without overflow, and it is the signed size times the price difference.\<close>

theorem pnl_exact:
  "\<exists>x. calculate_pnl p mark = Inr x \<and>
     pnl_value x = signed_size p * (int (unat mark) - int (unat (pos_entry_price p)))"
  using pnl_total pnl_value_of by blast

end
