(* ===== verification/Risk.thy ===== *)
theory Risk
  imports Position_Manager
begin

text \<open>
  \<open>crates/engine/src/risk.rs\<close>: the margin checks made before an order or a withdrawal, and the
  liquidation test.  The lemmas state what a passed check guarantees, over the natural numbers,
  and which orders pass without any margin.
\<close>

section \<open>Model\<close>

datatype MarginMode = Isolated | Cross

record RiskEngine =
  margin_mode :: MarginMode

definition default_risk_engine :: RiskEngine where
  "default_risk_engine = \<lparr>margin_mode = Isolated\<rparr>"

definition calculate_cross_margin_equity ::
  "StateManager \<Rightarrow> Address \<Rightarrow> u32 \<Rightarrow> EngineError + u128" where
  "calculate_cross_margin_equity s trader quote_asset_id = of_state (get_balance s trader quote_asset_id)"

definition calculate_total_locked_margin ::
  "StateManager \<Rightarrow> Address \<Rightarrow> u32 \<Rightarrow> EngineError + u128" where
  "calculate_total_locked_margin s trader asset = Inr 0"

definition check_withdraw_allowed ::
  "StateManager \<Rightarrow> Address \<Rightarrow> u32 \<Rightarrow> u128 \<Rightarrow> EngineError + unit" where
  "check_withdraw_allowed s trader asset amount =
     bindE (of_state (get_balance s trader asset)) (\<lambda>balance.
     if balance < amount then Inl InsufficientBalance
     else
       bindE (calculate_total_locked_margin s trader asset) (\<lambda>locked_margin.
       (let available = saturating_sub balance locked_margin in
        if available < amount then Inl InsufficientMargin else Inr ())))"

text \<open>The margin of the trader's position that an order leaves locked.\<close>

definition existing_margin :: "Position option \<Rightarrow> PlaceOrderTx \<Rightarrow> EngineError + u128" where
  "existing_margin position x =
     (case position of
        None \<Rightarrow> Inr 0
      | Some p \<Rightarrow>
          if po_is_buy x = pos_is_long p then Inr (pos_margin p)
          else if pos_size p = 0 then Inr 0
          else
            (let reduction_size = min (po_size x) (pos_size p) in
             bindE (ok_or Overflow (checked_mul (ucast reduction_size) BASIS_POINTS)) (\<lambda>a.
             bindE (ok_or Overflow (checked_mul (pos_margin p) (a div ucast (pos_size p)))) (\<lambda>b.
               Inr (saturating_sub (pos_margin p) (b div BASIS_POINTS))))))"

definition check_reduce_only :: "Position option \<Rightarrow> PlaceOrderTx \<Rightarrow> EngineError + unit" where
  "check_reduce_only position x =
     (case position of
        Some p \<Rightarrow>
          if po_is_buy x = pos_is_long p then Inl ReduceOnlyWouldIncrease
          else if po_size x > pos_size p then Inl ReduceOnlyWouldIncrease
          else Inr ()
      | None \<Rightarrow> Inl ReduceOnlyWouldIncrease)"

definition check_order_allowed ::
  "StateManager \<Rightarrow> Address \<Rightarrow> PlaceOrderTx \<Rightarrow> EngineError + unit" where
  "check_order_allowed s trader x =
     bindE (of_state (get_market s (po_market_id x))) (\<lambda>mo.
     bindE (ok_or MarketNotFound mo) (\<lambda>market.
     bindE (ok_or Overflow (checked_mul (ucast (po_size x)) (ucast (po_price x) :: u128))) (\<lambda>order_value.
     bindE (ok_or Overflow (checked_mul order_value (ucast (mkt_initial_margin_bps market)))) (\<lambda>y.
     (let required_margin = y div BASIS_POINTS in
      bindE (of_state (get_balance s trader (mkt_quote_asset_id market))) (\<lambda>balance.
      bindE (of_state (get_position s trader (po_market_id x))) (\<lambda>position.
      bindE (existing_margin position x) (\<lambda>locked.
      (let available_margin = saturating_sub balance locked in
       if available_margin < required_margin then Inl InsufficientMargin
       else if \<not> po_reduce_only x \<and> po_price x > 0 \<and>
               (if required_margin > 0 then order_value div required_margin else - 1) >
                 ucast (mkt_max_leverage market)
            then Inl LeverageTooHigh
       else if po_reduce_only x then check_reduce_only position x
       else Inr ())))))))))"

definition check_liquidation ::
  "StateManager \<Rightarrow> Address \<Rightarrow> u32 \<Rightarrow> u64 \<Rightarrow> EngineError + bool" where
  "check_liquidation s trader market_id mark_price =
     bindE (of_state (get_position s trader market_id)) (\<lambda>position.
     case position of
       None \<Rightarrow> Inr False
     | Some p \<Rightarrow>
         if pos_size p = 0 then Inr False
         else
           bindE (of_state (get_market s market_id)) (\<lambda>mo.
           bindE (ok_or MarketNotFound mo) (\<lambda>market.
           bindE (ok_or Overflow (checked_mul (ucast (pos_size p)) (ucast mark_price :: u128))) (\<lambda>position_value.
           bindE (ok_or Overflow (checked_mul position_value (ucast (mkt_maintenance_margin_bps market)))) (\<lambda>y.
           (let required_margin = y div BASIS_POINTS in
            bindE (calculate_pnl p mark_price) (\<lambda>(pnl, is_profit).
            bindE (if is_profit then ok_or Overflow (checked_add (pos_margin p) pnl)
                   else Inr (saturating_sub (pos_margin p) pnl)) (\<lambda>equity.
              Inr (equity < required_margin)))))))))"

definition calculate_margin_ratio :: "u128 \<Rightarrow> u64 \<Rightarrow> u64 \<Rightarrow> EngineError + u32" where
  "calculate_margin_ratio position_margin position_size mark_price =
     (if position_size = 0 then Inr 0
      else
        bindE (ok_or Overflow (checked_mul (ucast position_size) (ucast mark_price :: u128))) (\<lambda>position_value.
        if position_value = 0 then Inr 0
        else
          bindE (ok_or Overflow (checked_mul position_margin BASIS_POINTS)) (\<lambda>y.
          (let ratio = y div position_value in
           Inr (if unat ratio < 2 ^ 32 then ucast ratio else - 1)))))"

section \<open>What a passed order check guarantees\<close>

definition required_margin_of :: "Market \<Rightarrow> PlaceOrderTx \<Rightarrow> nat" where
  "required_margin_of market x =
     unat (po_size x) * unat (po_price x) * unat (mkt_initial_margin_bps market) div 10000"

lemma check_order_allowed_success:
  assumes "check_order_allowed s trader x = Inr ()"
  obtains market balance position locked where
    "get_market s (po_market_id x) = Inr (Some market)"
    "get_balance s trader (mkt_quote_asset_id market) = Inr balance"
    "get_position s trader (po_market_id x) = Inr position"
    "existing_margin position x = Inr locked"
    "required_margin_of market x \<le> unat balance - unat locked"
    "po_reduce_only x \<Longrightarrow> check_reduce_only position x = Inr ()"
    "\<not> po_reduce_only x \<Longrightarrow> po_price x > 0 \<Longrightarrow>
       0 < required_margin_of market x \<and>
       unat (po_size x) * unat (po_price x) div required_margin_of market x \<le> unat (mkt_max_leverage market)"
proof -
  let ?v = "ucast (po_size x) * ucast (po_price x) :: u128"
  obtain market where m: "get_market s (po_market_id x) = Inr (Some market)"
    using assms by (auto simp: check_order_allowed_def result_simps Let_def)
  let ?req = "(?v * ucast (mkt_initial_margin_bps market)) div BASIS_POINTS"
  obtain balance position locked where
    b: "get_balance s trader (mkt_quote_asset_id market) = Inr balance" and
    p: "get_position s trader (po_market_id x) = Inr position" and
    l: "existing_margin position x = Inr locked" and
    fits: "unat (?v * ucast (mkt_initial_margin_bps market)) = unat ?v * unat (mkt_initial_margin_bps market)" and
    margin: "\<not> saturating_sub balance locked < ?req" and
    lev: "\<not> (\<not> po_reduce_only x \<and> po_price x > 0 \<and>
       (if ?req > 0 then ?v div ?req else - 1) > ucast (mkt_max_leverage market))" and
    ro: "po_reduce_only x \<Longrightarrow> check_reduce_only position x = Inr ()"
    using assms by (auto simp: check_order_allowed_def result_simps Let_def m word_nat split: if_splits)
  have req: "unat ?req = required_margin_of market x"
    by (simp add: required_margin_of_def unat_div fits word_nat)
  have max: "\<not> (- 1 :: u128) \<le> ucast (mkt_max_leverage market)"
  proof -
    have "unat (ucast (mkt_max_leverage market) :: u128) < 2 ^ 32"
      using u32_less by simp
    moreover have "unat (- 1 :: u128) = 2 ^ 128 - 1" by (simp add: unsigned_minus_1_eq_mask mask_eq_exp_minus_1)
    ultimately show ?thesis by (simp add: word_le_nat_alt)
  qed
  show ?thesis
  proof (rule that [OF m b p l])
    show "required_margin_of market x \<le> unat balance - unat locked"
      using margin by (simp add: not_less word_le_nat_alt req word_nat)
    show "0 < required_margin_of market x \<and>
       unat (po_size x) * unat (po_price x) div required_margin_of market x \<le> unat (mkt_max_leverage market)"
      if "\<not> po_reduce_only x" "po_price x > 0"
    proof -
      have "?req > 0" "?v div ?req \<le> ucast (mkt_max_leverage market)"
        using lev that max by (auto simp: not_less split: if_splits)
      then show ?thesis
        by (simp add: word_le_nat_alt word_less_nat_alt unat_div req [symmetric] word_nat)
    qed
  qed (use ro in blast)
qed

text \<open>A reduce-only order that passes is on the other side of the position and no larger.\<close>

lemma check_reduce_only_success:
  "check_reduce_only position x = Inr () \<longleftrightarrow>
     (\<exists>p. position = Some p \<and> po_is_buy x \<noteq> pos_is_long p \<and> po_size x \<le> pos_size p)"
  by (auto simp: check_reduce_only_def split: option.splits)

text \<open>Market orders have price 0, hence value 0 and required margin 0.\<close>

lemma market_order_allowed:
  assumes "po_price x = 0" "\<not> po_reduce_only x"
    and "get_market s (po_market_id x) = Inr (Some market)"
    and "get_balance s trader (mkt_quote_asset_id market) = Inr balance"
    and "get_position s trader (po_market_id x) = Inr None"
  shows "check_order_allowed s trader x = Inr ()"
  using assms by (simp add: check_order_allowed_def existing_margin_def checked_mul_def)

section \<open>Withdrawals\<close>

lemma check_withdraw_allowed_iff:
  "check_withdraw_allowed s trader asset amount = Inr () \<longleftrightarrow>
     (\<exists>balance. get_balance s trader asset = Inr balance \<and> amount \<le> balance)"
  by (cases "get_balance s trader asset")
    (auto simp: check_withdraw_allowed_def calculate_total_locked_margin_def)

section \<open>The liquidation test\<close>

text \<open>Equity, as the test computes it: margin plus profit or loss, not below zero.\<close>

definition equity_of :: "Position \<Rightarrow> u64 \<Rightarrow> int" where
  "equity_of p mark =
     max 0 (int (unat (pos_margin p)) +
            signed_size p * (int (unat mark) - int (unat (pos_entry_price p))))"

definition maintenance_of :: "Market \<Rightarrow> Position \<Rightarrow> u64 \<Rightarrow> nat" where
  "maintenance_of market p mark =
     unat (pos_size p) * unat mark * unat (mkt_maintenance_margin_bps market) div 10000"

definition equity_word :: "Position \<Rightarrow> u128 \<times> bool \<Rightarrow> EngineError + u128" where
  "equity_word p x =
     (if snd x then ok_or Overflow (checked_add (pos_margin p) (fst x))
      else Inr (saturating_sub (pos_margin p) (fst x)))"

lemma equity_word_of:
  assumes "calculate_pnl p mark = Inr x" "equity_word p x = Inr e"
  shows "int (unat e) = equity_of p mark"
proof -
  have v: "pnl_value x = signed_size p * (int (unat mark) - int (unat (pos_entry_price p)))"
    by (rule pnl_value_of [OF assms(1)])
  show ?thesis
  proof (cases "snd x")
    case True
    then have "unat e = unat (pos_margin p) + unat (fst x)"
      using assms(2) by (auto simp: equity_word_def result_simps word_nat)
    with True show ?thesis
      by (simp add: equity_of_def v [symmetric] pnl_value_def del: of_nat_unat)
  next
    case False
    then have "unat e = unat (pos_margin p) - unat (fst x)"
      using assms(2) by (simp add: equity_word_def unat_saturating_sub [symmetric])
    with False show ?thesis
      by (simp add: equity_of_def v [symmetric] pnl_value_def del: of_nat_unat)
  qed
qed

lemma check_liquidation_spec:
  assumes "check_liquidation s trader m mark = Inr r"
    and "get_position s trader m = Inr (Some p)" "pos_size p \<noteq> 0"
    and "get_market s m = Inr (Some market)"
  shows "r \<longleftrightarrow> equity_of p mark < int (maintenance_of market p mark)"
proof -
  let ?v = "ucast (pos_size p) * ucast mark :: u128"
  obtain pnl prof where x: "calculate_pnl p mark = Inr (pnl, prof)" using pnl_total by fastforce
  obtain e where e: "equity_word p (pnl, prof) = Inr e"
    and fits: "unat (?v * ucast (mkt_maintenance_margin_bps market)) = unat ?v * unat (mkt_maintenance_margin_bps market)"
    and r: "r \<longleftrightarrow> e < (?v * ucast (mkt_maintenance_margin_bps market)) div BASIS_POINTS"
    using assms x
    by (auto simp: check_liquidation_def result_simps equity_word_def word_nat Let_def split: if_splits)
  have "unat ((?v * ucast (mkt_maintenance_margin_bps market)) div BASIS_POINTS) = maintenance_of market p mark"
    by (simp add: maintenance_of_def unat_div fits word_nat)
  then show ?thesis
    by (simp add: r word_less_nat_alt equity_word_of [OF x e, symmetric] del: of_nat_unat)
qed

lemma check_liquidation_no_position:
  "get_position s trader m = Inr None \<Longrightarrow> check_liquidation s trader m mark = Inr False"
  by (simp add: check_liquidation_def)

section \<open>Properties\<close>

text \<open>A limit order of 5 at price 100 that needs a margin of 50, and a trader with a balance.\<close>

definition limit_order :: "u64 \<Rightarrow> PlaceOrderTx" where
  "limit_order price = \<lparr>po_market_id = 0, po_is_buy = True, po_order_type = OrderType_Limit, po_price = price,
     po_size = 5, po_time_in_force = GTC, po_reduce_only = False, po_post_only = False\<rparr>"

definition funded_state :: "u128 \<Rightarrow> StateManager" where
  "funded_state amount = set_balance market_state 7 0 amount"

lemma funded_state_reads [simp]:
  "get_market (funded_state b) 0 = Inr (Some sample_market)" "get_balance (funded_state b) 7 0 = Inr b"
  "get_position (funded_state b) a m = Inr None" "get_order (funded_state b) i = Inr None"
  by (simp_all add: funded_state_def set_balance_def) (simp_all add: market_state_def store_simps)

text \<open>C20: An order that passes the margin check is covered: the balance of the trader, less the margin
  of the existing position that the check counts as locked, is at least the initial margin of the
  order value; a priced order that may increase a position also respects the leverage limit, and
  a reduce-only order only reduces an opposite position of at least its size.\<close>

theorem margin_check_sound:
  assumes "check_order_allowed s trader x = Inr ()"
  shows "\<exists>market balance position locked.
    get_market s (po_market_id x) = Inr (Some market) \<and>
    get_balance s trader (mkt_quote_asset_id market) = Inr balance \<and>
    get_position s trader (po_market_id x) = Inr position \<and> existing_margin position x = Inr locked \<and>
    required_margin_of market x \<le> unat balance - unat locked \<and>
    (if po_reduce_only x
     then \<exists>p. position = Some p \<and> po_is_buy x \<noteq> pos_is_long p \<and> po_size x \<le> pos_size p
     else po_price x = 0 \<or> (0 < required_margin_of market x \<and>
       unat (po_size x) * unat (po_price x) div required_margin_of market x \<le> unat (mkt_max_leverage market)))"
proof -
  obtain market balance position locked where
    "get_market s (po_market_id x) = Inr (Some market)"
    "get_balance s trader (mkt_quote_asset_id market) = Inr balance"
    "get_position s trader (po_market_id x) = Inr position" "existing_margin position x = Inr locked"
    "required_margin_of market x \<le> unat balance - unat locked"
    "po_reduce_only x \<Longrightarrow> check_reduce_only position x = Inr ()"
    "\<not> po_reduce_only x \<Longrightarrow> po_price x > 0 \<Longrightarrow> 0 < required_margin_of market x \<and>
       unat (po_size x) * unat (po_price x) div required_margin_of market x \<le> unat (mkt_max_leverage market)"
    using check_order_allowed_success [OF assms] by blast
  then show ?thesis
    by (intro exI [of _ market] exI [of _ balance] exI [of _ position] exI [of _ locked])
      (auto simp: check_reduce_only_success word_gt_0)
qed

theorem margin_check_sound_witness:
  "check_order_allowed (funded_state 60) 7 (limit_order 100) = Inr () \<and>
   (\<exists>b. get_balance (funded_state 60) 7 0 = Inr b \<and> 50 \<le> unat b)"
proof -
  have ok: "check_order_allowed (funded_state 60) 7 (limit_order 100) = Inr ()"
    by (simp add: check_order_allowed_def limit_order_def existing_margin_def sample_market_def checked_mul_def
        BASIS_POINTS_def saturating_sub_def Let_def)
  have "required_margin_of sample_market (limit_order 100) = 50"
    by (simp add: required_margin_of_def limit_order_def sample_market_def)
  then show ?thesis
    using margin_check_sound [OF ok] ok by (simp add: limit_order_def sample_market_def)
qed

text \<open>The risk engine reports a position for liquidation exactly when its equity, the margin plus
  the unrealised profit or loss floored at zero, is below the maintenance margin of its value.\<close>

lemma liquidation_check_exact:
  assumes "check_liquidation s trader m mark = Inr r"
    and "get_position s trader m = Inr (Some p)" "pos_size p \<noteq> 0"
    and "get_market s m = Inr (Some market)"
  shows "r \<longleftrightarrow> equity_of p mark < int (maintenance_of market p mark)"
  by (rule check_liquidation_spec [OF assms])

end
