(* ===== verification/Funding.thy ===== *)
theory Funding
  imports Engine_Base
begin

text \<open>
  \<open>crates/engine/src/funding.rs\<close>: the funding rate of a market, its cumulative index, and the
  payment of a position.  Rates and indices are signed machine integers.  The lemmas bound the
  rate, fix its sign, and show that the payments of the two sides of a market cancel.
\<close>

section \<open>Model\<close>

record FundingRateCalculator =
  max_funding_rate_bps :: u32

definition default_funding_calculator :: FundingRateCalculator where
  "default_funding_calculator = \<lparr>max_funding_rate_bps = DEFAULT_MAX_FUNDING_RATE_BPS\<rparr>"

definition premium_bps :: "u64 \<Rightarrow> u64 \<Rightarrow> u64 \<times> bool" where
  "premium_bps mark_price oracle_price =
     (if mark_price \<ge> oracle_price then
        (ucast ((ucast (mark_price - oracle_price) * BASIS_POINTS) div ucast oracle_price), True)
      else
        (ucast ((ucast (oracle_price - mark_price) * BASIS_POINTS) div ucast oracle_price), False))"

definition calculate_funding_rate ::
  "FundingRateCalculator \<Rightarrow> u64 \<Rightarrow> u64 \<Rightarrow> u64 \<Rightarrow> u64 \<Rightarrow> EngineError + i64" where
  "calculate_funding_rate c mark_price oracle_price time_elapsed funding_interval =
     (if oracle_price = 0 then Inr 0
      else
        (let (prem, is_positive) = premium_bps mark_price oracle_price;
             clamped_premium = min prem (ucast (max_funding_rate_bps c)) in
         bindE (if funding_interval > 0 then
                  bindE (ok_or Overflow (checked_mul clamped_premium time_elapsed)) (\<lambda>x.
                    ok_or DivisionByZero (checked_div x funding_interval))
                else Inr clamped_premium) (\<lambda>funding_rate.
           Inr (if is_positive then funding_rate else - funding_rate))))"

definition time_elapsed :: "FundingRate \<Rightarrow> u64 \<Rightarrow> u64" where
  "time_elapsed current timestamp =
     (if fr_last_update current > 0 then saturating_sub timestamp (fr_last_update current) else 0)"

definition update_funding_rate ::
  "FundingRateCalculator \<Rightarrow> StateManager \<Rightarrow> u32 \<Rightarrow> u64 \<Rightarrow> u64 \<Rightarrow> u64 \<Rightarrow>
     (EngineError + unit) \<times> StateManager" where
  "update_funding_rate c s market_id mark_price oracle_price timestamp =
     bindR (of_state (get_funding_rate s market_id), s) (\<lambda>current s.
     (let elapsed = time_elapsed current timestamp in
      bindR (of_state (get_market s market_id), s) (\<lambda>mo s.
      bindR (ok_or MarketNotFound mo, s) (\<lambda>market s.
      bindR (calculate_funding_rate c mark_price oracle_price elapsed
               (mkt_funding_interval market), s) (\<lambda>funding_rate s.
      bindR (ok_or Overflow (schecked_add (fr_index current) (scast funding_rate)), s) (\<lambda>new_index s.
        (Inr (), set_funding_rate s market_id
           \<lparr>fr_rate = funding_rate, fr_last_update = timestamp, fr_index = new_index,
            fr_mark_price = mark_price, fr_oracle_price = oracle_price\<rparr>)))))))"

definition calculate_funding_payment ::
  "u64 \<Rightarrow> bool \<Rightarrow> i128 \<Rightarrow> i128 \<Rightarrow> EngineError + (u128 \<times> bool)" where
  "calculate_funding_payment position_size is_long entry_funding_index current_funding_index =
     (let funding_diff = current_funding_index - entry_funding_index in
      if funding_diff = 0 then Inr (0, True)
      else
        bindE (ok_or Overflow (schecked_mul (ucast position_size) funding_diff)) (\<lambda>x.
        bindE (ok_or DivisionByZero (schecked_div x (10000 :: i128))) (\<lambda>payment.
          Inr (if sint payment > 0 then (payment, is_long) else (- payment, \<not> is_long)))))"

section \<open>The rate\<close>

definition rate_bound :: "FundingRateCalculator \<Rightarrow> u64 \<Rightarrow> u64 \<Rightarrow> nat" where
  "rate_bound c elapsed interval =
     (if interval = 0 then unat (max_funding_rate_bps c)
      else unat (max_funding_rate_bps c) * unat elapsed div unat interval)"

lemma calculate_funding_rate_magnitude:
  assumes "calculate_funding_rate c mark oracle elapsed interval = Inr r" "oracle \<noteq> 0"
  obtains n :: u64 where "r = (if oracle \<le> mark then n else - n)" "unat n \<le> rate_bound c elapsed interval"
proof -
  obtain a where a: "premium_bps mark oracle = (a, oracle \<le> mark)"
    by (cases "oracle \<le> mark") (simp_all add: premium_bps_def)
  let ?p = "min a (ucast (max_funding_rate_bps c))"
  have p: "unat ?p \<le> unat (max_funding_rate_bps c)"
    by (simp add: unat_min)
  obtain n where n: "(if interval > 0 then
        bindE (ok_or Overflow (checked_mul ?p elapsed)) (\<lambda>x. ok_or DivisionByZero (checked_div x interval))
      else Inr ?p) = Inr n" and r: "r = (if oracle \<le> mark then n else - n)"
    using assms a by (auto simp: calculate_funding_rate_def result_simps Let_def)
  have "unat n \<le> rate_bound c elapsed interval"
  proof (cases "interval = 0")
    case True
    with n p show ?thesis by (simp add: rate_bound_def)
  next
    case False
    then have "unat n = unat ?p * unat elapsed div unat interval"
      using n by (auto simp: word_gt_0 result_simps word_nat unat_div)
    also have "\<dots> \<le> unat (max_funding_rate_bps c) * unat elapsed div unat interval"
      by (intro div_le_mono mult_right_mono p) simp
    finally show ?thesis by (simp add: rate_bound_def False)
  qed
  with r that show ?thesis by blast
qed

lemma sint_word_of_int:
  "- (2 ^ (LENGTH('a) - 1)) \<le> k \<Longrightarrow> k < 2 ^ (LENGTH('a) - 1) \<Longrightarrow>
     sint (word_of_int k :: 'a::len word) = k"
  by (simp add: signed_of_int signed_take_bit_int_eq_self)

lemma uint_small: "unat (n :: u64) < 2 ^ 63 \<Longrightarrow> uint n < 2 ^ 63"
proof -
  assume "unat n < 2 ^ 63"
  then have "int (unat n) < int (2 ^ 63)" by (simp only: of_nat_less_iff)
  then show ?thesis by simp
qed

lemma sint_small: "unat (n :: u64) < 2 ^ 63 \<Longrightarrow> sint n = int (unat n)"
  using sint_word_of_int [where 'a = 64, of "uint n"] uint_small [of n] uint_ge_0 [of n] by simp

lemma sint_neg_small: "unat (n :: u64) < 2 ^ 63 \<Longrightarrow> sint (- n) = - int (unat n)"
  using sint_word_of_int [where 'a = 64, of "- uint n"] uint_small [of n] uint_ge_0 [of n] by simp

text \<open>The rate has the sign of the premium and is bounded by the configured maximum, scaled by
  the time that passed.\<close>

lemma calculate_funding_rate_bounds:
  assumes "calculate_funding_rate c mark oracle elapsed interval = Inr r" "oracle \<noteq> 0"
    and "rate_bound c elapsed interval < 2 ^ 63"
  shows "\<bar>sint r\<bar> \<le> int (rate_bound c elapsed interval)"
    and "oracle \<le> mark \<Longrightarrow> 0 \<le> sint r" and "mark < oracle \<Longrightarrow> sint r \<le> 0"
proof -
  obtain n :: u64 where r: "r = (if oracle \<le> mark then n else - n)"
    and n: "unat n \<le> rate_bound c elapsed interval"
    using calculate_funding_rate_magnitude [OF assms(1,2)] .
  then have s: "sint n = int (unat n)" "sint (- n) = - int (unat n)"
    using assms(3) by (simp_all add: sint_small sint_neg_small del: of_nat_unat)
  show "\<bar>sint r\<bar> \<le> int (rate_bound c elapsed interval)"
    using n by (simp add: r s del: of_nat_unat)
  show "oracle \<le> mark \<Longrightarrow> 0 \<le> sint r"
    by (simp add: r s)
  show "mark < oracle \<Longrightarrow> sint r \<le> 0"
    by (simp add: r s not_le [symmetric])
qed

lemma rate_bound_elapsed: "elapsed \<le> interval \<Longrightarrow> rate_bound c elapsed interval \<le> unat (max_funding_rate_bps c)"
  by (auto simp: rate_bound_def word_le_nat_alt
      intro: div_le_dividend [THEN order.trans] dest: mult_le_mono2 [of _ _ "unat (max_funding_rate_bps c)"])
    (metis div_le_mono div_mult_self_is_m mult_le_mono2 unat_gt_0)

section \<open>Updating the rate of a market\<close>

lemma schecked_add_Some:
  "schecked_add a b = Some c \<longleftrightarrow> c = a + b \<and> in_signed_range LENGTH('a) (sint a + sint b)"
  for a b :: "'a::len word"
  by (auto simp: schecked_add_def)

lemma schecked_mul_Some:
  "schecked_mul a b = Some c \<longleftrightarrow> c = a * b \<and> in_signed_range LENGTH('a) (sint a * sint b)"
  for a b :: "'a::len word"
  by (auto simp: schecked_mul_def)

lemma update_funding_rate_success:
  assumes "update_funding_rate c s m mark oracle now = (Inr (), s')"
  obtains current market rate where
    "get_funding_rate s m = Inr current" "get_market s m = Inr (Some market)"
    "calculate_funding_rate c mark oracle (time_elapsed current now) (mkt_funding_interval market) = Inr rate"
    "sint (fr_index current + scast rate) = sint (fr_index current) + sint rate"
    "s' = set_funding_rate s m \<lparr>fr_rate = rate, fr_last_update = now,
       fr_index = fr_index current + scast rate, fr_mark_price = mark, fr_oracle_price = oracle\<rparr>"
proof -
  obtain current market rate where r:
    "get_funding_rate s m = Inr current" "get_market s m = Inr (Some market)"
    "calculate_funding_rate c mark oracle (time_elapsed current now) (mkt_funding_interval market) = Inr rate"
    "in_signed_range 128 (sint (fr_index current) + sint (scast rate :: i128))"
    "s' = set_funding_rate s m \<lparr>fr_rate = rate, fr_last_update = now,
       fr_index = fr_index current + scast rate, fr_mark_price = mark, fr_oracle_price = oracle\<rparr>"
    using assms
    by (auto simp: update_funding_rate_def result_simps Let_def schecked_add_Some)
  have scast: "sint (scast rate :: i128) = sint rate"
    using sint_range_size [of rate]
    by (subst scast_eq, intro sint_word_of_int) (simp_all add: word_size)
  have "fr_index current + scast rate = word_of_int (sint (fr_index current) + sint rate)"
    by simp
  then have "sint (fr_index current + scast rate) = sint (fr_index current) + sint rate"
    using r(4) scast sint_word_of_int [where 'a = 128, of "sint (fr_index current) + sint rate"]
    by (simp add: in_signed_range_def)
  with r that show ?thesis by blast
qed

lemma first_funding_rate_zero:
  assumes "calculate_funding_rate c mark oracle 0 interval = Inr r" "interval \<noteq> 0"
  shows "r = 0"
proof (cases "oracle = 0")
  case True
  with assms show ?thesis by (simp add: calculate_funding_rate_def)
next
  case False
  then obtain n :: u64 where "r = (if oracle \<le> mark then n else - n)" "unat n \<le> rate_bound c 0 interval"
    using calculate_funding_rate_magnitude [OF assms(1)] by blast
  then show ?thesis
    using assms(2) by (simp add: rate_bound_def unat_eq_zero split: if_splits)
qed

section \<open>Payments\<close>

text \<open>What a trader receives, as an integer; a payment is negative.\<close>

definition funding_flow :: "u128 \<times> bool \<Rightarrow> int" where
  "funding_flow x = (if snd x then - int (unat (fst x)) else int (unat (fst x)))"

lemma sint_u64_i128: "sint (ucast (n :: u64) :: i128) = int (unat n)"
proof -
  have lt: "uint n < 2 ^ 64" using uint_bounded [of n] by simp
  have "(ucast n :: i128) = word_of_int (uint n)" by (rule ucast_eq)
  then show ?thesis
    using sint_word_of_int [where 'a = 128, of "uint n"] lt uint_ge_0 [of n] by simp
qed

lemma uint_word_of_int_small: "0 \<le> k \<Longrightarrow> k < 2 ^ 127 \<Longrightarrow> int (unat (word_of_int k :: u128)) = k"
  by (simp add: unsigned_of_int take_bit_int_eq_self)

lemma abs_sdiv: "\<bar>k sdiv 10000\<bar> = \<bar>k\<bar> div 10000" for k :: int
  by (auto simp: signed_divide_int_def sgn_if pos_imp_zdiv_nonneg_iff)

lemma sdiv_in_range: "in_signed_range 128 k \<Longrightarrow> \<bar>k sdiv 10000\<bar> < 2 ^ 127"
  unfolding abs_sdiv by (auto simp: in_signed_range_def abs_if)

lemma calculate_funding_payment_flow:
  assumes "calculate_funding_payment sz long entry current = Inr x"
  shows "funding_flow x =
    (if long then -1 else 1) * ((int (unat sz) * sint (current - entry)) sdiv 10000)"
proof (cases "current - entry = 0")
  case True
  with assms show ?thesis by (auto simp: calculate_funding_payment_def funding_flow_def)
next
  case False
  let ?d = "current - entry"
  let ?k = "int (unat sz) * sint ?d"
  let ?q = "?k sdiv 10000"
  have k: "in_signed_range 128 ?k"
    and x: "x = (if sint (word_of_int ?q :: i128) > 0 then (word_of_int ?q, long)
                 else (- word_of_int ?q, \<not> long))"
  proof -
    have range: "in_signed_range 128 ?k"
      using assms False
      by (auto simp: calculate_funding_payment_def result_simps Let_def schecked_mul_def sint_u64_i128
          split: if_splits)
    have "ucast sz * ?d = word_of_int ?k"
      by simp
    then have "sint (ucast sz * ?d) = ?k"
      using range sint_word_of_int [where 'a = 128, of ?k] by (simp add: in_signed_range_def)
    then show "x = (if sint (word_of_int ?q :: i128) > 0 then (word_of_int ?q, long)
                 else (- word_of_int ?q, \<not> long))"
      using assms False
      by (auto simp: calculate_funding_payment_def result_simps Let_def schecked_mul_def schecked_div_def
          split: if_splits)
    show "in_signed_range 128 ?k" by (rule range)
  qed
  have bound: "\<bar>?q\<bar> < 2 ^ 127"
    using k by (rule sdiv_in_range)
  have q: "sint (word_of_int ?q :: i128) = ?q"
    using bound sint_word_of_int [where 'a = 128, of ?q] by simp
  show ?thesis
  proof (cases "?q > 0")
    case True
    then have "int (unat (word_of_int ?q :: u128)) = ?q"
      using bound by (intro uint_word_of_int_small) simp_all
    with True show ?thesis by (simp add: x q funding_flow_def del: of_nat_unat)
  next
    case False
    then have "int (unat (word_of_int (- ?q) :: u128)) = - ?q"
      using bound by (intro uint_word_of_int_small) simp_all
    then have "int (unat (- word_of_int ?q :: u128)) = - ?q"
      by (simp del: of_nat_unat)
    with False show ?thesis by (simp add: x q funding_flow_def del: of_nat_unat)
  qed
qed

section \<open>Properties\<close>

text \<open>C28: The funding rate has the sign of the premium of the mark price over the oracle price and is
  bounded: within the funding interval it never exceeds the maximal rate, and beyond it grows at
  most in proportion to the time that has passed.\<close>

theorem funding_rate_bounded:
  assumes "calculate_funding_rate c mark oracle elapsed interval = Inr r" "oracle \<noteq> 0"
    and "rate_bound c elapsed interval < 2 ^ 63"
  shows "\<bar>sint r\<bar> \<le> int (rate_bound c elapsed interval) \<and>
    (if oracle \<le> mark then 0 \<le> sint r else sint r \<le> 0) \<and>
    (elapsed \<le> interval \<longrightarrow> \<bar>sint r\<bar> \<le> int (unat (max_funding_rate_bps c)))"
proof -
  note b = calculate_funding_rate_bounds [OF assms]
  have "int (rate_bound c elapsed interval) \<le> int (unat (max_funding_rate_bps c))" if "elapsed \<le> interval"
    using rate_bound_elapsed [OF that] by (simp only: of_nat_le_iff)
  with b show ?thesis
    by (auto simp: not_le simp del: of_nat_unat)
qed

theorem funding_rate_bounded_witness:
  "\<exists>r. calculate_funding_rate default_funding_calculator 110 100 1800 3600 = Inr r \<and>
     0 \<le> sint r \<and> \<bar>sint r\<bar> \<le> 1000"
proof -
  have r: "calculate_funding_rate default_funding_calculator 110 100 1800 3600 = Inr 500"
    by (simp add: calculate_funding_rate_def premium_bps_def default_funding_calculator_def
        DEFAULT_MAX_FUNDING_RATE_BPS_def BASIS_POINTS_def checked_mul_def checked_div_def)
  have "rate_bound default_funding_calculator 1800 3600 < 2 ^ 63"
    by (simp add: rate_bound_def default_funding_calculator_def DEFAULT_MAX_FUNDING_RATE_BPS_def)
  from funding_rate_bounded [OF r _ this] r show ?thesis
    by (auto simp: default_funding_calculator_def DEFAULT_MAX_FUNDING_RATE_BPS_def)
qed

text \<open>C29: A successful funding payment is exact: a long position pays, and a short one receives, the
  size times the change of the funding index over ten thousand, truncated towards zero; a long
  and a short of one size with one entry index cancel out.\<close>

theorem funding_payment_exact:
  assumes "calculate_funding_payment sz True entry current = Inr x"
    and "calculate_funding_payment sz False entry current = Inr y"
  shows "funding_flow x = - ((int (unat sz) * sint (current - entry)) sdiv 10000) \<and>
    funding_flow x + funding_flow y = 0"
  using calculate_funding_payment_flow [OF assms(1)] calculate_funding_payment_flow [OF assms(2)] by simp

theorem funding_payment_exact_witness:
  "\<exists>x y. calculate_funding_payment 1000 True 5 105 = Inr x \<and> calculate_funding_payment 1000 False 5 105 = Inr y \<and>
     funding_flow x = - 10 \<and> funding_flow x + funding_flow y = 0"
proof -
  obtain x y where xy: "calculate_funding_payment 1000 True 5 105 = Inr x"
    "calculate_funding_payment 1000 False 5 105 = Inr y"
    by (auto simp: calculate_funding_payment_def schecked_mul_def schecked_div_def in_signed_range_def
        signed_divide_int_def Let_def)
  from funding_payment_exact [OF this] xy show ?thesis
    by (auto simp: signed_divide_int_def)
qed

end
