(* ===== verification/Accounts.thy ===== *)
theory Accounts
  imports Engine_Base
begin

text \<open>
  \<open>crates/engine/src/services\<close>: \<open>mod.rs\<close> (the event buffer), \<open>account_service.rs\<close> and
  \<open>agent_service.rs\<close>.  A service works on the state and the event buffer together; both keep
  what was done before an early return.  The ledger lemmas rest on the interface \<open>ledger\<close> of
  the theory \<open>State_Manager\<close>.
\<close>

section \<open>Model\<close>

type_synonym ServiceContext = "Event list"

definition emit :: "ServiceContext \<Rightarrow> Event \<Rightarrow> ServiceContext" where
  "emit ctx e = ctx @ [e]"

definition take_context_events :: "ServiceContext \<Rightarrow> Event list \<times> ServiceContext" where
  "take_context_events ctx = (ctx, [])"

type_synonym svc = "StateManager \<times> ServiceContext"

definition update_balance ::
  "svc \<Rightarrow> Address \<Rightarrow> u32 \<Rightarrow> u128 \<Rightarrow> bool \<Rightarrow> BalanceChangeReason \<Rightarrow> (EngineError + unit) \<times> svc" where
  "update_balance sv address asset amount is_credit reason =
     bindR (of_state (get_balance (fst sv) address asset), sv) (\<lambda>old_balance sv.
     bindR (if is_credit then ok_or Overflow (checked_add old_balance amount)
            else if old_balance < amount then Inl InsufficientBalance
            else Inr (old_balance - amount), sv) (\<lambda>new_balance (s, ctx).
       (Inr (), set_balance s address asset new_balance,
        emit ctx (Event_BalanceChanged address asset old_balance new_balance reason))))"

definition deposit :: "svc \<Rightarrow> Address \<Rightarrow> DepositTx \<Rightarrow> (EngineError + unit) \<times> svc" where
  "deposit sv sender d =
     update_balance sv sender (dep_asset_id d) (dep_amount d) True BalanceChangeReason_Deposit"

definition withdraw :: "svc \<Rightarrow> Address \<Rightarrow> WithdrawTx \<Rightarrow> (EngineError + unit) \<times> svc" where
  "withdraw sv sender w =
     update_balance sv sender (wd_asset_id w) (wd_amount w) False BalanceChangeReason_Withdraw"

definition transfer :: "svc \<Rightarrow> Address \<Rightarrow> TransferTx \<Rightarrow> (EngineError + unit) \<times> svc" where
  "transfer sv sender t =
     (if sender = tr_to t then (Inl (EngineError_Other ''Cannot transfer to self''), sv)
      else
        bindR (of_state (get_asset (fst sv) (tr_asset_id t)), sv) (\<lambda>ao sv.
        bindR (ok_or (EngineError_Other ''Asset not found'') ao, sv) (\<lambda>asset sv.
        if \<not> asset_is_collateral asset then (Inl (EngineError_Other ''Asset not transferrable''), sv)
        else
          bindR (of_state (get_balance (fst sv) sender (tr_asset_id t)), sv) (\<lambda>sender_balance sv.
          if sender_balance < tr_amount t then (Inl InsufficientBalance, sv)
          else
            (let sv1 = (set_balance (fst sv) sender (tr_asset_id t) (sender_balance - tr_amount t), snd sv) in
             bindR (of_state (get_balance (fst sv1) (tr_to t) (tr_asset_id t)), sv1) (\<lambda>recipient_balance sv.
             bindR (ok_or Overflow (checked_add recipient_balance (tr_amount t)), sv) (\<lambda>new_balance (s, ctx).
               (Inr (), set_balance s (tr_to t) (tr_asset_id t) new_balance,
                emit ctx (Event_Transfer sender (tr_to t) (tr_asset_id t) (tr_amount t))))))))))"

definition bridge_deposit :: "svc \<Rightarrow> Address \<Rightarrow> BridgeDepositTx \<Rightarrow> (EngineError + unit) \<times> svc" where
  "bridge_deposit sv operator d =
     bindR (of_state (is_bridge_operator (fst sv) operator), sv) (\<lambda>is_op sv.
     if \<not> is_op then (Inl Unauthorized, sv)
     else
       bindR (of_state (get_asset (fst sv) (bd_asset_id d)), sv) (\<lambda>ao sv.
       bindR (ok_or (EngineError_Other ''Asset not found'') ao, sv) (\<lambda>_ sv.
       bindR (of_state (get_balance (fst sv) (bd_user d) (bd_asset_id d)), sv) (\<lambda>old_balance sv.
       bindR (ok_or Overflow (checked_add old_balance (bd_amount d)), sv) (\<lambda>new_balance (s, ctx).
         (Inr (), set_balance s (bd_user d) (bd_asset_id d) new_balance,
          emit ctx (Event_BridgeDeposit operator (bd_user d) (bd_asset_id d) (bd_amount d)
                      (bd_external_tx_hash d))))))))"

definition bridge_withdraw :: "svc \<Rightarrow> Address \<Rightarrow> BridgeWithdrawTx \<Rightarrow> (EngineError + unit) \<times> svc" where
  "bridge_withdraw sv operator w =
     bindR (of_state (is_bridge_operator (fst sv) operator), sv) (\<lambda>is_op sv.
     if \<not> is_op then (Inl Unauthorized, sv)
     else
       bindR (of_state (get_asset (fst sv) (bw_asset_id w)), sv) (\<lambda>ao sv.
       bindR (ok_or (EngineError_Other ''Asset not found'') ao, sv) (\<lambda>_ sv.
       bindR (of_state (get_balance (fst sv) (bw_user w) (bw_asset_id w)), sv) (\<lambda>old_balance sv.
       if old_balance < bw_amount w then (Inl InsufficientBalance, sv)
       else
         (Inr (), set_balance (fst sv) (bw_user w) (bw_asset_id w) (old_balance - bw_amount w),
          emit (snd sv) (Event_BridgeWithdraw operator (bw_user w) (bw_asset_id w) (bw_amount w)
                           (bw_destination w) (bw_external_tx_hash w)))))))"

definition set_agent_event :: "ServiceContext \<Rightarrow> Address \<Rightarrow> SetAgentTx \<Rightarrow> ServiceContext" where
  "set_agent_event ctx account x = emit ctx (Event_AgentSet account (sa_agent x) (sa_permissions x))"

definition remove_agent_event :: "ServiceContext \<Rightarrow> Address \<Rightarrow> RemoveAgentTx \<Rightarrow> ServiceContext" where
  "remove_agent_event ctx account x = emit ctx (Event_AgentRemoved account (ra_agent x))"

section \<open>Balances\<close>

text \<open>The total of one asset over a set of accounts.\<close>

definition asset_total :: "StateManager \<Rightarrow> u32 \<Rightarrow> Address set \<Rightarrow> nat" where
  "asset_total s asset accounts = balances.total s ((\<lambda>a. (a, asset)) ` accounts)"

lemma update_balance_success:
  assumes "update_balance (s, ctx) a i amount credit reason = (Inr (), s', ctx')"
  obtains old new where "get_balance s a i = Inr old" "s' = set_balance s a i new"
    "ctx' = emit ctx (Event_BalanceChanged a i old new reason)"
    "if credit then unat new = unat old + unat amount else unat old = unat new + unat amount"
proof -
  obtain old new where r: "get_balance s a i = Inr old" "s' = set_balance s a i new"
    "ctx' = emit ctx (Event_BalanceChanged a i old new reason)"
    "(if credit then ok_or Overflow (checked_add old amount)
      else if old < amount then Inl InsufficientBalance else Inr (old - amount)) = Inr new"
    using assms by (auto simp: update_balance_def result_simps)
  moreover from r(4) have "if credit then unat new = unat old + unat amount else unat old = unat new + unat amount"
    by (auto simp: result_simps word_nat not_less unat_sub word_le_nat_alt split: if_splits)
  ultimately show ?thesis using that by blast
qed

lemma update_balance_error:
  "update_balance sv a i amount credit reason = (Inl e, sv') \<Longrightarrow> sv' = sv"
  by (auto simp: update_balance_def bindR_def split: sum.splits prod.splits if_splits)

lemma transfer_success:
  assumes "transfer (s, ctx) sender t = (Inr (), s', ctx')"
  obtains a b where "sender \<noteq> tr_to t"
    "get_balance s sender (tr_asset_id t) = Inr a" "get_balance s (tr_to t) (tr_asset_id t) = Inr b"
    "tr_amount t \<le> a" "unat (b + tr_amount t) = unat b + unat (tr_amount t)"
    "s' = set_balance (set_balance s sender (tr_asset_id t) (a - tr_amount t)) (tr_to t) (tr_asset_id t)
            (b + tr_amount t)"
    "ctx' = emit ctx (Event_Transfer sender (tr_to t) (tr_asset_id t) (tr_amount t))"
  using assms
  by (auto simp: transfer_def result_simps Let_def word_nat not_less split: if_splits)

lemma transfer_conserves:
  assumes "transfer (s, ctx) sender t = (Inr (), s', ctx')"
    and "finite accounts" "sender \<in> accounts" "tr_to t \<in> accounts"
  shows "asset_total s' (tr_asset_id t) accounts = asset_total s (tr_asset_id t) accounts"
proof -
  obtain a b where r: "sender \<noteq> tr_to t"
    "get_balance s sender (tr_asset_id t) = Inr a" "get_balance s (tr_to t) (tr_asset_id t) = Inr b"
    "tr_amount t \<le> a" "unat (b + tr_amount t) = unat b + unat (tr_amount t)"
    and s': "s' = set_balance (set_balance s sender (tr_asset_id t) (a - tr_amount t)) (tr_to t)
       (tr_asset_id t) (b + tr_amount t)"
    using transfer_success [OF assms(1)] by blast
  have "unat (a - tr_amount t) + unat (tr_amount t) = unat a"
    using r(4) by (simp add: unat_sub word_le_nat_alt)
  then show ?thesis
    unfolding asset_total_def s'
    using r assms(2-4)
      balances.total_move [of "(\<lambda>x. (x, tr_asset_id t)) ` accounts" "(sender, tr_asset_id t)"
        "(tr_to t, tr_asset_id t)" s a b "a - tr_amount t" "unat (tr_amount t)" "b + tr_amount t"]
    by simp
qed

text \<open>Every failing transfer leaves the state alone, with one exception.\<close>

lemma transfer_error:
  assumes "transfer (s, ctx) sender t = (Inl e, s', ctx')" "e \<noteq> Overflow"
    and "is_ok (get_balance s (tr_to t) (tr_asset_id t))"
  shows "s' = s \<and> ctx' = ctx"
  using assms
  by (auto simp: transfer_def bindR_def Let_def is_ok_iff ok_or_def
      split: sum.splits prod.splits if_splits option.splits)

lemma transfer_overflow_debits:
  assumes "sender \<noteq> tr_to t"
    and "get_asset s (tr_asset_id t) = Inr (Some asset)" "asset_is_collateral asset"
    and "get_balance s sender (tr_asset_id t) = Inr a" "tr_amount t \<le> a"
    and "get_balance s (tr_to t) (tr_asset_id t) = Inr b" "2 ^ 128 \<le> unat b + unat (tr_amount t)"
  shows "transfer (s, ctx) sender t =
    (Inl Overflow, set_balance s sender (tr_asset_id t) (a - tr_amount t), ctx)"
  using assms by (simp add: transfer_def Let_def checked_add_def not_less)

section \<open>Bridge operations\<close>

lemma bridge_deposit_success:
  assumes "bridge_deposit (s, ctx) operator d = (Inr (), s', ctx')"
  obtains old where "is_bridge_operator s operator = Inr True"
    "get_balance s (bd_user d) (bd_asset_id d) = Inr old"
    "unat (old + bd_amount d) = unat old + unat (bd_amount d)"
    "s' = set_balance s (bd_user d) (bd_asset_id d) (old + bd_amount d)"
  using assms by (auto simp: bridge_deposit_def result_simps word_nat split: if_splits)

lemma bridge_withdraw_success:
  assumes "bridge_withdraw (s, ctx) operator w = (Inr (), s', ctx')"
  obtains old where "is_bridge_operator s operator = Inr True"
    "get_balance s (bw_user w) (bw_asset_id w) = Inr old" "bw_amount w \<le> old"
    "s' = set_balance s (bw_user w) (bw_asset_id w) (old - bw_amount w)"
  using assms by (auto simp: bridge_withdraw_def result_simps not_less split: if_splits)

lemma bridge_error:
  "bridge_deposit sv operator d = (Inl e, sv') \<Longrightarrow> sv' = sv"
  "bridge_withdraw sv operator w = (Inl e, sv') \<Longrightarrow> sv' = sv"
  by (auto simp: bridge_deposit_def bridge_withdraw_def bindR_def
      split: sum.splits prod.splits if_splits)

section \<open>Properties\<close>

text \<open>The USDC asset, and a sender with a balance.\<close>

definition usdc :: Asset where
  "usdc = \<lparr>asset_id = 0, asset_symbol = ''USDC'', asset_name = ''USD Coin'', asset_decimals = 6,
     asset_is_collateral = True, asset_collateral_weight_bps = 10000\<rparr>"

definition pay_state :: "u128 \<Rightarrow> u128 \<Rightarrow> StateManager" where
  "pay_state a b = set_balance (set_balance (sm_put genesis_state (StateKey_AssetInfo 0) (VAsset usdc)) 7 0 a) 8 0 b"

definition pay :: "u128 \<Rightarrow> TransferTx" where
  "pay amount = \<lparr>tr_to = 8, tr_amount = amount, tr_asset_id = 0\<rparr>"

lemma pay_state_reads [simp]:
  "get_balance (pay_state a b) 7 0 = Inr a" "get_balance (pay_state a b) 8 0 = Inr b"
  "get_asset (pay_state a b) 0 = Inr (Some usdc)"
  by (simp_all add: pay_state_def store_simps)

text \<open>C13: A successful transfer moves the amount from the sender to the recipient and keeps the total
  of the asset over every finite set of accounts that contains both.\<close>

theorem transfer_moves_funds:
  assumes "transfer (s, ctx) sender t = (Inr (), s', ctx')"
    and "finite accounts" "sender \<in> accounts" "tr_to t \<in> accounts"
  shows "asset_total s' (tr_asset_id t) accounts = asset_total s (tr_asset_id t) accounts \<and>
    (\<exists>a b. get_balance s sender (tr_asset_id t) = Inr a \<and> get_balance s (tr_to t) (tr_asset_id t) = Inr b \<and>
       get_balance s' sender (tr_asset_id t) = Inr (a - tr_amount t) \<and> tr_amount t \<le> a \<and>
       get_balance s' (tr_to t) (tr_asset_id t) = Inr (b + tr_amount t) \<and>
       unat (b + tr_amount t) = unat b + unat (tr_amount t))"
proof
  show "asset_total s' (tr_asset_id t) accounts = asset_total s (tr_asset_id t) accounts"
    by (rule transfer_conserves [OF assms])
  show "\<exists>a b. get_balance s sender (tr_asset_id t) = Inr a \<and> get_balance s (tr_to t) (tr_asset_id t) = Inr b \<and>
       get_balance s' sender (tr_asset_id t) = Inr (a - tr_amount t) \<and> tr_amount t \<le> a \<and>
       get_balance s' (tr_to t) (tr_asset_id t) = Inr (b + tr_amount t) \<and>
       unat (b + tr_amount t) = unat b + unat (tr_amount t)"
    by (rule transfer_success [OF assms(1)]) auto
qed

theorem transfer_moves_funds_witness:
  "\<exists>s' ctx'. transfer (pay_state 10 1, []) 7 (pay 4) = (Inr (), s', ctx') \<and>
     asset_total s' 0 {7, 8} = asset_total (pay_state 10 1) 0 {7, 8} \<and> get_balance s' 8 0 = Inr 5"
proof -
  obtain s' ctx' where t: "transfer (pay_state 10 1, []) 7 (pay 4) = (Inr (), s', ctx')"
    by (auto simp: transfer_def pay_def usdc_def checked_add_def Let_def)
  from transfer_moves_funds [OF t, of "{7, 8}"] t show ?thesis
    by (auto simp: pay_def)
qed

text \<open>A transfer that fails leaves the state and the events as they were, for every error except
  one: when the recipient's balance would overflow, the sender has already been debited and the
  amount is lost.\<close>

lemma transfer_failure:
  assumes "transfer (s, ctx) sender t = (Inl e, s', ctx')"
    and "is_ok (get_balance s (tr_to t) (tr_asset_id t))"
  shows "(s' = s \<and> ctx' = ctx) \<or>
    (e = Overflow \<and> (\<exists>a b. get_balance s sender (tr_asset_id t) = Inr a \<and> tr_amount t \<le> a \<and>
       get_balance s (tr_to t) (tr_asset_id t) = Inr b \<and> 2 ^ 128 \<le> unat b + unat (tr_amount t) \<and>
       s' = set_balance s sender (tr_asset_id t) (a - tr_amount t)))"
proof (cases "e = Overflow")
  case True
  from True assms show ?thesis
    by (auto simp: transfer_def result_simps result_errors Let_def is_ok_iff not_less checked_add_def
        split: if_splits)
next
  case False
  then show ?thesis using transfer_error [OF assms(1) _ assms(2)] by blast
qed

text \<open>C38: Only a bridge operator mints or burns through the bridge: a successful bridge deposit or
  withdrawal was sent by an operator and changes the balance of the named user by exactly the
  amount, without overflow or overdraft; every other sender is refused and nothing changes.\<close>

theorem bridge_needs_operator:
  "(bridge_deposit (s, ctx) operator d = (Inr (), s', ctx') \<longrightarrow>
     is_bridge_operator s operator = Inr True \<and>
     (\<exists>old. get_balance s (bd_user d) (bd_asset_id d) = Inr old \<and>
        get_balance s' (bd_user d) (bd_asset_id d) = Inr (old + bd_amount d) \<and>
        unat (old + bd_amount d) = unat old + unat (bd_amount d))) \<and>
   (bridge_withdraw (s, ctx) operator w = (Inr (), s', ctx') \<longrightarrow>
     is_bridge_operator s operator = Inr True \<and>
     (\<exists>old. get_balance s (bw_user w) (bw_asset_id w) = Inr old \<and> bw_amount w \<le> old \<and>
        get_balance s' (bw_user w) (bw_asset_id w) = Inr (old - bw_amount w))) \<and>
   (is_bridge_operator s operator = Inr False \<longrightarrow>
     bridge_deposit (s, ctx) operator d = (Inl Unauthorized, s, ctx) \<and>
     bridge_withdraw (s, ctx) operator w = (Inl Unauthorized, s, ctx))"
proof (intro conjI impI)
  assume d: "bridge_deposit (s, ctx) operator d = (Inr (), s', ctx')"
  show "is_bridge_operator s operator = Inr True"
    by (rule bridge_deposit_success [OF d])
  show "\<exists>old. get_balance s (bd_user d) (bd_asset_id d) = Inr old \<and>
        get_balance s' (bd_user d) (bd_asset_id d) = Inr (old + bd_amount d) \<and>
        unat (old + bd_amount d) = unat old + unat (bd_amount d)"
    by (rule bridge_deposit_success [OF d]) auto
next
  assume w: "bridge_withdraw (s, ctx) operator w = (Inr (), s', ctx')"
  show "is_bridge_operator s operator = Inr True"
    by (rule bridge_withdraw_success [OF w])
  show "\<exists>old. get_balance s (bw_user w) (bw_asset_id w) = Inr old \<and> bw_amount w \<le> old \<and>
        get_balance s' (bw_user w) (bw_asset_id w) = Inr (old - bw_amount w)"
    by (rule bridge_withdraw_success [OF w]) auto
qed (simp_all add: bridge_deposit_def bridge_withdraw_def)

definition bridge_pay :: BridgeDepositTx where
  "bridge_pay = \<lparr>bd_user = 8, bd_amount = 4, bd_asset_id = 0, bd_external_tx_hash = 0\<rparr>"

theorem bridge_needs_operator_witness:
  "bridge_deposit (pay_state 10 1, []) 7 bridge_pay = (Inl Unauthorized, pay_state 10 1, [])"
proof -
  have "is_bridge_operator (pay_state 10 1) 7 = Inr False"
    by (simp add: pay_state_def store_simps)
  then show ?thesis
    by (rule bridge_needs_operator [THEN conjunct2, THEN conjunct2, THEN mp, THEN conjunct1])
qed

end
