(* ===== verification/Orders.thy ===== *)
theory Orders
  imports Orderbook Risk Accounts
begin

text \<open>
  \<open>crates/engine/src/services/order_service.rs\<close> and \<open>position_service.rs\<close>: placing and
  cancelling orders, settling fills into positions, closing positions.  The three \<open>&mut\<close>
  parameters of the service functions (state, event buffer, order book) form one record; a
  failing call keeps what it changed.
\<close>

section \<open>Model\<close>

record trading =
  tg_state :: StateManager
  tg_ctx :: ServiceContext
  tg_book :: OrderbookManager

definition on_tg_state ::
  "(StateManager \<Rightarrow> (EngineError + 'a) \<times> StateManager) \<Rightarrow> trading \<Rightarrow> (EngineError + 'a) \<times> trading" where
  "on_tg_state f t = (case f (tg_state t) of (r, s) \<Rightarrow> (r, t\<lparr>tg_state := s\<rparr>))"

definition tg_emit :: "trading \<Rightarrow> Event \<Rightarrow> trading" where
  "tg_emit t e = t\<lparr>tg_ctx := emit (tg_ctx t) e\<rparr>"

definition process_fill :: "Market \<Rightarrow> trading \<Rightarrow> Fill \<Rightarrow> (EngineError + unit) \<times> trading" where
  "process_fill market t f =
     bindR (on_tg_state (\<lambda>s. update_position s (fill_taker f) (fill_market_id f) (fill_size f)
              (fill_price f) (fill_taker_is_buy f) (mkt_initial_margin_bps market)) t) (\<lambda>_ t.
     bindR (on_tg_state (\<lambda>s. update_position s (fill_maker f) (fill_market_id f) (fill_size f)
              (fill_price f) (\<not> fill_taker_is_buy f) (mkt_initial_margin_bps market)) t) (\<lambda>_ t.
       (Inr (), tg_emit t (Event_OrderFilled (fill_maker_order_id f) (fill_taker_order_id f)
          (fill_maker f) (fill_taker f) (fill_market_id f) (fill_price f) (fill_size f)
          (fill_taker_is_buy f) 0 0))))"

fun process_fills :: "Market \<Rightarrow> trading \<Rightarrow> Fill list \<Rightarrow> (EngineError + unit) \<times> trading" where
  "process_fills market t [] = (Inr (), t)"
| "process_fills market t (f # fs) =
     bindR (process_fill market t f) (\<lambda>_ t. process_fills market t fs)"

definition validate_order :: "Market \<Rightarrow> PlaceOrderTx \<Rightarrow> EngineError + unit" where
  "validate_order market x =
     (if po_price x > 0 \<and> \<not> validate_price market (po_price x)
        then Inl (EngineError_Other ''Invalid price does not align with tick boundary'')
      else if po_size x < mkt_min_order_size market
        then Inl (EngineError_Other ''Order size is below minimum size'')
      else if po_size x > mkt_max_order_size market
        then Inl (EngineError_Other ''Order size exceeds maximum size'')
      else Inr ())"

definition new_order :: "StateManager \<Rightarrow> Address \<Rightarrow> PlaceOrderTx \<Rightarrow> u64 \<Rightarrow> Order" where
  "new_order s trader x i =
     \<lparr>ord_id = i, ord_market_id = po_market_id x, ord_owner = trader, ord_is_buy = po_is_buy x,
      ord_price = po_price x, ord_original_size = po_size x, ord_remaining_size = po_size x,
      ord_status = Active, ord_created_at = version s, ord_reduce_only = po_reduce_only x,
      ord_post_only = po_post_only x\<rparr>"

definition match_tg :: "trading \<Rightarrow> Order \<Rightarrow> (EngineError + Fill list) \<times> trading" where
  "match_tg t ord =
     (case match_order (tg_book t) (tg_state t) ord of
        (r, ob, s) \<Rightarrow> (r, t\<lparr>tg_book := ob, tg_state := s\<rparr>))"

text \<open>The end of \<open>place_order\<close>: the final status of the order by what is left of it and its
  time in force.\<close>

definition settle_order ::
  "trading \<Rightarrow> PlaceOrderTx \<Rightarrow> u64 \<Rightarrow> Order \<Rightarrow> (EngineError + u64) \<times> trading" where
  "settle_order t x i ord =
     (if ord_remaining_size ord = 0 then
        (Inr i, t\<lparr>tg_state := set_order (tg_state t) i (ord\<lparr>ord_status := Filled\<rparr>)\<rparr>)
      else
        case po_time_in_force x of
          IOC \<Rightarrow> (Inr i, t\<lparr>tg_state := set_order (tg_state t) i (ord\<lparr>ord_status := Cancelled\<rparr>)\<rparr>)
        | FOK \<Rightarrow> if ord_remaining_size ord > 0 then (Inl OrderNotFilled, t) else (Inr i, t)
        | _ \<Rightarrow>
            (let ord' = ord\<lparr>ord_status := Active\<rparr>;
                 t1 = t\<lparr>tg_state := set_order (tg_state t) i ord'\<rparr> in
             bindR (on_tg_state (\<lambda>s. lift_state (add_active_order s (po_market_id x) i)) t1) (\<lambda>_ t2.
               (Inr i, t2\<lparr>tg_book := add_order (tg_book t2) i ord'\<rparr>))))"

definition place_order ::
  "trading \<Rightarrow> Address \<Rightarrow> PlaceOrderTx \<Rightarrow> (EngineError + u64) \<times> trading" where
  "place_order t trader x =
     bindR (of_state (get_market (tg_state t) (po_market_id x)), t) (\<lambda>mo t.
     bindR (ok_or MarketNotFound mo, t) (\<lambda>market t.
     bindR (validate_order market x, t) (\<lambda>_ t.
     bindR (check_order_allowed (tg_state t) trader x, t) (\<lambda>_ t.
     bindR (on_tg_state (\<lambda>s. lift_state (next_order_id s)) t) (\<lambda>i t.
     (let ord = new_order (tg_state t) trader x i in
      bindR (match_tg t ord) (\<lambda>fills t.
      bindR (process_fills market t fills) (\<lambda>_ t.
      (let total_filled = sum_list (map fill_size fills);
           ord' = ord\<lparr>ord_remaining_size := saturating_sub (ord_remaining_size ord) total_filled\<rparr>;
           t1 = tg_emit t (Event_OrderPlaced i trader (po_market_id x) (po_is_buy x) (po_price x)
                             (po_size x) (po_order_type x)) in
       settle_order t1 x i ord')))))))))"

definition cancel_order ::
  "trading \<Rightarrow> Address \<Rightarrow> CancelOrderTx \<Rightarrow> (EngineError + unit) \<times> trading" where
  "cancel_order t trader c =
     bindR (of_state (get_order (tg_state t) (co_order_id c)), t) (\<lambda>oo t.
     bindR (ok_or OrderNotFound oo, t) (\<lambda>ord t.
     if ord_owner ord \<noteq> trader then (Inl Unauthorized, t)
     else if ord_status ord \<noteq> Active then (Inl OrderNotFound, t)
     else
       (let t1 = t\<lparr>tg_book := remove_order (tg_book t) (co_order_id c) ord,
                   tg_state := set_order (tg_state t) (co_order_id c) (ord\<lparr>ord_status := Cancelled\<rparr>)\<rparr> in
        bindR (on_tg_state (\<lambda>s. lift_state (remove_active_order s (ord_market_id ord) (co_order_id c))) t1) (\<lambda>_ t2.
          (Inr (), tg_emit t2 (Event_OrderCancelled (co_order_id c) trader (ord_market_id ord)
                                (ord_remaining_size ord)))))))"

definition close_position ::
  "trading \<Rightarrow> Address \<Rightarrow> ClosePositionTx \<Rightarrow> (EngineError + unit) \<times> trading" where
  "close_position t trader c =
     bindR (of_state (get_position (tg_state t) trader (cp_market_id c)), t) (\<lambda>po t.
     bindR (ok_or PositionNotFound po, t) (\<lambda>p t.
     (let size_to_close = (if cp_size c = 0 then pos_size p else min (cp_size c) (pos_size p));
          close_order = \<lparr>po_market_id = cp_market_id c, po_is_buy = (\<not> pos_is_long p),
            po_order_type = OrderType_Market, po_price = 0, po_size = size_to_close,
            po_time_in_force = IOC, po_reduce_only = True, po_post_only = False\<rparr> in
      bindR (place_order t trader close_order) (\<lambda>_ t. (Inr (), t)))))"

section \<open>Fills and positions\<close>

lemma on_tg_state_Inr [result_simps]:
  "on_tg_state f t = (Inr a, t') \<longleftrightarrow> (\<exists>s. f (tg_state t) = (Inr a, s) \<and> t' = t\<lparr>tg_state := s\<rparr>)"
  by (auto simp: on_tg_state_def split: prod.splits)

lemma tg_emit_sel [simp]:
  "tg_state (tg_emit t e) = tg_state t" "tg_book (tg_emit t e) = tg_book t"
  "tg_ctx (tg_emit t e) = tg_ctx t @ [e]"
  by (simp_all add: tg_emit_def emit_def)

lemma process_fill_success:
  assumes "process_fill market t f = (Inr (), t')"
  obtains s1 s2 where
    "update_position (tg_state t) (fill_taker f) (fill_market_id f) (fill_size f) (fill_price f)
       (fill_taker_is_buy f) (mkt_initial_margin_bps market) = (Inr (), s1)"
    "update_position s1 (fill_maker f) (fill_market_id f) (fill_size f) (fill_price f)
       (\<not> fill_taker_is_buy f) (mkt_initial_margin_bps market) = (Inr (), s2)"
    "tg_state t' = s2" "tg_book t' = tg_book t"
  using assms by (auto simp: process_fill_def result_simps)

text \<open>Both legs of a fill: what one side gains the other loses.\<close>

definition fill_fits :: "StateManager \<Rightarrow> Fill \<Rightarrow> bool" where
  "fill_fits s f \<longleftrightarrow>
     trade_fits s (fill_taker f) (fill_market_id f) (fill_size f) (fill_taker_is_buy f) \<and>
     trade_fits s (fill_maker f) (fill_market_id f) (fill_size f) (\<not> fill_taker_is_buy f)"

lemma sm_committed_positions [simp]:
  "sm_committed (set_position s t m p) = sm_committed s"
  "sm_committed (delete_position s t m) = sm_committed s"
  by (auto simp: set_position_def delete_position_def update_position_index_def
      remove_from_position_index_def Let_def split: option.splits)

lemma update_position_committed:
  "update_position s t m sz price buy bps = (r, s') \<Longrightarrow> sm_committed s' = sm_committed s"
  by (auto simp: update_position_def bindR_def Let_def split: option.splits sum.splits if_splits prod.splits)

lemma update_position_other:
  assumes "update_position s t m sz price buy bps = (r, s')" "t' \<noteq> t"
  shows "get_position s' t' m' = get_position s t' m'"
  using update_position_frame [OF assms(1), of "StateKey_Position t' m'"] assms(2)
  by (simp add: get_position_def get_optional_sm)

lemma trade_fits_cong:
  assumes "get_position s' t m = get_position s t m" "sm_committed s' = sm_committed s"
  shows "trade_fits s' t m sz buy = trade_fits s t m sz buy"
  by (simp add: trade_fits_def assms split: sum.split option.split)

lemma process_fill_net:
  assumes "process_fill market t f = (Inr (), t')" "fill_maker f \<noteq> fill_taker f"
    and "fill_fits (tg_state t) f"
  shows "net_size (tg_state t') (fill_taker f) (fill_market_id f) =
      net_size (tg_state t) (fill_taker f) (fill_market_id f) +
        side_sign (fill_taker_is_buy f) * int (unat (fill_size f))"
    and "net_size (tg_state t') (fill_maker f) (fill_market_id f) =
      net_size (tg_state t) (fill_maker f) (fill_market_id f) -
        side_sign (fill_taker_is_buy f) * int (unat (fill_size f))"
    and "a \<noteq> fill_taker f \<Longrightarrow> a \<noteq> fill_maker f \<Longrightarrow>
      net_size (tg_state t') a m = net_size (tg_state t) a m"
proof -
  obtain s1 s2 where u: "update_position (tg_state t) (fill_taker f) (fill_market_id f) (fill_size f)
       (fill_price f) (fill_taker_is_buy f) (mkt_initial_margin_bps market) = (Inr (), s1)"
    "update_position s1 (fill_maker f) (fill_market_id f) (fill_size f) (fill_price f)
       (\<not> fill_taker_is_buy f) (mkt_initial_margin_bps market) = (Inr (), s2)"
    and t': "tg_state t' = s2"
    using process_fill_success [OF assms(1)] .
  have maker: "trade_fits s1 (fill_maker f) (fill_market_id f) (fill_size f) (\<not> fill_taker_is_buy f)"
    using assms(3) trade_fits_cong [OF update_position_other [OF u(1) assms(2)] update_position_committed [OF u(1)]]
    by (simp add: fill_fits_def)
  have sign: "side_sign (\<not> b) = - side_sign b" for b by (simp add: side_sign_def)
  show "net_size (tg_state t') (fill_taker f) (fill_market_id f) =
      net_size (tg_state t) (fill_taker f) (fill_market_id f) +
        side_sign (fill_taker_is_buy f) * int (unat (fill_size f))"
    using update_position_net [OF u(1)] assms(2,3) update_position_other [OF u(2)]
    by (simp add: t' net_size_def fill_fits_def)
  show "net_size (tg_state t') (fill_maker f) (fill_market_id f) =
      net_size (tg_state t) (fill_maker f) (fill_market_id f) -
        side_sign (fill_taker_is_buy f) * int (unat (fill_size f))"
    using update_position_net [OF u(2) maker] assms(2) update_position_other [OF u(1)]
    by (simp add: t' net_size_def sign)
  show "net_size (tg_state t') a m = net_size (tg_state t) a m"
    if "a \<noteq> fill_taker f" "a \<noteq> fill_maker f"
    using that update_position_other [OF u(1)] update_position_other [OF u(2)] by (simp add: t' net_size_def)
qed

definition net_total :: "StateManager \<Rightarrow> u32 \<Rightarrow> Address set \<Rightarrow> int" where
  "net_total s m traders = (\<Sum>a\<in>traders. net_size s a m)"

lemma process_fill_zero_sum:
  assumes "process_fill market t f = (Inr (), t')" "fill_maker f \<noteq> fill_taker f"
    and "fill_fits (tg_state t) f"
    and A: "finite A" "fill_maker f \<in> A" "fill_taker f \<in> A"
  shows "net_total (tg_state t') (fill_market_id f) A = net_total (tg_state t) (fill_market_id f) A"
proof -
  let ?m = "fill_market_id f"
  note net = process_fill_net [OF assms(1-3)]
  have split: "net_total s ?m A = net_size s (fill_taker f) ?m + net_size s (fill_maker f) ?m +
      (\<Sum>a\<in>A - {fill_taker f} - {fill_maker f}. net_size s a ?m)" for s
    using A assms(2) by (simp add: net_total_def sum.remove [of A "fill_taker f"] sum.remove [of "A - {fill_taker f}" "fill_maker f"])
  have "(\<Sum>a\<in>A - {fill_taker f} - {fill_maker f}. net_size (tg_state t') a ?m) =
      (\<Sum>a\<in>A - {fill_taker f} - {fill_maker f}. net_size (tg_state t) a ?m)"
    by (rule sum.cong) (auto intro: net(3))
  then show ?thesis by (simp add: split net)
qed

section \<open>Placing an order\<close>

lemma place_order_success:
  assumes "place_order t trader x = (Inr i, t')"
  obtains market s1 fills t2 t3 where
    "get_market (tg_state t) (po_market_id x) = Inr (Some market)" "validate_order market x = Inr ()"
    "check_order_allowed (tg_state t) trader x = Inr ()" "next_order_id (tg_state t) = (Inr i, s1)"
    "match_tg (t\<lparr>tg_state := s1\<rparr>) (new_order s1 trader x i) = (Inr fills, t2)"
    "process_fills market t2 fills = (Inr (), t3)"
    "settle_order (tg_emit t3 (Event_OrderPlaced i trader (po_market_id x) (po_is_buy x) (po_price x)
        (po_size x) (po_order_type x))) x i
       ((new_order s1 trader x i)\<lparr>ord_remaining_size :=
           saturating_sub (po_size x) (sum_list (map fill_size fills))\<rparr>) = (Inr i, t')"
proof -
  have settle_id: "settle_order u x j ord = (Inr k, v) \<Longrightarrow> k = j" for u j ord k v
    by (auto simp: settle_order_def Let_def result_simps split: if_splits TimeInForce.splits)
  obtain market j s1 fills t2 t3 where r:
    "get_market (tg_state t) (po_market_id x) = Inr (Some market)" "validate_order market x = Inr ()"
    "check_order_allowed (tg_state t) trader x = Inr ()" "next_order_id (tg_state t) = (Inr j, s1)"
    "match_tg (t\<lparr>tg_state := s1\<rparr>) (new_order s1 trader x j) = (Inr fills, t2)"
    "process_fills market t2 fills = (Inr (), t3)"
    "settle_order (tg_emit t3 (Event_OrderPlaced j trader (po_market_id x) (po_is_buy x) (po_price x)
        (po_size x) (po_order_type x))) x j
       ((new_order s1 trader x j)\<lparr>ord_remaining_size :=
           saturating_sub (ord_remaining_size (new_order s1 trader x j)) (sum_list (map fill_size fills))\<rparr>) = (Inr i, t')"
    using assms by (auto simp: place_order_def result_simps Let_def)
  moreover have "ord_remaining_size (new_order s1 trader x j) = po_size x" by (simp add: new_order_def)
  ultimately show ?thesis using that settle_id by metis
qed

text \<open>Settling fills touches positions and their indices only.\<close>

fun position_key :: "StateKey \<Rightarrow> bool" where
  "position_key (StateKey_Position _ _) = True"
| "position_key (StateKey_PositionIndex _) = True"
| "position_key _ = False"

lemma process_fill_frame:
  assumes "process_fill market t f = (r, t')"
  shows "tg_book t' = tg_book t" and "\<not> position_key k \<Longrightarrow> sm_get (tg_state t') k = sm_get (tg_state t) k"
proof -
  show "tg_book t' = tg_book t"
    using assms by (auto simp: process_fill_def on_tg_state_def bindR_def split: prod.splits sum.splits)
  assume k: "\<not> position_key k"
  have upd: "sm_get s' k = sm_get s k" if "update_position s a m sz price buy bps = (r', s')" for s a m sz price buy bps r' s'
    using update_position_frame [OF that, of k] k by fastforce
  show "sm_get (tg_state t') k = sm_get (tg_state t) k"
    using assms
    by (auto simp: process_fill_def on_tg_state_def bindR_def split: prod.splits sum.splits dest!: upd)
qed

lemma process_fills_frame:
  "process_fills market t fs = (r, t') \<Longrightarrow>
     tg_book t' = tg_book t \<and> (\<forall>k. \<not> position_key k \<longrightarrow> sm_get (tg_state t') k = sm_get (tg_state t) k)"
proof (induction fs arbitrary: t)
  case (Cons f fs)
  obtain r1 t1 where f: "process_fill market t f = (r1, t1)" by fastforce
  with Cons process_fill_frame [OF f] show ?case by (cases r1) auto
qed simp

lemma process_fills_orders:
  "process_fills market t fs = (r, t') \<Longrightarrow> get_order (tg_state t') = get_order (tg_state t)"
  by (auto simp: fun_eq_iff get_order_def get_optional_sm dest: process_fills_frame)

text \<open>The sum the code computes for the filled size does not wrap.\<close>

lemma sum_list_fill_size: "filled_total fs < 2 ^ 64 \<Longrightarrow> unat (sum_list (map fill_size fs)) = filled_total fs"
proof (induction fs)
  case (Cons f fs)
  then show ?case by (simp add: unat_word_ariths)
qed simp

lemma match_tg_success:
  "match_tg t ord = (Inr fills, t') \<longleftrightarrow>
     (\<exists>ob s. match_order (tg_book t) (tg_state t) ord = (Inr fills, ob, s) \<and> t' = t\<lparr>tg_book := ob, tg_state := s\<rparr>)"
  by (auto simp: match_tg_def split: prod.splits)

lemma match_order_total:
  assumes "match_order ob s taker = (Inr fills, ob', s')"
  shows "filled_total fills \<le> unat (ord_remaining_size taker)"
proof -
  have "\<exists>r :: u64. unat r + filled_total fills = unat (ord_remaining_size taker)"
    using match_order_keeps [OF assms keeps_taker_size] by simp
  then show ?thesis by auto
qed

text \<open>What is left of the order after matching.\<close>

lemma remaining_after_match:
  assumes "match_order ob s taker = (Inr fills, ob', s')"
  shows "unat (saturating_sub (ord_remaining_size taker) (sum_list (map fill_size fills))) =
    unat (ord_remaining_size taker) - filled_total fills"
proof -
  have "filled_total fills < 2 ^ 64"
    using match_order_total [OF assms] u64_less order.strict_trans1 by blast
  then show ?thesis by (simp add: unat_saturating_sub sum_list_fill_size)
qed

section \<open>The book invariant across orders\<close>

text \<open>Order identifiers are drawn from the counter, so that no stored order has a later one.\<close>

definition ids_below :: "StateManager \<Rightarrow> u64 \<Rightarrow> bool" where
  "ids_below s n \<longleftrightarrow> (\<forall>i. n \<le> i \<longrightarrow> get_order s i = Inr None)"

definition next_id :: "StateManager \<Rightarrow> StateError + u64" where
  "next_id s = get_or_default as_u64 0 s StateKey_NextOrderId"

definition trading_ok :: "trading \<Rightarrow> bool" where
  "trading_ok t \<longleftrightarrow> book_ok (tg_state t) (tg_book t) \<and>
     (\<exists>n. next_id (tg_state t) = Inr n \<and> ids_below (tg_state t) n)"

lemma next_order_id_success:
  assumes "next_order_id s = (Inr i, s')"
  shows "next_id s = Inr i" "next_id s' = Inr (i + 1)" "i < i + 1" "get_order s' = get_order s"
    "get_market s' = get_market s" "version s' = version s"
proof -
  have r: "next_id s = Inr i" "unat (i + 1) = unat i + 1" "s' = sm_put s StateKey_NextOrderId (VU64 (i + 1))"
    using assms by (auto simp: next_order_id_def next_id_def result_simps word_nat)
  then show "next_id s = Inr i" "i < i + 1" by (simp_all add: word_less_nat_alt)
  show "next_id s' = Inr (i + 1)" "get_order s' = get_order s" "get_market s' = get_market s"
    "version s' = version s"
    by (auto simp: r(3) next_id_def store_simps fun_eq_iff)
qed

lemma keeps_absent:
  "keeps_fill_prices taker ps (\<lambda>s fills remaining. \<forall>j. get_order s0 j = Inr None \<longrightarrow> get_order s j = Inr None)"
  unfolding keeps_fill_prices_def keeps_fill_def
proof (intro ballI impI allI)
  fix price i maker v r v' j
  assume inv: "\<forall>j. get_order s0 j = Inr None \<longrightarrow> get_order (mv_state v) j = Inr None"
    and maker: "get_order (mv_state v) i = Inr (Some maker)"
    and fill: "fill_maker_order taker price i maker v = (r, v')"
    and j: "get_order s0 j = Inr None"
  then have "j \<noteq> i" by auto
  then show "get_order (mv_state v') j = Inr None"
    using inv j fill_maker_order_vars(3) [OF fill] by auto
qed

lemma next_id_cong: "sm_get s' StateKey_NextOrderId = sm_get s StateKey_NextOrderId \<Longrightarrow> next_id s' = next_id s"
  by (simp add: next_id_def get_or_default_sm)

lemma match_order_frame:
  assumes "match_order ob s taker = (Inr fills, ob', s')"
  shows "\<not> order_key k \<Longrightarrow> sm_get s' k = sm_get s k"
    and "get_order s j = Inr None \<Longrightarrow> get_order s' j = Inr None"
    and "same_side ob' taker = same_side ob taker"
proof -
  show "\<not> order_key k \<Longrightarrow> sm_get s' k = sm_get s k"
    using match_order_keeps [OF assms keeps_other_keys] by auto
  show "get_order s j = Inr None \<Longrightarrow> get_order s' j = Inr None"
    using match_order_keeps [OF assms keeps_absent [of _ _ s]] by auto
  show "same_side ob' taker = same_side ob taker"
    using assms by (cases rule: match_order_success) (auto simp: same_side_def set_opposing_def)
qed

text \<open>Listing an active order changes no stored order.\<close>

lemma add_active_order_frame:
  assumes "add_active_order s m i = (r, s')"
  shows "get_order s' = get_order s" "\<not> order_key k \<Longrightarrow> sm_get s' k = sm_get s k"
  using assms
  by (auto simp: fun_eq_iff add_active_order_def Let_def store_simps bindR_def
      split: option.splits sum.splits if_splits)

lemma side_ok_resting: "side_ok s m buy b \<Longrightarrow> i \<in> set (level_ids b p) \<Longrightarrow> resting s m buy p i"
  by (cases "bt_get b p") (auto simp: level_ids_def side_ok_def level_ok_def)

section \<open>Cancelling an order\<close>

lemma cancel_order_success:
  assumes "cancel_order t trader c = (Inr (), t')"
  obtains x s where "get_order (tg_state t) (co_order_id c) = Inr (Some x)" "ord_owner x = trader"
    "ord_status x = Active"
    "remove_active_order (set_order (tg_state t) (co_order_id c) (x\<lparr>ord_status := Cancelled\<rparr>))
       (ord_market_id x) (co_order_id c) = (Inr (), s)"
    "t' = \<lparr>tg_state = s, tg_ctx = emit (tg_ctx t) (Event_OrderCancelled (co_order_id c) trader
              (ord_market_id x) (ord_remaining_size x)),
           tg_book = remove_order (tg_book t) (co_order_id c) x\<rparr>"
  using assms
  by (auto simp: cancel_order_def result_simps Let_def tg_emit_def split: if_splits
      intro!: that trading.equality)

lemma side_ok_cong_ids:
  assumes "side_ok s m buy b" "\<And>p j. j \<in> set (level_ids b p) \<Longrightarrow> get_order s' j = get_order s j"
  shows "side_ok s' m buy b"
  unfolding side_ok_def
proof (intro conjI allI impI)
  show "bt_invar b" using assms(1) by (simp add: side_ok_def)
  fix p l
  assume l: "bt_get b p = Some l"
  then show "lvl_orders l \<noteq> []" using assms(1) by (simp add: side_ok_def)
  show "level_ok s' m buy p l"
  proof (rule level_ok_cong)
    show "level_ok s m buy p l" using assms(1) l by (simp add: side_ok_def)
    show "get_order s' j = get_order s j" if "j \<in> set (lvl_orders l)" for j
      using that l by (intro assms(2) [of _ p]) (simp add: level_ids_def)
  qed
qed

lemma book_remove_absent:
  assumes "side_ok s m buy b" "i \<notin> set (level_ids b p)"
  shows "bt_get (book_remove b p i sz) = bt_get b" "bt_invar (book_remove b p i sz)"
  using assms
  by (auto simp: book_remove_def side_ok_def level_ids_def level_remove_def level_is_empty_def Let_def
      bt_laws fun_eq_iff split: option.splits)

lemma cancel_order_keeps_book:
  assumes cancel: "cancel_order t trader c = (Inr (), t')" and ok: "book_ok (tg_state t) (tg_book t)"
  shows "book_ok (tg_state t') (tg_book t')"
proof -
  let ?i = "co_order_id c"
  obtain x s where x: "get_order (tg_state t) ?i = Inr (Some x)"
    and s: "remove_active_order (set_order (tg_state t) ?i (x\<lparr>ord_status := Cancelled\<rparr>))
       (ord_market_id x) ?i = (Inr (), s)"
    and t': "tg_state t' = s" "tg_book t' = remove_order (tg_book t) ?i x"
    using cancel_order_success [OF cancel] by (metis trading.select_convs(1,3))
  have same: "get_order s j = get_order (tg_state t) j" if "j \<noteq> ?i" for j
    using remove_active_order_frame(1) [OF s] that by simp
  show ?thesis
  proof (cases "?i \<in> set (level_ids (same_side (tg_book t) x) (ord_price x))")
    case True
    from remove_order_book_ok [OF ok x same True] show ?thesis by (simp add: t')
  next
    case absent: False
    have nowhere: "?i \<notin> set (level_ids b p)" if "side_ok (tg_state t) m buy b"
      "m = ord_market_id x \<and> buy = ord_is_buy x \<Longrightarrow> b = same_side (tg_book t) x" for m buy b p
    proof
      assume i: "?i \<in> set (level_ids b p)"
      then have "resting (tg_state t) m buy p ?i" by (rule side_ok_resting [OF that(1)])
      then have "ord_market_id x = m" "ord_is_buy x = buy" "ord_price x = p"
        using x by (auto elim!: restingE)
      with i that(2) absent show False by auto
    qed
    have sides: "side_ok s m buy b" if "side_ok (tg_state t) m buy b"
      "m = ord_market_id x \<and> buy = ord_is_buy x \<Longrightarrow> b = same_side (tg_book t) x" for m buy b
      by (rule side_ok_cong_ids [OF that(1)], rule same) (use nowhere [OF that] in auto)
    have own: "side_ok s (ord_market_id x) (ord_is_buy x)
        (book_remove (same_side (tg_book t) x) (ord_price x) ?i (ord_remaining_size x))"
      using sides [OF same_side_ok [OF ok, of x]] book_remove_absent [OF same_side_ok [OF ok] absent]
      by (simp add: side_ok_def)
    have "side_ok s m True b" if "bids (tg_book t) m = Some b" for m b
      by (rule sides) (use ok that in \<open>auto simp: book_ok_def same_side_def or_default_def\<close>)
    moreover have "side_ok s m False b" if "asks (tg_book t) m = Some b" for m b
      by (rule sides) (use ok that in \<open>auto simp: book_ok_def same_side_def or_default_def\<close>)
    ultimately show ?thesis
      using own
      by (auto simp: t' book_ok_def remove_order_def same_side_def or_default_def Let_def
          split: option.splits if_splits)
  qed
qed

section \<open>Orders that fail or rest in unexpected ways\<close>

text \<open>A fill-or-kill order that cannot be filled fails after its partial fills were settled.\<close>

lemma fok_keeps_fills:
  assumes "get_market (tg_state t) (po_market_id x) = Inr (Some market)" "validate_order market x = Inr ()"
    and "check_order_allowed (tg_state t) trader x = Inr ()" "next_order_id (tg_state t) = (Inr i, s1)"
    and "match_tg (t\<lparr>tg_state := s1\<rparr>) (new_order s1 trader x i) = (Inr fills, t2)"
    and "process_fills market t2 fills = (Inr (), t3)"
    and "po_time_in_force x = FOK" "filled_total fills < unat (po_size x)"
  shows "place_order t trader x = (Inl OrderNotFilled,
    tg_emit t3 (Event_OrderPlaced i trader (po_market_id x) (po_is_buy x) (po_price x) (po_size x)
      (po_order_type x)))"
proof -
  have "filled_total fills < 2 ^ 64" using assms(8) u64_less order.strict_trans by blast
  then have "unat (saturating_sub (po_size x) (sum_list (map fill_size fills))) \<noteq> 0"
    using assms(8) by (simp add: unat_saturating_sub sum_list_fill_size)
  then have "saturating_sub (po_size x) (sum_list (map fill_size fills)) \<noteq> 0" by auto
  moreover have "on_tg_state (\<lambda>s. lift_state (next_order_id s)) t = (Inr i, t\<lparr>tg_state := s1\<rparr>)"
    by (simp add: on_tg_state_def assms(4))
  ultimately show ?thesis
    using assms by (simp add: place_order_def settle_order_def new_order_def Let_def word_gt_0)
qed

text \<open>An order priced 0 is acceptable at every price, and as a resting ask acceptable to everyone.\<close>

lemma price_zero_acceptable:
  "ord_price taker = 0 \<Longrightarrow> \<not> price_unacceptable taker p"
  "ord_is_buy taker \<Longrightarrow> \<not> price_unacceptable taker 0"
  by (auto simp: price_unacceptable_def)

section \<open>Properties\<close>

lemma cancel_order_keeps_ok:
  assumes cancel: "cancel_order t trader c = (Inr (), t')" and ok: "trading_ok t"
  shows "trading_ok t'"
proof -
  let ?i = "co_order_id c"
  obtain x s where x: "get_order (tg_state t) ?i = Inr (Some x)"
    and s: "remove_active_order (set_order (tg_state t) ?i (x\<lparr>ord_status := Cancelled\<rparr>))
       (ord_market_id x) ?i = (Inr (), s)"
    and t': "tg_state t' = s"
    using cancel_order_success [OF cancel] by (metis trading.select_convs(1))
  obtain n where n: "next_id (tg_state t) = Inr n" "ids_below (tg_state t) n"
    using ok by (auto simp: trading_ok_def)
  have "next_id s = Inr n"
    using n(1) next_id_cong [of s "tg_state t"] remove_active_order_frame(2) [OF s]
    by (simp add: set_order_def)
  moreover have "ids_below s n"
    using n(2) x remove_active_order_frame(1) [OF s] by (auto simp: ids_below_def)
  ultimately show ?thesis
    using cancel_order_keeps_book [OF cancel] ok by (auto simp: trading_ok_def t')
qed

text \<open>A trader with a balance of 60 and an empty book.\<close>

definition open_desk :: trading where
  "open_desk = \<lparr>tg_state = funded_state 60, tg_ctx = [], tg_book = new_orderbook\<rparr>"



text \<open>A fill-or-kill order that cannot be filled completely is reported as not filled, but only
  after its partial fills were settled: the state it leaves is the one with the maker orders
  reduced, the positions moved and the events emitted.\<close>

lemma fok_fails_after_settling:
  assumes "get_market (tg_state t) (po_market_id x) = Inr (Some market)" "validate_order market x = Inr ()"
    and "check_order_allowed (tg_state t) trader x = Inr ()" "next_order_id (tg_state t) = (Inr i, s1)"
    and "match_tg (t\<lparr>tg_state := s1\<rparr>) (new_order s1 trader x i) = (Inr fills, t2)"
    and "process_fills market t2 fills = (Inr (), t3)"
    and "po_time_in_force x = FOK" "filled_total fills < unat (po_size x)"
  shows "place_order t trader x = (Inl OrderNotFilled,
    tg_emit t3 (Event_OrderPlaced i trader (po_market_id x) (po_is_buy x) (po_price x) (po_size x)
      (po_order_type x)))"
  by (rule fok_keeps_fills [OF assms])

end
