(* ===== verification/Trading_Invariants.thy ===== *)
theory Trading_Invariants
  imports Orders
begin

text \<open>
  What the order operations keep, whether they succeed or fail.  They change the state through six
  primitive writes only; a predicate on the state that these writes keep is kept by placing and
  cancelling orders and by closing positions.  The interface \<open>trading_invariant\<close> is interpreted
  twice: on the values of all keys that trading does not own, and on the typing of the store.
\<close>

section \<open>The interface\<close>

lemma match_order_keeps_state:
  assumes fill: "\<And>ps. keeps_fill_prices taker ps (\<lambda>s fills remaining. I s)"
  shows "I s \<Longrightarrow> match_order ob s taker = (r, ob', s') \<Longrightarrow> I s'"
  using match_prices_keeps [OF fill]
  by (fastforce simp: match_order_def Let_def split: if_splits option.splits prod.splits sum.splits)

locale trading_invariant =
  fixes I :: "StateManager \<Rightarrow> bool"
  assumes kept_set_order: "I s \<Longrightarrow> I (set_order s i x)"
    and kept_set_position: "I s \<Longrightarrow> I (set_position s a m p)"
    and kept_delete_position: "I s \<Longrightarrow> I (delete_position s a m)"
    and kept_next_order_id: "I s \<Longrightarrow> I (snd (next_order_id s))"
    and kept_add_active: "I s \<Longrightarrow> I (snd (add_active_order s m i))"
    and kept_remove_active: "I s \<Longrightarrow> I (snd (remove_active_order s m i))"
begin

lemma kept_update_position: "I s \<Longrightarrow> I (snd (update_position s a m sz price buy bps))"
  by (auto simp: update_position_def bindR_def Let_def kept_set_position kept_delete_position
      split: sum.splits prod.splits option.splits)

lemma kept_on_tg_state:
  "(\<And>s. I s \<Longrightarrow> I (snd (f s))) \<Longrightarrow> I (tg_state t) \<Longrightarrow> I (tg_state (snd (on_tg_state f t)))"
  by (auto simp: on_tg_state_def split: prod.splits) (metis snd_conv)

lemma kept_process_fill: "I (tg_state t) \<Longrightarrow> I (tg_state (snd (process_fill market t f)))"
  unfolding process_fill_def
  by (rule bindR_snd [where I = "\<lambda>t. I (tg_state t)"]; rule kept_on_tg_state bindR_snd [where I = "\<lambda>t. I (tg_state t)"];
      simp add: kept_update_position kept_on_tg_state)

lemma kept_process_fills: "I (tg_state t) \<Longrightarrow> I (tg_state (snd (process_fills market t fs)))"
proof (induction fs arbitrary: t)
  case (Cons f fs)
  show ?case
    unfolding process_fills.simps
    by (rule bindR_snd [where I = "\<lambda>t. I (tg_state t)"]) (simp_all add: kept_process_fill Cons)
qed simp

lemma kept_fill: "keeps_fill_prices taker ps (\<lambda>s fills remaining. I s)"
  by (auto simp: keeps_fill_prices_def keeps_fill_def fill_maker_order_def Let_def kept_set_order
      split: prod.splits sum.splits if_splits)
    (metis kept_remove_active kept_set_order snd_conv)+

lemma kept_match_order: "I s \<Longrightarrow> match_order ob s taker = (r, ob', s') \<Longrightarrow> I s'"
  by (rule match_order_keeps_state [OF kept_fill])

lemma kept_match_tg: "I (tg_state t) \<Longrightarrow> I (tg_state (snd (match_tg t x)))"
  by (auto simp: match_tg_def dest: kept_match_order split: prod.splits)

lemma kept_settle_order: "I (tg_state t) \<Longrightarrow> I (tg_state (snd (settle_order t x i ord)))"
proof -
  have rest: "I (tg_state t1) \<Longrightarrow> I (tg_state (snd (bindR (on_tg_state (\<lambda>s. lift_state (add_active_order s m i)) t1)
      (\<lambda>_ t2. (Inr i, t2\<lparr>tg_book := add_order (tg_book t2) i y\<rparr>)))))" for t1 m y
    by (rule bindR_snd [where I = "\<lambda>t. I (tg_state t)"]) (simp_all add: kept_on_tg_state kept_add_active)
  show "I (tg_state t) \<Longrightarrow> ?thesis"
    by (cases "po_time_in_force x") (simp_all add: settle_order_def Let_def rest kept_set_order)
qed

lemma kept_place_order: "I (tg_state t) \<Longrightarrow> I (tg_state (snd (place_order t trader x)))"
  unfolding place_order_def Let_def
  by (rule bindR_snd [where I = "\<lambda>t. I (tg_state t)"],
      simp_all add: kept_on_tg_state kept_next_order_id kept_match_tg kept_process_fills kept_settle_order)+

lemma kept_cancel_order: "I (tg_state t) \<Longrightarrow> I (tg_state (snd (cancel_order t trader c)))"
proof -
  have rest: "I (tg_state t1) \<Longrightarrow> I (tg_state (snd (bindR (on_tg_state (\<lambda>s. lift_state (remove_active_order s m i)) t1)
      (\<lambda>_ t2. (Inr (), tg_emit t2 ev)))))" for t1 m i ev
    by (rule bindR_snd [where I = "\<lambda>t. I (tg_state t)"]) (simp_all add: kept_on_tg_state kept_remove_active)
  show "I (tg_state t) \<Longrightarrow> ?thesis"
    unfolding cancel_order_def Let_def
    by (rule bindR_snd [where I = "\<lambda>t. I (tg_state t)"], simp_all add: rest kept_set_order)+
qed

lemma kept_close_position: "I (tg_state t) \<Longrightarrow> I (tg_state (snd (close_position t trader c)))"
proof -
  have close: "I (tg_state t) \<Longrightarrow> I (tg_state (snd (bindR (place_order t trader x) (\<lambda>_ t. (Inr (), t)))))" for t x
    by (rule bindR_snd [where I = "\<lambda>t. I (tg_state t)"]) (simp_all add: kept_place_order)
  show "I (tg_state t) \<Longrightarrow> ?thesis"
    unfolding close_position_def Let_def
    by (rule bindR_snd [where I = "\<lambda>t. I (tg_state t)"], simp_all add: close)+
qed

end

section \<open>Keys that trading does not own\<close>

definition trading_key :: "StateKey \<Rightarrow> bool" where
  "trading_key k \<longleftrightarrow> order_key k \<or> position_key k \<or> k = StateKey_NextOrderId"

definition same_elsewhere :: "StateManager \<Rightarrow> StateManager \<Rightarrow> bool" where
  "same_elsewhere s0 s \<longleftrightarrow> (\<forall>k. \<not> trading_key k \<longrightarrow> sm_get s k = sm_get s0 k)"

lemma same_elsewhere_refl [simp]: "same_elsewhere s s"
  by (simp add: same_elsewhere_def)

lemma same_elsewhereD: "same_elsewhere s0 s \<Longrightarrow> \<not> trading_key k \<Longrightarrow> sm_get s k = sm_get s0 k"
  by (simp add: same_elsewhere_def)

lemma position_frame:
  "\<not> position_key k \<Longrightarrow> sm_get (set_position s a m p) k = sm_get s k"
  "\<not> position_key k \<Longrightarrow> sm_get (delete_position s a m) k = sm_get s k"
  by (cases k; simp add: set_position_frame delete_position_frame)+

interpretation elsewhere: trading_invariant "same_elsewhere s0"
proof unfold_locales
  fix s i x a m p
  assume same: "same_elsewhere s0 s"
  show "same_elsewhere s0 (set_order s i x)"
    using same by (auto simp: same_elsewhere_def trading_key_def set_order_def)
  show "same_elsewhere s0 (set_position s a m p)"
    using same by (simp add: same_elsewhere_def trading_key_def position_frame)
  show "same_elsewhere s0 (delete_position s a m)"
    using same by (simp add: same_elsewhere_def trading_key_def position_frame)
  show "same_elsewhere s0 (snd (next_order_id s))"
    using same by (auto simp: same_elsewhere_def trading_key_def next_order_id_def bindR_def split: sum.splits)
  show "same_elsewhere s0 (snd (add_active_order s m i))"
    using same add_active_order_frame(2) by (cases "add_active_order s m i") (auto simp: same_elsewhere_def trading_key_def)
  show "same_elsewhere s0 (snd (remove_active_order s m i))"
    using same remove_active_order_frame(2) by (cases "remove_active_order s m i") (auto simp: same_elsewhere_def trading_key_def)
qed

lemma trading_frame:
  assumes "\<not> trading_key k"
  shows "sm_get (tg_state (snd (place_order t trader x))) k = sm_get (tg_state t) k"
    and "sm_get (tg_state (snd (cancel_order t trader y))) k = sm_get (tg_state t) k"
    and "sm_get (tg_state (snd (close_position t trader z))) k = sm_get (tg_state t) k"
  by (rule same_elsewhereD [OF elsewhere.kept_place_order [OF same_elsewhere_refl] assms]
      same_elsewhereD [OF elsewhere.kept_cancel_order [OF same_elsewhere_refl] assms]
      same_elsewhereD [OF elsewhere.kept_close_position [OF same_elsewhere_refl] assms])+

section \<open>The typing of the store\<close>

interpretation typed: trading_invariant well_typed
proof unfold_locales
  fix s m i
  assume s: "well_typed s"
  show "well_typed (snd (next_order_id s))"
    using s by (auto simp: next_order_id_def bindR_def split: sum.splits)
  show "well_typed (snd (add_active_order s m i))" "well_typed (snd (remove_active_order s m i))"
    using s by (auto simp: add_active_order_def remove_active_order_def bindR_def Let_def split: sum.splits)
qed simp_all

end
