(* ===== verification/Liquidation.thy ===== *)
theory Liquidation
  imports Orders
begin

text \<open>
  \<open>crates/engine/src/liquidation.rs\<close>: the liquidation test, partial and full liquidation with
  its fees and the insurance fund, the index of positions at risk, and auto-deleveraging.

  A \<open>BinaryHeap\<close> is a multiset; \<open>heap_iter\<close> is the order in which one is enumerated, which
  the standard library leaves open.  The \<open>&mut\<close> parameters of \<open>liquidate_with_incentive\<close>
  (the liquidation engine itself, the state and the book) form the record \<open>liq\<close>.
\<close>

section \<open>Model\<close>

record PositionRisk =
  risk_trader :: Address
  risk_market_id :: u32
  risk_margin_ratio :: u32
  risk_position_value :: u128
  risk_equity :: u128

record LiquidationResult =
  lr_trader :: Address
  lr_market_id :: u32
  lr_liquidated_size :: u64
  lr_liquidation_price :: u64
  lr_liquidation_fee :: u128
  lr_remaining_equity :: u128
  lr_liquidator :: "Address option"
  lr_liquidator_reward :: u128
  lr_insurance_fund_contribution :: u128
  lr_insurance_fund_usage :: u128

record InsuranceFund =
  if_balance :: u128
  if_total_contributions :: u128
  if_total_payouts :: u128

definition default_fund :: InsuranceFund where
  "default_fund = \<lparr>if_balance = 0, if_total_contributions = 0, if_total_payouts = 0\<rparr>"

record AdlCandidate =
  adl_trader :: Address
  adl_market_id :: u32
  adl_position_size :: u64
  adl_unrealized_pnl :: u128
  adl_is_profit :: bool
  adl_profit_score :: i128

record LiquidationEngine =
  at_risk_positions :: "u32 \<rightharpoonup> PositionRisk multiset"
  insurance_funds :: "u32 \<rightharpoonup> InsuranceFund"
  fee_split :: "u32 \<times> u32"
  min_insurance_ratio :: u32
  enable_partial_liquidations :: bool
  adl_enabled :: bool

definition default_liquidation_engine :: LiquidationEngine where
  "default_liquidation_engine =
     \<lparr>at_risk_positions = Map.empty, insurance_funds = Map.empty,
      fee_split = (DEFAULT_LIQUIDATOR_FEE_BPS, DEFAULT_INSURANCE_FEE_BPS),
      min_insurance_ratio = DEFAULT_MIN_INSURANCE_RATIO_BPS,
      enable_partial_liquidations = True, adl_enabled = True\<rparr>"

text \<open>\<open>None\<close> is the failed assertion.\<close>

definition set_fee_split :: "LiquidationEngine \<Rightarrow> u32 \<Rightarrow> u32 \<Rightarrow> LiquidationEngine option" where
  "set_fee_split le liquidator_bps insurance_bps =
     (if liquidator_bps + insurance_bps = ucast BASIS_POINTS
      then Some (le\<lparr>fee_split := (liquidator_bps, insurance_bps)\<rparr>) else None)"

definition calculate_position_equity :: "Position \<Rightarrow> u64 \<Rightarrow> EngineError + u128" where
  "calculate_position_equity p mark_price =
     bindE (calculate_pnl p mark_price) (\<lambda>(pnl, is_profit).
       if is_profit then ok_or Overflow (checked_add (pos_margin p) pnl)
       else Inr (saturating_sub (pos_margin p) pnl))"

definition calculate_position_value :: "Position \<Rightarrow> u64 \<Rightarrow> EngineError + u128" where
  "calculate_position_value p mark_price =
     ok_or Overflow (checked_mul (ucast (pos_size p)) (ucast mark_price))"

definition position_margin_ratio :: "Position \<Rightarrow> u64 \<Rightarrow> EngineError + u32" where
  "position_margin_ratio p mark_price =
     (if pos_size p = 0 then Inr (- 1)
      else
        bindE (calculate_position_equity p mark_price) (\<lambda>equity.
        bindE (calculate_position_value p mark_price) (\<lambda>position_value.
        if position_value = 0 then Inr (- 1)
        else
          bindE (ok_or Overflow (checked_mul equity BASIS_POINTS)) (\<lambda>x.
          (let ratio = x div position_value in
           Inr (if unat ratio < 2 ^ 32 then ucast ratio else - 1))))))"

definition should_liquidate ::
  "StateManager \<Rightarrow> Address \<Rightarrow> u32 \<Rightarrow> u64 \<Rightarrow> Market \<Rightarrow> EngineError + bool" where
  "should_liquidate s trader market_id mark_price market =
     bindE (of_state (get_position s trader market_id)) (\<lambda>po.
     case po of
       None \<Rightarrow> Inr False
     | Some p \<Rightarrow>
         if pos_size p = 0 then Inr False
         else bindE (position_margin_ratio p mark_price) (\<lambda>r.
                Inr (r < mkt_maintenance_margin_bps market)))"

subsection \<open>The risk index\<close>

definition create_position_risk ::
  "Address \<Rightarrow> u32 \<Rightarrow> Position \<Rightarrow> u64 \<Rightarrow> EngineError + PositionRisk" where
  "create_position_risk trader market_id p mark_price =
     bindE (position_margin_ratio p mark_price) (\<lambda>margin_ratio.
     bindE (calculate_position_value p mark_price) (\<lambda>position_value.
     bindE (calculate_position_equity p mark_price) (\<lambda>equity.
       Inr \<lparr>risk_trader = trader, risk_market_id = market_id, risk_margin_ratio = margin_ratio,
            risk_position_value = position_value, risk_equity = equity\<rparr>)))"

definition push_risk :: "LiquidationEngine \<Rightarrow> u32 \<Rightarrow> PositionRisk \<Rightarrow> LiquidationEngine" where
  "push_risk le market_id r =
     le\<lparr>at_risk_positions := (at_risk_positions le)
          (market_id \<mapsto> add_mset r (or_default {#} (at_risk_positions le market_id)))\<rparr>"

definition update_risk_index ::
  "LiquidationEngine \<Rightarrow> StateManager \<Rightarrow> Address \<Rightarrow> u32 \<Rightarrow> u64 \<Rightarrow> (EngineError + unit) \<times> LiquidationEngine" where
  "update_risk_index le s trader market_id mark_price =
     bindR (of_state (get_position s trader market_id), le) (\<lambda>po le.
     case po of
       None \<Rightarrow> (Inr (), le)
     | Some p \<Rightarrow>
         if pos_size p = 0 then (Inr (), le)
         else bindR (create_position_risk trader market_id p mark_price, le) (\<lambda>r le.
                (Inr (), push_risk le market_id r)))"

fun push_risks ::
  "u32 \<Rightarrow> u64 \<Rightarrow> (Address \<times> Position) list \<Rightarrow> LiquidationEngine \<Rightarrow> (EngineError + unit) \<times> LiquidationEngine" where
  "push_risks market_id mark_price [] le = (Inr (), le)"
| "push_risks market_id mark_price ((trader, p) # ps) le =
     (if pos_size p = 0 then push_risks market_id mark_price ps le
      else bindR (create_position_risk trader market_id p mark_price, le) (\<lambda>r le.
             push_risks market_id mark_price ps (push_risk le market_id r)))"

definition rebuild_risk_index ::
  "(Address set \<Rightarrow> Address list) \<Rightarrow> LiquidationEngine \<Rightarrow> StateManager \<Rightarrow> u32 \<Rightarrow> u64 \<Rightarrow>
     (EngineError + unit) \<times> LiquidationEngine" where
  "rebuild_risk_index addr_iter le s market_id mark_price =
     (let le1 = le\<lparr>at_risk_positions := (at_risk_positions le)(market_id \<mapsto> {#})\<rparr> in
      bindR (of_state (get_all_positions_in_market addr_iter s market_id), le1) (\<lambda>ps le.
        push_risks market_id mark_price ps le))"

definition get_at_risk_positions ::
  "(PositionRisk multiset \<Rightarrow> PositionRisk list) \<Rightarrow> LiquidationEngine \<Rightarrow> u32 \<Rightarrow> u32 \<Rightarrow> (Address \<times> u32) list" where
  "get_at_risk_positions heap_iter le market_id threshold_bps =
     (case at_risk_positions le market_id of
        Some heap \<Rightarrow>
          map (\<lambda>r. (risk_trader r, risk_market_id r))
            (filter (\<lambda>r. risk_margin_ratio r < threshold_bps) (heap_iter heap))
      | None \<Rightarrow> [])"

subsection \<open>Liquidation\<close>

record liq =
  lq_engine :: LiquidationEngine
  lq_state :: StateManager
  lq_book :: OrderbookManager

fun cancel_listed ::
  "Address \<Rightarrow> u32 \<Rightarrow> u64 list \<Rightarrow> u64 list \<Rightarrow> StateManager \<times> OrderbookManager \<Rightarrow>
     (EngineError + u64 list) \<times> StateManager \<times> OrderbookManager" where
  "cancel_listed trader market_id [] acc sb = (Inr acc, sb)"
| "cancel_listed trader market_id (i # ids) acc (s, ob) =
     (case get_order s i of
        Inl e \<Rightarrow> (Inl (EngineError_StateError e), s, ob)
      | Inr None \<Rightarrow> cancel_listed trader market_id ids acc (s, ob)
      | Inr (Some x) \<Rightarrow>
          if ord_owner x = trader \<and> ord_status x = Active then
            (let ob1 = remove_order ob i x;
                 s1 = set_order s i (x\<lparr>ord_status := Cancelled\<rparr>) in
             case remove_active_order s1 market_id i of
               (Inl e, s2) \<Rightarrow> (Inl (EngineError_StateError e), s2, ob1)
             | (Inr _, s2) \<Rightarrow> cancel_listed trader market_id ids (acc @ [i]) (s2, ob1))
          else cancel_listed trader market_id ids acc (s, ob))"

definition cancel_trader_orders ::
  "StateManager \<Rightarrow> OrderbookManager \<Rightarrow> Address \<Rightarrow> u32 \<Rightarrow>
     (EngineError + u64 list) \<times> StateManager \<times> OrderbookManager" where
  "cancel_trader_orders s ob trader market_id =
     (case get_active_orders_by_market s market_id of
        Inl e \<Rightarrow> (Inl (EngineError_StateError e), s, ob)
      | Inr ids \<Rightarrow> cancel_listed trader market_id ids [] (s, ob))"

text \<open>The bounds applied to the size that would restore the margin: at least a tenth of the
  position and the minimum order size, at most the position, and no remainder below the minimum.\<close>

definition bound_liquidation_size :: "Position \<Rightarrow> Market \<Rightarrow> u64 \<Rightarrow> u64" where
  "bound_liquidation_size p market raw =
     (let min_liquidation = max (pos_size p div MIN_LIQUIDATION_PCT) (mkt_min_order_size market);
          liquidation_size = min (max raw min_liquidation) (pos_size p) in
      if liquidation_size < mkt_min_order_size market \<and> pos_size p > mkt_min_order_size market
      then min (mkt_min_order_size market) (pos_size p)
      else
        (let remaining_size = saturating_sub (pos_size p) liquidation_size in
         if remaining_size > 0 \<and> remaining_size < mkt_min_order_size market
         then pos_size p
         else liquidation_size))"

definition calculate_partial_liquidation_size :: "Position \<Rightarrow> u64 \<Rightarrow> Market \<Rightarrow> EngineError + u64" where
  "calculate_partial_liquidation_size p mark_price market =
     (if mark_price = 0 then Inr (pos_size p)
      else if pos_size p = 0 then Inr 0
      else
        (let target_margin_ratio = mkt_maintenance_margin_bps market + MARGIN_BUFFER_BPS in
         bindE (calculate_position_value p mark_price) (\<lambda>position_value.
         if position_value = 0 then Inr 0
         else
           bindE (calculate_position_equity p mark_price) (\<lambda>equity.
           bindE (ok_or Overflow (checked_mul position_value (ucast target_margin_ratio))) (\<lambda>x.
           (let required_equity = x div BASIS_POINTS in
            if equity \<ge> required_equity then Inr 0
            else
              (let equity_deficit = saturating_sub required_equity equity in
               bindE (ok_or Overflow (checked_mul equity_deficit BASIS_POINTS)) (\<lambda>y.
               bindE (ok_or DivisionByZero (checked_div y
                   (ucast mark_price * (BASIS_POINTS + ucast (mkt_liquidation_fee_bps market))))) (\<lambda>z.
                 Inr (bound_liquidation_size p market (ucast z)))))))))))"

text \<open>Reducing a position by \<open>sz\<close> with its margin in proportion, as partial liquidation and
  partial deleveraging do.\<close>

definition shrink_position :: "string \<Rightarrow> Position \<Rightarrow> u64 \<Rightarrow> EngineError + Position" where
  "shrink_position msg p sz =
     (if pos_size p = 0 then Inl (EngineError_Other msg)
      else
        bindE (ok_or Overflow (checked_mul (pos_margin p) (ucast sz))) (\<lambda>x.
          Inr (p\<lparr>pos_size := pos_size p - sz,
                 pos_margin := saturating_sub (pos_margin p) (x div ucast (pos_size p))\<rparr>)))"

definition reduce_or_delete ::
  "string \<Rightarrow> StateManager \<Rightarrow> Address \<Rightarrow> u32 \<Rightarrow> Position \<Rightarrow> u64 \<Rightarrow> (EngineError + unit) \<times> StateManager" where
  "reduce_or_delete msg s trader market_id p sz =
     (if sz \<ge> pos_size p then (Inr (), delete_position s trader market_id)
      else bindR (shrink_position msg p sz, s) (\<lambda>p' s. (Inr (), set_position s trader market_id p')))"

definition draw_insurance :: "InsuranceFund \<Rightarrow> u128 \<Rightarrow> u128 \<times> InsuranceFund" where
  "draw_insurance f shortfall =
     (if if_balance f \<ge> shortfall then
        (shortfall, f\<lparr>if_balance := if_balance f - shortfall,
                      if_total_payouts := if_total_payouts f + shortfall\<rparr>)
      else
        (if_balance f, f\<lparr>if_balance := 0, if_total_payouts := if_total_payouts f + if_balance f\<rparr>))"

text \<open>The cover of a shortfall: the usage, the equity left for the trader and the engine.\<close>

definition cover_shortfall ::
  "LiquidationEngine \<Rightarrow> u32 \<Rightarrow> u128 \<Rightarrow> u128 \<Rightarrow> (u128 \<times> u128) \<times> LiquidationEngine" where
  "cover_shortfall le market_id equity fee =
     (if equity < fee then
        (let (used, f) = draw_insurance (or_default default_fund (insurance_funds le market_id)) (fee - equity) in
         ((used, 0), le\<lparr>insurance_funds := (insurance_funds le)(market_id \<mapsto> f)\<rparr>))
      else ((0, saturating_sub equity fee), le))"

definition credit ::
  "StateManager \<Rightarrow> Address \<Rightarrow> u32 \<Rightarrow> u128 \<Rightarrow> (EngineError + unit) \<times> StateManager" where
  "credit s address asset amount =
     bindR (of_state (get_balance s address asset), s) (\<lambda>b s.
     bindR (ok_or Overflow (checked_add b amount), s) (\<lambda>b' s.
       (Inr (), set_balance s address asset b')))"

definition contribute ::
  "LiquidationEngine \<Rightarrow> u32 \<Rightarrow> u128 \<Rightarrow> (EngineError + unit) \<times> LiquidationEngine" where
  "contribute le market_id amount =
     (let f = or_default default_fund (insurance_funds le market_id);
          put = (\<lambda>f. le\<lparr>insurance_funds := (insurance_funds le)(market_id \<mapsto> f)\<rparr>) in
      case checked_add (if_balance f) amount of
        None \<Rightarrow> (Inl Overflow, put f)
      | Some b \<Rightarrow>
          (let f1 = f\<lparr>if_balance := b\<rparr> in
           case checked_add (if_total_contributions f1) amount of
             None \<Rightarrow> (Inl Overflow, put f1)
           | Some c \<Rightarrow> (Inr (), put (f1\<lparr>if_total_contributions := c\<rparr>))))"

definition on_lq_state ::
  "(StateManager \<Rightarrow> (EngineError + 'a) \<times> StateManager) \<Rightarrow> liq \<Rightarrow> (EngineError + 'a) \<times> liq" where
  "on_lq_state f l = (case f (lq_state l) of (r, s) \<Rightarrow> (r, l\<lparr>lq_state := s\<rparr>))"

definition on_lq_engine ::
  "(LiquidationEngine \<Rightarrow> (EngineError + 'a) \<times> LiquidationEngine) \<Rightarrow> liq \<Rightarrow> (EngineError + 'a) \<times> liq" where
  "on_lq_engine f l = (case f (lq_engine l) of (r, e) \<Rightarrow> (r, l\<lparr>lq_engine := e\<rparr>))"

text \<open>Fee, reward and contribution of a liquidated size.\<close>

definition liquidation_fees ::
  "LiquidationEngine \<Rightarrow> Market \<Rightarrow> u64 \<Rightarrow> u64 \<Rightarrow> EngineError + (u128 \<times> u128 \<times> u128)" where
  "liquidation_fees le market liquidation_size liquidation_price =
     bindE (ok_or Overflow (checked_mul (ucast liquidation_size) (ucast liquidation_price :: u128))) (\<lambda>liquidation_value.
     bindE (ok_or Overflow (checked_mul liquidation_value (ucast (mkt_liquidation_fee_bps market)))) (\<lambda>a.
     (let fee = a div BASIS_POINTS in
      bindE (ok_or Overflow (checked_mul fee (ucast (fst (fee_split le))))) (\<lambda>b.
      bindE (ok_or Overflow (checked_mul fee (ucast (snd (fee_split le))))) (\<lambda>c.
        Inr (fee, b div BASIS_POINTS, c div BASIS_POINTS))))))"

text \<open>The part after the size and the fees are known.\<close>

definition execute_liquidation ::
  "liq \<Rightarrow> Address \<Rightarrow> u32 \<Rightarrow> Market \<Rightarrow> Position \<Rightarrow> u64 \<Rightarrow> u64 \<Rightarrow> Address \<Rightarrow> u128 \<times> u128 \<times> u128 \<Rightarrow>
     (EngineError + LiquidationResult option) \<times> liq" where
  "execute_liquidation l trader market_id market p sz liquidation_price liquidator fees =
     (case fees of (fee, reward, contribution) \<Rightarrow>
      bindR (calculate_position_equity p liquidation_price, l) (\<lambda>equity l.
      (let ((usage, remaining_equity), le1) = cover_shortfall (lq_engine l) market_id equity fee;
           l1 = l\<lparr>lq_engine := le1\<rparr> in
       bindR (on_lq_state (\<lambda>s. reduce_or_delete ''Cannot partially liquidate zero-sized position''
                s trader market_id p sz) l1) (\<lambda>_ l.
       bindR (on_lq_state (\<lambda>s. credit s liquidator (mkt_quote_asset_id market) reward) l) (\<lambda>_ l.
       bindR (on_lq_engine (\<lambda>e. contribute e market_id contribution) l) (\<lambda>_ l.
       bindR (if remaining_equity > 0
              then on_lq_state (\<lambda>s. credit s trader (mkt_quote_asset_id market) remaining_equity) l
              else (Inr (), l)) (\<lambda>_ l.
         (Inr (Some \<lparr>lr_trader = trader, lr_market_id = market_id, lr_liquidated_size = sz,
            lr_liquidation_price = liquidation_price, lr_liquidation_fee = fee,
            lr_remaining_equity = remaining_equity, lr_liquidator = Some liquidator,
            lr_liquidator_reward = reward, lr_insurance_fund_contribution = contribution,
            lr_insurance_fund_usage = usage\<rparr>), l))))))))"

definition liquidation_size_of ::
  "LiquidationEngine \<Rightarrow> Position \<Rightarrow> u64 \<Rightarrow> Market \<Rightarrow> EngineError + u64" where
  "liquidation_size_of le p liquidation_price market =
     (if enable_partial_liquidations le
      then calculate_partial_liquidation_size p liquidation_price market
      else Inr (pos_size p))"

definition liquidate_with_incentive ::
  "liq \<Rightarrow> Address \<Rightarrow> u32 \<Rightarrow> u64 \<Rightarrow> Address \<Rightarrow> (EngineError + LiquidationResult option) \<times> liq" where
  "liquidate_with_incentive l trader market_id mark_price liquidator =
     (if mark_price = 0 then (Inl (EngineError_Other ''Invalid mark price: cannot be zero''), l)
      else
        bindR (of_state (get_market (lq_state l) market_id), l) (\<lambda>mo l.
        bindR (ok_or MarketNotFound mo, l) (\<lambda>market l.
        (let liquidation_price = normalize_price market mark_price in
         bindR (should_liquidate (lq_state l) trader market_id liquidation_price market, l) (\<lambda>should l.
         if \<not> should then (Inr None, l)
         else
           bindR (case cancel_trader_orders (lq_state l) (lq_book l) trader market_id of
                    (r, s, ob) \<Rightarrow> (r, l\<lparr>lq_state := s, lq_book := ob\<rparr>)) (\<lambda>_ l.
           bindR (of_state (get_position (lq_state l) trader market_id), l) (\<lambda>po l.
           bindR (ok_or PositionNotFound po, l) (\<lambda>p l.
           bindR (liquidation_size_of (lq_engine l) p liquidation_price market, l) (\<lambda>sz l.
           bindR (liquidation_fees (lq_engine l) market sz liquidation_price, l) (\<lambda>fees l.
             execute_liquidation l trader market_id market p sz liquidation_price liquidator fees))))))))))"

fun liquidate_all ::
  "(Address \<times> u32) list \<Rightarrow> u64 \<Rightarrow> Address \<Rightarrow> LiquidationResult list \<Rightarrow> liq \<Rightarrow>
     (EngineError + LiquidationResult list) \<times> liq" where
  "liquidate_all [] mark_price liquidator acc l = (Inr acc, l)"
| "liquidate_all ((trader, mid) # ps) mark_price liquidator acc l =
     bindR (liquidate_with_incentive l trader mid mark_price liquidator) (\<lambda>r l.
       liquidate_all ps mark_price liquidator
         (case r of Some x \<Rightarrow> acc @ [x] | None \<Rightarrow> acc) l)"

definition process_liquidation_batch ::
  "(PositionRisk multiset \<Rightarrow> PositionRisk list) \<Rightarrow> liq \<Rightarrow> u32 \<Rightarrow> u64 \<Rightarrow> Address \<Rightarrow> nat \<Rightarrow>
     (EngineError + LiquidationResult list) \<times> liq" where
  "process_liquidation_batch heap_iter l market_id mark_price liquidator max_liquidations =
     bindR (of_state (get_market (lq_state l) market_id), l) (\<lambda>mo l.
     bindR (ok_or MarketNotFound mo, l) (\<lambda>market l.
       liquidate_all
         (take max_liquidations
            (get_at_risk_positions heap_iter (lq_engine l) market_id (mkt_maintenance_margin_bps market)))
         mark_price liquidator [] l))"

subsection \<open>Auto-deleveraging\<close>

fun adl_candidates ::
  "u32 \<Rightarrow> u64 \<Rightarrow> (Address \<times> Position) list \<Rightarrow> EngineError + AdlCandidate list" where
  "adl_candidates market_id mark_price [] = Inr []"
| "adl_candidates market_id mark_price ((trader, p) # ps) =
     (if pos_size p = 0 then adl_candidates market_id mark_price ps
      else
        bindE (calculate_pnl p mark_price) (\<lambda>(pnl, is_profit).
        if \<not> is_profit then adl_candidates market_id mark_price ps
        else
          bindE (calculate_position_value p mark_price) (\<lambda>position_value.
          bindE (calculate_position_equity p mark_price) (\<lambda>equity.
          bindE (if equity > 0
                 then bindE (ok_or Overflow (checked_mul position_value BASIS_POINTS)) (\<lambda>x. Inr (x div equity))
                 else Inr (- 1)) (\<lambda>leverage.
          bindE (ok_or Overflow (schecked_mul pnl leverage)) (\<lambda>profit_score.
          bindE (adl_candidates market_id mark_price ps) (\<lambda>rest.
            Inr (\<lparr>adl_trader = trader, adl_market_id = market_id, adl_position_size = pos_size p,
                  adl_unrealized_pnl = pnl, adl_is_profit = is_profit,
                  adl_profit_score = profit_score\<rparr> # rest))))))))"

definition find_adl_candidates ::
  "(Address set \<Rightarrow> Address list) \<Rightarrow> StateManager \<Rightarrow> u32 \<Rightarrow> u64 \<Rightarrow> EngineError + AdlCandidate list" where
  "find_adl_candidates addr_iter s market_id mark_price =
     bindE (of_state (get_all_positions_in_market addr_iter s market_id)) (\<lambda>ps.
       adl_candidates market_id mark_price ps)"

definition execute_adl ::
  "StateManager \<Rightarrow> Address \<Rightarrow> u32 \<Rightarrow> u64 \<Rightarrow> (EngineError + unit) \<times> StateManager" where
  "execute_adl s trader market_id sz =
     bindR (of_state (get_position s trader market_id), s) (\<lambda>po s.
     bindR (ok_or PositionNotFound po, s) (\<lambda>p s.
       reduce_or_delete ''Cannot partially ADL zero-sized position'' s trader market_id p sz))"

definition deleverage_size :: "AdlCandidate \<Rightarrow> u128 \<Rightarrow> u128 \<Rightarrow> u128 \<Rightarrow> EngineError + u64" where
  "deleverage_size c collected required position_value =
     (if collected + position_value > required then
        bindE (ok_or Overflow (checked_mul (required - collected) (ucast (adl_position_size c)))) (\<lambda>x.
          Inr (ucast (x div position_value)))
      else Inr (adl_position_size c))"

fun adl_loop ::
  "u32 \<Rightarrow> u128 \<Rightarrow> u64 \<Rightarrow> AdlCandidate list \<Rightarrow> u128 \<Rightarrow> (Address \<times> u64) list \<Rightarrow> StateManager \<Rightarrow>
     (EngineError + (Address \<times> u64) list) \<times> StateManager" where
  "adl_loop market_id required mark_price [] collected acc s = (Inr acc, s)"
| "adl_loop market_id required mark_price (c # cs) collected acc s =
     (if collected \<ge> required then (Inr acc, s)
      else
        bindR (ok_or Overflow (checked_mul (ucast (adl_position_size c)) (ucast mark_price)), s) (\<lambda>position_value s.
        bindR (deleverage_size c collected required position_value, s) (\<lambda>sz s.
        bindR (execute_adl s (adl_trader c) market_id sz) (\<lambda>_ s.
        bindR (ok_or Overflow (checked_mul (ucast sz) (ucast mark_price)), s) (\<lambda>v s.
          adl_loop market_id required mark_price cs (collected + v) (acc @ [(adl_trader c, sz)]) s)))))"

definition auto_deleverage ::
  "(Address set \<Rightarrow> Address list) \<Rightarrow> LiquidationEngine \<Rightarrow> StateManager \<Rightarrow> u32 \<Rightarrow> u128 \<Rightarrow> u64 \<Rightarrow>
     (EngineError + (Address \<times> u64) list) \<times> StateManager" where
  "auto_deleverage addr_iter le s market_id required_amount mark_price =
     (if \<not> adl_enabled le then (Inr [], s)
      else
        bindR (find_adl_candidates addr_iter s market_id mark_price, s) (\<lambda>candidates s.
          adl_loop market_id required_amount mark_price
            (sort_key (\<lambda>c. - sint (adl_profit_score c)) candidates) 0 [] s))"

subsection \<open>Queries\<close>

definition get_insurance_fund :: "LiquidationEngine \<Rightarrow> u32 \<Rightarrow> InsuranceFund" where
  "get_insurance_fund le market_id = or_default default_fund (insurance_funds le market_id)"

definition is_insurance_fund_healthy :: "LiquidationEngine \<Rightarrow> u32 \<Rightarrow> u128 \<Rightarrow> bool" where
  "is_insurance_fund_healthy le market_id total_positions_value \<longleftrightarrow>
     if_balance (get_insurance_fund le market_id) \<ge>
       or_default 0 (checked_mul total_positions_value (ucast (min_insurance_ratio le))) div BASIS_POINTS"

section \<open>The liquidation test\<close>

lemma calculate_position_equity_of:
  assumes "calculate_position_equity p mark = Inr e"
  shows "int (unat e) = equity_of p mark"
proof -
  obtain pnl prof where x: "calculate_pnl p mark = Inr (pnl, prof)" using pnl_total by fastforce
  then have "equity_word p (pnl, prof) = Inr e"
    using assms by (simp add: calculate_position_equity_def equity_word_def split: if_splits)
  with x show ?thesis by (rule equity_word_of)
qed

lemma calculate_position_value_of:
  "\<exists>v. calculate_position_value p mark = Inr v \<and> unat v = unat (pos_size p) * unat mark"
  by (simp add: calculate_position_value_def word_nat)

lemma ratio_less: "0 < v \<Longrightarrow> a div v < b \<longleftrightarrow> a < b * v" for a b v :: nat
  by (simp add: div_less_iff_less_mult)

text \<open>The saturated ratio compares with a \<open>u32\<close> threshold as the ratio itself does.\<close>

lemma saturated_ratio_less:
  fixes r :: u128 and b :: u32
  shows "(if unat r < 2 ^ 32 then ucast r else - 1) < b \<longleftrightarrow> unat r < unat b"
proof (cases "unat r < 2 ^ 32")
  case True
  then have "unat (ucast r :: u32) = unat r"
    by (simp add: unsigned_ucast_eq take_bit_nat_eq_self)
  with True show ?thesis by (simp add: word_less_nat_alt)
next
  case False
  then have "\<not> unat r < unat b" using u32_less [of b] by simp
  with False show ?thesis by simp
qed

lemma position_margin_ratio_less:
  assumes "position_margin_ratio p mark = Inr r" "pos_size p \<noteq> 0" "mark \<noteq> 0"
  shows "r < b \<longleftrightarrow>
    equity_of p mark * 10000 < int (unat b) * (int (unat (pos_size p)) * int (unat mark))"
proof -
  obtain v where v: "calculate_position_value p mark = Inr v" "unat v = unat (pos_size p) * unat mark"
    using calculate_position_value_of by blast
  have pos: "0 < unat v" using assms(2,3) by (simp add: v(2) unat_gt_0)
  then have v0: "v \<noteq> 0" by auto
  obtain e where e: "calculate_position_equity p mark = Inr e"
    and fits: "unat (e * BASIS_POINTS) = unat e * 10000"
    and r: "r = (if unat ((e * BASIS_POINTS) div v) < 2 ^ 32 then ucast ((e * BASIS_POINTS) div v) else - 1)"
    using assms(1,2) v0
    by (auto simp: position_margin_ratio_def result_simps v(1) word_nat Let_def)
  have "r < b \<longleftrightarrow> unat e * 10000 div unat v < unat b"
    unfolding r saturated_ratio_less by (simp add: unat_div fits)
  also have "\<dots> \<longleftrightarrow> unat e * 10000 < unat b * unat v" by (rule ratio_less [OF pos])
  also have "\<dots> \<longleftrightarrow> int (unat e) * 10000 < int (unat b) * int (unat v)"
    by (metis of_nat_less_iff of_nat_mult of_nat_numeral)
  also have "int (unat e) = equity_of p mark" by (rule calculate_position_equity_of [OF e])
  finally show ?thesis by (simp only: v(2) of_nat_mult)
qed

lemma should_liquidate_spec:
  assumes "should_liquidate s trader m mark market = Inr b"
    and "get_position s trader m = Inr (Some p)" "pos_size p \<noteq> 0" "mark \<noteq> 0"
  shows "b \<longleftrightarrow> equity_of p mark * 10000 <
    int (unat (mkt_maintenance_margin_bps market)) * (int (unat (pos_size p)) * int (unat mark))"
  using assms by (auto simp: should_liquidate_def result_simps position_margin_ratio_less)

section \<open>The size of a liquidation\<close>

lemma bound_liquidation_size_bounds:
  defines "mn m \<equiv> mkt_min_order_size m"
  assumes "sz = bound_liquidation_size p market raw"
  shows "sz = pos_size p \<or> (mn market \<le> sz \<and> mn market \<le> pos_size p - sz \<and> sz \<le> pos_size p)"
    and "pos_size p div 10 \<le> sz"
proof -
  let ?x = "min (max raw (max (pos_size p div MIN_LIQUIDATION_PCT) (mn market))) (pos_size p)"
  have tenth: "pos_size p div 10 \<le> pos_size p"
    by (simp add: word_le_nat_alt unat_div)
  have le: "?x \<le> pos_size p" and ge: "min (mn market) (pos_size p) \<le> ?x"
    and ten: "pos_size p div 10 \<le> ?x"
    using tenth by (auto simp: min_def max_def MIN_LIQUIDATION_PCT_def)
  have dead: "\<not> (?x < mn market \<and> mn market < pos_size p)"
    using ge by (auto simp: min_def split: if_splits)
  have sz: "sz = (if 0 < saturating_sub (pos_size p) ?x \<and> saturating_sub (pos_size p) ?x < mn market
      then pos_size p else ?x)"
    using dead unfolding assms(2) bound_liquidation_size_def Let_def mn_def by (simp only: if_False)
  show "sz = pos_size p \<or> (mn market \<le> sz \<and> mn market \<le> pos_size p - sz \<and> sz \<le> pos_size p)"
  proof (cases "?x = pos_size p")
    case True
    then show ?thesis by (simp add: sz)
  next
    case False
    then have "0 < pos_size p - ?x" "mn market \<le> ?x"
      using le ge by (auto simp: word_gt_0 min_def split: if_splits)
    then show ?thesis using le by (auto simp: sz saturating_sub_def not_less)
  qed
  show "pos_size p div 10 \<le> sz" using ten tenth by (simp add: sz)
qed

lemma partial_size_cases:
  assumes "calculate_partial_liquidation_size p mark market = Inr sz"
  shows "sz = 0 \<or> sz = pos_size p \<or> (\<exists>raw. sz = bound_liquidation_size p market raw)"
  using assms
  by (auto simp: calculate_partial_liquidation_size_def result_simps Let_def split: if_splits)

lemma partial_size_bounds:
  assumes "calculate_partial_liquidation_size p mark market = Inr sz"
  shows "sz \<le> pos_size p"
    and "sz = 0 \<or> sz = pos_size p \<or>
      (mkt_min_order_size market \<le> sz \<and> mkt_min_order_size market \<le> pos_size p - sz)"
  using partial_size_cases [OF assms] bound_liquidation_size_bounds(1) word_zero_le order_refl
  by metis+

text \<open>A position that fails the test, with a value of at least 50, is liquidated in part or in
  full: the target ratio leaves a deficit.\<close>

lemma deficit_exists:
  fixes e v b :: nat
  assumes "e * 10000 < b * v" "50 \<le> v"
  shows "e < v * (b + 200) div 10000"
proof -
  have "(e + 1) * 10000 \<le> v * (b + 200)"
    using assms by (simp add: algebra_simps)
  then have "e + 1 \<le> v * (b + 200) div 10000"
    by (simp add: less_eq_div_iff_mult_less_eq)
  then show ?thesis by simp
qed

lemma partial_size_positive:
  assumes "calculate_partial_liquidation_size p mark market = Inr sz"
    and "should_liquidate s trader m mark market = Inr True"
    and "get_position s trader m = Inr (Some p)"
    and val: "50 \<le> unat (pos_size p) * unat mark"
    and mn: "mkt_min_order_size market \<noteq> 0"
    and buffer: "unat (mkt_maintenance_margin_bps market) + 200 < 2 ^ 32"
  shows "sz \<noteq> 0"
proof -
  let ?mm = "mkt_maintenance_margin_bps market"
  have nz: "pos_size p \<noteq> 0" "mark \<noteq> 0" using val by auto
  obtain v where v: "calculate_position_value p mark = Inr v" "unat v = unat (pos_size p) * unat mark"
    using calculate_position_value_of by blast
  have v0: "v \<noteq> 0" using val by (auto simp: v(2) [symmetric])
  obtain e where e: "calculate_position_equity p mark = Inr e"
    and fits: "unat (v * ucast (?mm + MARGIN_BUFFER_BPS)) = unat v * unat (?mm + MARGIN_BUFFER_BPS)"
    using assms(1) nz v0
    by (auto simp: calculate_partial_liquidation_size_def result_simps v(1) Let_def checked_mul_Some)
  have sz: "v * ucast (?mm + MARGIN_BUFFER_BPS) div BASIS_POINTS \<le> e \<or>
      (\<exists>raw. sz = bound_liquidation_size p market raw)"
    using assms(1) nz v0
    by (auto simp: calculate_partial_liquidation_size_def result_simps v(1) e Let_def checked_mul_Some
        split: if_splits)
  have "unat (?mm + MARGIN_BUFFER_BPS) = unat ?mm + 200"
    using buffer by (subst unat_add_lem [THEN iffD1]) (simp_all add: MARGIN_BUFFER_BPS_def)
  then have req: "unat (v * ucast (?mm + MARGIN_BUFFER_BPS) div BASIS_POINTS) = unat v * (unat ?mm + 200) div 10000"
    by (simp add: unat_div fits)
  have "int (unat e) * 10000 < int (unat ?mm) * int (unat v)"
    using should_liquidate_spec [OF assms(2,3) nz] calculate_position_equity_of [OF e]
    by (simp only: v(2) of_nat_mult simp_thms)
  then have "unat e * 10000 < unat ?mm * unat v"
    by (metis of_nat_less_iff of_nat_mult of_nat_numeral)
  then have "unat e < unat v * (unat ?mm + 200) div 10000"
    using deficit_exists val v(2) by metis
  then have "\<not> v * ucast (?mm + MARGIN_BUFFER_BPS) div BASIS_POINTS \<le> e"
    by (simp add: word_le_nat_alt req)
  then obtain raw where "sz = bound_liquidation_size p market raw" using sz by blast
  from bound_liquidation_size_bounds(1) [OF this] show ?thesis
    using nz mn by auto
qed

section \<open>Fees and the insurance fund\<close>

lemma liquidation_fees_split:
  assumes "liquidation_fees le market sz price = Inr (fee, reward, contribution)"
    and "unat (fst (fee_split le)) + unat (snd (fee_split le)) = 10000"
  shows "unat fee = unat sz * unat price * unat (mkt_liquidation_fee_bps market) div 10000"
    and "unat reward + unat contribution \<le> unat fee"
    and "unat fee \<le> unat reward + unat contribution + 1"
proof -
  let ?v = "ucast sz * ucast price :: u128"
  let ?a = "fst (fee_split le)" and ?b = "snd (fee_split le)"
  have r: "unat (?v * ucast (mkt_liquidation_fee_bps market)) = unat ?v * unat (mkt_liquidation_fee_bps market)"
    "fee = ?v * ucast (mkt_liquidation_fee_bps market) div BASIS_POINTS"
    "unat (fee * ucast ?a) = unat fee * unat ?a" "reward = fee * ucast ?a div BASIS_POINTS"
    "unat (fee * ucast ?b) = unat fee * unat ?b" "contribution = fee * ucast ?b div BASIS_POINTS"
    using assms(1) by (auto simp: liquidation_fees_def result_simps Let_def word_nat)
  show "unat fee = unat sz * unat price * unat (mkt_liquidation_fee_bps market) div 10000"
    by (simp add: r(2) unat_div r(1) word_nat)
  have parts: "unat reward = unat fee * unat ?a div 10000" "unat contribution = unat fee * unat ?b div 10000"
    by (simp_all add: r(4,6) unat_div r(3,5))
  have sum: "unat fee * unat ?a + unat fee * unat ?b = unat fee * 10000"
    using assms(2) by (metis distrib_left)
  show "unat reward + unat contribution \<le> unat fee" "unat fee \<le> unat reward + unat contribution + 1"
    unfolding parts using sum by linarith+
qed

text \<open>The fund's books balance: what it holds and has paid out is what it received.\<close>

definition fund_ok :: "InsuranceFund \<Rightarrow> bool" where
  "fund_ok f \<longleftrightarrow> unat (if_balance f) + unat (if_total_payouts f) = unat (if_total_contributions f)"

definition funds_ok :: "LiquidationEngine \<Rightarrow> bool" where
  "funds_ok le \<longleftrightarrow> (\<forall>m f. insurance_funds le m = Some f \<longrightarrow> fund_ok f)"

lemma default_fund_ok [simp]: "fund_ok default_fund"
  by (simp add: fund_ok_def default_fund_def)

lemma funds_okD: "funds_ok le \<Longrightarrow> fund_ok (or_default default_fund (insurance_funds le m))"
  by (auto simp: funds_ok_def or_default_def split: option.splits)

lemma draw_insurance_ok:
  assumes "fund_ok f" "draw_insurance f shortfall = (used, f')"
  shows "fund_ok f'" "unat (if_balance f') + unat used = unat (if_balance f)" "used \<le> shortfall"
proof -
  have used: "used \<le> if_balance f" "used \<le> shortfall" and
    f': "if_balance f' = if_balance f - used" "if_total_payouts f' = if_total_payouts f + used"
      "if_total_contributions f' = if_total_contributions f"
    using assms(2) by (auto simp: draw_insurance_def split: if_splits)
  have bal: "unat (if_balance f - used) = unat (if_balance f) - unat used"
    using used(1) by (simp add: unat_sub word_le_nat_alt)
  have "unat (if_total_payouts f) + unat used \<le> unat (if_total_contributions f)"
    using assms(1) used(1) by (simp add: fund_ok_def word_le_nat_alt)
  then have "unat (if_total_payouts f + used) = unat (if_total_payouts f) + unat used"
    using u128_less [of "if_total_contributions f"] by (subst unat_add_lem [THEN iffD1]) simp_all
  with bal show "fund_ok f'" "unat (if_balance f') + unat used = unat (if_balance f)" "used \<le> shortfall"
    using assms(1) used by (simp_all add: fund_ok_def f' word_le_nat_alt)
qed

lemma cover_shortfall_ok:
  assumes "funds_ok le" "cover_shortfall le m equity fee = ((used, left), le')"
  shows "funds_ok le'" "unat left = unat equity - unat fee" "unat used \<le> unat fee - unat equity"
proof -
  show "funds_ok le'"
    using assms draw_insurance_ok(1) [OF funds_okD [OF assms(1)]]
    by (auto simp: cover_shortfall_def funds_ok_def Let_def split: if_splits prod.splits)
  show "unat left = unat equity - unat fee"
    using assms(2) by (auto simp: cover_shortfall_def Let_def word_nat word_less_nat_alt split: if_splits prod.splits)
  show "unat used \<le> unat fee - unat equity"
  proof (cases "equity < fee")
    case True
    then have "used \<le> fee - equity"
      using assms(2) draw_insurance_ok(3) [OF funds_okD [OF assms(1)]]
      by (auto simp: cover_shortfall_def Let_def split: prod.splits)
    then show ?thesis by (simp add: word_le_nat_alt unat_sub [OF less_imp_le [OF True]])
  qed (use assms(2) in \<open>simp add: cover_shortfall_def\<close>)
qed

lemma contribute_ok:
  assumes "funds_ok le" "contribute le m amount = (Inr (), le')"
  shows "funds_ok le'"
proof -
  have "fund_ok (or_default default_fund (insurance_funds le m))" by (rule funds_okD [OF assms(1)])
  with assms show ?thesis
    by (auto simp: contribute_def funds_ok_def fund_ok_def Let_def checked_add_Some
        split: option.splits if_splits)
qed

section \<open>Cancelling the orders of a trader\<close>

definition cancelled_for :: "StateManager \<Rightarrow> Address \<Rightarrow> u64 \<Rightarrow> bool" where
  "cancelled_for s trader i =
     (case get_order s i of
        Inr (Some x) \<Rightarrow> \<not> (ord_owner x = trader \<and> ord_status x = Active)
      | _ \<Rightarrow> True)"

text \<open>Cancelling never makes an order active again.\<close>

lemma cancel_listed_ok:
  "cancel_listed trader m ids acc (s, ob) = (Inr out, s', ob') \<Longrightarrow>
     (\<forall>i\<in>set ids. cancelled_for s' trader i) \<and>
     (\<forall>i. cancelled_for s trader i \<longrightarrow> cancelled_for s' trader i) \<and>
     (\<forall>k. \<not> order_key k \<longrightarrow> sm_get s' k = sm_get s k)"
proof (induction ids arbitrary: acc s ob)
  case (Cons i ids)
  show ?case
  proof (cases "\<exists>x. get_order s i = Inr (Some x) \<and> ord_owner x = trader \<and> ord_status x = Active")
    case False
    then have "cancelled_for s trader i" "cancel_listed trader m ids acc (s, ob) = (Inr out, s', ob')"
      using Cons.prems by (auto simp: cancelled_for_def split: sum.splits option.splits if_splits)
    with Cons.IH show ?thesis by auto
  next
    case True
    then obtain x where x: "get_order s i = Inr (Some x)" "ord_owner x = trader" "ord_status x = Active"
      by blast
    let ?s1 = "set_order s i (x\<lparr>ord_status := Cancelled\<rparr>)"
    obtain s2 where s2: "remove_active_order ?s1 m i = (Inr (), s2)"
      and rest: "cancel_listed trader m ids (acc @ [i]) (s2, remove_order ob i x) = (Inr out, s', ob')"
      using Cons.prems x by (auto simp: Let_def split: prod.splits sum.splits)
    have orders: "get_order s2 = (get_order s)(i := Inr (Some (x\<lparr>ord_status := Cancelled\<rparr>)))"
      using remove_active_order_frame(1) [OF s2] by (simp add: fun_eq_iff)
    have keys: "sm_get s2 k = sm_get s k" if "\<not> order_key k" for k
      using that remove_active_order_frame(2) [OF s2 that] by (auto simp: set_order_def)
    have "cancelled_for s2 trader j" if "cancelled_for s trader j \<or> j = i" for j
      using that by (auto simp: cancelled_for_def orders)
    with Cons.IH [OF rest] keys show ?thesis by auto
  qed
qed simp

lemma cancel_trader_orders_ok:
  assumes "cancel_trader_orders s ob trader m = (Inr out, s', ob')"
    and "get_active_orders_by_market s m = Inr ids"
  shows "\<forall>i\<in>set ids. cancelled_for s' trader i" and "\<not> order_key k \<Longrightarrow> sm_get s' k = sm_get s k"
  using assms cancel_listed_ok by (auto simp: cancel_trader_orders_def)

section \<open>Executing a liquidation\<close>

lemma credit_success:
  "credit s a i amount = (Inr (), s') \<longleftrightarrow>
     (\<exists>b. get_balance s a i = Inr b \<and> unat (b + amount) = unat b + unat amount \<and>
          s' = set_balance s a i (b + amount))"
  by (auto simp: credit_def result_simps word_nat)

lemma shrink_position_size:
  assumes "shrink_position msg p sz = Inr p'"
  shows "pos_size p' = pos_size p - sz" "pos_margin p' \<le> pos_margin p" "pos_is_long p' = pos_is_long p"
    "pos_entry_price p' = pos_entry_price p"
    "unat (pos_margin p') = unat (pos_margin p) - unat (pos_margin p) * unat sz div unat (pos_size p)"
  using assms
  by (auto simp: shrink_position_def result_simps checked_mul_Some unat_saturating_sub unat_div split: if_splits)

lemma on_lq_Inr [result_simps]:
  "on_lq_state f l = (Inr a, l') \<longleftrightarrow> (\<exists>s. f (lq_state l) = (Inr a, s) \<and> l' = l\<lparr>lq_state := s\<rparr>)"
  "on_lq_engine g l = (Inr a, l') \<longleftrightarrow> (\<exists>e. g (lq_engine l) = (Inr a, e) \<and> l' = l\<lparr>lq_engine := e\<rparr>)"
  by (auto simp: on_lq_state_def on_lq_engine_def split: prod.splits)

lemma execute_liquidation_success:
  assumes "execute_liquidation l trader m market p sz price liquidator (fee, reward, contribution) = (Inr r, l')"
  obtains e used left le1 s1 s2 le2 s3 where
    "calculate_position_equity p price = Inr e"
    "cover_shortfall (lq_engine l) m e fee = ((used, left), le1)"
    "reduce_or_delete ''Cannot partially liquidate zero-sized position'' (lq_state l) trader m p sz = (Inr (), s1)"
    "credit s1 liquidator (mkt_quote_asset_id market) reward = (Inr (), s2)"
    "contribute le1 m contribution = (Inr (), le2)"
    "if left > 0 then credit s2 trader (mkt_quote_asset_id market) left = (Inr (), s3) else s3 = s2"
    "l' = l\<lparr>lq_engine := le2, lq_state := s3\<rparr>"
    "r = Some \<lparr>lr_trader = trader, lr_market_id = m, lr_liquidated_size = sz,
            lr_liquidation_price = price, lr_liquidation_fee = fee,
            lr_remaining_equity = left, lr_liquidator = Some liquidator,
            lr_liquidator_reward = reward, lr_insurance_fund_contribution = contribution,
            lr_insurance_fund_usage = used\<rparr>"
proof -
  obtain e where e: "calculate_position_equity p price = Inr e"
    using assms by (auto simp: execute_liquidation_def result_simps)
  obtain used left le1 where c: "cover_shortfall (lq_engine l) m e fee = ((used, left), le1)"
    by (metis surj_pair)
  show ?thesis
    using assms that [OF e c]
    by (cases "left > 0") (auto simp: execute_liquidation_def result_simps e c Let_def)
qed

lemma liquidate_success:
  assumes "liquidate_with_incentive l trader m mark liquidator = (Inr (Some r), l')"
  obtains market s1 ob1 out p sz fee reward contribution where
    "get_market (lq_state l) m = Inr (Some market)"
    "should_liquidate (lq_state l) trader m (normalize_price market mark) market = Inr True"
    "cancel_trader_orders (lq_state l) (lq_book l) trader m = (Inr out, s1, ob1)"
    "get_position s1 trader m = Inr (Some p)"
    "liquidation_size_of (lq_engine l) p (normalize_price market mark) market = Inr sz"
    "liquidation_fees (lq_engine l) market sz (normalize_price market mark) = Inr (fee, reward, contribution)"
    "execute_liquidation (l\<lparr>lq_state := s1, lq_book := ob1\<rparr>) trader m market p sz
       (normalize_price market mark) liquidator (fee, reward, contribution) = (Inr (Some r), l')"
proof -
  obtain market where "get_market (lq_state l) m = Inr (Some market)"
    "should_liquidate (lq_state l) trader m (normalize_price market mark) market = Inr True"
    using assms by (auto simp: liquidate_with_incentive_def result_simps Let_def split: if_splits)
  moreover obtain x s1 ob1 where "cancel_trader_orders (lq_state l) (lq_book l) trader m = (x, s1, ob1)"
    by (metis surj_pair)
  ultimately show ?thesis
    using assms that
    by (auto simp: liquidate_with_incentive_def result_simps Let_def split: if_splits)
qed

text \<open>Cancelling leaves positions alone, so the position that was tested is the one liquidated.\<close>

lemma cancel_keeps_position:
  assumes "cancel_trader_orders s ob trader m = (Inr out, s', ob')"
  shows "get_position s' a m' = get_position s a m'" "get_balance s' a i = get_balance s a i"
    "get_market s' m' = get_market s m'"
proof -
  obtain ids where "get_active_orders_by_market s m = Inr ids"
    using assms by (auto simp: cancel_trader_orders_def split: sum.splits)
  from cancel_trader_orders_ok(2) [OF assms this]
  show "get_position s' a m' = get_position s a m'" "get_balance s' a i = get_balance s a i"
    "get_market s' m' = get_market s m'"
    by (simp_all add: store_simps)
qed

lemma reduce_or_delete_success:
  assumes "reduce_or_delete msg s trader m p sz = (Inr (), s')"
  shows "(pos_size p \<le> sz \<and> s' = delete_position s trader m) \<or>
    (sz < pos_size p \<and> (\<exists>p'. shrink_position msg p sz = Inr p' \<and> s' = set_position s trader m p'))"
  using assms by (auto simp: reduce_or_delete_def result_simps split: if_splits)

lemma get_balance_positions [simp]:
  "get_balance (set_position s t m p) a i = get_balance s a i"
  "get_balance (delete_position s t m) a i = get_balance s a i"
  by (simp_all add: store_simps set_position_frame delete_position_frame)

lemma get_position_set_balance [simp]: "get_position (set_balance s a i b) t m = get_position s t m"
  by (simp add: store_simps)

lemma liquidation_keeps_funds:
  assumes "liquidate_with_incentive l trader m mark liquidator = (Inr (Some r), l')" "funds_ok (lq_engine l)"
  shows "funds_ok (lq_engine l')"
proof -
  obtain market s1 ob1 out p sz fee reward contribution where
    "execute_liquidation (l\<lparr>lq_state := s1, lq_book := ob1\<rparr>) trader m market p sz
       (normalize_price market mark) liquidator (fee, reward, contribution) = (Inr (Some r), l')"
    using liquidate_success [OF assms(1)] .
  then obtain e used left le1 le2 where "cover_shortfall (lq_engine l) m e fee = ((used, left), le1)"
    "contribute le1 m contribution = (Inr (), le2)" "lq_engine l' = le2"
    by (auto elim!: execute_liquidation_success)
  then show ?thesis
    using contribute_ok cover_shortfall_ok(1) [OF assms(2)] by blast
qed

text \<open>
  What a liquidation does to the trader: a part of the position, in proportion with its margin,
  or all of it is taken away, and the equity of the whole position less the fee is credited.
\<close>

lemma liquidation_effect:
  assumes "liquidate_with_incentive l trader m mark liquidator = (Inr (Some r), l')"
    and "get_position (lq_state l) trader m = Inr (Some p)" "liquidator \<noteq> trader"
  obtains market e where "get_market (lq_state l) m = Inr (Some market)"
    "calculate_position_equity p (normalize_price market mark) = Inr e"
    "lr_liquidated_size r \<le> pos_size p"
    "unat (lr_remaining_equity r) = unat e - unat (lr_liquidation_fee r)"
    "\<exists>b. get_balance (lq_state l) trader (mkt_quote_asset_id market) = Inr b \<and>
         get_balance (lq_state l') trader (mkt_quote_asset_id market) = Inr (b + lr_remaining_equity r) \<and>
         unat (b + lr_remaining_equity r) = unat b + unat (lr_remaining_equity r)
       \<or> lr_remaining_equity r = 0"
    "lr_liquidated_size r < pos_size p \<Longrightarrow>
       \<exists>p'. shrink_position ''Cannot partially liquidate zero-sized position'' p (lr_liquidated_size r) = Inr p' \<and>
            get_position (lq_state l') trader m = Inr (Some p')"
proof -
  obtain market s1 ob1 out q sz fee reward contribution where
    mk: "get_market (lq_state l) m = Inr (Some market)" and
    c: "cancel_trader_orders (lq_state l) (lq_book l) trader m = (Inr out, s1, ob1)" and
    q: "get_position s1 trader m = Inr (Some q)" and
    sz: "liquidation_size_of (lq_engine l) q (normalize_price market mark) market = Inr sz" and
    ex: "execute_liquidation (l\<lparr>lq_state := s1, lq_book := ob1\<rparr>) trader m market q sz
       (normalize_price market mark) liquidator (fee, reward, contribution) = (Inr (Some r), l')"
    using liquidate_success [OF assms(1)] .
  note keep = cancel_keeps_position [OF c]
  have qp: "q = p" using q assms(2) keep(1) by simp
  obtain e used left le1 s2 s3 s4 le2 where
    e: "calculate_position_equity p (normalize_price market mark) = Inr e" and
    cs: "cover_shortfall (lq_engine l) m e fee = ((used, left), le1)" and
    red: "reduce_or_delete ''Cannot partially liquidate zero-sized position'' s1 trader m p sz = (Inr (), s2)" and
    cr: "credit s2 liquidator (mkt_quote_asset_id market) reward = (Inr (), s3)" and
    pay: "if left > 0 then credit s3 trader (mkt_quote_asset_id market) left = (Inr (), s4) else s4 = s3" and
    l': "lq_state l' = s4" and
    r: "lr_liquidated_size r = sz" "lr_liquidation_fee r = fee" "lr_remaining_equity r = left"
    using ex qp by (auto elim!: execute_liquidation_success)
  have le: "sz \<le> pos_size p"
    using sz qp partial_size_bounds(1) by (auto simp: liquidation_size_of_def split: if_splits)
  have left: "unat left = unat e - unat fee"
    using cs by (auto simp: cover_shortfall_def Let_def word_nat word_less_nat_alt split: if_splits prod.splits)
  have bal2: "get_balance s2 a i = get_balance (lq_state l) a i" for a i
    using reduce_or_delete_success [OF red] keep(2) by auto
  have pos3: "get_position s3 trader m = get_position s2 trader m"
    and bal3: "get_balance s3 trader i = get_balance s2 trader i" for i
    using cr assms(3) by (auto simp: credit_success)
  show ?thesis
  proof (rule that [OF mk e])
    show "lr_liquidated_size r \<le> pos_size p" using le r by simp
    show "unat (lr_remaining_equity r) = unat e - unat (lr_liquidation_fee r)" using left r by simp
    show "\<exists>b. get_balance (lq_state l) trader (mkt_quote_asset_id market) = Inr b \<and>
         get_balance (lq_state l') trader (mkt_quote_asset_id market) = Inr (b + lr_remaining_equity r) \<and>
         unat (b + lr_remaining_equity r) = unat b + unat (lr_remaining_equity r)
       \<or> lr_remaining_equity r = 0"
      using pay bal2 bal3 r l' by (auto simp: credit_success word_gt_0 split: if_splits)
    show "\<exists>p'. shrink_position ''Cannot partially liquidate zero-sized position'' p (lr_liquidated_size r) = Inr p' \<and>
            get_position (lq_state l') trader m = Inr (Some p')" if "lr_liquidated_size r < pos_size p"
    proof -
      have "\<not> pos_size p \<le> sz" using that by (simp add: r)
      then obtain p' where "shrink_position ''Cannot partially liquidate zero-sized position'' p sz = Inr p'"
        "s2 = set_position s1 trader m p'"
        using reduce_or_delete_success [OF red] by (elim disjE conjE exE) blast+
      moreover have "get_position s4 trader m = get_position s3 trader m"
        using pay by (auto simp: credit_success split: if_splits)
      ultimately show ?thesis using pos3 r l' by (simp add: get_position_set)
    qed
  qed
qed

section \<open>Properties\<close>

text \<open>A long position of 10 bought at 100 with a margin of 100, in a market with a maintenance margin of
  5 percent, and a liquidation engine with no insurance yet.\<close>

definition risky_state :: StateManager where
  "risky_state = set_position market_state 7 0 sample_position"

definition risky :: liq where
  "risky = \<lparr>lq_engine = default_liquidation_engine, lq_state = risky_state, lq_book = new_orderbook\<rparr>"

lemma risky_state_reads [simp]:
  "get_position risky_state 7 0 = Inr (Some sample_position)"
  "get_market risky_state 0 = Inr (Some sample_market)" "get_balance risky_state a i = Inr 0"
  "get_active_orders_by_market risky_state 0 = Inr []"
proof -
  have frame: "sm_get risky_state k = sm_get market_state k" if "\<not> position_key k" for k
    using that set_position_frame [of k 7 0 market_state sample_position]
    by (cases k) (simp_all add: risky_state_def)
  show "get_position risky_state 7 0 = Inr (Some sample_position)"
    by (simp add: risky_state_def get_position_set)
  show "get_market risky_state 0 = Inr (Some sample_market)" "get_balance risky_state a i = Inr 0"
    "get_active_orders_by_market risky_state 0 = Inr []"
    by (simp_all add: store_simps frame) (simp_all add: market_state_def store_simps)
qed

lemma default_engine_funds [simp]:
  "insurance_funds default_liquidation_engine m = None"
  "fee_split default_liquidation_engine = (5000, 5000)"
  by (simp_all add: default_liquidation_engine_def DEFAULT_LIQUIDATOR_FEE_BPS_def DEFAULT_INSURANCE_FEE_BPS_def)

lemma risky_should_liquidate: "should_liquidate risky_state 7 0 90 sample_market = Inr True"
  by (simp add: should_liquidate_def position_margin_ratio_def calculate_position_equity_def
      calculate_position_value_def calculate_pnl_def checked_mul_def saturating_sub_def BASIS_POINTS_def
      sample_market_def Let_def)



text \<open>The size of a partial liquidation never exceeds the position; it is either nothing, or all of
  it, or at least the minimum order size with a remainder of at least the minimum order size; and
  it is not nothing for a position that fails the liquidation test and is worth at least 50.\<close>

lemma partial_liquidation_bounds:
  assumes "calculate_partial_liquidation_size p mark market = Inr sz"
  shows "sz \<le> pos_size p \<and>
    (sz = 0 \<or> sz = pos_size p \<or> mkt_min_order_size market \<le> sz \<and> mkt_min_order_size market \<le> pos_size p - sz) \<and>
    (should_liquidate s trader m mark market = Inr True \<and> get_position s trader m = Inr (Some p) \<and>
     50 \<le> unat (pos_size p) * unat mark \<and> mkt_min_order_size market \<noteq> 0 \<and>
     unat (mkt_maintenance_margin_bps market) + 200 < 2 ^ 32 \<longrightarrow> sz \<noteq> 0)"
  using partial_size_bounds [OF assms] partial_size_positive [OF assms] by blast

lemma liquidation_fee_shares:
  assumes "liquidate_with_incentive l trader m mark liquidator = (Inr (Some r), l')"
    and "get_market (lq_state l) m = Inr (Some market)"
    and "unat (fst (fee_split (lq_engine l))) + unat (snd (fee_split (lq_engine l))) = 10000"
  shows "unat (lr_liquidation_fee r) = unat (lr_liquidated_size r) * unat (normalize_price market mark) *
        unat (mkt_liquidation_fee_bps market) div 10000 \<and>
    unat (lr_liquidator_reward r) + unat (lr_insurance_fund_contribution r) \<le> unat (lr_liquidation_fee r) \<and>
    unat (lr_liquidation_fee r) \<le> unat (lr_liquidator_reward r) + unat (lr_insurance_fund_contribution r) + 1"
proof -
  obtain market' s1 ob1 p sz fee reward contribution where
    "get_market (lq_state l) m = Inr (Some market')" and
    fees: "liquidation_fees (lq_engine l) market' sz (normalize_price market' mark) = Inr (fee, reward, contribution)" and
    ex: "execute_liquidation (l\<lparr>lq_state := s1, lq_book := ob1\<rparr>) trader m market' p sz
       (normalize_price market' mark) liquidator (fee, reward, contribution) = (Inr (Some r), l')"
    using liquidate_success [OF assms(1)] .
  moreover have "lr_liquidated_size r = sz" "lr_liquidation_fee r = fee" "lr_liquidator_reward r = reward"
    "lr_insurance_fund_contribution r = contribution"
    using ex by (auto elim!: execute_liquidation_success)
  ultimately show ?thesis
    using assms(2) liquidation_fees_split [OF fees assms(3)] by simp
qed



end
