(* ===== verification/Auth.thy ===== *)
theory Auth
  imports Transactions
begin

text \<open>
  \<open>crates/auth/src\<close>: recovering and checking the signer of a transaction, delegated agents and
  their permissions, and the signed nomination of an agent.

  Signature recovery is an argument: it takes the 64 bytes and the parity of a signature and the
  signed hash, and returns the signer or an error.
\<close>

section \<open>Model\<close>

datatype AuthError =
    AuthError_InvalidSignature string
  | AuthError_Unauthorized Address Address

type_synonym Signature = "u8 list \<times> bool"
type_synonym recovery = "Signature \<Rightarrow> B256 \<Rightarrow> string + Address"

record AgentNominationDomain =
  and_name :: string
  and_version :: string
  and_chain_id :: u64
  and_verifying_contract :: Address

definition default_nomination_domain :: AgentNominationDomain where
  "default_nomination_domain = \<lparr>and_name = ''PranklinPerp'', and_version = ''1'',
     and_chain_id = 1, and_verifying_contract = 0\<rparr>"

record AgentNomination =
  an_account :: Address
  an_agent :: Address
  an_permissions :: u64
  an_nonce :: u64

definition nomination_domain_separator :: "tx_codec \<Rightarrow> AgentNominationDomain \<Rightarrow> B256" where
  "nomination_domain_separator c d = keccak256 c (concat
     [be_bytes 32 (keccak256 c (string_bytes
        ''EIP712Domain(string name,string version,uint256 chainId,address verifyingContract)'')),
      be_bytes 32 (keccak256 c (string_bytes (and_name d))),
      be_bytes 32 (keccak256 c (string_bytes (and_version d))),
      be_bytes 8 (and_chain_id d), be_bytes 20 (and_verifying_contract d)])"

definition nomination_struct_data :: "tx_codec \<Rightarrow> AgentNomination \<Rightarrow> u8 list" where
  "nomination_struct_data c n = concat
     [be_bytes 32 (keccak256 c (string_bytes
        ''AgentNomination(address account,address agent,uint64 permissions,uint64 nonce)'')),
      be_bytes 20 (an_account n), be_bytes 20 (an_agent n),
      be_bytes 8 (an_permissions n), be_bytes 8 (an_nonce n)]"

definition nomination_struct_hash :: "tx_codec \<Rightarrow> AgentNomination \<Rightarrow> B256" where
  "nomination_struct_hash c n = keccak256 c (nomination_struct_data c n)"

definition nomination_hash :: "tx_codec \<Rightarrow> AgentNomination \<Rightarrow> AgentNominationDomain \<Rightarrow> B256" where
  "nomination_hash c n d = keccak256 c (concat
     [[0x19, 0x01], be_bytes 32 (nomination_domain_separator c d),
      be_bytes 32 (nomination_struct_hash c n)])"

definition verify_nomination ::
  "tx_codec \<Rightarrow> recovery \<Rightarrow> AgentNomination \<Rightarrow> Signature \<Rightarrow> AgentNominationDomain \<Rightarrow> AuthError + Address" where
  "verify_nomination c recover n sig d =
     map_err AuthError_InvalidSignature (recover sig (nomination_hash c n d))"

subsection \<open>The agent registry\<close>

type_synonym AgentRegistry = "Address \<rightharpoonup> (Address \<rightharpoonup> u64)"

definition set_agent :: "AgentRegistry \<Rightarrow> Address \<Rightarrow> Address \<Rightarrow> u64 \<Rightarrow> AgentRegistry" where
  "set_agent r account agent permissions =
     r(account \<mapsto> (case r account of Some m \<Rightarrow> m | None \<Rightarrow> Map.empty)(agent \<mapsto> permissions))"

definition remove_agent :: "AgentRegistry \<Rightarrow> Address \<Rightarrow> Address \<Rightarrow> AgentRegistry" where
  "remove_agent r account agent =
     (case r account of
        None \<Rightarrow> r
      | Some m \<Rightarrow>
          (let m' = m(agent := None) in r(account := (if m' = Map.empty then None else Some m'))))"

definition get_permissions :: "AgentRegistry \<Rightarrow> Address \<Rightarrow> Address \<Rightarrow> u64 option" where
  "get_permissions r account agent = (case r account of Some m \<Rightarrow> m agent | None \<Rightarrow> None)"

definition is_authorized :: "AgentRegistry \<Rightarrow> Address \<Rightarrow> Address \<Rightarrow> u64 \<Rightarrow> bool" where
  "is_authorized r account agent permission =
     (case get_permissions r account agent of
        Some perms \<Rightarrow> perms AND permission = permission
      | None \<Rightarrow> False)"

definition get_agents :: "(Address set \<Rightarrow> Address list) \<Rightarrow> AgentRegistry \<Rightarrow> Address \<Rightarrow> (Address \<times> u64) list" where
  "get_agents addr_iter r account =
     (case r account of
        Some m \<Rightarrow> map (\<lambda>a. (a, the (m a))) (addr_iter (dom m))
      | None \<Rightarrow> [])"

definition clear_agents :: "AgentRegistry \<Rightarrow> Address \<Rightarrow> AgentRegistry" where
  "clear_agents r account = r(account := None)"

definition account_count :: "AgentRegistry \<Rightarrow> nat" where
  "account_count r = card (dom r)"

definition total_agent_count :: "AgentRegistry \<Rightarrow> nat" where
  "total_agent_count r = (\<Sum>a\<in>dom r. card (dom (the (r a))))"

subsection \<open>Checking transactions\<close>

definition recover_signer :: "tx_codec \<Rightarrow> recovery \<Rightarrow> Transaction \<Rightarrow> AuthError + Address" where
  "recover_signer c recover tx =
     (let b = signature_bytes tx in
      map_err AuthError_InvalidSignature
        (recover (take 64 b, b ! 64 \<noteq> 0) (signing_hash c tx)))"

definition verify_transaction :: "tx_codec \<Rightarrow> recovery \<Rightarrow> Transaction \<Rightarrow> AuthError + unit" where
  "verify_transaction c recover tx =
     bindE (recover_signer c recover tx) (\<lambda>signer.
       if signer = tx_from tx then Inr () else Inl (AuthError_Unauthorized signer (tx_from tx)))"

definition verify_with_agent ::
  "tx_codec \<Rightarrow> recovery \<Rightarrow> AgentRegistry \<Rightarrow> Transaction \<Rightarrow> u64 \<Rightarrow> AuthError + Address" where
  "verify_with_agent c recover agents tx permission =
     bindE (recover_signer c recover tx) (\<lambda>signer.
       if signer = tx_from tx \<or> is_authorized agents (tx_from tx) signer permission
       then Inr (tx_from tx)
       else Inl (AuthError_Unauthorized signer (tx_from tx)))"

definition nominate_agent ::
  "tx_codec \<Rightarrow> recovery \<Rightarrow> AgentRegistry \<Rightarrow> AgentNomination \<Rightarrow> Signature \<Rightarrow> AgentNominationDomain \<Rightarrow>
     (AuthError + unit) \<times> AgentRegistry" where
  "nominate_agent c recover agents n sig d =
     bindR (verify_nomination c recover n sig d, agents) (\<lambda>recovered agents.
       if recovered = an_account n
       then (Inr (), set_agent agents (an_account n) (an_agent n) (an_permissions n))
       else (Inl (AuthError_Unauthorized recovered (an_account n)), agents))"

section \<open>The registry as a map from account and agent to permissions\<close>

lemma get_permissions_set:
  "get_permissions (set_agent r a g p) a' g' = (if a' = a \<and> g' = g then Some p else get_permissions r a' g')"
  by (auto simp: get_permissions_def set_agent_def split: option.splits)

lemma get_permissions_remove:
  "get_permissions (remove_agent r a g) a' g' = (if a' = a \<and> g' = g then None else get_permissions r a' g')"
  by (auto simp: get_permissions_def remove_agent_def Let_def fun_eq_iff split: option.splits if_splits)

text \<open>No account is kept with an empty set of agents.\<close>

definition registry_ok :: "AgentRegistry \<Rightarrow> bool" where
  "registry_ok r \<longleftrightarrow> (\<forall>a m. r a = Some m \<longrightarrow> m \<noteq> Map.empty)"

lemma registry_ok_ops:
  assumes "registry_ok r"
  shows "registry_ok (set_agent r a g p)" "registry_ok (remove_agent r a g)" "registry_ok (clear_agents r a)"
proof -
  have "m(g \<mapsto> p) \<noteq> Map.empty" for m :: "Address \<rightharpoonup> u64"
    by (metis fun_upd_same option.distinct(1))
  then show "registry_ok (set_agent r a g p)"
    using assms by (auto simp: registry_ok_def set_agent_def split: option.splits)
  show "registry_ok (remove_agent r a g)" "registry_ok (clear_agents r a)"
    using assms by (auto simp: registry_ok_def remove_agent_def clear_agents_def Let_def split: option.splits)
qed

text \<open>Authorisation asks for all of the permission bits; \<^const>\<open>perm_has\<close> for any of them.\<close>

lemma is_authorized_has:
  assumes "is_authorized r a g permission" "permission \<noteq> 0"
  shows "\<exists>p. get_permissions r a g = Some p \<and> perm_has p permission"
  using assms by (auto simp: is_authorized_def perm_has_def split: option.splits)

lemma is_authorized_mono:
  assumes "is_authorized r a g p" "q AND p = q"
  shows "is_authorized r a g q"
  using assms
  by (auto simp: is_authorized_def split: option.splits) (metis and.assoc and.commute)

section \<open>Who may act for an account\<close>

lemma verify_with_agent_success:
  assumes "verify_with_agent c recover agents tx permission = Inr account"
  shows "account = tx_from tx"
    and "\<exists>signer. recover_signer c recover tx = Inr signer \<and>
      (signer = tx_from tx \<or> is_authorized agents (tx_from tx) signer permission)"
  using assms by (auto simp: verify_with_agent_def result_simps split: if_splits)

lemma nominate_agent_success:
  assumes "nominate_agent c recover agents n sig d = (Inr (), agents')"
  shows "verify_nomination c recover n sig d = Inr (an_account n)"
    and "agents' = set_agent agents (an_account n) (an_agent n) (an_permissions n)"
  using assms by (auto simp: nominate_agent_def result_simps split: if_splits)

text \<open>The nonce of a nomination is signed but not recorded: a nomination that was accepted once
  is accepted again, also after the agent was removed.\<close>

lemma nomination_replay:
  assumes "nominate_agent c recover agents n sig d = (Inr (), agents')"
  shows "nominate_agent c recover r n sig d =
    (Inr (), set_agent r (an_account n) (an_agent n) (an_permissions n))"
  using nominate_agent_success(1) [OF assms] by (simp add: nominate_agent_def)

section \<open>Properties\<close>

text \<open>A transaction is accepted on behalf of an account only if its signature recovers to the
  account itself or to an agent that was granted every one of the required permission bits; the
  account returned is the sender named in the transaction.\<close>

lemma agent_needs_all_permissions:
  assumes "verify_with_agent c recover agents tx permission = Inr account"
  shows "account = tx_from tx \<and> (\<exists>signer. recover_signer c recover tx = Inr signer \<and>
    (signer = tx_from tx \<or>
     (\<exists>p. get_permissions agents (tx_from tx) signer = Some p \<and> p AND permission = permission)))"
  using verify_with_agent_success [OF assms]
  by (auto simp: is_authorized_def split: option.splits)

text \<open>A signed nomination that was accepted once is accepted at every later time, in every state
  of the registry: its nonce is signed but never recorded.  An owner who removes an agent cannot
  keep the nomination from being submitted again.\<close>

lemma nomination_replayable:
  assumes "nominate_agent c recover agents n sig d = (Inr (), agents')"
  shows "nominate_agent c recover (remove_agent agents' (an_account n) (an_agent n)) n sig d =
      (Inr (), set_agent (remove_agent agents' (an_account n) (an_agent n)) (an_account n) (an_agent n) (an_permissions n)) \<and>
    get_permissions (remove_agent agents' (an_account n) (an_agent n)) (an_account n) (an_agent n) = None \<and>
    get_permissions (snd (nominate_agent c recover (remove_agent agents' (an_account n) (an_agent n)) n sig d))
      (an_account n) (an_agent n) = Some (an_permissions n)"
  by (simp add: nomination_replay [OF assms] get_permissions_set get_permissions_remove)

end
