(* ===== verification/Mempool.thy ===== *)
theory Mempool
  imports Transactions
begin

text \<open>
  The transaction pool (\<open>crates/mempool/src\<close>): the index of transactions by hash and by sender
  and nonce (\<open>transaction_index.rs\<close>), its configuration (\<open>config.rs\<close>), errors (\<open>error.rs\<close>) and
  the pool with its capacity and rate limits (\<open>lib.rs\<close>).

  A \<open>HashMap\<close> is a partial map, a \<open>BTreeMap\<close> an ordered association list, \<open>usize\<close> a natural
  number.  The order in which a \<open>HashMap\<close> enumerates the senders is a parameter.  The views of
  the pool as iterators (\<open>senders_iter\<close>, \<open>sender_txs_iter\<close>) are the same lists.

  Proved: every entry of the sender index points to a pending transaction of that sender and
  nonce; the pool respects its capacity and the rate limit in every reachable state; a sender's
  transactions come out in ascending order of nonces; pruning removes exactly the listed
  transactions up to a nonce; and what happens when a sender submits two transactions with one
  nonce.
\<close>

section \<open>Configuration and errors\<close>

record MempoolConfig =
  max_size :: nat
  max_txs_per_sender :: nat
  strict_nonce_ordering :: bool

definition config_new :: "nat \<Rightarrow> nat \<Rightarrow> MempoolConfig" where
  "config_new capacity per_sender =
     \<lparr>max_size = capacity, max_txs_per_sender = per_sender, strict_nonce_ordering = True\<rparr>"

definition with_relaxed_nonce_ordering :: "MempoolConfig \<Rightarrow> MempoolConfig" where
  "with_relaxed_nonce_ordering cfg = cfg\<lparr>strict_nonce_ordering := False\<rparr>"

definition config_validate :: "MempoolConfig \<Rightarrow> string + unit" where
  "config_validate cfg =
     (if max_size cfg = 0 then Inl ''max_size must be greater than 0''
      else if max_txs_per_sender cfg = 0 then Inl ''max_txs_per_sender must be greater than 0''
      else if max_txs_per_sender cfg > max_size cfg then Inl ''max_txs_per_sender cannot exceed max_size''
      else Inr ())"

definition config_default :: MempoolConfig where
  "config_default = config_new 10000 100"

text \<open>The conversions from tuples, which do not validate either.\<close>

definition config_from2 :: "nat \<times> nat \<Rightarrow> MempoolConfig" where
  "config_from2 = (\<lambda>(capacity, per_sender). config_new capacity per_sender)"

definition config_from3 :: "nat \<times> nat \<times> bool \<Rightarrow> MempoolConfig" where
  "config_from3 = (\<lambda>(capacity, per_sender, strict).
     \<lparr>max_size = capacity, max_txs_per_sender = per_sender, strict_nonce_ordering = strict\<rparr>)"

datatype MempoolError =
    MempoolError_MempoolFull nat
  | MempoolError_DuplicateTransaction B256
  | MempoolError_TransactionNotFound B256
  | MempoolError_InvalidNonce Address u64 u64
  | MempoolError_NonceGap Address u64 u64
  | MempoolError_RateLimitExceeded Address nat nat
  | MempoolError_InvalidConfig string
  | MempoolError_ValidationFailed string
  | MempoolError_Other string

fun is_retryable :: "MempoolError \<Rightarrow> bool" where
  "is_retryable (MempoolError_MempoolFull _) = True"
| "is_retryable _ = False"

fun is_rate_limited :: "MempoolError \<Rightarrow> bool" where
  "is_rate_limited (MempoolError_RateLimitExceeded _ _ _) = True"
| "is_rate_limited _ = False"

fun is_nonce_error :: "MempoolError \<Rightarrow> bool" where
  "is_nonce_error (MempoolError_InvalidNonce _ _ _) = True"
| "is_nonce_error (MempoolError_NonceGap _ _ _) = True"
| "is_nonce_error _ = False"

definition error_from :: "string \<Rightarrow> MempoolError" where
  "error_from s = MempoolError_Other s"

fun error_as_ref :: "MempoolError \<Rightarrow> string" where
  "error_as_ref (MempoolError_MempoolFull _) = ''mempool full''"
| "error_as_ref (MempoolError_DuplicateTransaction _) = ''duplicate transaction''"
| "error_as_ref (MempoolError_TransactionNotFound _) = ''transaction not found''"
| "error_as_ref (MempoolError_InvalidNonce _ _ _) = ''invalid nonce''"
| "error_as_ref (MempoolError_NonceGap _ _ _) = ''nonce gap''"
| "error_as_ref (MempoolError_RateLimitExceeded _ _ _) = ''rate limit exceeded''"
| "error_as_ref (MempoolError_InvalidConfig _) = ''invalid config''"
| "error_as_ref (MempoolError_ValidationFailed _) = ''validation failed''"
| "error_as_ref (MempoolError_Other _) = ''other error''"

section \<open>The transaction index\<close>

record TransactionIndex =
  ti_txs :: "B256 \<rightharpoonup> Transaction"
  ti_by_sender :: "Address \<rightharpoonup> (u64, B256) btree_map"

definition index_new :: TransactionIndex where
  "index_new = \<lparr>ti_txs = Map.empty, ti_by_sender = Map.empty\<rparr>"

definition index_insert :: "tx_codec \<Rightarrow> Transaction \<Rightarrow> TransactionIndex \<Rightarrow> B256 \<times> TransactionIndex" where
  "index_insert c tx idx =
     (let h = tx_hash c tx;
          nonces = (case ti_by_sender idx (tx_from tx) of None \<Rightarrow> [] | Some m \<Rightarrow> m) in
      (h, \<lparr>ti_txs = (ti_txs idx)(h \<mapsto> tx),
           ti_by_sender = (ti_by_sender idx)(tx_from tx \<mapsto> bt_insert (tx_nonce tx) h nonces)\<rparr>))"

definition index_remove :: "B256 \<Rightarrow> TransactionIndex \<Rightarrow> Transaction option \<times> TransactionIndex" where
  "index_remove h idx =
     (case ti_txs idx h of
        None \<Rightarrow> (None, idx)
      | Some tx \<Rightarrow>
          (Some tx,
           idx\<lparr>ti_txs := (ti_txs idx)(h := None),
               ti_by_sender :=
                 (case ti_by_sender idx (tx_from tx) of
                    None \<Rightarrow> ti_by_sender idx
                  | Some nonces \<Rightarrow>
                      let nonces' = bt_remove (tx_nonce tx) nonces in
                      (ti_by_sender idx)(tx_from tx := if nonces' = [] then None else Some nonces'))\<rparr>))"

definition index_get :: "TransactionIndex \<Rightarrow> B256 \<Rightarrow> Transaction option" where
  "index_get idx h = ti_txs idx h"

definition index_contains :: "TransactionIndex \<Rightarrow> B256 \<Rightarrow> bool" where
  "index_contains idx h = (ti_txs idx h \<noteq> None)"

definition sender_count :: "TransactionIndex \<Rightarrow> nat" where
  "sender_count idx = card (dom (ti_by_sender idx))"

definition get_by_sender :: "TransactionIndex \<Rightarrow> Address \<Rightarrow> Transaction list" where
  "get_by_sender idx sender =
     (case ti_by_sender idx sender of
        None \<Rightarrow> []
      | Some nonces \<Rightarrow> List.map_filter (ti_txs idx) (map snd nonces))"

definition index_sender_tx_count :: "TransactionIndex \<Rightarrow> Address \<Rightarrow> nat" where
  "index_sender_tx_count idx sender =
     (case ti_by_sender idx sender of None \<Rightarrow> 0 | Some nonces \<Rightarrow> length nonces)"

definition get_highest_nonce :: "TransactionIndex \<Rightarrow> Address \<Rightarrow> u64 option" where
  "get_highest_nonce idx sender =
     (case ti_by_sender idx sender of
        None \<Rightarrow> None
      | Some nonces \<Rightarrow> if nonces = [] then None else Some (last (bt_keys nonces)))"

definition get_lowest_nonce :: "TransactionIndex \<Rightarrow> Address \<Rightarrow> u64 option" where
  "get_lowest_nonce idx sender =
     (case ti_by_sender idx sender of
        None \<Rightarrow> None
      | Some nonces \<Rightarrow> if nonces = [] then None else Some (hd (bt_keys nonces)))"

definition index_has_nonce :: "TransactionIndex \<Rightarrow> Address \<Rightarrow> u64 \<Rightarrow> bool" where
  "index_has_nonce idx sender nonce =
     (case ti_by_sender idx sender of None \<Rightarrow> False | Some nonces \<Rightarrow> bt_get nonces nonce \<noteq> None)"

text \<open>The closure of \<open>remove_up_to_nonce\<close>, run over the collected nonces.\<close>

fun remove_nonces ::
  "u64 list \<Rightarrow> (u64, B256) btree_map \<Rightarrow> (B256 \<rightharpoonup> Transaction) \<Rightarrow>
     (B256 \<times> Transaction) list \<times> (u64, B256) btree_map \<times> (B256 \<rightharpoonup> Transaction)" where
  "remove_nonces [] nonces txs = ([], nonces, txs)"
| "remove_nonces (n # ns) nonces txs =
     (case bt_get nonces n of
        None \<Rightarrow> remove_nonces ns nonces txs
      | Some h \<Rightarrow>
          (case txs h of
             None \<Rightarrow> remove_nonces ns (bt_remove n nonces) txs
           | Some tx \<Rightarrow>
               (case remove_nonces ns (bt_remove n nonces) (txs(h := None)) of
                  (removed, nonces', txs') \<Rightarrow> ((h, tx) # removed, nonces', txs'))))"

definition remove_up_to_nonce ::
  "Address \<Rightarrow> u64 \<Rightarrow> TransactionIndex \<Rightarrow> (B256 \<times> Transaction) list \<times> TransactionIndex" where
  "remove_up_to_nonce sender nonce idx =
     (case ti_by_sender idx sender of
        None \<Rightarrow> ([], idx)
      | Some nonces \<Rightarrow>
          (case remove_nonces (filter (\<lambda>n. n \<le> nonce) (bt_keys nonces)) nonces (ti_txs idx) of
             (removed, nonces', txs') \<Rightarrow>
               (removed,
                idx\<lparr>ti_txs := txs',
                    ti_by_sender := (ti_by_sender idx)(sender := if nonces' = [] then None else Some nonces')\<rparr>)))"

definition sender_txs_iter :: "TransactionIndex \<Rightarrow> Address \<Rightarrow> Transaction list" where
  "sender_txs_iter idx sender =
     concat (map (\<lambda>nonces. List.map_filter (ti_txs idx) (map snd nonces))
       (case ti_by_sender idx sender of None \<Rightarrow> [] | Some nonces \<Rightarrow> [nonces]))"

text \<open>\<open>index[hash]\<close>; \<open>None\<close> is the panic.\<close>

definition index_at :: "TransactionIndex \<Rightarrow> B256 \<Rightarrow> Transaction option" where
  "index_at idx h = index_get idx h"

definition index_len :: "TransactionIndex \<Rightarrow> nat" where
  "index_len idx = card (dom (ti_txs idx))"

definition index_is_empty :: "TransactionIndex \<Rightarrow> bool" where
  "index_is_empty idx = (index_len idx = 0)"

definition index_clear :: "TransactionIndex \<Rightarrow> TransactionIndex" where
  "index_clear idx = idx\<lparr>ti_txs := Map.empty, ti_by_sender := Map.empty\<rparr>"

section \<open>The pool\<close>

record Mempool =
  mp_index :: TransactionIndex
  mp_config :: MempoolConfig

definition mempool_new :: "MempoolConfig \<Rightarrow> Mempool" where
  "mempool_new cfg = \<lparr>mp_index = index_new, mp_config = cfg\<rparr>"

definition with_limits :: "nat \<Rightarrow> nat \<Rightarrow> Mempool" where
  "with_limits capacity per_sender = mempool_new (config_new capacity per_sender)"

definition is_full :: "Mempool \<Rightarrow> bool" where
  "is_full m = (index_len (mp_index m) \<ge> max_size (mp_config m))"

definition available_capacity :: "Mempool \<Rightarrow> nat" where
  "available_capacity m = max_size (mp_config m) - index_len (mp_index m)"

definition validate_capacity :: "Mempool \<Rightarrow> MempoolError + unit" where
  "validate_capacity m =
     (if is_full m then Inl (MempoolError_MempoolFull (max_size (mp_config m))) else Inr ())"

definition validate_not_duplicate :: "Mempool \<Rightarrow> B256 \<Rightarrow> MempoolError + unit" where
  "validate_not_duplicate m h =
     (if index_contains (mp_index m) h then Inl (MempoolError_DuplicateTransaction h) else Inr ())"

definition validate_sender_rate_limit :: "Mempool \<Rightarrow> Address \<Rightarrow> MempoolError + unit" where
  "validate_sender_rate_limit m sender =
     (let n = index_sender_tx_count (mp_index m) sender in
      if n \<ge> max_txs_per_sender (mp_config m)
      then Inl (MempoolError_RateLimitExceeded sender n (max_txs_per_sender (mp_config m)))
      else Inr ())"

definition mempool_add :: "tx_codec \<Rightarrow> Transaction \<Rightarrow> Mempool \<Rightarrow> (MempoolError + B256) \<times> Mempool" where
  "mempool_add c tx m =
     bindR (validate_capacity m, m) (\<lambda>_ m.
     bindR (validate_not_duplicate m (tx_hash c tx), m) (\<lambda>_ m.
     bindR (validate_sender_rate_limit m (tx_from tx), m) (\<lambda>_ m.
       (Inr (tx_hash c tx), m\<lparr>mp_index := snd (index_insert c tx (mp_index m))\<rparr>))))"

definition mempool_remove :: "B256 \<Rightarrow> Mempool \<Rightarrow> Transaction option \<times> Mempool" where
  "mempool_remove h m =
     (case index_remove h (mp_index m) of (r, idx) \<Rightarrow> (r, m\<lparr>mp_index := idx\<rparr>))"

definition ready_txs :: "Address list \<Rightarrow> nat \<Rightarrow> Mempool \<Rightarrow> Transaction list" where
  "ready_txs order limit m = take limit (concat (map (get_by_sender (mp_index m)) order))"

definition prune_sender_nonces :: "Address \<Rightarrow> u64 \<Rightarrow> Mempool \<Rightarrow> B256 list \<times> Mempool" where
  "prune_sender_nonces sender nonce m =
     (case remove_up_to_nonce sender nonce (mp_index m) of
        (removed, idx) \<Rightarrow> (map fst removed, m\<lparr>mp_index := idx\<rparr>))"

definition mempool_clear :: "Mempool \<Rightarrow> Mempool" where
  "mempool_clear m = m\<lparr>mp_index := index_clear (mp_index m)\<rparr>"

text \<open>The accessors that hand over to the index.\<close>

definition mempool_default :: Mempool where
  "mempool_default = mempool_new config_default"

definition mempool_get :: "Mempool \<Rightarrow> B256 \<Rightarrow> Transaction option" where
  "mempool_get m h = index_get (mp_index m) h"

definition mempool_contains :: "Mempool \<Rightarrow> B256 \<Rightarrow> bool" where
  "mempool_contains m h = index_contains (mp_index m) h"

definition mempool_at :: "Mempool \<Rightarrow> B256 \<Rightarrow> Transaction option" where
  "mempool_at m h = mempool_get m h"

definition get_sender_txs :: "Mempool \<Rightarrow> Address \<Rightarrow> Transaction list" where
  "get_sender_txs m sender = get_by_sender (mp_index m) sender"

definition mempool_sender_tx_count :: "Mempool \<Rightarrow> Address \<Rightarrow> nat" where
  "mempool_sender_tx_count m sender = index_sender_tx_count (mp_index m) sender"

definition mempool_len :: "Mempool \<Rightarrow> nat" where
  "mempool_len m = index_len (mp_index m)"

definition mempool_is_empty :: "Mempool \<Rightarrow> bool" where
  "mempool_is_empty m = index_is_empty (mp_index m)"

definition mempool_has_nonce :: "Mempool \<Rightarrow> Address \<Rightarrow> u64 \<Rightarrow> bool" where
  "mempool_has_nonce m sender nonce = index_has_nonce (mp_index m) sender nonce"

definition highest_nonce :: "Mempool \<Rightarrow> Address \<Rightarrow> u64 option" where
  "highest_nonce m sender = get_highest_nonce (mp_index m) sender"

definition next_nonce :: "Mempool \<Rightarrow> Address \<Rightarrow> u64 option" where
  "next_nonce m sender = map_option (\<lambda>n. n + 1) (get_highest_nonce (mp_index m) sender)"

definition next_nonce_or_default :: "Mempool \<Rightarrow> Address \<Rightarrow> u64" where
  "next_nonce_or_default m sender = (case next_nonce m sender of None \<Rightarrow> 0 | Some n \<Rightarrow> n)"

fun add_batch :: "tx_codec \<Rightarrow> Transaction list \<Rightarrow> Mempool \<Rightarrow> (MempoolError + B256) list \<times> Mempool" where
  "add_batch c [] m = ([], m)"
| "add_batch c (tx # txs) m =
     (case mempool_add c tx m of
        (r, m') \<Rightarrow> (case add_batch c txs m' of (rs, m'') \<Rightarrow> (r # rs, m'')))"

text \<open>\<open>utilization_pct\<close> is floating-point arithmetic, the parameter \<open>percent\<close>.\<close>

record MempoolStats =
  ms_total_txs :: nat
  ms_unique_senders :: nat
  ms_capacity :: nat
  ms_available :: nat
  ms_utilization_pct :: u8

definition mempool_stats :: "(nat \<Rightarrow> nat \<Rightarrow> u8) \<Rightarrow> Mempool \<Rightarrow> MempoolStats" where
  "mempool_stats percent m =
     \<lparr>ms_total_txs = index_len (mp_index m), ms_unique_senders = sender_count (mp_index m),
      ms_capacity = max_size (mp_config m), ms_available = available_capacity m,
      ms_utilization_pct = percent (index_len (mp_index m)) (max_size (mp_config m))\<rparr>"

section \<open>The index is sound\<close>

text \<open>Every stored transaction is under its own hash; a sender with an entry has a nonempty
  ordered map of nonces, each pointing to a stored transaction of that sender and nonce.\<close>

definition entry_ok :: "(B256 \<rightharpoonup> Transaction) \<Rightarrow> Address \<Rightarrow> u64 \<Rightarrow> B256 \<Rightarrow> bool" where
  "entry_ok txs s n h \<longleftrightarrow> (\<exists>tx. txs h = Some tx \<and> tx_from tx = s \<and> tx_nonce tx = n)"

definition index_ok :: "tx_codec \<Rightarrow> TransactionIndex \<Rightarrow> bool" where
  "index_ok c idx \<longleftrightarrow>
     finite (dom (ti_txs idx)) \<and>
     (\<forall>h tx. ti_txs idx h = Some tx \<longrightarrow> tx_hash c tx = h) \<and>
     (\<forall>s nonces. ti_by_sender idx s = Some nonces \<longrightarrow>
        nonces \<noteq> [] \<and> bt_invar nonces \<and>
        (\<forall>n h. bt_get nonces n = Some h \<longrightarrow> entry_ok (ti_txs idx) s n h))"

lemma index_okD:
  assumes "index_ok c idx"
  shows "finite (dom (ti_txs idx))"
    and "ti_txs idx h = Some tx \<Longrightarrow> tx_hash c tx = h"
    and "ti_by_sender idx s = Some nonces \<Longrightarrow> nonces \<noteq> []"
    and "ti_by_sender idx s = Some nonces \<Longrightarrow> bt_invar nonces"
    and "ti_by_sender idx s = Some nonces \<Longrightarrow> bt_get nonces n = Some h \<Longrightarrow> entry_ok (ti_txs idx) s n h"
  using assms by (auto simp: index_ok_def)

lemma bt_get_nonempty: "bt_get m k = Some v \<Longrightarrow> m \<noteq> []"
  by auto

lemma index_insert_ok:
  assumes "index_ok c idx" "\<not> index_contains idx (tx_hash c tx)"
  shows "index_ok c (snd (index_insert c tx idx))"
proof -
  define m where "m = (case ti_by_sender idx (tx_from tx) of None \<Rightarrow> [] | Some m \<Rightarrow> m)"
  have m: "bt_invar m" "bt_get m n = Some h \<Longrightarrow> entry_ok (ti_txs idx) (tx_from tx) n h" for n h
    using assms(1) by (auto simp: m_def dest: index_okD split: option.splits)
  have keep: "entry_ok (ti_txs idx) s n h \<Longrightarrow> entry_ok ((ti_txs idx)(tx_hash c tx \<mapsto> tx)) s n h" for s n h
    using assms(2) by (auto simp: entry_ok_def index_contains_def)
  have new: "entry_ok ((ti_txs idx)(tx_hash c tx \<mapsto> tx)) (tx_from tx) (tx_nonce tx) (tx_hash c tx)"
    by (simp add: entry_ok_def)
  have ne: "bt_insert (tx_nonce tx) (tx_hash c tx) m \<noteq> []"
    by (simp add: bt_insert_def)
  have "bt_get (bt_insert (tx_nonce tx) (tx_hash c tx) m) n = Some h \<Longrightarrow>
      entry_ok ((ti_txs idx)(tx_hash c tx \<mapsto> tx)) (tx_from tx) n h" for n h
    using m(1) new m(2) [THEN keep] by (auto simp: bt.get_insert split: if_splits)
  then show ?thesis
    using assms(1) m(1) ne keep
    by (auto simp: index_ok_def index_insert_def Let_def m_def [symmetric] bt.invar_insert)
qed

lemma index_remove_ok:
  assumes "index_ok c idx"
  shows "index_ok c (snd (index_remove h idx))"
proof (cases "ti_txs idx h")
  case None
  with assms show ?thesis by (simp add: index_remove_def)
next
  case (Some tx)
  have keep: "entry_ok (ti_txs idx) s n h' \<Longrightarrow> (s, n) \<noteq> (tx_from tx, tx_nonce tx) \<Longrightarrow>
      entry_ok ((ti_txs idx)(h := None)) s n h'" for s n h'
    using Some by (auto simp: entry_ok_def)
  have other: "s \<noteq> tx_from tx \<Longrightarrow> ti_by_sender idx s = Some m \<Longrightarrow> bt_get m n = Some h' \<Longrightarrow>
      entry_ok ((ti_txs idx)(h := None)) s n h'" for s m n h'
    using index_okD(5) [OF assms] keep by blast
  show ?thesis
  proof (cases "ti_by_sender idx (tx_from tx)")
    case None
    have "ti_by_sender idx s = Some m \<Longrightarrow> s \<noteq> tx_from tx" for s m
      using None by auto
    then show ?thesis
      using assms Some None other
      by (auto simp: index_remove_def index_ok_def split: if_splits)
  next
    case (Some m)
    have m: "bt_invar m" "bt_get m n = Some h' \<Longrightarrow> entry_ok (ti_txs idx) (tx_from tx) n h'" for n h'
      using assms Some by (auto dest: index_okD)
    have "bt_get (bt_remove (tx_nonce tx) m) n = Some h' \<Longrightarrow>
        entry_ok ((ti_txs idx)(h := None)) (tx_from tx) n h'" for n h'
      using m(2) [THEN keep] by (auto simp: bt_get_remove split: if_splits)
    then show ?thesis
      using assms Some other m(1) \<open>ti_txs idx h = Some tx\<close>
      by (auto simp: index_remove_def index_ok_def Let_def bt_invar_remove split: if_splits)
  qed
qed

section \<open>Pruning\<close>

lemma remove_nonces_get:
  "remove_nonces ns m txs = (removed, m', txs') \<Longrightarrow>
     bt_get m' n = (if n \<in> set ns then None else bt_get m n)"
  by (induction ns arbitrary: m txs removed)
    (auto simp: bt_get_remove split: option.splits prod.splits if_splits)

lemma remove_nonces_invar:
  "remove_nonces ns m txs = (removed, m', txs') \<Longrightarrow> bt_invar m \<Longrightarrow> bt_invar m'"
  by (induction ns arbitrary: m txs removed)
    (auto simp: bt_invar_remove split: option.splits prod.splits)

lemma remove_nonces_txs:
  "remove_nonces ns m txs = (removed, m', txs') \<Longrightarrow>
     txs' h = (if \<exists>n\<in>set ns. bt_get m n = Some h then None else txs h)"
proof (induction ns arbitrary: m txs removed)
  case (Cons n ns)
  show ?case
  proof (cases "bt_get m n")
    case None
    with Cons.prems Cons.IH [of m txs removed] show ?thesis by simp
  next
    case (Some g)
    have "\<exists>rest. remove_nonces ns (bt_remove n m) (txs(g := None)) = (rest, m', txs')"
      using Cons.prems Some
      by (cases "txs g") (auto simp: fun_upd_idem split: prod.splits)
    then show ?thesis
      using Some by (auto dest!: Cons.IH simp: bt_get_remove split: if_splits) (metis option.inject)
  qed
qed simp

text \<open>When every nonce of the list has a live entry, the transactions come back in the order of
  the list.\<close>

lemma remove_nonces_result:
  assumes "remove_nonces ns m txs = (removed, m', txs')" "distinct ns"
    and "\<forall>n\<in>set ns. \<exists>h. bt_get m n = Some h \<and> entry_ok txs s n h"
  shows "map (tx_nonce \<circ> snd) removed = ns \<and>
    (\<forall>(h, tx)\<in>set removed. txs h = Some tx \<and> tx_from tx = s \<and> bt_get m (tx_nonce tx) = Some h)"
  using assms
proof (induction ns arbitrary: m txs removed)
  case (Cons n ns)
  obtain g u where g: "bt_get m n = Some g" "txs g = Some u" "tx_from u = s" "tx_nonce u = n"
    using Cons.prems(3) by (auto simp: entry_ok_def)
  obtain rest where rest: "remove_nonces ns (bt_remove n m) (txs(g := None)) = (rest, m', txs')"
    and removed: "removed = (g, u) # rest"
    using Cons.prems(1) g by (auto split: prod.splits)
  have "\<exists>h. bt_get (bt_remove n m) k = Some h \<and> entry_ok (txs(g := None)) s k h" if "k \<in> set ns" for k
  proof -
    obtain h tx where "bt_get m k = Some h" "txs h = Some tx" "tx_from tx = s" "tx_nonce tx = k"
      using Cons.prems(3) \<open>k \<in> set ns\<close> by (auto simp: entry_ok_def)
    moreover have "k \<noteq> n"
      using Cons.prems(2) \<open>k \<in> set ns\<close> by auto
    ultimately show ?thesis
      using g by (auto simp: bt_get_remove entry_ok_def)
  qed
  then have live: "\<forall>k\<in>set ns. \<exists>h. bt_get (bt_remove n m) k = Some h \<and> entry_ok (txs(g := None)) s k h"
    by blast
  have "distinct ns"
    using Cons.prems(2) by simp
  note IH = Cons.IH [OF rest this live]
  show ?case
    using g IH by (auto simp: removed bt_get_remove split: if_splits)
qed simp

lemma remove_up_to_nonce_effect:
  assumes "remove_up_to_nonce s k idx = (removed, idx')" "ti_by_sender idx s = Some m"
  obtains m' where
    "remove_nonces (filter (\<lambda>n. n \<le> k) (bt_keys m)) m (ti_txs idx) = (removed, m', ti_txs idx')"
    "ti_by_sender idx' = (ti_by_sender idx)(s := if m' = [] then None else Some m')"
  using assms by (auto simp: remove_up_to_nonce_def split: prod.splits)

lemma bt_keys_get: "n \<in> set (bt_keys m) \<longleftrightarrow> (\<exists>h. bt_get m n = Some h)"
  for m :: "('k::linorder, 'v) btree_map"
  by (auto simp: bt.set_keys)

lemma remove_up_to_nonce_ok:
  assumes "index_ok c idx"
  shows "index_ok c (snd (remove_up_to_nonce s k idx))"
proof (cases "ti_by_sender idx s")
  case None
  with assms show ?thesis by (simp add: remove_up_to_nonce_def)
next
  case (Some m)
  obtain removed idx' where eq: "remove_up_to_nonce s k idx = (removed, idx')"
    by fastforce
  obtain m' where r: "remove_nonces (filter (\<lambda>n. n \<le> k) (bt_keys m)) m (ti_txs idx) = (removed, m', ti_txs idx')"
    and b: "ti_by_sender idx' = (ti_by_sender idx)(s := if m' = [] then None else Some m')"
    using remove_up_to_nonce_effect [OF eq Some] .
  have txs: "ti_txs idx' h = (if \<exists>n\<in>{n. n \<le> k \<and> n \<in> set (bt_keys m)}. bt_get m n = Some h then None else ti_txs idx h)" for h
    using remove_nonces_txs [OF r, of h] by auto
  have keep: "entry_ok (ti_txs idx') s' n h"
    if e: "entry_ok (ti_txs idx) s' n h" and ne: "s' = s \<Longrightarrow> k < n" for s' n h
  proof -
    have False if "j \<le> k" "bt_get m j = Some h" for j
      using index_okD(5) [OF assms Some that(2)] e ne that(1) by (auto simp: entry_ok_def)
    then show ?thesis
      using e by (fastforce simp: entry_ok_def txs)
  qed
  have "bt_get m' n = Some h \<Longrightarrow> entry_ok (ti_txs idx') s n h" for n h
    using remove_nonces_get [OF r, of n] index_okD(5) [OF assms Some] keep
    by (auto simp: bt_keys_get split: if_splits)
  moreover have "s' \<noteq> s \<Longrightarrow> ti_by_sender idx s' = Some mm \<Longrightarrow> bt_get mm n = Some h \<Longrightarrow>
      entry_ok (ti_txs idx') s' n h" for s' mm n h
    using index_okD(5) [OF assms] keep by blast
  moreover have "dom (ti_txs idx') \<subseteq> dom (ti_txs idx)" "ti_txs idx' h = Some tx \<Longrightarrow> ti_txs idx h = Some tx" for h tx
    by (auto simp: txs split: if_splits)
  moreover have "bt_invar m'"
    using remove_nonces_invar [OF r] index_okD(4) [OF assms Some] .
  ultimately show ?thesis
    using assms by (auto simp: index_ok_def eq b split: if_splits intro: finite_subset)
qed

section \<open>Invariants of the pool\<close>

lemma bt_invar_distinct: "bt_invar m \<Longrightarrow> distinct m"
  by (metis bt.keys_distinct bt_keys_def distinct_map)

lemma bt_get_set: "bt_invar m \<Longrightarrow> (n, h) \<in> set m \<longleftrightarrow> bt_get m n = Some h"
  by (metis bt.keys_distinct bt_get_map_of bt_keys_def map_of_eq_Some_iff)

lemma length_bt_insert:
  assumes "bt_invar m"
  shows "length (bt_insert k v m) = (if bt_get m k = None then length m + 1 else length m)"
proof -
  have len: "length x = card (dom (bt_get x))" if "bt_invar x" for x :: "('a::linorder, 'b) btree_map"
    by (metis bt.keys_distinct bt.set_keys bt_keys_def distinct_card length_map that)
  have fin: "finite (dom (bt_get m))"
    by (metis bt.set_keys finite_set)
  show ?thesis
    using assms fin
    by (auto simp: len bt.invar_insert bt.get_insert card_insert_if domIff)
qed

definition limits_ok :: "Mempool \<Rightarrow> bool" where
  "limits_ok m \<longleftrightarrow>
     index_len (mp_index m) \<le> max_size (mp_config m) \<and>
     (\<forall>s. index_sender_tx_count (mp_index m) s \<le> max_txs_per_sender (mp_config m))"

definition mempool_ok :: "tx_codec \<Rightarrow> Mempool \<Rightarrow> bool" where
  "mempool_ok c m \<longleftrightarrow> index_ok c (mp_index m) \<and> limits_ok m"

lemma mempool_new_ok: "mempool_ok c (mempool_new cfg)"
  by (simp add: mempool_ok_def mempool_new_def index_new_def index_ok_def limits_ok_def index_len_def
      index_sender_tx_count_def)

lemma mempool_add_success:
  assumes "mempool_add c tx m = (Inr h, m')"
  shows "h = tx_hash c tx" "\<not> index_contains (mp_index m) h"
    "index_len (mp_index m) < max_size (mp_config m)"
    "index_sender_tx_count (mp_index m) (tx_from tx) < max_txs_per_sender (mp_config m)"
    "m' = m\<lparr>mp_index := snd (index_insert c tx (mp_index m))\<rparr>"
  using assms
  by (auto simp: mempool_add_def result_simps validate_capacity_def is_full_def validate_not_duplicate_def
      validate_sender_rate_limit_def Let_def split: if_splits)

lemma mempool_add_error:
  assumes "mempool_add c tx m = (Inl e, m')"
  shows "m' = m"
  using assms
  by (auto simp: mempool_add_def validate_capacity_def validate_not_duplicate_def
      validate_sender_rate_limit_def Let_def split: if_splits)

lemma index_insert_len:
  "finite (dom (ti_txs idx)) \<Longrightarrow> index_len (snd (index_insert c tx idx)) \<le> Suc (index_len idx)"
  by (simp add: index_len_def index_insert_def Let_def card_insert_if)

lemma index_insert_count:
  assumes "index_ok c idx"
  shows "index_sender_tx_count (snd (index_insert c tx idx)) s \<le>
    (if s = tx_from tx then Suc (index_sender_tx_count idx s) else index_sender_tx_count idx s)"
  using index_okD(4) [OF assms, of "tx_from tx"]
  by (auto simp: index_sender_tx_count_def index_insert_def Let_def length_bt_insert split: option.splits)

lemma mempool_add_ok:
  assumes "mempool_ok c m"
  shows "mempool_ok c (snd (mempool_add c tx m))"
proof (cases "mempool_add c tx m")
  case (Pair r m')
  show ?thesis
  proof (cases r)
    case (Inl e)
    then show ?thesis
      using Pair mempool_add_error [of c tx m e m'] assms by simp
  next
    case (Inr h)
    note s = mempool_add_success [OF Pair [unfolded Inr]]
    have "index_sender_tx_count (snd (index_insert c tx (mp_index m))) a \<le> max_txs_per_sender (mp_config m)" for a
      using index_insert_count [of c "mp_index m" tx a] s(4) assms
      by (auto simp: mempool_ok_def limits_ok_def split: if_splits) (meson le_trans)
    then show ?thesis
      using assms s index_insert_ok [of c "mp_index m" tx] index_insert_len [of "mp_index m" c tx] Pair
      by (auto simp: mempool_ok_def limits_ok_def index_okD(1))
  qed
qed

text \<open>Removing entries shrinks both counts.\<close>

lemma count_shrink:
  assumes "bt_invar m" "bt_invar m'" "\<And>n h. bt_get m' n = Some h \<Longrightarrow> bt_get m n = Some h"
  shows "length m' \<le> length m"
proof -
  have "set m' \<subseteq> set m"
    using assms by (auto simp: bt_get_set)
  then show ?thesis
    using assms(1,2) by (metis List.finite_set bt_invar_distinct card_mono distinct_card)
qed

lemma limits_shrink:
  assumes "mempool_ok c m" "dom (ti_txs idx) \<subseteq> dom (ti_txs (mp_index m))"
    and "\<And>s b'. ti_by_sender idx s = Some b' \<Longrightarrow>
      \<exists>b. ti_by_sender (mp_index m) s = Some b \<and> length b' \<le> length b"
  shows "limits_ok (m\<lparr>mp_index := idx\<rparr>)"
proof -
  have "index_sender_tx_count idx s \<le> index_sender_tx_count (mp_index m) s" for s
    using assms(3) [of s] by (auto simp: index_sender_tx_count_def split: option.splits)
  moreover have "index_len idx \<le> index_len (mp_index m)"
    using assms(1,2) by (simp add: index_len_def card_mono mempool_ok_def index_okD(1))
  ultimately show ?thesis
    using assms(1) by (auto simp: mempool_ok_def limits_ok_def intro: order_trans)
qed

lemma mempool_remove_ok:
  assumes "mempool_ok c m"
  shows "mempool_ok c (snd (mempool_remove h m))"
proof -
  let ?i = "mp_index m" and ?j = "snd (index_remove h (mp_index m))"
  have "limits_ok (m\<lparr>mp_index := ?j\<rparr>)"
  proof (rule limits_shrink [OF assms])
    show "dom (ti_txs ?j) \<subseteq> dom (ti_txs ?i)"
      by (auto simp: index_remove_def split: option.splits if_splits)
    show "\<exists>b. ti_by_sender ?i s = Some b \<and> length b' \<le> length b" if "ti_by_sender ?j s = Some b'" for s b'
      using that by (auto simp: index_remove_def Let_def bt_remove_def split: option.splits if_splits)
  qed
  moreover have "index_ok c ?j"
    using assms by (simp add: mempool_ok_def index_remove_ok)
  ultimately show ?thesis
    by (auto simp: mempool_ok_def mempool_remove_def split: prod.splits)
qed

lemma prune_sender_nonces_ok:
  assumes "mempool_ok c m"
  shows "mempool_ok c (snd (prune_sender_nonces s k m))"
proof -
  let ?i = "mp_index m" and ?j = "snd (remove_up_to_nonce s k (mp_index m))"
  have ok: "index_ok c ?i" "index_ok c ?j"
    using assms by (simp_all add: mempool_ok_def remove_up_to_nonce_ok)
  have "limits_ok (m\<lparr>mp_index := ?j\<rparr>)"
  proof (cases "ti_by_sender ?i s")
    case None
    then show ?thesis
      using assms by (simp add: remove_up_to_nonce_def mempool_ok_def)
  next
    case (Some b)
    obtain removed b' where r: "remove_nonces (filter (\<lambda>n. n \<le> k) (bt_keys b)) b (ti_txs ?i) = (removed, b', ti_txs ?j)"
      and b': "ti_by_sender ?j = (ti_by_sender ?i)(s := if b' = [] then None else Some b')"
      using remove_up_to_nonce_effect [OF prod.collapse [symmetric] Some] by metis
    have len: "length b' \<le> length b"
      by (rule count_shrink)
        (use index_okD(4) [OF ok(1) Some] remove_nonces_invar [OF r] remove_nonces_get [OF r]
          in \<open>auto split: if_splits\<close>)
    show ?thesis
    proof (rule limits_shrink [OF assms])
      show "dom (ti_txs ?j) \<subseteq> dom (ti_txs ?i)"
        using remove_nonces_txs [OF r] by (auto split: if_splits)
      show "\<exists>b. ti_by_sender ?i s' = Some b \<and> length c' \<le> length b" if "ti_by_sender ?j s' = Some c'" for s' c'
        using that len Some by (auto simp: b' split: if_splits)
    qed
  qed
  with ok(2) show ?thesis
    by (auto simp: mempool_ok_def prune_sender_nonces_def split: prod.splits)
qed

inductive mempool_step :: "tx_codec \<Rightarrow> Mempool \<Rightarrow> Mempool \<Rightarrow> bool" for c where
  step_add: "mempool_step c m (snd (mempool_add c tx m))"
| step_remove: "mempool_step c m (snd (mempool_remove h m))"
| step_prune: "mempool_step c m (snd (prune_sender_nonces s k m))"
| step_clear: "mempool_step c m (mempool_clear m)"

inductive_cases mempool_stepE: "mempool_step c m m'"

inductive mempool_reachable :: "tx_codec \<Rightarrow> MempoolConfig \<Rightarrow> Mempool \<Rightarrow> bool" for c cfg where
  reach_new: "mempool_reachable c cfg (mempool_new cfg)"
| reach_step: "mempool_reachable c cfg m \<Longrightarrow> mempool_step c m m' \<Longrightarrow> mempool_reachable c cfg m'"

lemma mempool_clear_ok: "mempool_ok c (mempool_clear m)"
  by (simp add: mempool_clear_def index_clear_def mempool_ok_def index_ok_def limits_ok_def index_len_def
      index_sender_tx_count_def)

lemmas mempool_ops_ok = mempool_add_ok mempool_remove_ok prune_sender_nonces_ok mempool_clear_ok

lemma mempool_step_ok: "mempool_step c m m' \<Longrightarrow> mempool_ok c m \<Longrightarrow> mempool_ok c m'"
  by (induction rule: mempool_step.induct) (simp_all add: mempool_ops_ok)

lemma mempool_step_config: "mempool_step c m m' \<Longrightarrow> mp_config m' = mp_config m"
proof (induction rule: mempool_step.induct)
  case (step_add m tx)
  obtain r m' where "mempool_add c tx m = (r, m')" by fastforce
  then show ?case
    by (cases r) (auto dest: mempool_add_error mempool_add_success(5))
qed (simp_all add: mempool_remove_def prune_sender_nonces_def mempool_clear_def split: prod.splits)

lemma mempool_reachable_ok: "mempool_reachable c cfg m \<Longrightarrow> mempool_ok c m \<and> mp_config m = cfg"
proof (induction rule: mempool_reachable.induct)
  case reach_new
  show ?case by (simp add: mempool_new_ok) (simp add: mempool_new_def)
next
  case (reach_step m m')
  then show ?case
    by (simp add: mempool_step_ok mempool_step_config)
qed

section \<open>Order of execution\<close>

lemma map_filter_entries:
  assumes "\<forall>(n, h)\<in>set l. \<exists>tx. txs h = Some tx \<and> tx_from tx = s \<and> tx_nonce tx = n \<and> tx_hash c tx = h"
  shows "map tx_nonce (List.map_filter txs (map snd l)) = map fst l"
    and "\<forall>tx\<in>set (List.map_filter txs (map snd l)). tx_from tx = s \<and> txs (tx_hash c tx) = Some tx"
  using assms by (induction l) (auto simp: List.map_filter_simps)

lemma get_by_sender_nonces:
  assumes "index_ok c idx"
  shows "map tx_nonce (get_by_sender idx s) = (case ti_by_sender idx s of None \<Rightarrow> [] | Some m \<Rightarrow> bt_keys m)"
    and "\<forall>tx\<in>set (get_by_sender idx s). tx_from tx = s \<and> ti_txs idx (tx_hash c tx) = Some tx"
proof (atomize (full), cases "ti_by_sender idx s")
  case None
  then show "map tx_nonce (get_by_sender idx s) = (case ti_by_sender idx s of None \<Rightarrow> [] | Some m \<Rightarrow> bt_keys m) \<and>
    (\<forall>tx\<in>set (get_by_sender idx s). tx_from tx = s \<and> ti_txs idx (tx_hash c tx) = Some tx)"
    by (simp add: get_by_sender_def)
next
  case (Some m)
  have "\<forall>(n, h)\<in>set m. \<exists>tx. ti_txs idx h = Some tx \<and> tx_from tx = s \<and> tx_nonce tx = n \<and> tx_hash c tx = h"
    using index_okD(2) [OF assms] index_okD(4,5) [OF assms Some] by (fastforce simp: bt_get_set entry_ok_def)
  from map_filter_entries [OF this] Some
  show "map tx_nonce (get_by_sender idx s) = (case ti_by_sender idx s of None \<Rightarrow> [] | Some m \<Rightarrow> bt_keys m) \<and>
    (\<forall>tx\<in>set (get_by_sender idx s). tx_from tx = s \<and> ti_txs idx (tx_hash c tx) = Some tx)"
    by (simp add: get_by_sender_def bt_keys_def)
qed

lemma get_by_sender_ascending:
  assumes "index_ok c idx"
  shows "sorted_wrt (<) (map tx_nonce (get_by_sender idx s))"
  using assms by (auto simp: get_by_sender_nonces bt.keys_ascending dest: index_okD(4) split: option.splits)

text \<open>Only one block of the concatenation belongs to a sender.\<close>

lemma filter_sender_concat:
  assumes "\<And>s tx. tx \<in> set (f s) \<Longrightarrow> tx_from tx = s" "distinct order"
  shows "filter (\<lambda>tx. tx_from tx = s) (concat (map f order)) = (if s \<in> set order then f s else [])"
  using assms(2)
proof (induction order)
  case (Cons a order)
  have "filter (\<lambda>tx. tx_from tx = s) (f a) = (if a = s then f a else [])"
    using assms(1) [of _ a] by (auto simp: filter_empty_conv filter_id_conv)
  with Cons show ?case by auto
qed simp

lemma sorted_wrt_map_take_filter:
  assumes "sorted_wrt R (map g (filter P xs))"
  shows "sorted_wrt R (map g (filter P (take n xs)))"
proof -
  have "filter P xs = filter P (take n xs) @ filter P (drop n xs)"
    by (metis append_take_drop_id filter_append)
  with assms show ?thesis by (simp add: sorted_wrt_append)
qed

text \<open>The iterator over the transactions of a sender and the list agree; indexing panics exactly for hashes
  that the pool does not contain.\<close>

lemma sender_txs_iter_list: "sender_txs_iter idx sender = get_by_sender idx sender"
  by (simp add: sender_txs_iter_def get_by_sender_def split: option.split)

lemma mempool_at_panics: "mempool_at m h = None \<longleftrightarrow> \<not> mempool_contains m h"
  by (simp add: mempool_at_def mempool_get_def index_get_def mempool_contains_def index_contains_def)

text \<open>The highest nonce of a sender is one that the pool has, and no nonce of the sender is above it.\<close>

lemma highest_nonce_max:
  assumes "index_ok c (mp_index m)" "highest_nonce m sender = Some n"
  shows "mempool_has_nonce m sender n" "mempool_has_nonce m sender k \<Longrightarrow> k \<le> n"
proof -
  obtain nonces where nonces: "ti_by_sender (mp_index m) sender = Some nonces" "nonces \<noteq> []" "n = last (bt_keys nonces)"
    using assms(2) by (auto simp: highest_nonce_def get_highest_nonce_def split: option.splits if_splits)
  have inv: "bt_invar nonces" using assms(1) nonces(1) by (auto simp: index_ok_def)
  have keys: "set (bt_keys nonces) = dom (bt_get nonces)" by (rule bt.set_keys)
  show "mempool_has_nonce m sender n"
    using nonces keys last_in_set [of "bt_keys nonces"]
    by (auto simp: mempool_has_nonce_def index_has_nonce_def bt_keys_def dom_def)
  assume "mempool_has_nonce m sender k"
  then show "k \<le> n"
    using bt.last_key_greatest [OF inv, of k] nonces by (auto simp: mempool_has_nonce_def index_has_nonce_def bt_keys_def)
qed

section \<open>Properties\<close>

text \<open>A concrete codec and two deposits with one nonce, for the examples below.\<close>

definition sample_codec :: tx_codec where
  "sample_codec = \<lparr>keccak256 = (\<lambda>b. of_nat (length b)), sha256 = (\<lambda>b. ucast (hd b)),
     borsh_payload = (\<lambda>_. []),
     borsh_tx = (\<lambda>t. case tx_payload t of TxPayload_Deposit d \<Rightarrow> [ucast (dep_amount d)] | _ \<Rightarrow> [0]),
     borsh_from_slice = (\<lambda>_. Inl [])\<rparr>"

definition sample_deposit :: "u64 \<Rightarrow> u128 \<Rightarrow> Transaction" where
  "sample_deposit n amount = new_raw n 7 (TxPayload_Deposit \<lparr>dep_amount = amount, dep_asset_id = 0\<rparr>)"

definition sample_pool :: Mempool where
  "sample_pool = snd (mempool_add sample_codec (sample_deposit 3 1) (with_limits 2 2))"

lemma sample_pool_eq:
  "sample_pool = \<lparr>mp_index = \<lparr>ti_txs = [1 \<mapsto> sample_deposit 3 1], ti_by_sender = [7 \<mapsto> [(3, 1)]]\<rparr>,
     mp_config = config_new 2 2\<rparr>"
  by (simp add: sample_pool_def mempool_add_def with_limits_def mempool_new_def index_new_def config_new_def
      validate_capacity_def is_full_def index_len_def validate_not_duplicate_def index_contains_def
      validate_sender_rate_limit_def index_sender_tx_count_def index_insert_def tx_hash_def sample_codec_def
      sample_deposit_def new_raw_def)

lemma sample_pool_reachable: "mempool_reachable sample_codec (config_new 2 2) sample_pool"
  unfolding sample_pool_def with_limits_def by (intro reach_step [OF reach_new] step_add)

text \<open>C23: In every state the pool reaches from an empty one by adding, removing, pruning and
  clearing, it holds at most \<open>max_size\<close> transactions, no sender has more than
  \<open>max_txs_per_sender\<close> listed, and every listed nonce leads to a pending transaction of that sender
  with that nonce, stored under its own hash.\<close>

theorem mempool_reachable_invariant:
  assumes "mempool_reachable c cfg m"
  shows "index_len (mp_index m) \<le> max_size cfg \<and>
    index_sender_tx_count (mp_index m) s \<le> max_txs_per_sender cfg \<and>
    (\<forall>nonces n h. ti_by_sender (mp_index m) s = Some nonces \<and> bt_get nonces n = Some h \<longrightarrow>
      (\<exists>tx. index_get (mp_index m) h = Some tx \<and> tx_from tx = s \<and> tx_nonce tx = n \<and> tx_hash c tx = h))"
proof -
  have ok: "index_ok c (mp_index m)" "limits_ok m" "mp_config m = cfg"
    using mempool_reachable_ok [OF assms] by (simp_all add: mempool_ok_def)
  have "\<exists>tx. ti_txs (mp_index m) h = Some tx \<and> tx_from tx = s \<and> tx_nonce tx = n \<and> tx_hash c tx = h"
    if "ti_by_sender (mp_index m) s = Some nonces" "bt_get nonces n = Some h" for nonces n h
    using index_okD(5) [OF ok(1) that] index_okD(2) [OF ok(1)] by (auto simp: entry_ok_def)
  then show ?thesis
    using ok(2,3) by (auto simp: limits_ok_def index_get_def)
qed

theorem mempool_reachable_invariant_witness:
  "index_len (mp_index sample_pool) \<le> 2 \<and> index_sender_tx_count (mp_index sample_pool) 7 \<le> 2 \<and>
   (\<exists>tx. index_get (mp_index sample_pool) 1 = Some tx \<and> tx_from tx = 7 \<and> tx_nonce tx = 3 \<and>
     tx_hash sample_codec tx = 1)"
  using mempool_reachable_invariant [OF sample_pool_reachable, of 7]
  by (auto simp: config_new_def sample_pool_eq bt_get_def)

text \<open>C30: The transactions handed to the block builder are pending, at most \<open>limit\<close> of them, and
  those of one sender come in strictly ascending order of nonces, whatever order the hash map
  enumerates the senders in.\<close>

theorem ready_txs_nonce_order:
  assumes "mempool_reachable c cfg m" "distinct order"
  shows "length (ready_txs order limit m) \<le> limit \<and>
    (\<forall>tx\<in>set (ready_txs order limit m). index_get (mp_index m) (tx_hash c tx) = Some tx) \<and>
    sorted_wrt (<) (map tx_nonce (filter (\<lambda>tx. tx_from tx = s) (ready_txs order limit m)))"
proof (intro conjI)
  have ok: "index_ok c (mp_index m)"
    using mempool_reachable_ok [OF assms(1)] by (simp add: mempool_ok_def)
  note own = get_by_sender_nonces(2) [OF ok]
  show "length (ready_txs order limit m) \<le> limit"
    by (simp add: ready_txs_def)
  show "\<forall>tx\<in>set (ready_txs order limit m). index_get (mp_index m) (tx_hash c tx) = Some tx"
    using own by (auto simp: ready_txs_def index_get_def dest!: in_set_takeD)
  have "filter (\<lambda>tx. tx_from tx = s) (concat (map (get_by_sender (mp_index m)) order)) =
      (if s \<in> set order then get_by_sender (mp_index m) s else [])"
    by (rule filter_sender_concat) (use own assms(2) in auto)
  then show "sorted_wrt (<) (map tx_nonce (filter (\<lambda>tx. tx_from tx = s) (ready_txs order limit m)))"
    unfolding ready_txs_def
    by (intro sorted_wrt_map_take_filter) (simp add: get_by_sender_ascending [OF ok])
qed

definition sample_pool2 :: Mempool where
  "sample_pool2 = snd (mempool_add sample_codec (sample_deposit 2 5) sample_pool)"

theorem ready_txs_nonce_order_witness:
  "ready_txs [7] 5 sample_pool2 = [sample_deposit 2 5, sample_deposit 3 1] \<and>
   sorted_wrt (<) (map tx_nonce (filter (\<lambda>tx. tx_from tx = 7) (ready_txs [7] 5 sample_pool2)))"
proof -
  have "mempool_reachable sample_codec (config_new 2 2) sample_pool2"
    unfolding sample_pool2_def by (intro reach_step [OF sample_pool_reachable] step_add)
  from ready_txs_nonce_order [OF this, of "[7]" 5 7] show ?thesis
    by (simp add: sample_pool2_def sample_pool_eq ready_txs_def get_by_sender_def mempool_add_def config_new_def
        validate_capacity_def is_full_def index_len_def validate_not_duplicate_def index_contains_def
        validate_sender_rate_limit_def index_sender_tx_count_def index_insert_def tx_hash_def sample_codec_def
        sample_deposit_def new_raw_def bt_insert_def List.map_filter_simps)
qed

text \<open>Pruning a sender up to a nonce returns the hashes of exactly the listed transactions of
  that sender with a nonce up to it, in ascending order of nonces, removes them from the pool and
  from the listing, and leaves every other listing as it was.\<close>

lemma prune_sender_nonces_exact:
  assumes "mempool_reachable c cfg m" "prune_sender_nonces s k m = (hashes, m')"
    and "ti_by_sender (mp_index m) s = Some b"
  shows "map Some hashes = map (bt_get b) (filter (\<lambda>n. n \<le> k) (bt_keys b)) \<and>
    index_get (mp_index m') h = (if h \<in> set hashes then None else index_get (mp_index m) h) \<and>
    index_has_nonce (mp_index m') a n = (index_has_nonce (mp_index m) a n \<and> \<not> (a = s \<and> n \<le> k))"
proof (intro conjI)
  have ok: "index_ok c (mp_index m)"
    using mempool_reachable_ok [OF assms(1)] by (simp add: mempool_ok_def)
  obtain removed idx where rm: "remove_up_to_nonce s k (mp_index m) = (removed, idx)"
    and eqs: "hashes = map fst removed" "mp_index m' = idx"
    using assms(2) by (auto simp: prune_sender_nonces_def split: prod.splits)
  obtain b' where r: "remove_nonces (filter (\<lambda>n. n \<le> k) (bt_keys b)) b (ti_txs (mp_index m)) = (removed, b', ti_txs idx)"
    and b': "ti_by_sender idx = (ti_by_sender (mp_index m))(s := if b' = [] then None else Some b')"
    using remove_up_to_nonce_effect [OF rm assms(3)] .
  have inv: "bt_invar b"
    using index_okD(4) [OF ok assms(3)] .
  have "distinct (filter (\<lambda>n. n \<le> k) (bt_keys b))"
    using bt.keys_distinct [OF inv] by simp
  moreover have "\<forall>n\<in>set (filter (\<lambda>n. n \<le> k) (bt_keys b)).
      \<exists>h. bt_get b n = Some h \<and> entry_ok (ti_txs (mp_index m)) s n h"
    using index_okD(5) [OF ok assms(3)] by (auto simp: bt_keys_get)
  ultimately have rem: "map (tx_nonce \<circ> snd) removed = filter (\<lambda>n. n \<le> k) (bt_keys b) \<and>
      (\<forall>(h, tx)\<in>set removed. ti_txs (mp_index m) h = Some tx \<and> tx_from tx = s \<and>
        bt_get b (tx_nonce tx) = Some h)"
    by (rule remove_nonces_result [OF r])
  then have res: "map (tx_nonce \<circ> snd) removed = filter (\<lambda>n. n \<le> k) (bt_keys b)"
    "\<forall>(h, tx)\<in>set removed. bt_get b (tx_nonce tx) = Some h"
    by auto
  have "map Some hashes = map (bt_get b) (map (tx_nonce \<circ> snd) removed)"
    using res(2) by (auto simp: eqs)
  then show *: "map Some hashes = map (bt_get b) (filter (\<lambda>n. n \<le> k) (bt_keys b))"
    by (simp only: res(1))
  have "h \<in> set hashes \<longleftrightarrow> Some h \<in> set (map Some hashes)"
    by auto
  then have "h \<in> set hashes \<longleftrightarrow> (\<exists>n\<in>set (filter (\<lambda>n. n \<le> k) (bt_keys b)). bt_get b n = Some h)"
    unfolding * by force
  then show "index_get (mp_index m') h = (if h \<in> set hashes then None else index_get (mp_index m) h)"
    using remove_nonces_txs [OF r, of h] by (auto simp: index_get_def eqs(2))
  show "index_has_nonce (mp_index m') a n = (index_has_nonce (mp_index m) a n \<and> \<not> (a = s \<and> n \<le> k))"
    using remove_nonces_get [OF r, of n] assms(3)
    by (auto simp: index_has_nonce_def eqs b' bt_keys_get split: option.splits if_splits)
qed

text \<open>The pool accepts a second transaction of a sender with a nonce that is already listed.
  The first one then stays in the pool and counts against its capacity, but it is no longer
  listed: neither the block builder nor pruning by nonce ever reaches it.\<close>

lemma mempool_add_same_nonce_orphans:
  assumes "mempool_reachable c cfg m" "ti_by_sender (mp_index m) (tx_from tx) = Some b"
    and "bt_get b (tx_nonce tx) = Some old" "mempool_add c tx m = (Inr h, m')"
  shows "index_contains (mp_index m') old \<and> index_len (mp_index m') = Suc (index_len (mp_index m)) \<and>
    (\<forall>s b' n. ti_by_sender (mp_index m') s = Some b' \<longrightarrow> bt_get b' n \<noteq> Some old)"
proof (intro conjI)
  have ok: "index_ok c (mp_index m)"
    using mempool_reachable_ok [OF assms(1)] by (simp add: mempool_ok_def)
  obtain t where t: "ti_txs (mp_index m) old = Some t" "tx_from t = tx_from tx" "tx_nonce t = tx_nonce tx"
    using index_okD(5) [OF ok assms(2,3)] by (auto simp: entry_ok_def)
  note add = mempool_add_success [OF assms(4)]
  have "old \<noteq> tx_hash c tx"
    using add(1,2) t(1) by (auto simp: index_contains_def)
  moreover have "s = tx_from tx \<and> n = tx_nonce tx"
    if "ti_by_sender (mp_index m) s = Some x" "bt_get x n = Some old" for s x n
    using index_okD(5) [OF ok that] t by (auto simp: entry_ok_def)
  moreover have "bt_invar b"
    using index_okD(4) [OF ok assms(2)] .
  ultimately show "\<forall>s b' n. ti_by_sender (mp_index m') s = Some b' \<longrightarrow> bt_get b' n \<noteq> Some old"
    using assms(2) by (auto simp: add(5) index_insert_def Let_def bt.get_insert split: if_splits)
  show "index_contains (mp_index m') old"
    using t(1) by (simp add: add(5) index_insert_def Let_def index_contains_def)
  show "index_len (mp_index m') = Suc (index_len (mp_index m))"
    using add(1,2) index_okD(1) [OF ok]
    by (simp add: add(5) index_insert_def Let_def index_len_def index_contains_def domIff)
qed

end
