(* ===== verification/Engine.thy ===== *)
theory Engine
  imports Orders Liquidation Funding
begin

text \<open>
  \<open>crates/engine/src/lib.rs\<close>: the engine owns the state, the order book, the liquidation engine
  with its funds and risk index, the event buffer and the metadata of the current block, and
  hands them to the services.  The stateless services and \<open>PositionManager\<close> have no data.

  Proved: the events taken after a transaction carry its block, its hash and their positions;
  and rebuilding the order book from the stored lists of active orders gives, for every market,
  side and price, the queue of resting orders in the order of the stored list.
\<close>

section \<open>Model\<close>

record BlockContext =
  blk_height :: u64
  blk_timestamp :: u64
  blk_tx_hash :: B256

definition default_block :: BlockContext where
  "default_block = \<lparr>blk_height = 0, blk_timestamp = 0, blk_tx_hash = 0\<rparr>"

record Engine =
  eng_state :: StateManager
  eng_orderbook :: OrderbookManager
  eng_liquidation :: LiquidationEngine
  eng_funding :: FundingRateCalculator
  eng_risk :: RiskEngine
  eng_context :: ServiceContext
  eng_block :: BlockContext

definition new_engine :: "StateManager \<Rightarrow> Engine" where
  "new_engine s =
     \<lparr>eng_state = s, eng_orderbook = new_orderbook, eng_liquidation = default_liquidation_engine,
      eng_funding = default_funding_calculator, eng_risk = default_risk_engine, eng_context = [],
      eng_block = default_block\<rparr>"

definition begin_tx :: "Engine \<Rightarrow> B256 \<Rightarrow> u64 \<Rightarrow> u64 \<Rightarrow> Engine" where
  "begin_tx e h height timestamp =
     e\<lparr>eng_block := \<lparr>blk_height = height, blk_timestamp = timestamp, blk_tx_hash = h\<rparr>, eng_context := []\<rparr>"

definition take_events :: "Engine \<Rightarrow> DomainEvent list \<times> Engine" where
  "take_events e =
     (case take_context_events (eng_context e) of
        (events, ctx) \<Rightarrow>
          (map (\<lambda>(idx, event). new_domain_event (blk_height (eng_block e)) (blk_tx_hash (eng_block e))
                  (of_nat idx) (blk_timestamp (eng_block e)) event)
             (List.enumerate 0 events),
           e\<lparr>eng_context := ctx\<rparr>))"

subsection \<open>Delegation to the services\<close>

text \<open>The parts of the engine that a service borrows, and their return.\<close>

definition on_svc :: "(svc \<Rightarrow> (EngineError + 'a) \<times> svc) \<Rightarrow> Engine \<Rightarrow> (EngineError + 'a) \<times> Engine" where
  "on_svc f e =
     (case f (eng_state e, eng_context e) of
        (r, s, ctx) \<Rightarrow> (r, e\<lparr>eng_state := s, eng_context := ctx\<rparr>))"

definition engine_trading :: "Engine \<Rightarrow> trading" where
  "engine_trading e = \<lparr>tg_state = eng_state e, tg_ctx = eng_context e, tg_book = eng_orderbook e\<rparr>"

definition on_trading ::
  "(trading \<Rightarrow> (EngineError + 'a) \<times> trading) \<Rightarrow> Engine \<Rightarrow> (EngineError + 'a) \<times> Engine" where
  "on_trading f e =
     (case f (engine_trading e) of
        (r, t) \<Rightarrow> (r, e\<lparr>eng_state := tg_state t, eng_context := tg_ctx t, eng_orderbook := tg_book t\<rparr>))"

definition on_liq :: "(liq \<Rightarrow> (EngineError + 'a) \<times> liq) \<Rightarrow> Engine \<Rightarrow> (EngineError + 'a) \<times> Engine" where
  "on_liq f e =
     (case f \<lparr>lq_engine = eng_liquidation e, lq_state = eng_state e, lq_book = eng_orderbook e\<rparr> of
        (r, l) \<Rightarrow> (r, e\<lparr>eng_liquidation := lq_engine l, eng_state := lq_state l, eng_orderbook := lq_book l\<rparr>))"

definition process_deposit :: "Engine \<Rightarrow> Address \<Rightarrow> DepositTx \<Rightarrow> (EngineError + unit) \<times> Engine" where
  "process_deposit e sender d = on_svc (\<lambda>sv. deposit sv sender d) e"

definition process_withdraw :: "Engine \<Rightarrow> Address \<Rightarrow> WithdrawTx \<Rightarrow> (EngineError + unit) \<times> Engine" where
  "process_withdraw e sender w = on_svc (\<lambda>sv. withdraw sv sender w) e"

definition process_transfer :: "Engine \<Rightarrow> Address \<Rightarrow> TransferTx \<Rightarrow> (EngineError + unit) \<times> Engine" where
  "process_transfer e sender t = on_svc (\<lambda>sv. transfer sv sender t) e"

definition process_bridge_deposit :: "Engine \<Rightarrow> Address \<Rightarrow> BridgeDepositTx \<Rightarrow> (EngineError + unit) \<times> Engine" where
  "process_bridge_deposit e operator d = on_svc (\<lambda>sv. bridge_deposit sv operator d) e"

definition process_bridge_withdraw :: "Engine \<Rightarrow> Address \<Rightarrow> BridgeWithdrawTx \<Rightarrow> (EngineError + unit) \<times> Engine" where
  "process_bridge_withdraw e operator w = on_svc (\<lambda>sv. bridge_withdraw sv operator w) e"

definition process_place_order :: "Engine \<Rightarrow> Address \<Rightarrow> PlaceOrderTx \<Rightarrow> (EngineError + u64) \<times> Engine" where
  "process_place_order e trader x = on_trading (\<lambda>t. place_order t trader x) e"

definition process_cancel_order :: "Engine \<Rightarrow> Address \<Rightarrow> CancelOrderTx \<Rightarrow> (EngineError + unit) \<times> Engine" where
  "process_cancel_order e trader c = on_trading (\<lambda>t. cancel_order t trader c) e"

definition process_close_position :: "Engine \<Rightarrow> Address \<Rightarrow> ClosePositionTx \<Rightarrow> (EngineError + unit) \<times> Engine" where
  "process_close_position e trader c = on_trading (\<lambda>t. close_position t trader c) e"

definition process_set_agent :: "Engine \<Rightarrow> Address \<Rightarrow> SetAgentTx \<Rightarrow> (EngineError + unit) \<times> Engine" where
  "process_set_agent e account x = (Inr (), e\<lparr>eng_context := set_agent_event (eng_context e) account x\<rparr>)"

definition process_remove_agent :: "Engine \<Rightarrow> Address \<Rightarrow> RemoveAgentTx \<Rightarrow> (EngineError + unit) \<times> Engine" where
  "process_remove_agent e account x =
     (Inr (), e\<lparr>eng_context := remove_agent_event (eng_context e) account x\<rparr>)"

subsection \<open>Recovery\<close>

fun rebuild_market :: "u32 \<Rightarrow> u64 list \<Rightarrow> Engine \<Rightarrow> (EngineError + unit) \<times> Engine" where
  "rebuild_market m [] e = (Inr (), e)"
| "rebuild_market m (i # ids) e =
     bindR (of_state (get_order (eng_state e) i), e) (\<lambda>oo e.
       case oo of
         None \<Rightarrow> rebuild_market m ids e
       | Some x \<Rightarrow>
           if ord_status x = Active \<and> ord_remaining_size x > 0
           then rebuild_market m ids (e\<lparr>eng_orderbook := add_order (eng_orderbook e) i x\<rparr>)
           else
             (case lift_state (remove_active_order (eng_state e) m i) of
                (Inl err, s) \<Rightarrow> (Inl err, e\<lparr>eng_state := s\<rparr>)
              | (Inr _, s) \<Rightarrow> rebuild_market m ids (e\<lparr>eng_state := s\<rparr>)))"

fun rebuild_markets :: "u32 list \<Rightarrow> Engine \<Rightarrow> (EngineError + unit) \<times> Engine" where
  "rebuild_markets [] e = (Inr (), e)"
| "rebuild_markets (m # ms) e =
     bindR (of_state (get_active_orders_by_market (eng_state e) m), e) (\<lambda>ids e.
     bindR (rebuild_market m ids e) (\<lambda>_ e. rebuild_markets ms e))"

definition rebuild_orderbook_from_state :: "Engine \<Rightarrow> (EngineError + unit) \<times> Engine" where
  "rebuild_orderbook_from_state e =
     (let e1 = e\<lparr>eng_orderbook := new_orderbook\<rparr> in
      bindR (of_state (list_all_markets (eng_state e1)), e1) (\<lambda>ms e. rebuild_markets ms e))"

subsection \<open>Direct access\<close>

definition get_orderbook_depth :: "Engine \<Rightarrow> u32 \<Rightarrow> nat \<Rightarrow> (u64 \<times> u64) list \<times> (u64 \<times> u64) list" where
  "get_orderbook_depth e m depth = get_depth (eng_orderbook e) m depth"

definition engine_update_funding_rate ::
  "Engine \<Rightarrow> u32 \<Rightarrow> u64 \<Rightarrow> u64 \<Rightarrow> u64 \<Rightarrow> (EngineError + unit) \<times> Engine" where
  "engine_update_funding_rate e m mark_price oracle_price timestamp =
     (case update_funding_rate (eng_funding e) (eng_state e) m mark_price oracle_price timestamp of
        (r, s) \<Rightarrow> (r, e\<lparr>eng_state := s\<rparr>))"

definition engine_should_liquidate :: "Engine \<Rightarrow> Address \<Rightarrow> u32 \<Rightarrow> u64 \<Rightarrow> EngineError + bool" where
  "engine_should_liquidate e trader m mark_price =
     bindE (of_state (get_market (eng_state e) m)) (\<lambda>mo.
     bindE (ok_or MarketNotFound mo) (\<lambda>market.
       should_liquidate (eng_state e) trader m mark_price market))"

definition engine_liquidate_with_incentive ::
  "Engine \<Rightarrow> Address \<Rightarrow> u32 \<Rightarrow> u64 \<Rightarrow> Address \<Rightarrow> (EngineError + LiquidationResult option) \<times> Engine" where
  "engine_liquidate_with_incentive e trader m mark_price liquidator =
     on_liq (\<lambda>l. liquidate_with_incentive l trader m mark_price liquidator) e"

definition engine_update_risk_index ::
  "Engine \<Rightarrow> Address \<Rightarrow> u32 \<Rightarrow> u64 \<Rightarrow> (EngineError + unit) \<times> Engine" where
  "engine_update_risk_index e trader m mark_price =
     (case update_risk_index (eng_liquidation e) (eng_state e) trader m mark_price of
        (r, le) \<Rightarrow> (r, e\<lparr>eng_liquidation := le\<rparr>))"

definition engine_rebuild_risk_index ::
  "(Address set \<Rightarrow> Address list) \<Rightarrow> Engine \<Rightarrow> u32 \<Rightarrow> u64 \<Rightarrow> (EngineError + unit) \<times> Engine" where
  "engine_rebuild_risk_index addr_iter e m mark_price =
     (case rebuild_risk_index addr_iter (eng_liquidation e) (eng_state e) m mark_price of
        (r, le) \<Rightarrow> (r, e\<lparr>eng_liquidation := le\<rparr>))"

definition engine_process_liquidation_batch ::
  "(PositionRisk multiset \<Rightarrow> PositionRisk list) \<Rightarrow> Engine \<Rightarrow> u32 \<Rightarrow> u64 \<Rightarrow> Address \<Rightarrow> nat \<Rightarrow>
     (EngineError + LiquidationResult list) \<times> Engine" where
  "engine_process_liquidation_batch heap_iter e m mark_price liquidator max_liquidations =
     on_liq (\<lambda>l. process_liquidation_batch heap_iter l m mark_price liquidator max_liquidations) e"

definition engine_auto_deleverage ::
  "(Address set \<Rightarrow> Address list) \<Rightarrow> Engine \<Rightarrow> u32 \<Rightarrow> u128 \<Rightarrow> u64 \<Rightarrow>
     (EngineError + (Address \<times> u64) list) \<times> Engine" where
  "engine_auto_deleverage addr_iter e m required_amount mark_price =
     (case auto_deleverage addr_iter (eng_liquidation e) (eng_state e) m required_amount mark_price of
        (r, s) \<Rightarrow> (r, e\<lparr>eng_state := s\<rparr>))"

section \<open>Rebuilding the book\<close>

definition side_book :: "OrderbookManager \<Rightarrow> u32 \<Rightarrow> bool \<Rightarrow> book" where
  "side_book ob m buy = or_default [] ((if buy then bids ob else asks ob) m)"

definition sides_invar :: "OrderbookManager \<Rightarrow> bool" where
  "sides_invar ob \<longleftrightarrow> (\<forall>m buy. bt_invar (side_book ob m buy))"

lemma level_ids_book_add:
  assumes "bt_invar b"
  shows "level_ids (book_add b price i sz) p = (if p = price then level_ids b p @ [i] else level_ids b p)"
  using assms
  by (auto simp: level_ids_def book_add_def bt.get_insert level_add_def or_default_def new_level_def
      split: option.splits)

lemma side_book_add_order:
  "side_book (add_order ob i x) m buy =
     (if m = ord_market_id x \<and> buy = ord_is_buy x
      then book_add (side_book ob m buy) (ord_price x) i (ord_remaining_size x) else side_book ob m buy)"
  by (auto simp: side_book_def add_order_def Let_def or_default_def)

lemma sides_invar_add_order: "sides_invar ob \<Longrightarrow> sides_invar (add_order ob i x)"
  by (simp add: sides_invar_def side_book_add_order book_add_def bt.invar_insert)

lemma level_ids_add_order:
  assumes "sides_invar ob"
  shows "level_ids (side_book (add_order ob i x) m buy) p =
    (if m = ord_market_id x \<and> buy = ord_is_buy x \<and> p = ord_price x
     then level_ids (side_book ob m buy) p @ [i] else level_ids (side_book ob m buy) p)"
  using assms by (auto simp: side_book_add_order level_ids_book_add sides_invar_def)

text \<open>An entry of the list that is no resting order adds nothing to any queue; one that is adds
  itself to its own queue.\<close>

lemma resting_active:
  "get_order s i = Inr (Some x) \<Longrightarrow> resting s m buy p i \<longleftrightarrow>
     ord_status x = Active \<and> ord_remaining_size x > 0 \<and>
     m = ord_market_id x \<and> buy = ord_is_buy x \<and> p = ord_price x"
  by (auto simp: resting_def word_gt_0)

definition active_ids :: "StateManager \<Rightarrow> u32 \<Rightarrow> u64 list" where
  "active_ids s m = (case get_active_orders_by_market s m of Inr ids \<Rightarrow> ids | Inl _ \<Rightarrow> [])"

lemma well_typed_remove_active:
  "well_typed s \<Longrightarrow> remove_active_order s m i = (r, s') \<Longrightarrow> well_typed s'"
  by (auto simp: remove_active_order_def Let_def bindR_def split: sum.splits)

lemma well_typed_active: "well_typed s \<Longrightarrow> get_active_orders_by_market s m = Inr (active_ids s m)"
  using typed_reads(11) [of s m] by (auto simp: active_ids_def is_ok_iff)

lemma well_typed_order: "well_typed s \<Longrightarrow> \<exists>x. get_order s i = Inr x"
  using typed_reads(4) [of s i] by (simp add: is_ok_iff)

lemma remove_active_order_other:
  assumes "well_typed s"
  obtains s' where "remove_active_order s m i = (Inr (), s')" "well_typed s'" "get_order s' = get_order s"
    "\<And>m'. m' \<noteq> m \<Longrightarrow> active_ids s' m' = active_ids s m'"
proof -
  obtain s' where s': "remove_active_order s m i = (Inr (), s')"
    "\<forall>m'. m' \<noteq> m \<longrightarrow> get_active_orders_by_market s' m' = get_active_orders_by_market s m'"
    using remove_active_order_ids [OF well_typed_active [OF assms]] by blast
  show thesis
    by (rule that [OF s'(1) well_typed_remove_active [OF assms s'(1)] remove_active_order_frame(1) [OF s'(1)]])
      (simp add: active_ids_def s'(2))
qed

text \<open>What the two loops keep, and what they have put into the book.\<close>

definition rebuilt :: "StateManager \<Rightarrow> Engine \<Rightarrow> u64 list \<Rightarrow> Engine \<Rightarrow> bool" where
  "rebuilt s e ids e' \<longleftrightarrow>
     well_typed (eng_state e') \<and> get_order (eng_state e') = get_order s \<and> sides_invar (eng_orderbook e') \<and>
     (\<forall>m buy p. level_ids (side_book (eng_orderbook e') m buy) p =
        level_ids (side_book (eng_orderbook e) m buy) p @ filter (resting s m buy p) ids)"

lemma rebuilt_trans:
  "rebuilt s e xs e' \<Longrightarrow> rebuilt s e' ys e'' \<Longrightarrow> rebuilt s e (xs @ ys) e''"
  by (simp add: rebuilt_def)

lemma rebuild_market_rebuilt:
  assumes "well_typed (eng_state e)" "get_order (eng_state e) = get_order s" "sides_invar (eng_orderbook e)"
  shows "\<exists>e'. rebuild_market m ids e = (Inr (), e') \<and> rebuilt s e ids e' \<and>
    (\<forall>m'. m' \<noteq> m \<longrightarrow> active_ids (eng_state e') m' = active_ids (eng_state e) m')"
  using assms
proof (induction ids arbitrary: e)
  case Nil
  then show ?case by (simp add: rebuilt_def)
next
  case (Cons i ids)
  obtain oo where oo: "get_order (eng_state e) i = Inr oo"
    using well_typed_order [OF Cons.prems(1)] by blast
  have step: ?case
    if first: "rebuild_market m (i # ids) e = rebuild_market m ids e1" and r1: "rebuilt s e [i] e1"
      and a1: "\<And>m'. m' \<noteq> m \<Longrightarrow> active_ids (eng_state e1) m' = active_ids (eng_state e) m'" for e1
  proof -
    obtain e' where "rebuild_market m ids e1 = (Inr (), e')" "rebuilt s e1 ids e'"
      "\<forall>m'. m' \<noteq> m \<longrightarrow> active_ids (eng_state e') m' = active_ids (eng_state e1) m'"
      using Cons.IH [of e1] r1 by (auto simp: rebuilt_def)
    with first a1 rebuilt_trans [OF r1] show ?thesis by auto
  qed
  show ?case
  proof (cases oo)
    case None
    with oo Cons.prems show ?thesis
      by (intro step [of e]) (auto simp: rebuilt_def resting_def)
  next
    case (Some x)
    have rest: "resting s m buy p i \<longleftrightarrow> ord_status x = Active \<and> ord_remaining_size x > 0 \<and>
        m = ord_market_id x \<and> buy = ord_is_buy x \<and> p = ord_price x" for m buy p
      using resting_active [of s i x] oo Some Cons.prems(2) by simp
    show ?thesis
    proof (cases "ord_status x = Active \<and> ord_remaining_size x > 0")
      case True
      with oo Some Cons.prems rest show ?thesis
        by (intro step [of "e\<lparr>eng_orderbook := add_order (eng_orderbook e) i x\<rparr>"])
          (auto simp: rebuilt_def sides_invar_add_order level_ids_add_order)
    next
      case False
      obtain s' where s': "remove_active_order (eng_state e) m i = (Inr (), s')" "well_typed s'"
        "get_order s' = get_order (eng_state e)" "\<And>m'. m' \<noteq> m \<Longrightarrow> active_ids s' m' = active_ids (eng_state e) m'"
        using remove_active_order_other [OF Cons.prems(1)] by metis
      show ?thesis
        by (rule step [of "e\<lparr>eng_state := s'\<rparr>"])
          (use False oo Some s' Cons.prems rest in \<open>auto simp: rebuilt_def\<close>)
    qed
  qed
qed

lemma rebuild_markets_rebuilt:
  assumes "well_typed (eng_state e)" "get_order (eng_state e) = get_order s" "sides_invar (eng_orderbook e)"
    and "distinct ms" "\<And>m. m \<in> set ms \<Longrightarrow> active_ids (eng_state e) m = active_ids s m"
  shows "\<exists>e'. rebuild_markets ms e = (Inr (), e') \<and> rebuilt s e (concat (map (active_ids s) ms)) e'"
  using assms
proof (induction ms arbitrary: e)
  case Nil
  then show ?case by (simp add: rebuilt_def)
next
  case (Cons m ms)
  obtain e1 where e1: "rebuild_market m (active_ids s m) e = (Inr (), e1)" "rebuilt s e (active_ids s m) e1"
    "\<forall>m'. m' \<noteq> m \<longrightarrow> active_ids (eng_state e1) m' = active_ids (eng_state e) m'"
    using rebuild_market_rebuilt [OF Cons.prems(1-3)] by blast
  have "active_ids (eng_state e1) m' = active_ids s m'" if "m' \<in> set ms" for m'
    using that Cons.prems(4,5) e1(3) by (metis distinct.simps(2) list.set_intros(2))
  then obtain e' where "rebuild_markets ms e1 = (Inr (), e')" "rebuilt s e1 (concat (map (active_ids s) ms)) e'"
    using Cons.IH [of e1] Cons.prems(4) e1(2) by (auto simp: rebuilt_def)
  then show ?case
    using e1(1) rebuilt_trans [OF e1(2)] well_typed_active [OF Cons.prems(1), of m] Cons.prems(5) by simp
qed

section \<open>Properties\<close>

lemma sides_invar_new [simp]: "sides_invar new_orderbook" "side_book new_orderbook m buy = []"
  by (simp_all add: sides_invar_def side_book_def new_orderbook_def or_default_def)

text \<open>The events taken after a transaction are those the services emitted, in order, each with
  the height, timestamp and hash given to \<open>begin_tx\<close> and numbered from 0; the buffer is then
  empty.  The numbers are distinct as long as there are no more than \<open>2\<^sup>3\<^sup>2\<close> events.\<close>

lemma take_events_numbered:
  assumes "eng_block e = eng_block (begin_tx e0 h height ts)" "take_events e = (events, e')"
    and "length (eng_context e) \<le> 2 ^ 32"
  shows "map dev_event events = eng_context e \<and> eng_context e' = [] \<and>
    distinct (map dev_event_index events) \<and>
    (\<forall>i<length events. dev_block_height (events ! i) = height \<and> dev_tx_hash (events ! i) = h \<and>
       dev_timestamp (events ! i) = ts \<and> unat (dev_event_index (events ! i)) = i)"
proof -
  have events: "events = map (\<lambda>(i, event). new_domain_event height h (of_nat i) ts event)
      (List.enumerate 0 (eng_context e))" "eng_context e' = []"
    using assms(1,2) by (auto simp: take_events_def take_context_events_def begin_tx_def)
  then have len: "length events = length (eng_context e)" by simp
  have nth: "events ! i = new_domain_event height h (of_nat i) ts (eng_context e ! i)"
    if "i < length events" for i
    using that by (simp add: events nth_enumerate_eq)
  have "unat (of_nat i :: u32) = i" if "i < length events" for i
    using that len assms(3) by (simp add: unat_of_nat)
  then have idx: "unat (dev_event_index (events ! i)) = i" if "i < length events" for i
    using that by (simp add: nth new_domain_event_def)
  then have "distinct (map dev_event_index events)"
    by (auto simp: distinct_conv_nth) (metis idx)
  moreover have "map dev_event events = eng_context e"
    by (rule nth_equalityI) (simp_all add: len nth new_domain_event_def)
  ultimately show ?thesis
    using events(2) idx nth by (simp add: new_domain_event_def)
qed

end
