(* ===== verification/Recovery.thy ===== *)
theory Recovery
  imports Trading_Invariants Engine
begin

text \<open>
  The live order book against the one that recovery builds (\<open>rebuild_orderbook_from_state\<close> in
  \<open>crates/engine/src/lib.rs\<close>).  The invariant: the queue of each market, side and price of the live
  book holds the resting orders of the stored list of that market, in the order of the list.
  Placing, cancelling and closing keep it, whether they succeed or fail; so recovery restores both
  sides of every market exactly, with the queues and the advertised sizes.
\<close>

section \<open>The invariant\<close>

definition mirrors :: "StateManager \<Rightarrow> OrderbookManager \<Rightarrow> bool" where
  "mirrors s ob \<longleftrightarrow>
     (\<forall>m buy p. level_ids (side_book ob m buy) p = filter (resting s m buy p) (active_ids s m))"

text \<open>A stored list has no duplicates and names stored orders of its market.\<close>

definition order_in :: "StateManager \<Rightarrow> u32 \<Rightarrow> u64 \<Rightarrow> bool" where
  "order_in s m j \<longleftrightarrow> (\<exists>x. get_order s j = Inr (Some x) \<and> ord_market_id x = m)"

definition listed :: "StateManager \<Rightarrow> bool" where
  "listed s \<longleftrightarrow> (\<forall>m. distinct (active_ids s m) \<and> (\<forall>j\<in>set (active_ids s m). order_in s m j))"

text \<open>The orders \<open>D\<close> of one side of a market stop resting and leave the list; nothing else changes.\<close>

definition retires :: "u32 \<Rightarrow> bool \<Rightarrow> u64 set \<Rightarrow> StateManager \<Rightarrow> StateManager \<Rightarrow> bool" where
  "retires m buy D s s' \<longleftrightarrow>
     (\<forall>k. active_ids s' k = (if k = m then filter (\<lambda>j. j \<notin> D) (active_ids s k) else active_ids s k)) \<and>
     (\<forall>j k b p. resting s' k b p j \<longleftrightarrow> resting s k b p j \<and> j \<notin> D) \<and>
     (\<forall>j\<in>D. \<exists>p. resting s m buy p j) \<and>
     (\<forall>j k. order_in s k j \<longrightarrow> order_in s' k j)"

lemma retires_refl: "retires m buy {} s s"
  by (simp add: retires_def)

lemma retires_trans:
  assumes "retires m buy D s s1" "retires m buy E s1 s2"
  shows "retires m buy (D \<union> E) s s2"
proof -
  have "active_ids s2 k = (if k = m then filter (\<lambda>j. j \<notin> D \<union> E) (active_ids s k) else active_ids s k)" for k
    using assms by (auto simp: retires_def intro: filter_cong)
  moreover have "\<exists>p. resting s m buy p j" if "j \<in> D \<union> E" for j
    using assms that by (auto simp: retires_def)
  ultimately show ?thesis
    using assms by (auto simp: retires_def)
qed

lemma retires_listed:
  assumes "retires m buy D s s'" "listed s"
  shows "listed s'"
  using assms by (auto simp: retires_def listed_def)

lemma retires_mirrors:
  assumes r: "retires m buy D s s'" and ok: "mirrors s ob"
    and side: "\<And>p. level_ids (side_book ob' m buy) p = filter (\<lambda>j. j \<notin> D) (level_ids (side_book ob m buy) p)"
    and other: "\<And>k b. k \<noteq> m \<or> b \<noteq> buy \<Longrightarrow> side_book ob' k b = side_book ob k b"
  shows "mirrors s' ob'"
  unfolding mirrors_def
proof (intro allI)
  fix k b p
  have gone: "resting s' k b p j \<longleftrightarrow> resting s k b p j" if "k \<noteq> m \<or> b \<noteq> buy" for j
  proof -
    have "j \<in> D \<Longrightarrow> resting s k b p j \<Longrightarrow> k = m \<and> b = buy"
      using r resting_unique unfolding retires_def by blast
    then show ?thesis using r that unfolding retires_def by blast
  qed
  have live: "level_ids (side_book ob k b) p = filter (resting s k b p) (active_ids s k)"
    using ok by (simp add: mirrors_def)
  show "level_ids (side_book ob' k b) p = filter (resting s' k b p) (active_ids s' k)"
  proof (cases "k = m \<and> b = buy")
    case True
    have "filter (resting s' k b p) (active_ids s' k) = filter (\<lambda>j. j \<notin> D) (filter (resting s k b p) (active_ids s k))"
      using r True by (auto simp: retires_def intro: filter_cong)
    then show ?thesis using True side live by simp
  next
    case False
    then have eq: "resting s' k b p = resting s k b p" using gone by blast
    have "filter (resting s k b p) (active_ids s' k) = filter (resting s k b p) (active_ids s k)"
      using r eq by (auto simp: retires_def fun_eq_iff intro!: filter_cong)
    then show ?thesis using False other live eq by auto
  qed
qed

section \<open>Matching\<close>

lemma resting_get:
  assumes "get_order s j = Inr (Some x)"
  shows "resting s m buy p j \<longleftrightarrow> ord_market_id x = m \<and> ord_is_buy x = buy \<and> ord_price x = p \<and>
    ord_remaining_size x \<noteq> 0 \<and> ord_status x = Active"
  using assms by (simp add: resting_def)

lemma set_order_active [simp]: "active_ids (set_order s i x) m = active_ids s m"
  by (simp add: active_ids_def get_active_orders_by_market_def set_order_def get_or_default_sm)

lemma fill_retires:
  assumes typed: "well_typed (mv_state v)" and maker: "get_order (mv_state v) i = Inr (Some maker)"
    and rest: "resting (mv_state v) m buy p i" and dist: "distinct (lvl_orders (mv_level v))"
    and i: "i \<in> set (lvl_orders (mv_level v))"
  shows "\<exists>v' D. fill_maker_order taker price i maker v = (Inr (), v') \<and> well_typed (mv_state v') \<and>
    retires m buy D (mv_state v) (mv_state v') \<and> D \<subseteq> {i} \<and>
    lvl_orders (mv_level v') = filter (\<lambda>j. j \<notin> D) (lvl_orders (mv_level v))"
proof -
  let ?sz = "min (mv_remaining v) (ord_remaining_size maker)"
  have x: "ord_market_id maker = m" "ord_is_buy maker = buy" "ord_price maker = p" "ord_status maker = Active"
    using rest maker by (auto simp: resting_get)
  show ?thesis
  proof (cases "ord_remaining_size maker - ?sz = 0")
    case True
    let ?s1 = "set_order (mv_state v) i (maker\<lparr>ord_remaining_size := 0, ord_status := Filled\<rparr>)"
    obtain s2 where s2: "remove_active_order ?s1 m i = (Inr (), s2)"
      "get_active_orders_by_market s2 m = Inr (filter (\<lambda>x. x \<noteq> i) (active_ids (mv_state v) m))"
      "\<forall>k. k \<noteq> m \<longrightarrow> get_active_orders_by_market s2 k = get_active_orders_by_market ?s1 k"
      using remove_active_order_ids [OF well_typed_active [of ?s1 m], of i] typed by auto
    have ids: "active_ids s2 k = (if k = m then filter (\<lambda>j. j \<notin> {i}) (active_ids (mv_state v) k) else active_ids (mv_state v) k)" for k
    proof (cases "k = m")
      case False
      then have "active_ids s2 k = active_ids ?s1 k" using s2(3) by (simp add: active_ids_def)
      then show ?thesis using False by simp
    qed (simp add: active_ids_def s2(2))
    have orders: "get_order s2 = (get_order (mv_state v))(i := Inr (Some (maker\<lparr>ord_remaining_size := 0, ord_status := Filled\<rparr>)))"
      using remove_active_order_frame(1) [OF s2(1)] by (simp add: fun_eq_iff)
    have "retires m buy {i} (mv_state v) s2"
      using ids rest maker unfolding retires_def
      by (auto simp: orders resting_def order_in_def)
    moreover have "well_typed s2"
      using typed.kept_remove_active [of ?s1 m i] typed s2(1) by simp
    ultimately show ?thesis
      using True s2(1) x(1) i dist
      by (intro exI [of _ "v\<lparr>mv_fills := mv_fills v @ [make_fill taker price i maker ?sz], mv_remaining := mv_remaining v - ?sz,
            mv_state := s2, mv_level := level_remove (mv_level v) i ?sz\<rparr>"] exI [of _ "{i}"])
        (simp add: fill_maker_order_def Let_def level_remove_def filter_remove1_distinct)
  next
    case False
    let ?s2 = "set_order (mv_state v) i (maker\<lparr>ord_remaining_size := ord_remaining_size maker - ?sz\<rparr>)"
    have "retires m buy {} (mv_state v) ?s2"
      unfolding retires_def using maker False x by (auto simp: resting_def order_in_def)
    then show ?thesis
      using False typed
      by (intro exI [of _ "v\<lparr>mv_fills := mv_fills v @ [make_fill taker price i maker ?sz], mv_remaining := mv_remaining v - ?sz,
            mv_state := ?s2, mv_level := (mv_level v)\<lparr>lvl_total_size := lvl_total_size (mv_level v) - ?sz\<rparr>\<rparr>"] exI [of _ "{}"])
        (simp add: fill_maker_order_def Let_def)
  qed
qed

lemma match_level_retires:
  "well_typed (mv_state v) \<Longrightarrow> level_ok (mv_state v) m buy p (mv_level v) \<Longrightarrow> distinct ids \<Longrightarrow>
   set ids \<subseteq> set (lvl_orders (mv_level v)) \<Longrightarrow>
   \<exists>v' D. match_level taker price ids v = (Inr (), v') \<and> well_typed (mv_state v') \<and>
     retires m buy D (mv_state v) (mv_state v') \<and> D \<subseteq> set ids \<and>
     lvl_orders (mv_level v') = filter (\<lambda>j. j \<notin> D) (lvl_orders (mv_level v))"
proof (induction ids arbitrary: v)
  case Nil
  then show ?case by (intro exI [of _ v] exI [of _ "{}"]) (simp add: retires_refl)
next
  case (Cons i ids)
  have i: "i \<in> set (lvl_orders (mv_level v))" using Cons.prems(4) by simp
  then have rest: "resting (mv_state v) m buy p i" using Cons.prems(2) by (simp add: level_ok_def)
  then obtain maker where maker: "get_order (mv_state v) i = Inr (Some maker)" by (auto elim: restingE)
  show ?case
  proof (cases "mv_remaining v = 0 \<or> ord_owner maker = ord_owner taker")
    case True
    then consider "mv_remaining v = 0" | "mv_remaining v \<noteq> 0" "ord_owner maker = ord_owner taker" by blast
    then show ?thesis
    proof cases
      case 1
      then show ?thesis
        using Cons.prems(1) by (intro exI [of _ v] exI [of _ "{}"]) (simp add: retires_refl)
    next
      case 2
      then show ?thesis using Cons.IH [of v] Cons.prems maker by auto
    qed
  next
    case False
    have dist: "distinct (lvl_orders (mv_level v))" using Cons.prems(2) by (simp add: level_ok_def)
    obtain v1 D where f: "fill_maker_order taker price i maker v = (Inr (), v1)" and t1: "well_typed (mv_state v1)"
      and r1: "retires m buy D (mv_state v) (mv_state v1)" and D: "D \<subseteq> {i}"
      and l1: "lvl_orders (mv_level v1) = filter (\<lambda>j. j \<notin> D) (lvl_orders (mv_level v))"
      using fill_retires [OF Cons.prems(1) maker rest dist i] by metis
    have ok1: "level_ok (mv_state v1) m buy p (mv_level v1)"
      using fill_maker_order_level(1) [OF Cons.prems(2) i maker _ f] False by blast
    obtain v' E where m: "match_level taker price ids v1 = (Inr (), v')" and t': "well_typed (mv_state v')"
      and r': "retires m buy E (mv_state v1) (mv_state v')" and E: "E \<subseteq> set ids"
      and l': "lvl_orders (mv_level v') = filter (\<lambda>j. j \<notin> E) (lvl_orders (mv_level v1))"
      using Cons.IH [OF t1 ok1] Cons.prems(3,4) D l1 by fastforce
    show ?thesis
      by (intro exI [of _ v'] exI [of _ "D \<union> E"] conjI retires_trans [OF r1 r'] t')
        (use False maker f m D E l1 l' in \<open>auto intro: filter_cong\<close>)
  qed
qed

lemma level_ids_get: "bt_get b p = Some l \<Longrightarrow> level_ids b p = lvl_orders l"
  by (simp add: level_ids_def)

lemma level_ids_after:
  assumes "bt_invar b"
  shows "level_ids (if level_is_empty l then bt_remove price b else bt_insert price l b) p =
    (if p = price then lvl_orders l else level_ids b p)"
  using assms by (simp add: level_ids_def bt_laws level_is_empty_def split: option.splits)

lemma match_prices_retires:
  "well_typed s \<Longrightarrow> side_ok s m buy b \<Longrightarrow>
   \<exists>s' b' fills' remaining' D. match_prices taker prices (s, b, fills, remaining) = (Inr (), s', b', fills', remaining') \<and>
     well_typed s' \<and> retires m buy D s s' \<and> (\<forall>p. level_ids b' p = filter (\<lambda>j. j \<notin> D) (level_ids b p))"
proof (induction prices arbitrary: s b fills remaining)
  case Nil
  then show ?case using retires_refl by fastforce
next
  case (Cons price prices)
  have stay: ?case if "match_prices taker (price # prices) (s, b, fills, remaining) = (Inr (), s, b, fills, remaining)"
    using that Cons.prems(1) retires_refl by fastforce
  show ?case
  proof (cases "price_unacceptable taker price \<or> bt_get b price = None")
    case True
    then consider "price_unacceptable taker price" | "\<not> price_unacceptable taker price" "bt_get b price = None" by metis
    then show ?thesis
    proof cases
      case 2
      then show ?thesis
        using stay Cons.IH [OF Cons.prems] by (cases "remaining = 0") auto
    qed (rule stay, simp)
  next
    case False
    then obtain l where l: "bt_get b price = Some l" by auto
    let ?v = "\<lparr>mv_state = s, mv_level = l, mv_fills = fills, mv_remaining = remaining\<rparr>"
    have lok: "level_ok s m buy price l" and inv: "bt_invar b" using Cons.prems(2) l by (simp_all add: side_ok_def)
    obtain v1 D where m: "match_level taker price (lvl_orders l) ?v = (Inr (), v1)" and t1: "well_typed (mv_state v1)"
      and r1: "retires m buy D s (mv_state v1)" and D: "D \<subseteq> set (lvl_orders l)"
      and l1: "lvl_orders (mv_level v1) = filter (\<lambda>j. j \<notin> D) (lvl_orders l)"
      using match_level_retires [of ?v m buy price "lvl_orders l" taker price] Cons.prems(1) lok
      by (auto simp: level_ok_def)
    let ?b = "if level_is_empty (mv_level v1) then bt_remove price b else bt_insert price (mv_level v1) b"
    have ids1: "level_ids ?b p = filter (\<lambda>j. j \<notin> D) (level_ids b p)" for p
    proof (cases "p = price")
      case True
      then show ?thesis using level_ids_after [OF inv] l l1 by (simp add: level_ids_get)
    next
      case False
      have "j \<notin> D" if "j \<in> set (level_ids b p)" for j
      proof
        assume "j \<in> D"
        then have "resting s m buy price j" using D lok by (auto simp: level_ok_def)
        with side_ok_resting [OF Cons.prems(2) that] False show False using resting_unique by blast
      qed
      then show ?thesis using False level_ids_after [OF inv] by (simp add: filter_id_conv)
    qed
    have ok1: "side_ok (mv_state v1) m buy ?b" by (rule match_one_price_ok(1) [OF Cons.prems(2) l m])
    show ?thesis
    proof (cases "mv_remaining v1 = 0")
      case True
      then show ?thesis
        using False l m t1 r1 ids1 by (intro exI [of _ "mv_state v1"] exI [of _ ?b] exI [of _ "mv_fills v1"] exI [of _ 0] exI [of _ D])
          (simp add: Let_def)
    next
      case rem: False
      obtain s' b' fills' remaining' E where
        rest: "match_prices taker prices (mv_state v1, ?b, mv_fills v1, mv_remaining v1) = (Inr (), s', b', fills', remaining')"
        and t': "well_typed s'" and r': "retires m buy E (mv_state v1) s'"
        and ids': "\<forall>p. level_ids b' p = filter (\<lambda>j. j \<notin> E) (level_ids ?b p)"
        using Cons.IH [OF t1 ok1] by metis
      have "match_prices taker (price # prices) (s, b, fills, remaining) = (Inr (), s', b', fills', remaining')"
        using False l m rem rest by (simp add: Let_def)
      moreover have "\<forall>p. level_ids b' p = filter (\<lambda>j. j \<notin> D \<union> E) (level_ids b p)"
        using ids' ids1 by (auto intro: filter_cong)
      ultimately show ?thesis using t' retires_trans [OF r1 r'] by metis
    qed
  qed
qed

lemma side_book_opposing:
  "opposing ob x = Some b \<Longrightarrow> side_book ob (ord_market_id x) (\<not> ord_is_buy x) = b"
  "side_book (set_opposing ob x b) m buy =
     (if m = ord_market_id x \<and> buy = (\<not> ord_is_buy x) then b else side_book ob m buy)"
  by (auto simp: opposing_def set_opposing_def side_book_def or_default_def split: if_splits)

text \<open>Matching fails only for a post-only order that would take, and then changes nothing.\<close>

lemma match_order_mirrors:
  assumes match: "match_order ob s taker = (r, ob', s')"
    and typed: "well_typed s" and ok: "book_ok s ob" and mir: "mirrors s ob" and lst: "listed s"
  shows "mirrors s' ob' \<and> listed s' \<and> (is_ok r \<or> ob' = ob \<and> s' = s)"
proof (cases "opposing ob taker")
  case None
  then show ?thesis using match mir lst by (auto simp: match_order_def split: if_splits)
next
  case (Some b)
  let ?m = "ord_market_id taker" and ?buy = "\<not> ord_is_buy taker"
  let ?ps = "if ord_is_buy taker then bt_keys b else rev (bt_keys b)"
  obtain s1 b1 fills remaining D where
    mp: "match_prices taker ?ps (s, b, [], ord_remaining_size taker) = (Inr (), s1, b1, fills, remaining)"
    and ret: "retires ?m ?buy D s s1" and ids: "\<forall>p. level_ids b1 p = filter (\<lambda>j. j \<notin> D) (level_ids b p)"
    using match_prices_retires [OF typed opposing_ok [OF ok Some], of taker ?ps "[]" "ord_remaining_size taker"] by blast
  have "mirrors s1 (set_opposing ob taker b1)"
    by (rule retires_mirrors [OF ret mir]) (use Some ids in \<open>auto simp: side_book_opposing\<close>)
  moreover have "listed s1" by (rule retires_listed [OF ret lst])
  ultimately show ?thesis
    using match Some mp mir lst by (auto simp: match_order_def Let_def is_ok_iff split: if_splits)
qed

section \<open>Placing an order\<close>

definition desk_ok :: "trading \<Rightarrow> bool" where
  "desk_ok t \<longleftrightarrow> well_typed (tg_state t) \<and> trading_ok t \<and> mirrors (tg_state t) (tg_book t) \<and> listed (tg_state t)"

text \<open>In between, the identifier \<open>i\<close> is taken and not yet stored.\<close>

definition drawn_ok :: "u64 \<Rightarrow> trading \<Rightarrow> bool" where
  "drawn_ok i t \<longleftrightarrow> well_typed (tg_state t) \<and> book_ok (tg_state t) (tg_book t) \<and>
     mirrors (tg_state t) (tg_book t) \<and> listed (tg_state t) \<and>
     next_id (tg_state t) = Inr (i + 1) \<and> i < i + 1 \<and> ids_below (tg_state t) i"

lemma drawn_desk: "drawn_ok i t \<Longrightarrow> desk_ok t"
  by (auto simp: drawn_ok_def desk_ok_def trading_ok_def ids_below_def)

text \<open>The invariant depends on the stored orders and lists only.\<close>

lemma orders_cong:
  assumes "get_order s' = get_order s" "\<And>m. active_ids s' m = active_ids s m"
  shows "book_ok s' ob \<longleftrightarrow> book_ok s ob" "mirrors s' ob \<longleftrightarrow> mirrors s ob" "listed s' \<longleftrightarrow> listed s"
proof -
  have rest: "resting s' = resting s" using assms(1) by (simp add: fun_eq_iff resting_def)
  have rem: "remaining_of s' = remaining_of s" using assms(1) by (simp add: fun_eq_iff remaining_of_def)
  have inn: "order_in s' = order_in s" using assms(1) by (simp add: fun_eq_iff order_in_def)
  show "book_ok s' ob \<longleftrightarrow> book_ok s ob" by (simp add: book_ok_def side_ok_def level_ok_def rest rem)
  show "mirrors s' ob \<longleftrightarrow> mirrors s ob" by (simp add: mirrors_def rest assms(2))
  show "listed s' \<longleftrightarrow> listed s" by (simp add: listed_def inn assms(2))
qed

lemma active_ids_cong:
  "(\<And>m. sm_get s' (StateKey_ActiveOrderList m) = sm_get s (StateKey_ActiveOrderList m)) \<Longrightarrow> active_ids s' m = active_ids s m"
  by (simp add: active_ids_def get_active_orders_by_market_def get_or_default_sm)

lemma next_order_id_drawn:
  assumes ok: "desk_ok t" and nx: "next_order_id (tg_state t) = (r, s1)"
  shows "case r of Inl _ \<Rightarrow> s1 = tg_state t | Inr i \<Rightarrow> drawn_ok i (t\<lparr>tg_state := s1\<rparr>)"
proof (cases r)
  case (Inl e)
  then show ?thesis using nx by (auto simp: next_order_id_def bindR_def split: sum.splits)
next
  case (Inr i)
  note n = next_order_id_success [OF nx [unfolded Inr]]
  have "active_ids s1 m = active_ids (tg_state t) m" for m
    by (rule active_ids_cong) (use nx Inr in \<open>auto simp: next_order_id_def result_simps\<close>)
  note cong = orders_cong [OF n(4) this]
  have "well_typed s1"
    using typed.kept_next_order_id [of "tg_state t"] ok nx by (simp add: desk_ok_def)
  then show ?thesis
    using ok n cong Inr by (auto simp: desk_ok_def drawn_ok_def trading_ok_def ids_below_def)
qed

lemma match_tg_drawn:
  assumes ok: "drawn_ok i t" and m: "match_tg t x = (r, t')"
  shows "drawn_ok i t'" "same_side (tg_book t') x = same_side (tg_book t) x"
proof -
  obtain ob s where mo: "match_order (tg_book t) (tg_state t) x = (r, ob, s)" and t': "t' = t\<lparr>tg_book := ob, tg_state := s\<rparr>"
    using m by (auto simp: match_tg_def split: prod.splits)
  have mir: "mirrors s ob \<and> listed s \<and> (is_ok r \<or> ob = tg_book t \<and> s = tg_state t)"
    using match_order_mirrors [OF mo] ok by (simp add: drawn_ok_def)
  show "drawn_ok i t'"
  proof (cases r)
    case (Inl e)
    then show ?thesis using mir ok t' by simp
  next
    case (Inr fills)
    note mo = mo [unfolded Inr]
    have "next_id s = next_id (tg_state t)" by (rule next_id_cong) (simp add: match_order_frame(1) [OF mo])
    then show ?thesis
      using ok mir t' match_order_book_ok [OF mo] match_order_frame(2) [OF mo] typed.kept_match_order [OF _ mo]
      by (auto simp: drawn_ok_def ids_below_def)
  qed
  show "same_side (tg_book t') x = same_side (tg_book t) x"
    using mir t' match_order_frame(3) [of "tg_book t" "tg_state t" x] mo by (cases r) auto
qed

lemma process_fills_drawn:
  assumes ok: "drawn_ok i t" and p: "process_fills market t fills = (r, t')"
  shows "drawn_ok i t'" "tg_book t' = tg_book t"
proof -
  note fr = process_fills_frame [OF p]
  show book: "tg_book t' = tg_book t" using fr by simp
  have act: "active_ids (tg_state t') m = active_ids (tg_state t) m" for m
    by (rule active_ids_cong) (simp add: fr)
  have nid: "next_id (tg_state t') = next_id (tg_state t)" by (rule next_id_cong) (simp add: fr)
  have "well_typed (tg_state t')"
    using typed.kept_process_fills [of t market fills] ok p by (simp add: drawn_ok_def)
  then show "drawn_ok i t'"
    using ok nid book orders_cong [OF process_fills_orders [OF p] act] process_fills_orders [OF p]
    by (simp add: drawn_ok_def ids_below_def)
qed

text \<open>Storing a new order under the drawn identifier.\<close>

lemma store_drawn:
  assumes ok: "drawn_ok i t" and orders: "get_order s' = (get_order (tg_state t))(i := Inr (Some y))"
    and lists: "\<And>m. active_ids s' m = active_ids (tg_state t) m"
  shows "book_ok s' (tg_book t)" "mirrors s' (tg_book t)" "listed s'" "ids_below s' (i + 1)" "i \<notin> set (active_ids s' m)"
proof -
  have none: "get_order (tg_state t) i = Inr None" using ok by (simp add: drawn_ok_def ids_below_def)
  have new: "i \<notin> set (active_ids (tg_state t) m)" for m
  proof
    assume "i \<in> set (active_ids (tg_state t) m)"
    then have "order_in (tg_state t) m i" using ok by (simp add: drawn_ok_def listed_def)
    then show False using none by (simp add: order_in_def)
  qed
  show "i \<notin> set (active_ids s' m)" by (simp add: lists new)
  have old: "resting s' m b p j \<longleftrightarrow> resting (tg_state t) m b p j" if "j \<noteq> i" for m b p j
    using that by (simp add: resting_def orders)
  have "side_ok s' m b c" if "side_ok (tg_state t) m b c" for m b c
    by (rule side_ok_cong [OF that]) (use none in \<open>auto simp: orders resting_def\<close>)
  then show "book_ok s' (tg_book t)" using ok by (simp add: drawn_ok_def book_ok_def)
  have "filter (resting s' m b p) (active_ids s' m) = filter (resting (tg_state t) m b p) (active_ids (tg_state t) m)" for m b p
    unfolding lists by (rule filter_cong [OF refl]) (metis new old)
  then show "mirrors s' (tg_book t)" using ok by (simp add: drawn_ok_def mirrors_def)
  have "order_in (tg_state t) m j \<Longrightarrow> order_in s' m j" for m j
    using none by (auto simp: order_in_def orders)
  then show "listed s'" using ok by (auto simp: drawn_ok_def listed_def lists)
  show "ids_below s' (i + 1)"
    using ok by (auto simp: drawn_ok_def ids_below_def orders)
qed

text \<open>Room at the level an order may join.\<close>

definition level_room :: "trading \<Rightarrow> PlaceOrderTx \<Rightarrow> bool" where
  "level_room t x \<longleftrightarrow>
     unat (lvl_total_size (or_default new_level
       (bt_get (side_book (tg_book t) (po_market_id x) (po_is_buy x)) (po_price x)))) + unat (po_size x) < 2 ^ 64"

lemma same_side_book: "same_side ob x = side_book ob (ord_market_id x) (ord_is_buy x)"
  by (simp add: same_side_def side_book_def)

lemma book_ok_invar: "book_ok s ob \<Longrightarrow> sides_invar ob"
  by (auto simp: sides_invar_def side_book_def or_default_def book_ok_def side_ok_def split: option.splits)

lemma rest_drawn:
  assumes ok: "drawn_ok i t" and y: "ord_market_id y = m" "ord_remaining_size y \<noteq> 0" "ord_status y = Active"
    and room: "unat (lvl_total_size (or_default new_level (bt_get (same_side (tg_book t) y) (ord_price y)))) +
      unat (ord_remaining_size y) < 2 ^ 64"
    and add: "add_active_order (set_order (tg_state t) i y) m i = (Inr (), s2)"
  shows "desk_ok (t\<lparr>tg_state := s2, tg_book := add_order (tg_book t) i y\<rparr>)"
proof -
  let ?s1 = "set_order (tg_state t) i y" and ?ob = "add_order (tg_book t) i y"
  have typed1: "well_typed ?s1" using ok by (simp add: drawn_ok_def)
  note st = store_drawn [OF ok, of ?s1 y]
  have st1: "book_ok ?s1 (tg_book t)" "mirrors ?s1 (tg_book t)" "listed ?s1" "ids_below ?s1 (i + 1)"
    "i \<notin> set (active_ids ?s1 k)" for k
    by (rule st; simp add: fun_eq_iff)+
  obtain s where s: "add_active_order ?s1 m i = (Inr (), s)"
    "get_active_orders_by_market s m = Inr (active_ids ?s1 m @ [i])"
    "\<forall>k. k \<noteq> m \<longrightarrow> get_active_orders_by_market s k = get_active_orders_by_market ?s1 k"
    using add_active_order_ids [OF well_typed_active [OF typed1, of m], of i] st1(5) by auto
  with add have s2: "s = s2" by simp
  have ids: "active_ids s2 k = (if k = m then active_ids ?s1 k @ [i] else active_ids ?s1 k)" for k
    using s unfolding s2 by (simp add: active_ids_def)
  have orders: "get_order s2 = get_order ?s1" by (rule add_active_order_frame(1) [OF add])
  have rest: "resting s2 = resting ?s1" by (simp add: fun_eq_iff resting_def orders)
  have inn: "order_in s2 = order_in ?s1" by (simp add: fun_eq_iff order_in_def orders)
  have here: "resting ?s1 k b p i \<longleftrightarrow> k = m \<and> b = ord_is_buy y \<and> p = ord_price y" for k b p
    using y by (auto simp: resting_def)
  have "i \<notin> set (level_ids (same_side (tg_book t) y) (ord_price y))"
    using st1(2,5) by (simp add: same_side_book mirrors_def)
  then have "book_ok ?s1 ?ob"
    using room y by (intro add_order_book_ok [OF st1(1)]) simp_all
  then have book: "book_ok s2 ?ob"
    by (simp add: book_ok_def side_ok_def level_ok_def rest remaining_of_def [abs_def] orders)
  have mir: "mirrors s2 ?ob"
    unfolding mirrors_def
  proof (intro allI)
    fix k b p
    have "filter (resting ?s1 k b p) (active_ids s2 k) =
        filter (resting ?s1 k b p) (active_ids ?s1 k) @ (if k = m \<and> b = ord_is_buy y \<and> p = ord_price y then [i] else [])"
      by (simp add: ids here)
    then show "level_ids (side_book ?ob k b) p = filter (resting s2 k b p) (active_ids s2 k)"
      using st1(2) level_ids_add_order [OF book_ok_invar [OF st1(1)], of i y k b p] y(1)
      by (auto simp: mirrors_def rest)
  qed
  have lst: "listed s2"
    using st1(3,5) y(1) by (auto simp: listed_def ids inn) (simp add: order_in_def)
  have nid: "next_id s2 = Inr (i + 1)"
    using ok next_id_cong [of s2 "tg_state t"] add_active_order_frame(2) [OF add, of StateKey_NextOrderId]
    by (simp add: drawn_ok_def set_order_def)
  have "ids_below s2 (i + 1)" using st1(4) by (simp add: ids_below_def orders)
  then show ?thesis
    using book mir lst nid typed.kept_add_active [OF typed1, of m i] add
    by (simp add: desk_ok_def trading_ok_def)
qed

text \<open>An order that does not rest is stored and joins no list.\<close>

lemma kept_drawn:
  assumes ok: "drawn_ok i t"
  shows "desk_ok (t\<lparr>tg_state := set_order (tg_state t) i y\<rparr>)"
proof -
  let ?s = "set_order (tg_state t) i y"
  have "book_ok ?s (tg_book t)" "mirrors ?s (tg_book t)" "listed ?s" "ids_below ?s (i + 1)"
    by (rule store_drawn [OF ok, of ?s y]; simp add: fun_eq_iff)+
  moreover have "next_id ?s = Inr (i + 1)"
    using ok next_id_cong [of ?s "tg_state t"] by (simp add: drawn_ok_def set_order_def)
  ultimately show ?thesis using ok by (simp add: desk_ok_def trading_ok_def drawn_ok_def)
qed

definition may_rest :: "PlaceOrderTx \<Rightarrow> bool" where
  "may_rest x \<longleftrightarrow> po_time_in_force x \<noteq> IOC \<and> po_time_in_force x \<noteq> FOK"

lemma settle_drawn:
  assumes ok: "drawn_ok i t" and y: "ord_market_id y = po_market_id x"
    and room: "may_rest x \<Longrightarrow> unat (lvl_total_size (or_default new_level
      (bt_get (same_side (tg_book t) y) (ord_price y)))) + unat (ord_remaining_size y) < 2 ^ 64"
  shows "desk_ok (snd (settle_order t x i y))"
proof (cases "ord_remaining_size y = 0 \<or> \<not> may_rest x")
  case True
  then show ?thesis
    using kept_drawn [OF ok] drawn_desk [OF ok]
    by (cases "po_time_in_force x") (auto simp: settle_order_def may_rest_def)
next
  case False
  let ?y = "y\<lparr>ord_status := Active\<rparr>"
  let ?s = "set_order (tg_state t) i ?y"
  have "well_typed ?s" using ok by (simp add: drawn_ok_def)
  then obtain s2 where add: "add_active_order ?s (po_market_id x) i = (Inr (), s2)"
    using add_active_order_ids [OF well_typed_active] by blast
  have "desk_ok (t\<lparr>tg_state := s2, tg_book := add_order (tg_book t) i ?y\<rparr>)"
    by (rule rest_drawn [OF ok _ _ _ _ add]) (use False y room in \<open>simp_all add: same_side_def\<close>)
  moreover have "settle_order t x i y = (Inr i, t\<lparr>tg_state := s2, tg_book := add_order (tg_book t) i ?y\<rparr>)"
    using False add by (cases "po_time_in_force x") (simp_all add: settle_order_def may_rest_def on_tg_state_def Let_def)
  ultimately show ?thesis by simp
qed

lemma drawn_emit [simp]: "drawn_ok i (tg_emit t e) \<longleftrightarrow> drawn_ok i t" "desk_ok (tg_emit t e) \<longleftrightarrow> desk_ok t"
  by (simp_all add: drawn_ok_def desk_ok_def trading_ok_def)

lemma same_side_order:
  "same_side ob (y\<lparr>ord_remaining_size := r\<rparr>) = same_side ob y"
  "same_side ob (new_order s trader x i) = side_book ob (po_market_id x) (po_is_buy x)"
  by (simp_all add: same_side_book new_order_def)

text \<open>The part of placing an order after its identifier is drawn.\<close>

lemma matched_desk:
  assumes drawn: "drawn_ok i t" and ord: "ord = new_order s trader x i" and room: "may_rest x \<Longrightarrow> level_room t x"
  shows "desk_ok (snd (bindR (match_tg t ord) (\<lambda>fills t. bindR (process_fills market t fills) (\<lambda>_ t.
    settle_order (tg_emit t ev) x i
      (ord\<lparr>ord_remaining_size := saturating_sub (ord_remaining_size ord) (sum_list (map fill_size fills))\<rparr>)))))"
proof -
  let ?left = "\<lambda>fills. ord\<lparr>ord_remaining_size := saturating_sub (ord_remaining_size ord) (sum_list (map fill_size fills))\<rparr>"
  let ?side = "\<lambda>t. side_book (tg_book t) (po_market_id x) (po_is_buy x)"
  obtain r2 t2 where m: "match_tg t ord = (r2, t2)" by fastforce
  have t2: "drawn_ok i t2" "?side t2 = ?side t"
    using match_tg_drawn [OF drawn m] by (simp_all add: ord same_side_order)
  have "desk_ok (snd (bindR (process_fills market t2 fills) (\<lambda>_ t. settle_order (tg_emit t ev) x i (?left fills))))" for fills
  proof -
    obtain r3 t3 where p: "process_fills market t2 fills = (r3, t3)" by fastforce
    have t3: "drawn_ok i t3" "?side t3 = ?side t" using process_fills_drawn [OF t2(1) p] t2(2) by simp_all
    have "desk_ok (snd (settle_order (tg_emit t3 ev) x i (?left fills)))"
    proof (rule settle_drawn)
      have "unat (ord_remaining_size (?left fills)) \<le> unat (po_size x)" "ord_price (?left fills) = po_price x"
        by (simp_all add: ord new_order_def unat_saturating_sub)
      then show "unat (lvl_total_size (or_default new_level (bt_get (same_side (tg_book (tg_emit t3 ev)) (?left fills))
          (ord_price (?left fills))))) + unat (ord_remaining_size (?left fills)) < 2 ^ 64" if "may_rest x"
        using room [OF that] t3(2) by (simp add: level_room_def same_side_order ord)
    qed (use t3(1) in \<open>simp_all add: ord new_order_def\<close>)
    then show ?thesis using p t3(1) drawn_desk by (cases r3) auto
  qed
  then show ?thesis using m t2(1) drawn_desk by (cases r2) auto
qed

lemma place_order_desk:
  assumes ok: "desk_ok t" and room: "may_rest x \<Longrightarrow> level_room t x"
  shows "desk_ok (snd (place_order t trader x))"
proof -
  obtain r1 s1 where nx: "next_order_id (tg_state t) = (r1, s1)" by fastforce
  have first: "on_tg_state (\<lambda>s. lift_state (next_order_id s)) t = (of_state r1, t\<lparr>tg_state := s1\<rparr>)"
    by (simp add: on_tg_state_def nx lift_state_def)
  have room1: "may_rest x \<Longrightarrow> level_room (t\<lparr>tg_state := s1\<rparr>) x" using room by (simp add: level_room_def)
  have drawn: "desk_ok (snd (bindR (on_tg_state (\<lambda>s. lift_state (next_order_id s)) t) (\<lambda>i t.
      bindR (match_tg t (new_order (tg_state t) trader x i)) (\<lambda>fills t'.
      bindR (process_fills market t' fills) (\<lambda>_ t''.
        settle_order (tg_emit t'' (ev i)) x i ((new_order (tg_state t) trader x i)\<lparr>ord_remaining_size :=
          saturating_sub (ord_remaining_size (new_order (tg_state t) trader x i)) (sum_list (map fill_size fills))\<rparr>))))))"
    for market ev
    using next_order_id_drawn [OF ok nx] ok matched_desk [OF _ refl room1] by (cases r1) (simp_all add: first)
  show ?thesis
    unfolding place_order_def Let_def
    by (rule bindR_snd [where I = desk_ok], simp add: ok, rule bindR_snd [where I = desk_ok], simp,
        rule bindR_snd [where I = desk_ok], simp, rule bindR_snd [where I = desk_ok], simp) (use drawn in simp)
qed

lemma close_position_desk:
  assumes "desk_ok t"
  shows "desk_ok (snd (close_position t trader c))"
proof -
  have close: "desk_ok t1 \<Longrightarrow> po_time_in_force x = IOC \<Longrightarrow>
      desk_ok (snd (bindR (place_order t1 trader x) (\<lambda>_ t. (Inr (), t))))" for t1 x
    by (rule bindR_snd [where I = desk_ok], rule place_order_desk) (simp_all add: may_rest_def)
  show ?thesis
    unfolding close_position_def Let_def
    by (rule bindR_snd [where I = desk_ok], simp_all add: close assms)+
qed

section \<open>Cancelling an order\<close>

lemma side_book_ok: "book_ok s ob \<Longrightarrow> side_ok s m buy (side_book ob m buy)"
  by (auto simp: book_ok_def side_book_def or_default_def side_ok_Nil split: option.splits)

lemma level_ids_remove_order:
  assumes ok: "book_ok s ob" and x: "get_order s i = Inr (Some x)"
  shows "level_ids (side_book (remove_order ob i x) m buy) p =
    filter (\<lambda>j. j \<noteq> i) (level_ids (side_book ob m buy) p)"
proof -
  let ?b = "side_book ob m buy"
  have side: "side_ok s m buy ?b" by (rule side_book_ok [OF ok])
  have book: "side_book (remove_order ob i x) m buy =
      (if m = ord_market_id x \<and> buy = ord_is_buy x
       then book_remove ?b (ord_price x) i (ord_remaining_size x) else ?b)"
    by (auto simp: side_book_def remove_order_def or_default_def book_remove_def Let_def split: option.splits)
  show ?thesis
  proof (cases "m = ord_market_id x \<and> buy = ord_is_buy x \<and> p = ord_price x")
    case True
    have "level_ids (book_remove ?b p i sz) p = filter (\<lambda>j. j \<noteq> i) (level_ids ?b p)" for sz
      using side
      by (cases "bt_get ?b p")
        (auto simp: book_remove_def level_ids_def side_ok_def level_ok_def level_remove_def level_is_empty_def
          Let_def bt_laws filter_remove1_distinct remove1_idem)
    then show ?thesis using True unfolding book by simp
  next
    case False
    have "\<not> resting s m buy p i" using False x by (auto simp: resting_get)
    then have "i \<notin> set (level_ids ?b p)" using side_ok_resting [OF side] by blast
    moreover have "level_ids (book_remove ?b (ord_price x) i (ord_remaining_size x)) p = level_ids ?b p"
      if "p \<noteq> ord_price x"
      using that side by (auto simp: book_remove_def level_ids_def side_ok_def Let_def bt_laws split: option.splits)
    ultimately show ?thesis using False unfolding book by (auto simp: filter_neq_absent)
  qed
qed

lemma cancel_order_desk:
  assumes ok: "desk_ok t"
  shows "desk_ok (snd (cancel_order t trader c))"
proof (cases "cancel_order t trader c")
  case (Pair r t')
  let ?i = "co_order_id c"
  have typed: "well_typed (tg_state t)" and book: "book_ok (tg_state t) (tg_book t)"
    using ok by (simp_all add: desk_ok_def trading_ok_def)
  show ?thesis
  proof (cases r)
    case (Inl e)
    have "is_ok (fst (remove_active_order (set_order (tg_state t) ?i x) m ?i))" for x m
      using remove_active_order_ids [OF well_typed_active [of "set_order (tg_state t) ?i x" m], of ?i] typed
      by (auto simp: is_ok_iff)
    then have "t' = t"
      using Pair Inl
      by (auto simp: cancel_order_def Let_def bindR_def on_tg_state_def is_ok_iff lift_state_def
          split: sum.splits if_splits prod.splits)
    then show ?thesis using Pair ok by simp
  next
    case (Inr u)
    then have cancel: "cancel_order t trader c = (Inr (), t')" using Pair by simp
    obtain x s where x: "get_order (tg_state t) ?i = Inr (Some x)"
      and rm: "remove_active_order (set_order (tg_state t) ?i (x\<lparr>ord_status := Cancelled\<rparr>)) (ord_market_id x) ?i = (Inr (), s)"
      and t': "tg_state t' = s" "tg_book t' = remove_order (tg_book t) ?i x"
      using cancel_order_success [OF cancel] by (metis trading.select_convs(1,3))
    let ?s1 = "set_order (tg_state t) ?i (x\<lparr>ord_status := Cancelled\<rparr>)"
    have ids: "active_ids s k = (if k = ord_market_id x then filter (\<lambda>j. j \<noteq> ?i) (active_ids (tg_state t) k)
        else active_ids (tg_state t) k)" for k
      using remove_active_order_ids [OF well_typed_active [of ?s1 "ord_market_id x"], of ?i] typed rm
        set_order_active [of "tg_state t" ?i "x\<lparr>ord_status := Cancelled\<rparr>" k]
      by (auto simp: active_ids_def)
    have orders: "get_order s = (get_order (tg_state t))(?i := Inr (Some (x\<lparr>ord_status := Cancelled\<rparr>)))"
      using remove_active_order_frame(1) [OF rm] by (simp add: fun_eq_iff)
    have rest: "resting s k b p j \<longleftrightarrow> resting (tg_state t) k b p j \<and> j \<noteq> ?i" for k b p j
      by (auto simp: orders resting_def)
    have "order_in (tg_state t) k j \<Longrightarrow> order_in s k j" for k j
      using x by (auto simp: orders order_in_def)
    then have "listed s" using ok by (auto simp: ids listed_def desk_ok_def)
    moreover have "mirrors s (tg_book t')"
      using ok
      by (auto simp: mirrors_def desk_ok_def t' level_ids_remove_order [OF book x] ids rest intro!: filter_cong)
    moreover have "well_typed s"
      using typed.kept_remove_active [of ?s1 "ord_market_id x" ?i] typed rm by simp
    ultimately show ?thesis
      using Pair cancel_order_keeps_ok [OF cancel] ok by (simp add: desk_ok_def t')
  qed
qed

section \<open>Two books with the same queues\<close>

definition size_of :: "StateManager \<Rightarrow> u64 \<Rightarrow> u64" where
  "size_of s i = (case get_order s i of Inr (Some x) \<Rightarrow> ord_remaining_size x | _ \<Rightarrow> 0)"

text \<open>No level is empty, and the size of a level is the (wrapping) sum of its orders' sizes.\<close>

definition levels_exact :: "StateManager \<Rightarrow> OrderbookManager \<Rightarrow> bool" where
  "levels_exact s ob \<longleftrightarrow> sides_invar ob \<and>
     (\<forall>m buy p l. bt_get (side_book ob m buy) p = Some l \<longrightarrow>
        lvl_orders l \<noteq> [] \<and> lvl_total_size l = sum_list (map (size_of s) (lvl_orders l)))"

lemma bt_ext:
  assumes "bt_invar a" "bt_invar b" "bt_get a = bt_get b"
  shows "a = b"
proof -
  have dist: "distinct (map fst a)" "distinct (map fst b)"
    using assms(1,2) strict_sorted_iff by (auto simp: bt_invar_def)
  have "set a = set b"
    using assms(3) map_of_inject_set [OF dist] by (simp add: bt_get_map_of)
  then have keys: "map fst a = map fst b"
    using assms(1,2) dist by (intro sorted_distinct_set_unique) (auto simp: bt_invar_def strict_sorted_iff)
  have "a = map (\<lambda>k. (k, the (map_of a k))) (map fst a)"
    unfolding map_map by (rule map_idI [symmetric]) (use dist(1) in auto)
  also have "\<dots> = map (\<lambda>k. (k, the (map_of b k))) (map fst b)"
    using assms(3) keys by (simp add: bt_get_map_of)
  also have "\<dots> = b" unfolding map_map by (rule map_idI) (use dist(2) in auto)
  finally show ?thesis .
qed

lemma exact_books_eq:
  assumes "levels_exact s ob" "levels_exact s ob'"
    and ids: "\<And>p. level_ids (side_book ob m buy) p = level_ids (side_book ob' m buy) p"
  shows "side_book ob m buy = side_book ob' m buy"
proof (rule bt_ext)
  show "bt_invar (side_book ob m buy)" "bt_invar (side_book ob' m buy)"
    using assms(1,2) by (simp_all add: levels_exact_def sides_invar_def)
  show "bt_get (side_book ob m buy) = bt_get (side_book ob' m buy)"
  proof
    fix p
    show "bt_get (side_book ob m buy) p = bt_get (side_book ob' m buy) p"
      using ids [of p] assms(1,2)
      by (cases "bt_get (side_book ob m buy) p"; cases "bt_get (side_book ob' m buy) p")
        (force simp: level_ids_def levels_exact_def)+
  qed
qed

lemma word_of_unat: "of_nat (unat w) = w" for w :: "'a::len word"
  by simp

lemma live_exact:
  assumes "book_ok s ob"
  shows "levels_exact s ob"
  unfolding levels_exact_def
proof (intro conjI allI impI book_ok_invar [OF assms])
  fix m buy p l
  assume l: "bt_get (side_book ob m buy) p = Some l"
  with side_book_ok [OF assms, of m buy] have lok: "lvl_orders l \<noteq> []" "level_ok s m buy p l"
    by (auto simp: side_ok_def)
  show "lvl_orders l \<noteq> []" by (rule lok)
  have "of_nat (sum_list (map (remaining_of s) ids)) = sum_list (map (size_of s) ids)" for ids
    by (induction ids) (auto simp: remaining_of_def size_of_def split: sum.splits option.splits)
  then show "lvl_total_size l = sum_list (map (size_of s) (lvl_orders l))"
    using lok(2) word_of_unat [of "lvl_total_size l"] by (simp add: level_ok_def)
qed

lemma add_order_exact:
  assumes "levels_exact s ob" "get_order s i = Inr (Some x)"
  shows "levels_exact s (add_order ob i x)"
  using assms
  by (auto simp: levels_exact_def sides_invar_add_order side_book_add_order book_add_def bt_laws sides_invar_def
      level_add_def new_level_def or_default_def size_of_def split: option.splits if_splits)

lemma remove_active_orders: "get_order (snd (remove_active_order s m i)) = get_order s"
  by (cases "remove_active_order s m i") (simp add: remove_active_order_frame(1))

lemma rebuild_market_exact:
  "rebuild_market m ids e = (r, e') \<Longrightarrow> get_order (eng_state e) = get_order s \<Longrightarrow>
   levels_exact s (eng_orderbook e) \<Longrightarrow>
   levels_exact s (eng_orderbook e') \<and> get_order (eng_state e') = get_order s"
proof (induction ids arbitrary: e)
  case (Cons i ids)
  show ?case
  proof (cases "get_order (eng_state e) i")
    case (Inr oo)
    then show ?thesis
      using Cons add_order_exact [of s "eng_orderbook e" i]
      by (auto simp: lift_state_def remove_active_orders split: option.splits if_splits prod.splits sum.splits)
  qed (use Cons.prems in auto)
qed simp

lemma rebuild_markets_exact:
  "rebuild_markets ms e = (r, e') \<Longrightarrow> get_order (eng_state e) = get_order s \<Longrightarrow>
   levels_exact s (eng_orderbook e) \<Longrightarrow> levels_exact s (eng_orderbook e')"
proof (induction ms arbitrary: e)
  case (Cons m ms)
  obtain ids where ids: "of_state (get_active_orders_by_market (eng_state e) m) = ids" by simp
  show ?case
  proof (cases ids)
    case (Inr xs)
    obtain r1 e1 where e1: "rebuild_market m xs e = (r1, e1)" by fastforce
    then have "levels_exact s (eng_orderbook e1) \<and> get_order (eng_state e1) = get_order s"
      using rebuild_market_exact Cons.prems by blast
    then show ?thesis using Cons e1 ids Inr by (cases r1) auto
  qed (use Cons.prems ids in auto)
qed simp

section \<open>Runs of the engine\<close>

text \<open>The operations of the engine that a transaction uses, with whatever results.\<close>

inductive engine_step :: "Engine \<Rightarrow> Engine \<Rightarrow> bool" where
  step_begin: "engine_step e (begin_tx e h height timestamp)"
| step_take: "engine_step e (snd (take_events e))"
| step_deposit: "engine_step e (snd (process_deposit e a d))"
| step_withdraw: "engine_step e (snd (process_withdraw e a w))"
| step_transfer: "engine_step e (snd (process_transfer e a t))"
| step_bridge_deposit: "engine_step e (snd (process_bridge_deposit e a bd))"
| step_bridge_withdraw: "engine_step e (snd (process_bridge_withdraw e a bw))"
| step_place: "(may_rest x \<Longrightarrow> level_room (engine_trading e) x) \<Longrightarrow> engine_step e (snd (process_place_order e a x))"
| step_cancel: "engine_step e (snd (process_cancel_order e a c))"
| step_close: "engine_step e (snd (process_close_position e a z))"
| step_set_agent: "engine_step e (snd (process_set_agent e a sa))"
| step_remove_agent: "engine_step e (snd (process_remove_agent e a ra))"

fun balance_key :: "StateKey \<Rightarrow> bool" where
  "balance_key (StateKey_Balance _ _) = True"
| "balance_key _ = False"

lemma set_balance_frame: "\<not> balance_key k \<Longrightarrow> sm_get (set_balance s a i v) k = sm_get s k"
  by (cases k) (auto simp: set_balance_def)

text \<open>The account services keep every key but balances, and the typing.\<close>

definition svc_keeps :: "StateManager \<Rightarrow> StateManager \<Rightarrow> bool" where
  "svc_keeps s s' \<longleftrightarrow> (well_typed s \<longrightarrow> well_typed s') \<and> (\<forall>k. \<not> balance_key k \<longrightarrow> sm_get s' k = sm_get s k)"

lemma svc_keeps_refl [simp]: "svc_keeps s s"
  by (simp add: svc_keeps_def)

lemma svc_keeps_set [simp]:
  "svc_keeps s (set_balance s a i v)" "svc_keeps s (set_balance (set_balance s a i v) b j w)"
  by (simp_all add: svc_keeps_def set_balance_frame)

lemma svc_frame:
  "svc_keeps (fst sv) (fst (snd (deposit sv a d)))"
  "svc_keeps (fst sv) (fst (snd (withdraw sv a w)))"
  "svc_keeps (fst sv) (fst (snd (transfer sv a t)))"
  "svc_keeps (fst sv) (fst (snd (bridge_deposit sv a bd)))"
  "svc_keeps (fst sv) (fst (snd (bridge_withdraw sv a bw)))"
  by (auto simp: deposit_def withdraw_def update_balance_def transfer_def bridge_deposit_def bridge_withdraw_def
      bindR_def Let_def split: sum.splits prod.splits)

text \<open>The invariant depends on the typing and on three kinds of keys.\<close>

lemma desk_same:
  assumes "\<And>i. sm_get s' (StateKey_Order i) = sm_get s (StateKey_Order i)"
    and "\<And>m. sm_get s' (StateKey_ActiveOrderList m) = sm_get s (StateKey_ActiveOrderList m)"
    and "sm_get s' StateKey_NextOrderId = sm_get s StateKey_NextOrderId" "well_typed s'"
    and "desk_ok \<lparr>tg_state = s, tg_ctx = ctx, tg_book = ob\<rparr>"
  shows "desk_ok \<lparr>tg_state = s', tg_ctx = ctx', tg_book = ob\<rparr>"
proof -
  have orders: "get_order s' = get_order s" by (simp add: fun_eq_iff get_order_def get_optional_sm assms(1))
  have "active_ids s' m = active_ids s m" for m by (rule active_ids_cong) (rule assms(2))
  note cong = orders_cong [OF orders this]
  have "next_id s' = next_id s" by (rule next_id_cong) (rule assms(3))
  then show ?thesis
    using assms(4,5) cong orders by (simp add: desk_ok_def trading_ok_def ids_below_def)
qed

lemma svc_keeps_desk:
  assumes "svc_keeps s s'" "desk_ok \<lparr>tg_state = s, tg_ctx = ctx, tg_book = ob\<rparr>"
  shows "desk_ok \<lparr>tg_state = s', tg_ctx = ctx', tg_book = ob\<rparr>"
  by (rule desk_same [OF _ _ _ _ assms(2)]) (use assms in \<open>simp_all add: svc_keeps_def desk_ok_def\<close>)

lemma on_svc_desk:
  assumes "\<And>sv. svc_keeps (fst sv) (fst (snd (f sv)))" "desk_ok (engine_trading e)"
  shows "desk_ok (engine_trading (snd (on_svc f e)))"
proof -
  obtain r s ctx where f: "f (eng_state e, eng_context e) = (r, s, ctx)" by (metis prod.exhaust)
  then have "svc_keeps (eng_state e) s" using assms(1) [of "(eng_state e, eng_context e)"] by simp
  then show ?thesis
    using assms(2) svc_keeps_desk f by (auto simp: on_svc_def engine_trading_def)
qed

lemma on_trading_desk:
  assumes "desk_ok (snd (f (engine_trading e)))"
  shows "desk_ok (engine_trading (snd (on_trading f e)))"
proof -
  obtain r t where f: "f (engine_trading e) = (r, t)" by fastforce
  have "engine_trading (snd (on_trading f e)) = t"
    by (simp add: on_trading_def f) (simp add: engine_trading_def)
  then show ?thesis using assms f by simp
qed

lemma desk_context:
  "desk_ok \<lparr>tg_state = s, tg_ctx = ctx', tg_book = ob\<rparr> \<longleftrightarrow> desk_ok \<lparr>tg_state = s, tg_ctx = ctx, tg_book = ob\<rparr>"
  by (simp add: desk_ok_def trading_ok_def)

lemma engine_step_desk:
  assumes "engine_step e e'" "desk_ok (engine_trading e)"
  shows "desk_ok (engine_trading e')"
  using assms
proof (cases rule: engine_step.cases)
  case (step_place x a)
  have "desk_ok (snd (place_order (engine_trading e) a x))"
    by (rule place_order_desk [OF assms(2)]) (use step_place(2) in blast)
  then show ?thesis
    using step_place(1) by (simp add: process_place_order_def on_trading_desk)
qed (use assms(2) in \<open>simp_all add: process_deposit_def process_withdraw_def process_transfer_def
      process_bridge_deposit_def process_bridge_withdraw_def process_cancel_order_def process_close_position_def
      on_svc_desk svc_frame on_trading_desk cancel_order_desk close_position_desk\<close>,
    auto simp: engine_trading_def begin_tx_def take_events_def process_set_agent_def process_remove_agent_def
      take_context_events_def intro: desk_context [THEN iffD1])

text \<open>Only a market that exists gets its first active order.\<close>

lemma remove_active_none:
  assumes "active_ids s k = []"
  shows "active_ids (snd (remove_active_order s m i)) k = []"
  using assms
  by (auto simp: active_ids_def remove_active_order_def bindR_def Let_def store_simps split: sum.splits if_splits)

lemma keeps_no_active: "keeps_fill_prices taker ps (\<lambda>s fills remaining. active_ids s k = [])"
  by (auto simp: keeps_fill_prices_def keeps_fill_def fill_maker_order_def Let_def
      split: prod.splits sum.splits if_splits)
    (metis remove_active_none set_order_active snd_conv)+

lemma add_active_other:
  assumes "k \<noteq> m"
  shows "active_ids (snd (add_active_order s m i)) k = active_ids s k"
  using assms
  by (auto simp: active_ids_def add_active_order_def bindR_def Let_def store_simps split: sum.splits)

lemma match_tg_no_active:
  "active_ids (tg_state t) k = [] \<Longrightarrow> active_ids (tg_state (snd (match_tg t x))) k = []"
  by (auto simp: match_tg_def dest: match_order_keeps_state [OF keeps_no_active] split: prod.splits)

lemma settle_no_active:
  assumes "active_ids (tg_state t) k = []" "k \<noteq> po_market_id x"
  shows "active_ids (tg_state (snd (settle_order t x i y))) k = []"
proof -
  have rest: "active_ids (tg_state t1) k = [] \<Longrightarrow> active_ids (tg_state (snd (bindR
      (on_tg_state (\<lambda>s. lift_state (add_active_order s (po_market_id x) i)) t1)
      (\<lambda>_ t2. (Inr i, t2\<lparr>tg_book := add_order (tg_book t2) i z\<rparr>))))) k = []" for t1 z
    by (rule bindR_snd [where I = "\<lambda>t. active_ids (tg_state t) k = []"])
      (use assms(2) in \<open>auto simp: on_tg_state_def lift_state_def add_active_other split: prod.splits\<close>)
  show ?thesis
    using assms by (cases "po_time_in_force x") (simp_all add: settle_order_def Let_def rest)
qed

lemma process_fills_no_active:
  "active_ids (tg_state (snd (process_fills market t fills))) k = active_ids (tg_state t) k"
proof (cases "process_fills market t fills")
  case (Pair r t')
  then show ?thesis using process_fills_frame [OF Pair] active_ids_cong [of "tg_state t'" "tg_state t" k] by simp
qed

lemma next_id_no_active:
  "active_ids (tg_state (snd (on_tg_state (\<lambda>s. lift_state (next_order_id s)) t))) k = active_ids (tg_state t) k"
  by (auto simp: on_tg_state_def lift_state_def split: prod.splits intro!: active_ids_cong)
    (auto simp: next_order_id_def bindR_def split: sum.splits)

lemma place_order_no_active:
  assumes "active_ids (tg_state t) k = []"
    and "k \<noteq> po_market_id x \<or> get_market (tg_state t) (po_market_id x) = Inr None"
  shows "active_ids (tg_state (snd (place_order t trader x))) k = []"
proof (cases "get_market (tg_state t) (po_market_id x) = Inr None")
  case False
  then have k: "k \<noteq> po_market_id x" using assms(2) by simp
  show ?thesis
    unfolding place_order_def Let_def
    by (rule bindR_snd [where I = "\<lambda>t. active_ids (tg_state t) k = []"],
        simp_all add: assms(1) k match_tg_no_active settle_no_active process_fills_no_active next_id_no_active)+
qed (use assms(1) in \<open>simp add: place_order_def\<close>)

lemma cancel_no_active:
  assumes "active_ids (tg_state t) k = []"
  shows "active_ids (tg_state (snd (cancel_order t trader c))) k = []"
proof -
  have rest: "active_ids (tg_state t1) k = [] \<Longrightarrow> active_ids (tg_state (snd (bindR
      (on_tg_state (\<lambda>s. lift_state (remove_active_order s m i)) t1) (\<lambda>_ t2. (Inr (), tg_emit t2 ev))))) k = []" for t1 m i ev
    by (rule bindR_snd [where I = "\<lambda>t. active_ids (tg_state t) k = []"])
      (auto simp: on_tg_state_def lift_state_def remove_active_none split: prod.splits)
  show ?thesis
    unfolding cancel_order_def Let_def
    by (rule bindR_snd [where I = "\<lambda>t. active_ids (tg_state t) k = []"], simp_all add: rest assms)+
qed

definition market_ok :: "u32 list \<Rightarrow> StateManager \<Rightarrow> bool" where
  "market_ok ms s \<longleftrightarrow> list_all_markets s = Inr ms \<and>
     (\<forall>k. k \<notin> set ms \<longrightarrow> get_market s k = Inr None \<and> active_ids s k = [])"

lemma market_ok_frame:
  assumes "market_ok ms s"
    and "\<And>k. sm_get s' (StateKey_Market k) = sm_get s (StateKey_Market k)"
    and "sm_get s' StateKey_MarketList = sm_get s StateKey_MarketList"
    and "\<And>k. active_ids s k = [] \<Longrightarrow> k \<notin> set ms \<Longrightarrow> active_ids s' k = []"
  shows "market_ok ms s'"
  using assms
  by (auto simp: market_ok_def list_all_markets_def get_market_def get_optional_sm get_or_default_sm)

lemma place_order_market:
  assumes "market_ok ms (tg_state t)"
  shows "market_ok ms (tg_state (snd (place_order t trader x)))"
proof (rule market_ok_frame [OF assms])
  fix k assume "active_ids (tg_state t) k = []" "k \<notin> set ms"
  then show "active_ids (tg_state (snd (place_order t trader x))) k = []"
    using assms by (intro place_order_no_active) (auto simp: market_ok_def)
qed (simp_all add: trading_frame trading_key_def)

lemma cancel_order_market:
  "market_ok ms (tg_state t) \<Longrightarrow> market_ok ms (tg_state (snd (cancel_order t trader x)))"
  by (erule market_ok_frame) (simp_all add: trading_frame trading_key_def cancel_no_active)

lemma close_position_market:
  assumes "market_ok ms (tg_state t)"
  shows "market_ok ms (tg_state (snd (close_position t trader c)))"
proof -
  have close: "market_ok ms (tg_state t) \<Longrightarrow>
      market_ok ms (tg_state (snd (bindR (place_order t trader x) (\<lambda>_ t. (Inr (), t)))))" for t x
    by (rule bindR_snd [where I = "\<lambda>t. market_ok ms (tg_state t)"]) (simp_all add: place_order_market)
  show ?thesis
    unfolding close_position_def Let_def
    by (rule bindR_snd [where I = "\<lambda>t. market_ok ms (tg_state t)"], simp_all add: close assms)+
qed

lemma on_trading_market:
  assumes "\<And>t. market_ok ms (tg_state t) \<Longrightarrow> market_ok ms (tg_state (snd (f t)))" "market_ok ms (eng_state e)"
  shows "market_ok ms (eng_state (snd (on_trading f e)))"
  using assms(1) [of "engine_trading e"] assms(2)
  by (auto simp: on_trading_def engine_trading_def split: prod.splits)

lemma on_svc_market:
  assumes "\<And>sv. svc_keeps (fst sv) (fst (snd (f sv)))" "market_ok ms (eng_state e)"
  shows "market_ok ms (eng_state (snd (on_svc f e)))"
proof -
  obtain r s ctx where f: "f (eng_state e, eng_context e) = (r, s, ctx)" by (metis prod.exhaust)
  then have keeps: "svc_keeps (eng_state e) s" using assms(1) [of "(eng_state e, eng_context e)"] by simp
  have "market_ok ms s"
    by (rule market_ok_frame [OF assms(2)])
      (use keeps active_ids_cong [of s "eng_state e"] in \<open>simp_all add: svc_keeps_def\<close>)
  then show ?thesis using f by (simp add: on_svc_def)
qed

lemma engine_step_market:
  assumes "engine_step e e'" "market_ok ms (eng_state e)"
  shows "market_ok ms (eng_state e')"
  using assms(1)
  by (cases rule: engine_step.cases)
    (use assms(2) in \<open>simp_all add: process_deposit_def process_withdraw_def process_transfer_def
      process_bridge_deposit_def process_bridge_withdraw_def process_place_order_def process_cancel_order_def
      process_close_position_def on_svc_market svc_frame on_trading_market place_order_market cancel_order_market
      close_position_market begin_tx_def take_events_def process_set_agent_def process_remove_agent_def
      take_context_events_def\<close>)

lemma engine_run_ok:
  "engine_step\<^sup>*\<^sup>* e e' \<Longrightarrow> desk_ok (engine_trading e) \<Longrightarrow> desk_ok (engine_trading e')"
  by (induction rule: rtranclp_induct) (auto intro: engine_step_desk)

lemma engine_run_market:
  "engine_step\<^sup>*\<^sup>* e e' \<Longrightarrow> market_ok ms (eng_state e) \<Longrightarrow> market_ok ms (eng_state e')"
  by (induction rule: rtranclp_induct) (auto intro: engine_step_market)

section \<open>Recovery\<close>

lemma concat_single:
  assumes "distinct ms" "\<And>k. k \<noteq> m \<Longrightarrow> f k = []" "m \<notin> set ms \<Longrightarrow> f m = []"
  shows "concat (map f ms) = f m"
  using assms
proof (induction ms)
  case (Cons k ms)
  have none: "concat (map f ks) = []" if "m \<notin> set ks" for ks
    using that Cons.prems(2) by (metis concat_eq_Nil_conv imageE list.set_map)
  show ?case
    using Cons none [of ms] by (cases "k = m") auto
qed simp

lemma rebuild_restores:
  assumes ok: "desk_ok (engine_trading e)" and ms: "market_ok ms (eng_state e)" "distinct ms"
  shows "\<exists>e'. rebuild_orderbook_from_state e = (Inr (), e') \<and> get_order (eng_state e') = get_order (eng_state e) \<and>
    (\<forall>m buy. side_book (eng_orderbook e') m buy = side_book (eng_orderbook e) m buy)"
proof -
  let ?s = "eng_state e" and ?e = "e\<lparr>eng_orderbook := new_orderbook\<rparr>"
  have live: "well_typed ?s" "book_ok ?s (eng_orderbook e)" "mirrors ?s (eng_orderbook e)" "listed ?s"
    using ok by (simp_all add: desk_ok_def trading_ok_def engine_trading_def)
  obtain e' where run: "rebuild_markets ms ?e = (Inr (), e')"
    and r: "rebuilt ?s ?e (concat (map (active_ids ?s) ms)) e'"
    using rebuild_markets_rebuilt [of ?e ?s ms] live(1) ms(2) by auto
  have "levels_exact ?s (eng_orderbook ?e)" by (simp add: levels_exact_def)
  then have exact: "levels_exact ?s (eng_orderbook e')"
    using rebuild_markets_exact [OF run] by simp
  have queue: "level_ids (side_book (eng_orderbook e') m buy) p = level_ids (side_book (eng_orderbook e) m buy) p" for m buy p
  proof -
    have "filter (resting ?s m buy p) (active_ids ?s k) = []" if "k \<noteq> m" for k
    proof -
      have "\<not> resting ?s m buy p j" if "order_in ?s k j" for j
        using that \<open>k \<noteq> m\<close> by (auto simp: order_in_def resting_get)
      then show ?thesis using live(4) by (simp add: listed_def filter_empty_conv)
    qed
    then have "concat (map (\<lambda>k. filter (resting ?s m buy p) (active_ids ?s k)) ms) =
        filter (resting ?s m buy p) (active_ids ?s m)"
      using ms by (intro concat_single) (auto simp: market_ok_def)
    then show ?thesis
      using r live(3) by (simp add: rebuilt_def mirrors_def filter_concat o_def level_ids_def [of "[]"])
  qed
  have "side_book (eng_orderbook e') m buy = side_book (eng_orderbook e) m buy" for m buy
    by (rule exact_books_eq [OF exact live_exact [OF live(2)] queue])
  then show ?thesis
    using run r ms(1) by (auto simp: rebuild_orderbook_from_state_def market_ok_def rebuilt_def)
qed

lemma well_typed_next: "well_typed s \<Longrightarrow> \<exists>n. next_id s = Inr n"
  by (auto simp: next_id_def store_simps split: option.splits dest!: well_typed_get)

lemma new_engine_desk:
  assumes "well_typed s" "\<And>i. get_order s i = Inr None" "\<And>m. get_active_orders_by_market s m = Inr []"
  shows "desk_ok (engine_trading (new_engine s))"
proof -
  have "active_ids s m = []" for m by (simp add: active_ids_def assms(3))
  moreover obtain n where "next_id s = Inr n"
    using well_typed_next [OF assms(1)] by blast
  ultimately show ?thesis
    using assms(1,2)
    by (simp add: desk_ok_def engine_trading_def new_engine_def trading_ok_def book_ok_def new_orderbook_def
        ids_below_def mirrors_def listed_def level_ids_def side_book_def or_default_def)
qed
section \<open>Properties\<close>


text \<open>The engine of a fresh database with market 0, in which account 7 places a bid of 5 at 100.\<close>

definition listed_state :: StateManager where
  "listed_state = sm_put (funded_state 60) StateKey_MarketList (VU32List [0])"

definition bid_engine :: Engine where
  "bid_engine = snd (process_place_order (new_engine listed_state) 7 (limit_order 100))"

lemma listed_state_reads [simp]:
  "get_market listed_state m = (if m = 0 then Inr (Some sample_market) else Inr None)"
  "get_balance listed_state 7 0 = Inr 60" "get_position listed_state a m = Inr None"
  "get_order listed_state i = Inr None" "get_active_orders_by_market listed_state m = Inr []"
  "list_all_markets listed_state = Inr [0]" "well_typed listed_state"
  by (simp_all add: listed_state_def funded_state_def market_state_def store_simps)

lemma bid_engine_step: "engine_step\<^sup>*\<^sup>* (new_engine listed_state) bid_engine"
  unfolding bid_engine_def
  by (rule r_into_rtranclp, rule step_place)
    (simp add: level_room_def engine_trading_def new_engine_def new_level_def or_default_def limit_order_def)

lemma bid_engine_book: "level_ids (side_book (eng_orderbook bid_engine) 0 True) 100 = [0]"
proof -
  let ?x = "limit_order 100"
  have chk: "check_order_allowed listed_state 7 ?x = Inr ()"
    by (simp add: check_order_allowed_def limit_order_def existing_margin_def sample_market_def checked_mul_def
        BASIS_POINTS_def saturating_sub_def Let_def)
  have val: "validate_order sample_market ?x = Inr ()"
    by (simp add: validate_order_def validate_price_def limit_order_def sample_market_def)
  let ?s1 = "sm_put listed_state StateKey_NextOrderId (VU64 1)"
  have nxt: "next_order_id listed_state = (Inr 0, ?s1)"
    by (simp add: next_order_id_def listed_state_def funded_state_def market_state_def store_simps checked_add_def)
  have m: "match_order new_orderbook ?s1 (new_order ?s1 7 ?x 0) = (Inr [], new_orderbook, ?s1)"
    by (simp add: match_order_def opposing_def new_orderbook_def new_order_def limit_order_def Let_def)
  show ?thesis
    using chk val nxt m
    by (simp add: bid_engine_def process_place_order_def on_trading_def engine_trading_def new_engine_def
        place_order_def limit_order_def on_tg_state_def match_tg_def settle_order_def new_order_def
        add_order_def book_add_def level_add_def level_ids_def side_book_def new_orderbook_def or_default_def
        new_level_def bt_get_def Let_def add_active_order_def listed_state_def funded_state_def market_state_def store_simps)
qed


text \<open>Recovery restores the live book.  Start an engine on a well-typed state without orders whose
  list of markets has every market once, and run any sequence of operations on it: rebuilding the
  book from the state then succeeds, changes no stored order, and gives both sides of every market
  exactly as they were, with prices, queues in time priority and level totals.\<close>

lemma recovery_restores_book:
  assumes "engine_step\<^sup>*\<^sup>* (new_engine s) e"
    and "well_typed s" "\<And>i. get_order s i = Inr None" "\<And>m. get_active_orders_by_market s m = Inr []"
    and "list_all_markets s = Inr ms" "distinct ms" "\<And>m. m \<notin> set ms \<Longrightarrow> get_market s m = Inr None"
  shows "\<exists>e'. rebuild_orderbook_from_state e = (Inr (), e') \<and> get_order (eng_state e') = get_order (eng_state e) \<and>
    (\<forall>m buy. side_book (eng_orderbook e') m buy = side_book (eng_orderbook e) m buy)"
proof (rule rebuild_restores)
  show "desk_ok (engine_trading e)"
    by (rule engine_run_ok [OF assms(1) new_engine_desk [OF assms(2-4)]])
  have "market_ok ms (eng_state (new_engine s))"
    using assms(4,5,7) by (simp add: market_ok_def new_engine_def active_ids_def)
  then show "market_ok ms (eng_state e)" by (rule engine_run_market [OF assms(1)])
qed (rule assms(6))

end
