(* ===== verification/Event_Store.thy ===== *)
theory Event_Store
  imports Transactions "HOL-Library.List_Lexorder" "HOL-Library.Sublist"
begin

text \<open>
  \<open>crates/engine/src/event_store_key.rs\<close> and \<open>event_store.rs\<close>: the keys of the event database with their
  Borsh encoding, the in-memory store and the RocksDB store behind the trait \<open>EventStore\<close>.

  The database is an ordered map from byte strings to byte strings in lexicographic order, which is
  RocksDB's default comparator.  No prefix extractor is configured, so \<open>prefix_iterator\<close> starts at the
  first key that is not below the prefix and runs to the end of the database; the loops of the code
  stop by themselves.  The Borsh encoding of a domain event is a parameter; errors of the database
  itself are left out.
\<close>

section \<open>Model\<close>

subsection \<open>Keys\<close>

datatype EventStoreKey =
    EventStoreKey_Event u64 B256 u32
  | EventStoreKey_BlockIndex u64 B256 u32
  | EventStoreKey_TxIndex B256 u32
  | EventStoreKey_MetaCount

text \<open>Borsh: the index of the variant in one byte, then the fields; integers in little-endian order,
  a hash as its 32 bytes.\<close>

fun to_bytes :: "EventStoreKey \<Rightarrow> u8 list" where
  "to_bytes (EventStoreKey_Event h tx i) = 0 # le_bytes 8 h @ be_bytes 32 tx @ le_bytes 4 i"
| "to_bytes (EventStoreKey_BlockIndex h tx i) = 1 # le_bytes 8 h @ be_bytes 32 tx @ le_bytes 4 i"
| "to_bytes (EventStoreKey_TxIndex tx i) = 2 # be_bytes 32 tx @ le_bytes 4 i"
| "to_bytes EventStoreKey_MetaCount = [3]"

fun le_word :: "u8 list \<Rightarrow> 'a::len word" where
  "le_word [] = 0"
| "le_word (b # bs) = ucast b + push_bit 8 (le_word bs)"

definition be_word :: "u8 list \<Rightarrow> 'a::len word" where
  "be_word bs = le_word (rev bs)"

text \<open>\<open>borsh::from_slice\<close>, which also refuses bytes that are left over.\<close>

fun from_bytes :: "u8 list \<Rightarrow> EventStoreKey option" where
  "from_bytes [] = None"
| "from_bytes (d # bs) =
     (if d = 0 \<and> length bs = 44 then
        Some (EventStoreKey_Event (le_word (take 8 bs)) (be_word (take 32 (drop 8 bs))) (le_word (drop 40 bs)))
      else if d = 1 \<and> length bs = 44 then
        Some (EventStoreKey_BlockIndex (le_word (take 8 bs)) (be_word (take 32 (drop 8 bs))) (le_word (drop 40 bs)))
      else if d = 2 \<and> length bs = 36 then
        Some (EventStoreKey_TxIndex (be_word (take 32 bs)) (le_word (drop 32 bs)))
      else if d = 3 \<and> bs = [] then Some EventStoreKey_MetaCount
      else None)"

definition prefix_for_events :: "u8 list" where "prefix_for_events = [0]"

definition prefix_for_block :: "u64 \<Rightarrow> u8 list" where
  "prefix_for_block h = 1 # le_bytes 8 h"

definition prefix_for_tx :: "B256 \<Rightarrow> u8 list" where
  "prefix_for_tx tx = 2 # be_bytes 32 tx"

subsection \<open>The trait and the in-memory store\<close>

datatype EventStoreError =
    EventStoreError_SerializationError string
  | EventStoreError_StorageError string
  | EventStoreError_NotFound
  | EventStoreError_Other string
  | EventStoreError_RocksDbError string

fun event_involves_address :: "Event \<Rightarrow> Address \<Rightarrow> bool" where
  "event_involves_address (Event_BalanceChanged a _ _ _ _) x = (a = x)"
| "event_involves_address (Event_Transfer a b _ _) x = (a = x \<or> b = x)"
| "event_involves_address (Event_OrderPlaced _ a _ _ _ _ _) x = (a = x)"
| "event_involves_address (Event_OrderCancelled _ a _ _) x = (a = x)"
| "event_involves_address (Event_OrderFilled _ _ a b _ _ _ _ _ _) x = (a = x \<or> b = x)"
| "event_involves_address (Event_PositionOpened a _ _ _ _ _) x = (a = x)"
| "event_involves_address (Event_PositionClosed a _ _ _ _ _) x = (a = x)"
| "event_involves_address (Event_PositionModified a _ _ _) x = (a = x)"
| "event_involves_address (Event_PositionLiquidated a _ l _ _ _ _ _) x = (a = x \<or> l = Some x)"
| "event_involves_address (Event_FundingPaid a _ _ _ _ _) x = (a = x)"
| "event_involves_address (Event_BridgeDeposit _ a _ _ _) x = (a = x)"
| "event_involves_address (Event_BridgeWithdraw _ a _ _ _ _) x = (a = x)"
| "event_involves_address (Event_AgentSet a b _) x = (a = x \<or> b = x)"
| "event_involves_address (Event_AgentRemoved a b) x = (a = x \<or> b = x)"
| "event_involves_address _ x = False"

text \<open>\<open>for height in from_height..=to_height\<close>.\<close>

definition heights :: "u64 \<Rightarrow> u64 \<Rightarrow> u64 list" where
  "heights from_height to_height = map of_nat [unat from_height ..< Suc (unat to_height)]"

record InMemoryEventStore =
  ims_events :: "DomainEvent list"
  ims_by_tx :: "B256 \<rightharpoonup> nat list"
  ims_by_block :: "u64 \<rightharpoonup> nat list"

definition ims_clear :: "InMemoryEventStore \<Rightarrow> InMemoryEventStore" where
  "ims_clear s = \<lparr>ims_events = [], ims_by_tx = Map.empty, ims_by_block = Map.empty\<rparr>"

definition push_index :: "('k \<rightharpoonup> nat list) \<Rightarrow> 'k \<Rightarrow> nat \<Rightarrow> ('k \<rightharpoonup> nat list)" where
  "push_index m k i = m(k \<mapsto> (case m k of Some is \<Rightarrow> is | None \<Rightarrow> []) @ [i])"

definition ims_push :: "InMemoryEventStore \<Rightarrow> DomainEvent \<Rightarrow> InMemoryEventStore" where
  "ims_push s e =
     (let idx = length (ims_events s) in
      \<lparr>ims_events = ims_events s @ [e],
       ims_by_tx = push_index (ims_by_tx s) (dev_tx_hash e) idx,
       ims_by_block = push_index (ims_by_block s) (dev_block_height e) idx\<rparr>)"

definition ims_append ::
  "InMemoryEventStore \<Rightarrow> DomainEvent list \<Rightarrow> (EventStoreError + unit) \<times> InMemoryEventStore" where
  "ims_append s events = (Inr (), foldl ims_push s events)"

definition ims_get_by_block_range ::
  "InMemoryEventStore \<Rightarrow> u64 \<Rightarrow> u64 \<Rightarrow> EventStoreError + DomainEvent list" where
  "ims_get_by_block_range s from_height to_height =
     Inr (concat (map (\<lambda>height. case ims_by_block s height of
            Some indices \<Rightarrow> map (\<lambda>idx. ims_events s ! idx) indices
          | None \<Rightarrow> []) (heights from_height to_height)))"

definition ims_get_by_tx :: "InMemoryEventStore \<Rightarrow> B256 \<Rightarrow> EventStoreError + DomainEvent list" where
  "ims_get_by_tx s tx =
     (case ims_by_tx s tx of
        Some indices \<Rightarrow> Inr (map (\<lambda>idx. ims_events s ! idx) indices)
      | None \<Rightarrow> Inr [])"

text \<open>The loop over the events, latest first, until \<open>limit\<close> are found.\<close>

fun collect_involving :: "Address \<Rightarrow> nat \<Rightarrow> DomainEvent list \<Rightarrow> DomainEvent list \<Rightarrow> DomainEvent list" where
  "collect_involving a limit [] acc = acc"
| "collect_involving a limit (e # es) acc =
     (if length acc \<ge> limit then acc
      else if event_involves_address (dev_event e) a then collect_involving a limit es (acc @ [e])
      else collect_involving a limit es acc)"

definition ims_get_by_address ::
  "InMemoryEventStore \<Rightarrow> Address \<Rightarrow> nat \<Rightarrow> EventStoreError + DomainEvent list" where
  "ims_get_by_address s a limit = Inr (collect_involving a limit (rev (ims_events s)) [])"

definition ims_count :: "InMemoryEventStore \<Rightarrow> EventStoreError + u64" where
  "ims_count s = Inr (of_nat (length (ims_events s)))"

subsection \<open>The RocksDB store\<close>

text \<open>The Borsh encoding of a domain event.\<close>

record event_codec =
  borsh_event :: "DomainEvent \<Rightarrow> u8 list"
  unborsh_event :: "u8 list \<Rightarrow> string + DomainEvent"

type_synonym event_db = "(u8 list, u8 list) btree_map"

record RocksDbEventStore =
  res_db :: event_db
  res_write_buffer :: "DomainEvent list"
  res_buffer_limit :: nat

definition new_event_store :: "event_db \<Rightarrow> nat \<Rightarrow> RocksDbEventStore" where
  "new_event_store d limit = \<lparr>res_db = d, res_write_buffer = [], res_buffer_limit = limit\<rparr>"

definition prefix_iterator :: "event_db \<Rightarrow> u8 list \<Rightarrow> (u8 list \<times> u8 list) list" where
  "prefix_iterator d p = filter (\<lambda>(k, v). p \<le> k) d"

definition event_key :: "DomainEvent \<Rightarrow> EventStoreKey" where
  "event_key e = EventStoreKey_Event (dev_block_height e) (dev_tx_hash e) (dev_event_index e)"

definition event_puts :: "event_codec \<Rightarrow> DomainEvent \<Rightarrow> (u8 list \<times> u8 list) list" where
  "event_puts c e =
     [(to_bytes (event_key e), borsh_event c e),
      (to_bytes (EventStoreKey_BlockIndex (dev_block_height e) (dev_tx_hash e) (dev_event_index e)), []),
      (to_bytes (EventStoreKey_TxIndex (dev_tx_hash e) (dev_event_index e)), [])]"

definition write_batch :: "event_db \<Rightarrow> (u8 list \<times> u8 list) list \<Rightarrow> event_db" where
  "write_batch d puts = foldl (\<lambda>m (k, v). bt_insert k v m) d puts"

definition res_count :: "RocksDbEventStore \<Rightarrow> EventStoreError + u64" where
  "res_count s =
     (case bt_get (res_db s) (to_bytes EventStoreKey_MetaCount) of
        Some bytes \<Rightarrow>
          if length bytes = 8 then Inr (le_word bytes)
          else Inl (EventStoreError_Other ''Invalid count format'')
      | None \<Rightarrow> Inr 0)"

definition event_flush ::
  "event_codec \<Rightarrow> RocksDbEventStore \<Rightarrow> (EventStoreError + unit) \<times> RocksDbEventStore" where
  "event_flush c s =
     (if res_write_buffer s = [] then (Inr (), s)
      else
        (let buffer_len = length (res_write_buffer s);
             batch = concat (map (event_puts c) (res_write_buffer s));
             s1 = s\<lparr>res_write_buffer := []\<rparr> in
         bindR (res_count s1, s1) (\<lambda>n s1.
           (Inr (), s1\<lparr>res_db := write_batch (res_db s1)
              (batch @ [(to_bytes EventStoreKey_MetaCount, le_bytes 8 (n + of_nat buffer_len))])\<rparr>))))"

definition res_append ::
  "event_codec \<Rightarrow> RocksDbEventStore \<Rightarrow> DomainEvent list \<Rightarrow> (EventStoreError + unit) \<times> RocksDbEventStore" where
  "res_append c s events =
     (let s1 = s\<lparr>res_write_buffer := res_write_buffer s @ events\<rparr> in
      if length (res_write_buffer s1) \<ge> res_buffer_limit s1
      then bindR (event_flush c s1) (\<lambda>_ s. (Inr (), s))
      else (Inr (), s1))"

text \<open>The flush when a store is dropped; its result is ignored.\<close>

definition res_drop :: "event_codec \<Rightarrow> RocksDbEventStore \<Rightarrow> RocksDbEventStore" where
  "res_drop c s = snd (event_flush c s)"

definition decode_event :: "event_codec \<Rightarrow> u8 list \<Rightarrow> EventStoreError + DomainEvent" where
  "decode_event c v = map_err EventStoreError_SerializationError (unborsh_event c v)"

fun block_scan ::
  "event_codec \<Rightarrow> event_db \<Rightarrow> u64 \<Rightarrow> (u8 list \<times> u8 list) list \<Rightarrow> EventStoreError + DomainEvent list" where
  "block_scan c d height [] = Inr []"
| "block_scan c d height ((k, _) # items) =
     (case from_bytes k of
        Some (EventStoreKey_BlockIndex h tx i) \<Rightarrow>
          if h = height then
            (case bt_get d (to_bytes (EventStoreKey_Event h tx i)) of
               Some v \<Rightarrow>
                 bindE (decode_event c v) (\<lambda>e.
                 bindE (block_scan c d height items) (\<lambda>es. Inr (e # es)))
             | None \<Rightarrow> block_scan c d height items)
          else Inr []
      | _ \<Rightarrow> Inr [])"

fun scan_heights ::
  "event_codec \<Rightarrow> event_db \<Rightarrow> u64 list \<Rightarrow> EventStoreError + DomainEvent list" where
  "scan_heights c d [] = Inr []"
| "scan_heights c d (h # hs) =
     bindE (block_scan c d h (prefix_iterator d (prefix_for_block h))) (\<lambda>es.
     bindE (scan_heights c d hs) (\<lambda>rest. Inr (es @ rest)))"

definition res_get_by_block_range ::
  "event_codec \<Rightarrow> RocksDbEventStore \<Rightarrow> u64 \<Rightarrow> u64 \<Rightarrow> EventStoreError + DomainEvent list" where
  "res_get_by_block_range c s from_height to_height =
     scan_heights c (res_db s) (heights from_height to_height)"

text \<open>The inner loop of \<open>get_by_tx\<close>: the first event with this hash and index, whatever its block.\<close>

fun find_event ::
  "event_codec \<Rightarrow> B256 \<Rightarrow> u32 \<Rightarrow> (u8 list \<times> u8 list) list \<Rightarrow> EventStoreError + DomainEvent option" where
  "find_event c tx idx [] = Inr None"
| "find_event c tx idx ((k, v) # items) =
     (case from_bytes k of
        Some (EventStoreKey_Event _ event_tx event_idx) \<Rightarrow>
          if event_tx = tx \<and> event_idx = idx then bindE (decode_event c v) (\<lambda>e. Inr (Some e))
          else find_event c tx idx items
      | _ \<Rightarrow> find_event c tx idx items)"

fun tx_scan ::
  "event_codec \<Rightarrow> event_db \<Rightarrow> B256 \<Rightarrow> (u8 list \<times> u8 list) list \<Rightarrow> EventStoreError + DomainEvent list" where
  "tx_scan c d tx [] = Inr []"
| "tx_scan c d tx ((k, _) # items) =
     (case from_bytes k of
        Some (EventStoreKey_TxIndex key_tx idx) \<Rightarrow>
          if key_tx = tx then
            bindE (find_event c tx idx (prefix_iterator d prefix_for_events)) (\<lambda>found.
            bindE (tx_scan c d tx items) (\<lambda>es.
              Inr (case found of Some e \<Rightarrow> e # es | None \<Rightarrow> es)))
          else Inr []
      | _ \<Rightarrow> Inr [])"

definition res_get_by_tx ::
  "event_codec \<Rightarrow> RocksDbEventStore \<Rightarrow> B256 \<Rightarrow> EventStoreError + DomainEvent list" where
  "res_get_by_tx c s tx =
     bindE (tx_scan c (res_db s) tx (prefix_iterator (res_db s) (prefix_for_tx tx))) (\<lambda>es.
       Inr (sort_key dev_event_index es))"

fun address_scan ::
  "event_codec \<Rightarrow> Address \<Rightarrow> (u8 list \<times> u8 list) list \<Rightarrow> EventStoreError + DomainEvent list" where
  "address_scan c a [] = Inr []"
| "address_scan c a ((k, v) # items) =
     (case from_bytes k of
        Some (EventStoreKey_Event _ _ _) \<Rightarrow>
          bindE (decode_event c v) (\<lambda>e.
          bindE (address_scan c a items) (\<lambda>es.
            Inr (if event_involves_address (dev_event e) a then e # es else es)))
      | _ \<Rightarrow> Inr [])"

definition res_get_by_address ::
  "event_codec \<Rightarrow> RocksDbEventStore \<Rightarrow> Address \<Rightarrow> nat \<Rightarrow> EventStoreError + DomainEvent list" where
  "res_get_by_address c s a limit =
     bindE (address_scan c a (prefix_iterator (res_db s) prefix_for_events)) (\<lambda>es.
       Inr (take limit (sort_key (\<lambda>e. - int (unat (dev_block_height e))) es)))"

section \<open>Encoding of keys\<close>

lemma nth_le_bytes [simp]: "k < n \<Longrightarrow> le_bytes n x ! k = ucast (drop_bit (8 * k) x)"
  by (simp add: le_bytes_def be_bytes_def rev_nth Suc_diff_Suc)

lemma bit_le_word:
  "bit (le_word bs :: 'a::len word) i \<longleftrightarrow> i < LENGTH('a) \<and> i div 8 < length bs \<and> bit (bs ! (i div 8)) (i mod 8)"
proof (induction bs arbitrary: i)
  case (Cons b bs)
  have disj: "\<not> (bit (ucast b :: 'a word) n \<and> bit (push_bit 8 (le_word bs :: 'a word)) n)" for n
    using bit_imp_le_length [of b n] by (auto simp: bit_simps)
  have "bit (le_word (b # bs) :: 'a word) i \<longleftrightarrow> bit (ucast b :: 'a word) i \<or> bit (push_bit 8 (le_word bs :: 'a word)) i"
    using disj by (simp add: disjunctive_add bit_or_iff)
  also have "\<dots> \<longleftrightarrow> i < LENGTH('a) \<and> i div 8 < length (b # bs) \<and> bit ((b # bs) ! (i div 8)) (i mod 8)"
  proof (cases "i < 8")
    case True
    then show ?thesis by (auto simp: bit_simps)
  next
    case False
    then have "i div 8 = Suc ((i - 8) div 8)" "i mod 8 = (i - 8) mod 8"
      by (simp_all add: le_div_geq le_mod_geq)
    with False show ?thesis using bit_imp_le_length [of b i] by (auto simp: bit_simps Cons.IH)
  qed
  finally show ?case .
qed simp

lemma le_word_le_bytes: "LENGTH('a) \<le> 8 * n \<Longrightarrow> le_word (le_bytes n x) = x" for x :: "'a::len word"
proof (rule bit_word_eqI)
  fix i
  assume n: "LENGTH('a) \<le> 8 * n" and i: "i < LENGTH('a)"
  then have "i div 8 < n" by simp
  then show "bit (le_word (le_bytes n x) :: 'a word) i = bit x i"
    using i by (simp add: bit_le_word bit_simps)
qed

lemma le_bytes_le_word:
  assumes "length bs = n" "8 * n \<le> LENGTH('a)"
  shows "le_bytes n (le_word bs :: 'a::len word) = bs"
proof (rule nth_equalityI)
  fix k
  assume "k < length (le_bytes n (le_word bs :: 'a word))"
  then have k: "k < n" by simp
  show "le_bytes n (le_word bs :: 'a word) ! k = bs ! k"
  proof (rule bit_word_eqI)
    fix i
    assume i: "i < LENGTH(8)"
    then have "8 * k + i < LENGTH('a)" "(8 * k + i) div 8 = k" "(8 * k + i) mod 8 = i"
      using k assms(2) by simp_all
    then show "bit (le_bytes n (le_word bs :: 'a word) ! k) i = bit (bs ! k) i"
      using k i assms(1) by (simp add: bit_simps bit_le_word)
  qed
qed (simp add: assms)

lemma be_word_be_bytes: "LENGTH('a) \<le> 8 * n \<Longrightarrow> be_word (be_bytes n x) = x" for x :: "'a::len word"
  using le_word_le_bytes [of n x] by (simp add: be_word_def le_bytes_def)

lemma be_bytes_be_word:
  assumes "length bs = n" "8 * n \<le> LENGTH('a)"
  shows "be_bytes n (be_word bs :: 'a::len word) = bs"
  using le_bytes_le_word [of "rev bs" n] assms by (simp add: be_word_def le_bytes_def)

lemmas word_bytes = le_word_le_bytes be_word_be_bytes le_bytes_le_word be_bytes_be_word

lemma from_to_bytes [simp]: "from_bytes (to_bytes k) = Some k"
  by (cases k) (simp_all add: word_bytes)

lemma split_fields: "take 8 xs @ take 32 (drop 8 xs) @ drop 40 xs = xs"
  using append_take_drop_id [of 8 xs] append_take_drop_id [of 32 "drop 8 xs"] by simp

lemma to_from_bytes: "from_bytes bs = Some k \<Longrightarrow> to_bytes k = bs"
  by (cases bs) (auto simp: word_bytes split_fields split: if_splits)

lemma to_bytes_inj [simp]: "to_bytes k = to_bytes k' \<longleftrightarrow> k = k'"
  by (metis from_to_bytes option.inject)

section \<open>Scanning by prefix\<close>

text \<open>In the lexicographic order the strings with a given prefix form an interval, so that the loops,
  which stop at the first key with another prefix, miss none.\<close>

lemma prefix_le: "p \<le> p @ xs" for p :: "u8 list"
  by (induction p) auto

lemma prefix_interval:
  "p \<le> k \<Longrightarrow> k \<le> k' \<Longrightarrow> prefix p k' \<Longrightarrow> prefix p k" for p k k' :: "u8 list"
proof (induction p arbitrary: k k')
  case (Cons a p)
  then show ?case by (cases k; cases k') auto
qed simp

lemma takeWhile_prefix:
  "sorted ks \<Longrightarrow> \<forall>k\<in>set ks. p \<le> k \<Longrightarrow> takeWhile (prefix p) ks = filter (prefix p) ks" for ks :: "u8 list list"
proof (induction ks)
  case (Cons k ks)
  show ?case
  proof (cases "prefix p k")
    case False
    then have "\<forall>k'\<in>set ks. \<not> prefix p k'"
      using Cons.prems prefix_interval by auto
    with False show ?thesis by simp
  qed (use Cons in simp)
qed simp

lemma prefix_same_length: "length p = length q \<Longrightarrow> prefix p (q @ r) \<longleftrightarrow> p = q"
  by (auto simp: prefix_def)

lemma prefix_keys:
  "prefix prefix_for_events (to_bytes k) \<longleftrightarrow> (\<exists>h t i. k = EventStoreKey_Event h t i)"
  "prefix (prefix_for_block h) (to_bytes k) \<longleftrightarrow> (\<exists>t i. k = EventStoreKey_BlockIndex h t i)"
  "prefix (prefix_for_tx t) (to_bytes k) \<longleftrightarrow> (\<exists>i. k = EventStoreKey_TxIndex t i)"
  by (cases k; simp add: prefix_for_events_def prefix_for_block_def prefix_for_tx_def prefix_same_length
      le_bytes8_inj be_bytes32_inj; blast)+

lemma prefix_iterator_keys:
  assumes "bt_invar d"
  shows "map fst (takeWhile (\<lambda>x. prefix p (fst x)) (prefix_iterator d p)) = filter (prefix p) (bt_keys d)"
proof -
  have "map fst (takeWhile (\<lambda>x. prefix p (fst x)) (prefix_iterator d p)) =
      takeWhile (prefix p) (filter (\<lambda>k. p \<le> k) (bt_keys d))"
    by (simp add: prefix_iterator_def bt_keys_def takeWhile_map filter_map case_prod_beta' comp_def)
  also have "\<dots> = filter (prefix p) (filter (\<lambda>k. p \<le> k) (bt_keys d))"
    using bt.keys_sorted [OF assms] by (intro takeWhile_prefix) (auto simp: sorted_wrt_filter)
  also have "\<dots> = filter (prefix p) (bt_keys d)"
    by (auto simp: filter_filter prefix_def prefix_le intro!: filter_cong)
  finally show ?thesis .
qed

section \<open>The invariant of the database\<close>

declare to_bytes.simps [simp del]

text \<open>The events that the codec decodes to what was encoded; Borsh does so for all.\<close>

definition codable :: "event_codec \<Rightarrow> DomainEvent set" where
  "codable c = {e. unborsh_event c (borsh_event c e) = Inr e}"

definition block_index_key :: "DomainEvent \<Rightarrow> EventStoreKey" where
  "block_index_key e = EventStoreKey_BlockIndex (dev_block_height e) (dev_tx_hash e) (dev_event_index e)"

definition tx_index_key :: "DomainEvent \<Rightarrow> EventStoreKey" where
  "tx_index_key e = EventStoreKey_TxIndex (dev_tx_hash e) (dev_event_index e)"

text \<open>The events of a database: those found under their own key.\<close>

definition stored_events :: "event_codec \<Rightarrow> event_db \<Rightarrow> DomainEvent set" where
  "stored_events c d = {e \<in> codable c. bt_get d (to_bytes (event_key e)) = Some (borsh_event c e)}"

text \<open>Every key is an encoded key; an event key leads to an event with that key; the block and the
  transaction index hold exactly the keys of stored events; a stored count has eight bytes.\<close>

definition keys_encoded :: "event_db \<Rightarrow> bool" where
  "keys_encoded d \<longleftrightarrow> (\<forall>k. bt_get d k \<noteq> None \<longrightarrow> k \<in> range to_bytes)"

definition values_encoded :: "event_codec \<Rightarrow> event_db \<Rightarrow> bool" where
  "values_encoded c d \<longleftrightarrow> (\<forall>h t i v. bt_get d (to_bytes (EventStoreKey_Event h t i)) = Some v \<longrightarrow>
     (\<exists>e\<in>codable c. v = borsh_event c e \<and> event_key e = EventStoreKey_Event h t i))"

definition block_index_ok :: "event_codec \<Rightarrow> event_db \<Rightarrow> bool" where
  "block_index_ok c d \<longleftrightarrow> (\<forall>h t i. bt_get d (to_bytes (EventStoreKey_BlockIndex h t i)) \<noteq> None \<longleftrightarrow>
     (\<exists>e\<in>stored_events c d. block_index_key e = EventStoreKey_BlockIndex h t i))"

definition tx_index_ok :: "event_codec \<Rightarrow> event_db \<Rightarrow> bool" where
  "tx_index_ok c d \<longleftrightarrow> (\<forall>t i. bt_get d (to_bytes (EventStoreKey_TxIndex t i)) \<noteq> None \<longleftrightarrow>
     (\<exists>e\<in>stored_events c d. tx_index_key e = EventStoreKey_TxIndex t i))"

definition count_ok :: "event_db \<Rightarrow> bool" where
  "count_ok d \<longleftrightarrow> (\<forall>v. bt_get d (to_bytes EventStoreKey_MetaCount) = Some v \<longrightarrow> length v = 8)"

definition db_ok :: "event_codec \<Rightarrow> event_db \<Rightarrow> bool" where
  "db_ok c d \<longleftrightarrow> bt_invar d \<and> keys_encoded d \<and> values_encoded c d \<and> block_index_ok c d \<and> tx_index_ok c d \<and> count_ok d"

lemma key_simps [simp]:
  "event_key e = EventStoreKey_Event h t i \<longleftrightarrow> dev_block_height e = h \<and> dev_tx_hash e = t \<and> dev_event_index e = i"
  "block_index_key e = EventStoreKey_BlockIndex h t i \<longleftrightarrow>
     dev_block_height e = h \<and> dev_tx_hash e = t \<and> dev_event_index e = i"
  "tx_index_key e = EventStoreKey_TxIndex t i \<longleftrightarrow> dev_tx_hash e = t \<and> dev_event_index e = i"
  by (auto simp: event_key_def block_index_key_def tx_index_key_def)

lemma key_eqs:
  "event_key e = event_key e' \<longleftrightarrow> dev_block_height e = dev_block_height e' \<and> dev_tx_hash e = dev_tx_hash e' \<and>
     dev_event_index e = dev_event_index e'"
  "block_index_key e = block_index_key e' \<longleftrightarrow> event_key e = event_key e'"
  "event_key e \<noteq> block_index_key e'" "event_key e \<noteq> tx_index_key e'" "block_index_key e \<noteq> tx_index_key e'"
  "event_key e \<noteq> EventStoreKey_MetaCount" "block_index_key e \<noteq> EventStoreKey_MetaCount"
  "tx_index_key e \<noteq> EventStoreKey_MetaCount"
  by (auto simp: event_key_def block_index_key_def tx_index_key_def)

lemma codable_inj: "inj_on (borsh_event c) (codable c)"
  by (rule inj_on_inverseI [where g = "\<lambda>b. projr (unborsh_event c b)"]) (simp add: codable_def)

lemma borsh_inj:
  "e \<in> codable c \<Longrightarrow> e' \<in> codable c \<Longrightarrow> borsh_event c e = borsh_event c e' \<longleftrightarrow> e = e'"
  by (rule inj_on_eq_iff [OF codable_inj])

lemma stored_unique:
  assumes "e \<in> stored_events c d" "e' \<in> stored_events c d" "event_key e = event_key e'"
  shows "e = e'"
proof -
  have "bt_get d (to_bytes (event_key e)) = Some (borsh_event c e)"
    "bt_get d (to_bytes (event_key e')) = Some (borsh_event c e')"
    using assms(1,2) by (simp_all add: stored_events_def)
  then have "borsh_event c e = borsh_event c e'"
    by (simp only: assms(3) option.inject)
  moreover have "e \<in> codable c" "e' \<in> codable c" using assms(1,2) by (simp_all add: stored_events_def)
  ultimately show ?thesis by (simp add: borsh_inj)
qed

lemma db_ok_Nil: "db_ok c []"
  by (simp add: db_ok_def stored_events_def keys_encoded_def values_encoded_def block_index_ok_def tx_index_ok_def
      count_ok_def)

text \<open>Putting one event, with its two index entries.\<close>

lemma event_puts_keys:
  "event_puts c e = [(to_bytes (event_key e), borsh_event c e), (to_bytes (block_index_key e), []), (to_bytes (tx_index_key e), [])]"
  by (simp add: event_puts_def block_index_key_def tx_index_key_def)

lemma write_batch_Nil [simp]: "write_batch d [] = d"
  and write_batch_Cons [simp]: "write_batch d ((k, v) # puts) = write_batch (bt_insert k v d) puts"
  and write_batch_append: "write_batch d (xs @ ys) = write_batch (write_batch d xs) ys"
  by (simp_all add: write_batch_def)

lemma bt_get_put_event:
  assumes "bt_invar d"
  shows "bt_get (write_batch d (event_puts c e)) = (bt_get d)(to_bytes (event_key e) \<mapsto> borsh_event c e,
     to_bytes (block_index_key e) \<mapsto> [], to_bytes (tx_index_key e) \<mapsto> [])"
    and "bt_invar (write_batch d (event_puts c e))"
  using assms by (simp_all add: event_puts_keys bt_laws)

lemma stored_put_event:
  assumes "bt_invar d" "e \<in> codable c"
  shows "stored_events c (write_batch d (event_puts c e)) =
    {e} \<union> {e' \<in> stored_events c d. event_key e' \<noteq> event_key e}"
  using assms
  by (auto simp: stored_events_def bt_get_put_event key_eqs borsh_inj simp flip: key_eqs(1))

lemma db_ok_put_event:
  assumes ok: "db_ok c d" and c: "e \<in> codable c"
  shows "db_ok c (write_batch d (event_puts c e))"
proof -
  let ?d = "write_batch d (event_puts c e)"
  have inv: "bt_invar d" using ok by (simp add: db_ok_def)
  note get = bt_get_put_event(1) [OF inv, of c e] and sto = stored_put_event [OF inv c]
  note keys = event_key_def block_index_key_def tx_index_key_def
  have "keys_encoded ?d"
    using ok by (simp add: db_ok_def keys_encoded_def get)
  moreover have "values_encoded c ?d"
    using ok c by (fastforce simp: db_ok_def values_encoded_def get keys split: if_splits)
  moreover have "block_index_ok c ?d"
    using ok by (auto simp: db_ok_def block_index_ok_def get sto keys)
  moreover have "tx_index_ok c ?d"
    using ok by (auto simp: db_ok_def tx_index_ok_def get sto keys)
  moreover have "count_ok ?d"
    using ok by (simp add: db_ok_def count_ok_def get keys)
  ultimately show ?thesis
    using bt_get_put_event(2) [OF inv] by (simp add: db_ok_def)
qed

lemma db_ok_put_events:
  "set es \<subseteq> codable c \<Longrightarrow> db_ok c d \<Longrightarrow> db_ok c (write_batch d (concat (map (event_puts c) es)))"
  by (induction es arbitrary: d) (simp_all add: write_batch_append db_ok_put_event)

lemma stored_put_events:
  assumes "set es \<subseteq> codable c" "db_ok c d" "distinct (map event_key es)"
    "\<forall>e\<in>set es. \<forall>e'\<in>stored_events c d. event_key e' \<noteq> event_key e"
  shows "stored_events c (write_batch d (concat (map (event_puts c) es))) = stored_events c d \<union> set es"
  using assms
proof (induction es arbitrary: d)
  case (Cons e es)
  let ?d = "write_batch d (event_puts c e)"
  have sto: "stored_events c ?d = insert e (stored_events c d)"
    using stored_put_event [of d e c] Cons.prems by (auto simp: db_ok_def)
  have "stored_events c (write_batch ?d (concat (map (event_puts c) es))) = stored_events c ?d \<union> set es"
    by (rule Cons.IH) (use Cons.prems db_ok_put_event sto in auto)
  then show ?case by (simp add: sto write_batch_append)
qed simp

text \<open>The count entry is not an event.\<close>

lemma put_count:
  fixes n :: u64
  assumes "db_ok c d"
  shows "db_ok c (bt_insert (to_bytes EventStoreKey_MetaCount) (le_bytes 8 n) d)"
    and "stored_events c (bt_insert (to_bytes EventStoreKey_MetaCount) (le_bytes 8 n) d) = stored_events c d"
proof -
  let ?d = "bt_insert (to_bytes EventStoreKey_MetaCount) (le_bytes 8 n) d"
  have inv: "bt_invar d" using assms by (simp add: db_ok_def)
  then have get: "bt_get ?d = (bt_get d)(to_bytes EventStoreKey_MetaCount \<mapsto> le_bytes 8 n)"
    by (simp add: bt_laws)
  show sto: "stored_events c ?d = stored_events c d"
    by (simp add: stored_events_def get event_key_def)
  show "db_ok c ?d"
    using assms inv
    by (simp add: db_ok_def keys_encoded_def values_encoded_def block_index_ok_def tx_index_ok_def count_ok_def
        get sto bt_laws)
qed

lemma res_count_ok: "db_ok c (res_db s) \<Longrightarrow> is_ok (res_count s)"
  by (auto simp: res_count_def db_ok_def count_ok_def split: option.splits)

lemma flush_result:
  assumes "set (res_write_buffer s) \<subseteq> codable c" "db_ok c (res_db s)"
  obtains s' where "event_flush c s = (Inr (), s')" "db_ok c (res_db s')" "res_write_buffer s' = []"
    "stored_events c (res_db s') = stored_events c (write_batch (res_db s) (concat (map (event_puts c) (res_write_buffer s))))"
    "res_count s' = bindE (res_count s) (\<lambda>n. Inr (n + of_nat (length (res_write_buffer s))))"
proof (cases "res_write_buffer s = []")
  case True
  moreover obtain n where "res_count s = Inr n" using res_count_ok [OF assms(2)] by (auto simp: is_ok_iff)
  ultimately show ?thesis
    using that [of s] assms by (simp add: event_flush_def)
next
  case False
  obtain n where n: "res_count s = Inr n" using res_count_ok [OF assms(2)] by (auto simp: is_ok_iff)
  let ?d = "write_batch (res_db s) (concat (map (event_puts c) (res_write_buffer s)))"
  let ?m = "n + of_nat (length (res_write_buffer s))"
  let ?s = "s\<lparr>res_write_buffer := [], res_db := bt_insert (to_bytes EventStoreKey_MetaCount) (le_bytes 8 ?m) ?d\<rparr>"
  have ok: "db_ok c ?d" using db_ok_put_events assms by blast
  have "res_count (s\<lparr>res_write_buffer := []\<rparr>) = Inr n" using n by (simp add: res_count_def)
  then have "event_flush c s = (Inr (), ?s)"
    using False by (simp add: event_flush_def Let_def write_batch_append)
  moreover have "res_count ?s = Inr ?m"
    using ok by (simp add: res_count_def db_ok_def bt_laws le_word_le_bytes)
  ultimately show ?thesis
    using that [of ?s] put_count [OF ok] n by simp
qed

text \<open>A store that is opened again on the database finds what was buffered when it was dropped.\<close>

lemma drop_keeps_buffered:
  assumes "set (res_write_buffer s) \<subseteq> codable c" "db_ok c (res_db s)"
  shows "db_ok c (res_db (res_drop c s))" "res_write_buffer (res_drop c s) = []"
    and "stored_events c (res_db (res_drop c s)) =
      stored_events c (write_batch (res_db s) (concat (map (event_puts c) (res_write_buffer s))))"
  using flush_result [OF assms] by (metis res_drop_def snd_conv)+

section \<open>Queries of the RocksDB store\<close>

lemma bt_get_in: "bt_invar d \<Longrightarrow> (k, v) \<in> set d \<Longrightarrow> bt_get d k = Some v"
  by (simp add: bt_get_map_of bt_invar_def strict_sorted_iff)

lemma key_in_db:
  assumes "db_ok c d" "(k, v) \<in> set d"
  obtains key where "k = to_bytes key" "bt_get d (to_bytes key) = Some v"
  using assms bt_get_in [of d k v] by (fastforce simp: db_ok_def keys_encoded_def)

lemma decode_stored:
  "e \<in> stored_events c d \<Longrightarrow> decode_event c (borsh_event c e) = Inr e"
  by (simp add: decode_event_def stored_events_def codable_def)

lemma event_at:
  assumes "db_ok c d" "bt_get d (to_bytes (EventStoreKey_Event h t i)) = Some v"
  obtains e where "v = borsh_event c e" "e \<in> stored_events c d" "event_key e = EventStoreKey_Event h t i"
proof -
  obtain e where "e \<in> codable c" "v = borsh_event c e" "event_key e = EventStoreKey_Event h t i"
    using assms unfolding db_ok_def values_encoded_def by blast
  moreover from this have "e \<in> stored_events c d" using assms(2) by (simp add: stored_events_def event_key_def)
  ultimately show ?thesis using that by blast
qed

text \<open>The scan of a block reads the events in the order of the index keys.\<close>

lemma block_scan_result:
  assumes ok: "db_ok c d" and "set items \<subseteq> set d"
  shows "\<exists>es. block_scan c d h items = Inr es \<and> set es \<subseteq> stored_events c d \<and>
    map (\<lambda>e. to_bytes (block_index_key e)) es = map fst (takeWhile (\<lambda>x. prefix (prefix_for_block h) (fst x)) items)"
  using assms(2)
proof (induction items)
  case (Cons x items)
  obtain k v where x: "x = (k, v)" by fastforce
  obtain key where key: "k = to_bytes key" "bt_get d (to_bytes key) = Some v"
    using Cons.prems key_in_db [OF ok, of k v] x by auto
  obtain es where es: "block_scan c d h items = Inr es" "set es \<subseteq> stored_events c d"
    "map (\<lambda>e. to_bytes (block_index_key e)) es = map fst (takeWhile (\<lambda>x. prefix (prefix_for_block h) (fst x)) items)"
    using Cons by auto
  show ?case
  proof (cases "prefix (prefix_for_block h) (to_bytes key)")
    case True
    then obtain t i where ti: "key = EventStoreKey_BlockIndex h t i" by (auto simp: prefix_keys)
    then obtain e where e: "e \<in> stored_events c d" "block_index_key e = EventStoreKey_BlockIndex h t i"
      using ok key(2) by (fastforce simp: db_ok_def block_index_ok_def)
    then have "bt_get d (to_bytes (EventStoreKey_Event h t i)) = Some (borsh_event c e)"
      by (auto simp: stored_events_def event_key_def)
    then have "block_scan c d h (x # items) = Inr (e # es)"
      by (simp add: x key(1) ti decode_stored [OF e(1)] es(1))
    then show ?thesis
      using True e es by (simp add: x key(1) ti)
  next
    case False
    then have "block_scan c d h (x # items) = Inr []"
      by (cases key) (auto simp: x key(1) prefix_keys)
    with False show ?thesis by (simp add: x key(1))
  qed
qed simp

lemma indexed_events:
  assumes es: "set es \<subseteq> stored_events c d"
    and keys: "map (\<lambda>e. to_bytes (f e)) es = filter (prefix p) (bt_keys d)" and inv: "bt_invar d"
  shows "distinct es" and "{e \<in> stored_events c d. prefix p (to_bytes (f e)) \<and> bt_get d (to_bytes (f e)) \<noteq> None \<and>
      (\<forall>e'\<in>stored_events c d. f e = f e' \<longrightarrow> e = e')} \<subseteq> set es"
proof -
  have "distinct (map (\<lambda>e. to_bytes (f e)) es)"
    unfolding keys by (simp add: bt.keys_distinct [OF inv])
  then show "distinct es" by (simp add: distinct_map)
  show "{e \<in> stored_events c d. prefix p (to_bytes (f e)) \<and> bt_get d (to_bytes (f e)) \<noteq> None \<and>
      (\<forall>e'\<in>stored_events c d. f e = f e' \<longrightarrow> e = e')} \<subseteq> set es"
  proof
    fix e
    assume e: "e \<in> {e \<in> stored_events c d. prefix p (to_bytes (f e)) \<and> bt_get d (to_bytes (f e)) \<noteq> None \<and>
      (\<forall>e'\<in>stored_events c d. f e = f e' \<longrightarrow> e = e')}"
    then have "to_bytes (f e) \<in> set (filter (prefix p) (bt_keys d))"
      by (auto simp: bt.set_keys)
    then obtain e' where "e' \<in> set es" "f e = f e'"
      unfolding keys [symmetric] by auto
    with e es show "e \<in> set es" by auto
  qed
qed

lemma block_query:
  assumes ok: "db_ok c d"
  shows "\<exists>es. block_scan c d h (prefix_iterator d (prefix_for_block h)) = Inr es \<and> distinct es \<and>
    set es = {e \<in> stored_events c d. dev_block_height e = h} \<and>
    map (\<lambda>e. to_bytes (block_index_key e)) es = filter (prefix (prefix_for_block h)) (bt_keys d)"
proof -
  have inv: "bt_invar d" using ok by (simp add: db_ok_def)
  obtain es where es: "block_scan c d h (prefix_iterator d (prefix_for_block h)) = Inr es"
    "set es \<subseteq> stored_events c d"
    and keys: "map (\<lambda>e. to_bytes (block_index_key e)) es = filter (prefix (prefix_for_block h)) (bt_keys d)"
    using block_scan_result [OF ok, of "prefix_iterator d (prefix_for_block h)" h]
    unfolding prefix_iterator_keys [OF inv] by (auto simp: prefix_iterator_def)
  note idx = indexed_events [OF es(2) keys inv]
  have "prefix (prefix_for_block h) (to_bytes (block_index_key e))" if "e \<in> set es" for e
    using that arg_cong [OF keys, of set] by auto
  then have "set es \<subseteq> {e \<in> stored_events c d. dev_block_height e = h}"
    using es(2) by (auto simp: prefix_keys)
  moreover have "e \<in> set es" if "e \<in> stored_events c d" "dev_block_height e = h" for e
  proof (rule subsetD [OF idx(2)])
    have "bt_get d (to_bytes (block_index_key e)) \<noteq> None"
      using ok that(1) by (auto simp: db_ok_def block_index_ok_def block_index_key_def)
    moreover have "\<forall>e'\<in>stored_events c d. block_index_key e = block_index_key e' \<longrightarrow> e = e'"
      using stored_unique [OF that(1)] by (simp add: key_eqs(2))
    ultimately show "e \<in> {e \<in> stored_events c d. prefix (prefix_for_block h) (to_bytes (block_index_key e)) \<and>
        bt_get d (to_bytes (block_index_key e)) \<noteq> None \<and>
        (\<forall>e'\<in>stored_events c d. block_index_key e = block_index_key e' \<longrightarrow> e = e')}"
      using that by (simp add: prefix_keys)
  qed
  ultimately show ?thesis using es(1) idx(1) keys by blast
qed

lemma set_heights: "set (heights a b) = {a..b}"
  and distinct_heights: "distinct (heights a b)"
proof -
  have "x \<in> set (heights a b) \<longleftrightarrow> a \<le> x \<and> x \<le> b" for x
  proof
    assume "x \<in> set (heights a b)"
    then obtain n where "x = of_nat n" "unat a \<le> n" "n \<le> unat b" by (auto simp: heights_def)
    moreover from this have "unat x = n" using u64_less [of b] by (simp add: unat_of_nat)
    ultimately show "a \<le> x \<and> x \<le> b" by (simp add: word_le_nat_alt)
  next
    assume "a \<le> x \<and> x \<le> b"
    then have "unat x \<in> set [unat a..<Suc (unat b)]"
      by (simp add: word_le_nat_alt less_Suc_eq_le del: upt_Suc)
    then have "(of_nat (unat x) :: u64) \<in> of_nat ` set [unat a..<Suc (unat b)]" by (rule imageI)
    then show "x \<in> set (heights a b)" by (simp add: heights_def)
  qed
  then show "set (heights a b) = {a..b}" by (simp only: set_eq_iff atLeastAtMost_iff) simp
  have "inj_on (of_nat :: nat \<Rightarrow> u64) {unat a..<Suc (unat b)}"
  proof (rule inj_on_inverseI [where g = unat])
    show "unat (of_nat n :: u64) = n" if "n \<in> {unat a..<Suc (unat b)}" for n
      using that u64_less [of b] by (simp add: unat_of_nat)
  qed
  then show "distinct (heights a b)" by (simp add: heights_def distinct_map del: upt_Suc)
qed

lemma range_query:
  assumes ok: "db_ok c d"
  shows "\<exists>es. scan_heights c d hs = Inr es \<and> set es = {e \<in> stored_events c d. dev_block_height e \<in> set hs} \<and>
    (distinct hs \<longrightarrow> distinct es)"
proof (induction hs)
  case (Cons h hs)
  then obtain es where es: "scan_heights c d hs = Inr es" "set es = {e \<in> stored_events c d. dev_block_height e \<in> set hs}"
    "distinct hs \<longrightarrow> distinct es" by blast
  obtain bs where bs: "block_scan c d h (prefix_iterator d (prefix_for_block h)) = Inr bs" "distinct bs"
    "set bs = {e \<in> stored_events c d. dev_block_height e = h}"
    using block_query [OF ok] by blast
  show ?case
    by (intro exI [of _ "bs @ es"]) (use es bs in auto)
qed simp

text \<open>The inner scan finds the first event with the hash and the index.\<close>

lemma find_event_result:
  assumes ok: "db_ok c d" and "set items \<subseteq> set d"
  shows "\<exists>r. find_event c t i items = Inr r \<and>
    (case r of
       Some e \<Rightarrow> e \<in> stored_events c d \<and> tx_index_key e = EventStoreKey_TxIndex t i
     | None \<Rightarrow> \<forall>x\<in>set items. \<forall>h. fst x \<noteq> to_bytes (EventStoreKey_Event h t i))"
  using assms(2)
proof (induction items)
  case (Cons x items)
  obtain k v where x: "x = (k, v)" by fastforce
  obtain key where key: "k = to_bytes key" "bt_get d (to_bytes key) = Some v"
    using Cons.prems key_in_db [OF ok, of k v] x by auto
  show ?case
  proof (cases "\<exists>h. key = EventStoreKey_Event h t i")
    case True
    then obtain h where h: "key = EventStoreKey_Event h t i" by blast
    obtain e where "v = borsh_event c e" "e \<in> stored_events c d" "event_key e = EventStoreKey_Event h t i"
      using event_at [OF ok, of h t i v] key(2) h by blast
    then show ?thesis
      by (intro exI [of _ "Some e"]) (simp add: x key(1) h decode_stored)
  next
    case False
    then have "find_event c t i (x # items) = find_event c t i items"
      by (cases key) (auto simp: x key(1))
    with Cons False show ?thesis
      by (auto simp: x key(1) split: option.splits)
  qed
qed simp

lemma event_in_iterator:
  assumes "db_ok c d" "e \<in> stored_events c d"
  shows "(to_bytes (event_key e), borsh_event c e) \<in> set (prefix_iterator d prefix_for_events)"
proof -
  have "prefix prefix_for_events (to_bytes (event_key e))" by (simp add: prefix_keys(1) event_key_def)
  then have "prefix_for_events \<le> to_bytes (event_key e)" by (auto simp: prefix_def prefix_le)
  moreover have "(to_bytes (event_key e), borsh_event c e) \<in> set d"
    using assms(2) by (simp add: stored_events_def bt_get_map_of map_of_SomeD)
  ultimately show ?thesis by (simp add: prefix_iterator_def)
qed

lemma find_event_in_db:
  assumes ok: "db_ok c d"
    and "e \<in> stored_events c d" "tx_index_key e = EventStoreKey_TxIndex t i"
  obtains e' where "find_event c t i (prefix_iterator d prefix_for_events) = Inr (Some e')"
    "e' \<in> stored_events c d" "tx_index_key e' = EventStoreKey_TxIndex t i"
proof -
  have "set (prefix_iterator d prefix_for_events) \<subseteq> set d" by (auto simp: prefix_iterator_def)
  from find_event_result [OF ok this, of t i]
  obtain r where r: "find_event c t i (prefix_iterator d prefix_for_events) = Inr r"
    "case r of Some e \<Rightarrow> e \<in> stored_events c d \<and> tx_index_key e = EventStoreKey_TxIndex t i
     | None \<Rightarrow> \<forall>x\<in>set (prefix_iterator d prefix_for_events). \<forall>h. fst x \<noteq> to_bytes (EventStoreKey_Event h t i)"
    by blast
  have "r \<noteq> None"
  proof
    assume "r = None"
    with r(2) event_in_iterator [OF ok assms(2)]
    have "to_bytes (event_key e) \<noteq> to_bytes (EventStoreKey_Event (dev_block_height e) t i)" by fastforce
    with assms(3) show False by simp
  qed
  with r that show ?thesis by (auto split: option.splits)
qed

lemma tx_scan_result:
  assumes ok: "db_ok c d" and "set items \<subseteq> set d"
  shows "\<exists>es. tx_scan c d t items = Inr es \<and> set es \<subseteq> stored_events c d \<and>
    map (\<lambda>e. to_bytes (tx_index_key e)) es = map fst (takeWhile (\<lambda>x. prefix (prefix_for_tx t) (fst x)) items)"
  using assms(2)
proof (induction items)
  case (Cons x items)
  obtain k v where x: "x = (k, v)" by fastforce
  obtain key where key: "k = to_bytes key" "bt_get d (to_bytes key) = Some v"
    using Cons.prems key_in_db [OF ok, of k v] x by auto
  obtain es where es: "tx_scan c d t items = Inr es" "set es \<subseteq> stored_events c d"
    "map (\<lambda>e. to_bytes (tx_index_key e)) es = map fst (takeWhile (\<lambda>x. prefix (prefix_for_tx t) (fst x)) items)"
    using Cons by auto
  show ?case
  proof (cases "prefix (prefix_for_tx t) (to_bytes key)")
    case True
    then obtain i where i: "key = EventStoreKey_TxIndex t i" by (auto simp: prefix_keys)
    then obtain e where "e \<in> stored_events c d" "tx_index_key e = EventStoreKey_TxIndex t i"
      using ok key(2) by (fastforce simp: db_ok_def tx_index_ok_def)
    from find_event_in_db [OF ok this]
    obtain e' where e': "find_event c t i (prefix_iterator d prefix_for_events) = Inr (Some e')"
      "e' \<in> stored_events c d" "tx_index_key e' = EventStoreKey_TxIndex t i" .
    then have "tx_scan c d t (x # items) = Inr (e' # es)"
      by (simp add: x key(1) i es(1))
    then show ?thesis
      using True e' es by (simp add: x key(1) i tx_index_key_def)
  next
    case False
    then have "tx_scan c d t (x # items) = Inr []"
      by (cases key) (auto simp: x key(1) prefix_keys)
    with False show ?thesis by (simp add: x key(1))
  qed
qed simp

lemma tx_query:
  assumes ok: "db_ok c d"
  shows "\<exists>es. tx_scan c d t (prefix_iterator d (prefix_for_tx t)) = Inr es \<and> distinct es \<and>
    set es \<subseteq> {e \<in> stored_events c d. dev_tx_hash e = t} \<and>
    {e \<in> stored_events c d. dev_tx_hash e = t \<and>
       (\<forall>e'\<in>stored_events c d. tx_index_key e = tx_index_key e' \<longrightarrow> e = e')} \<subseteq> set es"
proof -
  have inv: "bt_invar d" using ok by (simp add: db_ok_def)
  obtain es where es: "tx_scan c d t (prefix_iterator d (prefix_for_tx t)) = Inr es"
    "set es \<subseteq> stored_events c d"
    and keys: "map (\<lambda>e. to_bytes (tx_index_key e)) es = filter (prefix (prefix_for_tx t)) (bt_keys d)"
    using tx_scan_result [OF ok, of "prefix_iterator d (prefix_for_tx t)" t]
    unfolding prefix_iterator_keys [OF inv] by (auto simp: prefix_iterator_def)
  note idx = indexed_events [OF es(2) keys inv]
  have "prefix (prefix_for_tx t) (to_bytes (tx_index_key e))" if "e \<in> set es" for e
    using that arg_cong [OF keys, of set] by auto
  then have "set es \<subseteq> {e \<in> stored_events c d. dev_tx_hash e = t}"
    using es(2) by (auto simp: prefix_keys)
  moreover have "bt_get d (to_bytes (tx_index_key e)) \<noteq> None" if "e \<in> stored_events c d" for e
    using ok that by (auto simp: db_ok_def tx_index_ok_def tx_index_key_def)
  moreover have "prefix (prefix_for_tx t) (to_bytes (tx_index_key e)) \<longleftrightarrow> dev_tx_hash e = t" for e
    by (auto simp: prefix_keys)
  ultimately show ?thesis using es(1) idx by auto
qed

text \<open>The scan of all events.\<close>

lemma address_scan_result:
  assumes ok: "db_ok c d" and "set items \<subseteq> set d"
  shows "\<exists>es. address_scan c a items = Inr (filter (\<lambda>e. event_involves_address (dev_event e) a) es) \<and>
    set es \<subseteq> stored_events c d \<and>
    map (\<lambda>e. to_bytes (event_key e)) es = map fst (takeWhile (\<lambda>x. prefix prefix_for_events (fst x)) items)"
  using assms(2)
proof (induction items)
  case (Cons x items)
  obtain k v where x: "x = (k, v)" by fastforce
  obtain key where key: "k = to_bytes key" "bt_get d (to_bytes key) = Some v"
    using Cons.prems key_in_db [OF ok, of k v] x by auto
  obtain es where es: "address_scan c a items = Inr (filter (\<lambda>e. event_involves_address (dev_event e) a) es)"
    "set es \<subseteq> stored_events c d"
    "map (\<lambda>e. to_bytes (event_key e)) es = map fst (takeWhile (\<lambda>x. prefix prefix_for_events (fst x)) items)"
    using Cons by auto
  show ?case
  proof (cases "prefix prefix_for_events (to_bytes key)")
    case True
    then obtain h t i where hti: "key = EventStoreKey_Event h t i" by (auto simp: prefix_keys)
    obtain e where e: "v = borsh_event c e" "e \<in> stored_events c d" "event_key e = EventStoreKey_Event h t i"
      using event_at [OF ok, of h t i v] key(2) hti by blast
    then have "address_scan c a (x # items) = Inr (filter (\<lambda>e. event_involves_address (dev_event e) a) (e # es))"
      by (simp add: x key(1) hti decode_stored es(1))
    then show ?thesis
      using True e es by (intro exI [of _ "e # es"]) (simp add: x key(1) hti event_key_def)
  next
    case False
    then have "address_scan c a (x # items) = Inr []"
      by (cases key) (auto simp: x key(1) prefix_keys)
    with False show ?thesis by (intro exI [of _ "[]"]) (simp add: x key(1))
  qed
qed simp

lemma address_query:
  assumes ok: "db_ok c d"
  shows "\<exists>es. address_scan c a (prefix_iterator d prefix_for_events) = Inr es \<and> distinct es \<and>
    set es = {e \<in> stored_events c d. event_involves_address (dev_event e) a}"
proof -
  have inv: "bt_invar d" using ok by (simp add: db_ok_def)
  obtain es where es: "address_scan c a (prefix_iterator d prefix_for_events) =
      Inr (filter (\<lambda>e. event_involves_address (dev_event e) a) es)" "set es \<subseteq> stored_events c d"
    and keys: "map (\<lambda>e. to_bytes (event_key e)) es = filter (prefix prefix_for_events) (bt_keys d)"
    using address_scan_result [OF ok, of "prefix_iterator d prefix_for_events" a]
    unfolding prefix_iterator_keys [OF inv] by (auto simp: prefix_iterator_def)
  note idx = indexed_events [OF es(2) keys inv]
  have "stored_events c d \<subseteq> set es"
    using idx(2) stored_unique
    by (force simp: prefix_keys event_key_def stored_events_def)
  with es idx(1) show ?thesis by auto
qed

section \<open>The in-memory store\<close>

text \<open>The indices list the positions of the events of a transaction and of a block.\<close>

definition index_lists :: "('k \<rightharpoonup> nat list) \<Rightarrow> (DomainEvent \<Rightarrow> 'k) \<Rightarrow> DomainEvent list \<Rightarrow> bool" where
  "index_lists m f es \<longleftrightarrow>
     (\<forall>k. (case m k of Some is \<Rightarrow> is | None \<Rightarrow> []) = filter (\<lambda>i. f (es ! i) = k) [0..<length es])"

definition ims_ok :: "InMemoryEventStore \<Rightarrow> bool" where
  "ims_ok s \<longleftrightarrow> index_lists (ims_by_tx s) dev_tx_hash (ims_events s) \<and>
     index_lists (ims_by_block s) dev_block_height (ims_events s)"

lemma index_lists_push:
  assumes "index_lists m f es"
  shows "index_lists (push_index m (f e) (length es)) f (es @ [e])"
  unfolding index_lists_def
proof
  fix k
  have "filter (\<lambda>i. f ((es @ [e]) ! i) = k) [0..<length es] = filter (\<lambda>i. f (es ! i) = k) [0..<length es]"
    by (rule filter_cong) (simp_all add: nth_append)
  then show "(case push_index m (f e) (length es) k of Some is \<Rightarrow> is | None \<Rightarrow> []) =
      filter (\<lambda>i. f ((es @ [e]) ! i) = k) [0..<length (es @ [e])]"
    using assms by (simp add: index_lists_def push_index_def)
qed

lemma index_lists_events:
  assumes "index_lists m f es"
  shows "map (\<lambda>i. es ! i) (case m k of Some is \<Rightarrow> is | None \<Rightarrow> []) = filter (\<lambda>e. f e = k) es"
proof -
  have "filter (\<lambda>e. f e = k) es = filter (\<lambda>e. f e = k) (map (\<lambda>i. es ! i) [0..<length es])"
    by (simp add: map_nth)
  also have "\<dots> = map (\<lambda>i. es ! i) (filter (\<lambda>i. f (es ! i) = k) [0..<length es])"
    by (simp add: filter_map comp_def)
  finally show ?thesis using assms by (simp add: index_lists_def)
qed

lemma ims_push_ok: "ims_ok s \<Longrightarrow> ims_ok (ims_push s e)"
  by (simp add: ims_ok_def ims_push_def Let_def index_lists_push)

lemma ims_append_ok:
  "ims_ok s \<Longrightarrow> ims_ok (foldl ims_push s es) \<and> ims_events (foldl ims_push s es) = ims_events s @ es"
  by (induction es arbitrary: s) (simp_all add: ims_push_ok, simp add: ims_push_def Let_def)

lemma ims_queries:
  assumes "ims_ok s"
  shows "ims_get_by_tx s t = Inr (filter (\<lambda>e. dev_tx_hash e = t) (ims_events s))"
    and "ims_get_by_block_range s a b =
      Inr (concat (map (\<lambda>h. filter (\<lambda>e. dev_block_height e = h) (ims_events s)) (heights a b)))"
proof -
  have "map (\<lambda>i. ims_events s ! i) (case ims_by_tx s t of Some is \<Rightarrow> is | None \<Rightarrow> []) =
      filter (\<lambda>e. dev_tx_hash e = t) (ims_events s)"
    using assms by (intro index_lists_events) (simp add: ims_ok_def)
  then show "ims_get_by_tx s t = Inr (filter (\<lambda>e. dev_tx_hash e = t) (ims_events s))"
    by (simp add: ims_get_by_tx_def split: option.splits)
  have "(case ims_by_block s h of Some is \<Rightarrow> map (\<lambda>i. ims_events s ! i) is | None \<Rightarrow> []) =
      filter (\<lambda>e. dev_block_height e = h) (ims_events s)" for h
    using index_lists_events [of "ims_by_block s" dev_block_height "ims_events s" h] assms
    by (simp add: ims_ok_def split: option.splits)
  then show "ims_get_by_block_range s a b =
      Inr (concat (map (\<lambda>h. filter (\<lambda>e. dev_block_height e = h) (ims_events s)) (heights a b)))"
    by (simp only: ims_get_by_block_range_def)
qed

lemma collect_involving_take:
  "collect_involving a limit es acc =
     acc @ take (limit - length acc) (filter (\<lambda>e. event_involves_address (dev_event e) a) es)"
  by (induction es arbitrary: acc) (auto simp: Suc_diff_Suc take_Cons' simp flip: diff_Suc_eq_diff_pred)

section \<open>The interface of an event store\<close>

text \<open>
  What a client of the trait \<open>EventStore\<close> may rely on: a store that is told admissible events with new
  transaction positions and made to write them out holds them in addition; queries by block and by
  transaction return exactly the events held that belong there; the count is their number.  A
  \<^emph>\<open>position\<close> is the hash of the transaction and the index of the event in it.
\<close>

definition event_position :: "DomainEvent \<Rightarrow> B256 \<times> u32" where
  "event_position e = (dev_tx_hash e, dev_event_index e)"

definition fresh_events :: "DomainEvent set \<Rightarrow> DomainEvent list \<Rightarrow> bool" where
  "fresh_events E es \<longleftrightarrow> distinct (map event_position es) \<and> event_position ` set es \<inter> event_position ` E = {}"

text \<open>Storing one list after the other, as blocks are executed.\<close>

fun store_all ::
  "('s \<Rightarrow> DomainEvent list \<Rightarrow> (EventStoreError + unit) \<times> 's) \<Rightarrow> 's \<Rightarrow> DomainEvent list list \<Rightarrow> 's" where
  "store_all f s [] = s"
| "store_all f s (es # ess) = store_all f (snd (f s es)) ess"

locale event_store =
  fixes admissible :: "DomainEvent set"
    and ok :: "'s \<Rightarrow> bool"
    and contents :: "'s \<Rightarrow> DomainEvent set"
    and store :: "'s \<Rightarrow> DomainEvent list \<Rightarrow> (EventStoreError + unit) \<times> 's"
    and by_block :: "'s \<Rightarrow> u64 \<Rightarrow> u64 \<Rightarrow> EventStoreError + DomainEvent list"
    and by_tx :: "'s \<Rightarrow> B256 \<Rightarrow> EventStoreError + DomainEvent list"
    and number :: "'s \<Rightarrow> EventStoreError + u64"
  assumes store_ok: "ok s \<Longrightarrow> set es \<subseteq> admissible \<Longrightarrow> fresh_events (contents s) es \<Longrightarrow>
      \<exists>s'. store s es = (Inr (), s') \<and> ok s' \<and> contents s' = contents s \<union> set es"
    and by_block_exact: "ok s \<Longrightarrow>
      \<exists>es. by_block s a b = Inr es \<and> distinct es \<and> set es = {e \<in> contents s. dev_block_height e \<in> {a..b}}"
    and by_tx_exact: "ok s \<Longrightarrow>
      \<exists>es. by_tx s t = Inr es \<and> distinct es \<and> set es = {e \<in> contents s. dev_tx_hash e = t}"
    and number_exact: "ok s \<Longrightarrow> number s = Inr (of_nat (card (contents s)))"
begin

lemma store_all_ok:
  "ok s \<Longrightarrow> set (concat ess) \<subseteq> admissible \<Longrightarrow> fresh_events (contents s) (concat ess) \<Longrightarrow>
     ok (store_all store s ess) \<and> contents (store_all store s ess) = contents s \<union> set (concat ess)"
proof (induction ess arbitrary: s)
  case (Cons es ess)
  from Cons.prems(2) have a: "set es \<subseteq> admissible" "set (concat ess) \<subseteq> admissible" by auto
  from Cons.prems(3) have f: "fresh_events (contents s) es" by (auto simp: fresh_events_def)
  obtain s' where s': "store s es = (Inr (), s')" "ok s'" "contents s' = contents s \<union> set es"
    using store_ok [OF Cons.prems(1) a(1) f] by blast
  have "fresh_events (contents s') (concat ess)"
    using Cons.prems(3)
    by (simp add: fresh_events_def s'(3) image_Un Int_Un_distrib Int_Un_distrib2 Int_commute)
  from Cons.IH [OF s'(2) a(2) this] show ?case by (auto simp: s')
qed simp

text \<open>The queries after a history of stored lists depend on the events only, not on the store.\<close>

lemma history_queries:
  assumes "ok s" "contents s = {}" "set (concat ess) \<subseteq> admissible" "distinct (map event_position (concat ess))"
  shows "\<exists>es. by_tx (store_all store s ess) t = Inr es \<and> distinct es \<and> set es = {e \<in> set (concat ess). dev_tx_hash e = t}"
    and "\<exists>es. by_block (store_all store s ess) a b = Inr es \<and> distinct es \<and>
      set es = {e \<in> set (concat ess). dev_block_height e \<in> {a..b}}"
    and "number (store_all store s ess) = Inr (of_nat (length (concat ess)))"
proof -
  have "fresh_events (contents s) (concat ess)" using assms by (simp add: fresh_events_def)
  from store_all_ok [OF assms(1,3) this] have h: "ok (store_all store s ess)" "contents (store_all store s ess) = set (concat ess)"
    using assms(2) by simp_all
  from by_tx_exact [OF h(1)] by_block_exact [OF h(1)]
  show "\<exists>es. by_tx (store_all store s ess) t = Inr es \<and> distinct es \<and> set es = {e \<in> set (concat ess). dev_tx_hash e = t}"
    and "\<exists>es. by_block (store_all store s ess) a b = Inr es \<and> distinct es \<and>
      set es = {e \<in> set (concat ess). dev_block_height e \<in> {a..b}}"
    by (simp_all only: h(2))
  have "distinct (concat ess)" using assms(4) by (simp add: distinct_map)
  then show "number (store_all store s ess) = Inr (of_nat (length (concat ess)))"
    using number_exact [OF h(1)] by (simp add: h(2) distinct_card del: length_concat set_concat)
qed

end

subsection \<open>Both stores provide it\<close>

definition ims_store_ok :: "InMemoryEventStore \<Rightarrow> bool" where
  "ims_store_ok s \<longleftrightarrow> ims_ok s \<and> distinct (map event_position (ims_events s))"

lemma ims_range_exact:
  assumes "ims_store_ok s"
  shows "\<exists>es. ims_get_by_block_range s a b = Inr es \<and> distinct es \<and>
    set es = {e \<in> set (ims_events s). dev_block_height e \<in> {a..b}}"
proof -
  have d: "distinct (ims_events s)" using assms by (simp add: ims_store_ok_def distinct_map)
  have "distinct (concat (map (\<lambda>h. filter (\<lambda>e. dev_block_height e = h) (ims_events s)) hs))" if "distinct hs" for hs
    using that by (induction hs) (use d in auto)
  from this [OF distinct_heights] show ?thesis
    using ims_queries(2) [of s a b] assms
    by (auto simp: ims_store_ok_def set_heights simp del: atLeastAtMost_iff)
qed

interpretation in_memory: event_store UNIV ims_store_ok "\<lambda>s. set (ims_events s)" ims_append
  ims_get_by_block_range ims_get_by_tx ims_count
proof unfold_locales
  fix s es
  assume "ims_store_ok s" "fresh_events (set (ims_events s)) es"
  then show "\<exists>s'. ims_append s es = (Inr (), s') \<and> ims_store_ok s' \<and> set (ims_events s') = set (ims_events s) \<union> set es"
    using ims_append_ok [of s es] by (auto simp: ims_append_def ims_store_ok_def fresh_events_def)
next
  fix s t
  assume "ims_store_ok s"
  then show "\<exists>es. ims_get_by_tx s t = Inr es \<and> distinct es \<and> set es = {e \<in> set (ims_events s). dev_tx_hash e = t}"
    using ims_queries(1) [of s t] by (auto simp: ims_store_ok_def distinct_map)
next
  fix s
  assume "ims_store_ok s"
  then show "ims_count s = Inr (of_nat (card (set (ims_events s))))"
    by (simp add: ims_count_def ims_store_ok_def distinct_map distinct_card)
qed (rule ims_range_exact)

text \<open>Appending to the RocksDB store and flushing it.\<close>

definition res_store ::
  "event_codec \<Rightarrow> RocksDbEventStore \<Rightarrow> DomainEvent list \<Rightarrow> (EventStoreError + unit) \<times> RocksDbEventStore" where
  "res_store c s es = bindR (res_append c s es) (\<lambda>_ s. event_flush c s)"

definition res_contents :: "event_codec \<Rightarrow> RocksDbEventStore \<Rightarrow> DomainEvent set" where
  "res_contents c s = stored_events c (res_db s)"

definition res_ok :: "event_codec \<Rightarrow> RocksDbEventStore \<Rightarrow> bool" where
  "res_ok c s \<longleftrightarrow> db_ok c (res_db s) \<and> res_write_buffer s = [] \<and>
     inj_on event_position (res_contents c s) \<and> finite (res_contents c s) \<and>
     res_count s = Inr (of_nat (card (res_contents c s)))"

lemma res_store_flush:
  assumes "set es \<subseteq> codable c" "db_ok c (res_db s)" "res_write_buffer s = []"
  shows "res_store c s es = event_flush c (s\<lparr>res_write_buffer := es\<rparr>)"
proof (cases "res_buffer_limit s \<le> length es")
  case True
  obtain s' where s': "event_flush c (s\<lparr>res_write_buffer := es\<rparr>) = (Inr (), s')" "res_write_buffer s' = []"
    by (rule flush_result [of "s\<lparr>res_write_buffer := es\<rparr>" c]) (use assms in auto)
  then have "event_flush c s' = (Inr (), s')" by (simp add: event_flush_def)
  with s' show ?thesis using True assms(3) by (simp add: res_store_def res_append_def)
qed (use assms(3) in \<open>simp add: res_store_def res_append_def\<close>)

lemma res_store_ok:
  assumes ok: "res_ok c s" and c: "set es \<subseteq> codable c" and fresh: "fresh_events (res_contents c s) es"
  shows "\<exists>s'. res_store c s es = (Inr (), s') \<and> res_ok c s' \<and> res_contents c s' = res_contents c s \<union> set es"
proof -
  have d: "db_ok c (res_db s)" and buf: "res_write_buffer s = []"
    and inj: "inj_on event_position (res_contents c s)" and fin: "finite (res_contents c s)"
    and n: "res_count s = Inr (of_nat (card (res_contents c s)))"
    using ok by (auto simp: res_ok_def)
  let ?s = "s\<lparr>res_write_buffer := es\<rparr>"
  obtain s' where s': "event_flush c ?s = (Inr (), s')" "db_ok c (res_db s')" "res_write_buffer s' = []"
    "stored_events c (res_db s') = stored_events c (write_batch (res_db s) (concat (map (event_puts c) es)))"
    "res_count s' = bindE (res_count ?s) (\<lambda>n. Inr (n + of_nat (length es)))"
    by (rule flush_result [of ?s c]) (use c d in auto)
  have pos: "event_key e = event_key e' \<Longrightarrow> event_position e = event_position e'" for e e'
    by (simp add: key_eqs event_position_def)
  have es: "distinct es" "inj_on event_position (set es)" using fresh by (simp_all add: fresh_events_def distinct_map)
  have "inj_on event_key (set es)"
    by (rule inj_onI) (rule inj_onD [OF es(2) pos])
  then have dist: "distinct (map event_key es)" using es(1) by (simp add: distinct_map)
  have new: "\<forall>e\<in>set es. \<forall>e'\<in>res_contents c s. event_position e' \<noteq> event_position e"
    using fresh by (fastforce simp: fresh_events_def)
  have "\<forall>e\<in>set es. \<forall>e'\<in>stored_events c (res_db s). event_key e' \<noteq> event_key e"
    using new pos unfolding res_contents_def by metis
  from stored_put_events [OF c d dist this] have con: "res_contents c s' = res_contents c s \<union> set es"
    by (simp add: res_contents_def s'(4))
  have "card (res_contents c s') = card (res_contents c s) + length es"
  proof -
    have "res_contents c s \<inter> set es = {}" using new by blast
    moreover have "card (set es) = length es" using es(1) by (rule distinct_card)
    ultimately show ?thesis using fin by (simp add: con card_Un_disjoint)
  qed
  moreover have "res_count ?s = Inr (of_nat (card (res_contents c s)))" using n by (simp add: res_count_def)
  ultimately have "res_count s' = Inr (of_nat (card (res_contents c s')))" by (simp add: s'(5))
  moreover have "inj_on event_position (res_contents c s')"
  proof -
    have "event_position ` (res_contents c s - set es) \<inter> event_position ` (set es - res_contents c s) = {}"
      using new by fastforce
    then show ?thesis using inj es(2) by (simp add: con inj_on_Un)
  qed
  ultimately have "res_ok c s'"
    using s' fin by (simp add: res_ok_def con)
  then show ?thesis
    using res_store_flush [OF c d buf] s'(1) con by simp
qed

interpretation rocksdb: event_store "codable c" "res_ok c" "res_contents c" "res_store c"
  "res_get_by_block_range c" "res_get_by_tx c" res_count for c
proof unfold_locales
  fix s a b
  assume "res_ok c s"
  then show "\<exists>es. res_get_by_block_range c s a b = Inr es \<and> distinct es \<and>
      set es = {e \<in> res_contents c s. dev_block_height e \<in> {a..b}}"
    using range_query [of c "res_db s" "heights a b"]
    by (auto simp: res_ok_def res_contents_def res_get_by_block_range_def set_heights distinct_heights
        simp del: atLeastAtMost_iff)
next
  fix s t
  assume ok: "res_ok c s"
  then obtain es where es: "tx_scan c (res_db s) t (prefix_iterator (res_db s) (prefix_for_tx t)) = Inr es" "distinct es"
    "set es \<subseteq> {e \<in> res_contents c s. dev_tx_hash e = t}"
    "{e \<in> res_contents c s. dev_tx_hash e = t \<and>
       (\<forall>e'\<in>res_contents c s. tx_index_key e = tx_index_key e' \<longrightarrow> e = e')} \<subseteq> set es"
    using tx_query [of c "res_db s" t] by (auto simp: res_ok_def res_contents_def)
  have "\<forall>e'\<in>res_contents c s. tx_index_key e = tx_index_key e' \<longrightarrow> e = e'" if "e \<in> res_contents c s" for e
    using ok that inj_onD [of event_position "res_contents c s" e]
    by (auto simp: res_ok_def tx_index_key_def event_position_def)
  with es(3,4) have "set es = {e \<in> res_contents c s. dev_tx_hash e = t}" by blast
  with es(1,2) show "\<exists>es. res_get_by_tx c s t = Inr es \<and> distinct es \<and> set es = {e \<in> res_contents c s. dev_tx_hash e = t}"
    by (simp add: res_get_by_tx_def)
qed (simp_all add: res_store_ok, simp add: res_ok_def)

section \<open>Properties\<close>

text \<open>Keys are encoded without ambiguity: a byte string decodes to a key exactly when it is the
  encoding of that key.\<close>

lemma event_key_roundtrip: "from_bytes bs = Some k \<longleftrightarrow> bs = to_bytes k"
  using to_from_bytes [of bs k] by auto

text \<open>Empty stores, and a codec for the examples that knows two events.\<close>

definition empty_memory :: InMemoryEventStore where
  "empty_memory = \<lparr>ims_events = [], ims_by_tx = Map.empty, ims_by_block = Map.empty\<rparr>"

definition sample_event :: "u64 \<Rightarrow> DomainEvent" where
  "sample_event h = new_domain_event h 5 (ucast h) 0 (Event_Transfer 7 8 0 1)"

definition sample_event_codec :: event_codec where
  "sample_event_codec =
     \<lparr>borsh_event = (\<lambda>e. le_bytes 8 (dev_block_height e)),
      unborsh_event = (\<lambda>bs. Inr (sample_event (le_word bs)))\<rparr>"

lemma sample_codable: "sample_event h \<in> codable sample_event_codec"
  by (simp add: codable_def sample_event_codec_def sample_event_def new_domain_event_def le_word_le_bytes)

lemma empty_stores_ok: "ims_store_ok empty_memory" "res_ok c (new_event_store [] limit)"
  "res_contents c (new_event_store [] limit) = {}"
  by (simp_all add: empty_memory_def ims_store_ok_def ims_ok_def index_lists_def new_event_store_def res_ok_def
      res_contents_def db_ok_Nil res_count_def)
    (simp_all add: stored_events_def)



text \<open>The query by address returns the most recent events that involve the address: at most
  \<open>limit\<close> of them, each once, in descending order of their blocks, and none that is left out
  belongs to a later block than one that is returned.\<close>

lemma address_query_latest:
  assumes "res_ok c s"
  shows "\<exists>es. res_get_by_address c s a limit = Inr es \<and> length es \<le> limit \<and> distinct es \<and>
    set es \<subseteq> {e \<in> res_contents c s. event_involves_address (dev_event e) a} \<and>
    sorted_wrt (\<lambda>x y. dev_block_height y \<le> dev_block_height x) es \<and>
    (\<forall>e\<in>res_contents c s. event_involves_address (dev_event e) a \<and> e \<notin> set es \<longrightarrow>
       length es = limit \<and> (\<forall>x\<in>set es. dev_block_height e \<le> dev_block_height x))"
proof -
  let ?f = "\<lambda>e. - int (unat (dev_block_height e))"
  obtain xs where xs: "address_scan c a (prefix_iterator (res_db s) prefix_for_events) = Inr xs" "distinct xs"
    "set xs = {e \<in> res_contents c s. event_involves_address (dev_event e) a}"
    using address_query [of c "res_db s" a] assms by (auto simp: res_ok_def res_contents_def)
  define ys where "ys = sort_key ?f xs"
  have ys: "set ys = set xs" "distinct ys" "sorted_wrt (\<lambda>x y. dev_block_height y \<le> dev_block_height x) ys"
    using xs(2) sorted_sort_key [of ?f xs]
    by (simp_all add: ys_def sorted_map word_le_def)
  have res: "res_get_by_address c s a limit = Inr (take limit ys)"
    by (simp add: res_get_by_address_def xs(1) ys_def)
  have split: "sorted_wrt (\<lambda>x y. dev_block_height y \<le> dev_block_height x) (take limit ys @ drop limit ys)"
    using ys(3) by simp
  have "length (take limit ys) = limit \<and> (\<forall>x\<in>set (take limit ys). dev_block_height e \<le> dev_block_height x)"
    if "e \<in> set ys" "e \<notin> set (take limit ys)" for e
  proof -
    have "e \<in> set (take limit ys) \<union> set (drop limit ys)"
      using that(1) by (metis append_take_drop_id set_append)
    then have e: "e \<in> set (drop limit ys)" using that(2) by blast
    then have "limit < length ys" by (cases "limit < length ys") simp_all
    with e split show ?thesis by (auto simp only: sorted_wrt_append length_take min_def split: if_splits)
  qed
  moreover have "set (take limit ys) \<subseteq> set ys" by (rule set_take_subset)
  moreover have "sorted_wrt (\<lambda>x y. dev_block_height y \<le> dev_block_height x) (take limit ys)"
    using split unfolding sorted_wrt_append by blast
  ultimately show ?thesis
    using res ys(1,2) xs(3) by (intro exI [of _ "take limit ys"]) auto
qed

end
