(* ===== verification/Executor.thy ===== *)
theory Executor
  imports Trading_Invariants Engine Auth Mempool
begin

text \<open>
  \<open>crates/exec/src\<close>: the transaction executor (\<open>tx_executor.rs\<close>, \<open>error.rs\<close>) and the node service
  that builds and executes blocks (\<open>server.rs\<close>, \<open>constants.rs\<close>).

  The service's shared components are one record; each request runs under the write locks of all
  components it changes, so a request is one step.  gRPC encoding, logging and the background
  export of snapshots are not modelled.

  Proved: a transaction is executed only with the signature of its sender and the sender's
  current nonce, which it consumes; the transactions of one sender that a batch executes carry
  consecutive nonces, so none is executed twice; a block is within its size limit.
\<close>

section \<open>Model\<close>

datatype TxExecutionError =
    TxExecutionError_Auth AuthError
  | TxExecutionError_Engine EngineError
  | TxExecutionError_State StateError
  | TxExecutionError_Decode TxError
  | TxExecutionError_InvalidNonce u64 u64
  | TxExecutionError_NonceGap u64 u64
  | TxExecutionError_NotImplemented string
  | TxExecutionError_Unauthorized

record node =
  nd_engine :: Engine
  nd_auth :: AgentRegistry
  nd_mempool :: Mempool

record TxExecutionStats =
  successful :: nat
  failed :: nat

definition record_success :: "TxExecutionStats \<Rightarrow> TxExecutionStats" where
  "record_success st = st\<lparr>successful := successful st + 1\<rparr>"

definition record_failure :: "TxExecutionStats \<Rightarrow> TxExecutionStats" where
  "record_failure st = st\<lparr>failed := failed st + 1\<rparr>"

subsection \<open>Payloads\<close>

text \<open>An engine operation used with \<open>?\<close>, its value dropped.\<close>

definition run_engine ::
  "(EngineError + 'a) \<times> Engine \<Rightarrow> (TxExecutionError + unit) \<times> Engine" where
  "run_engine r = bindR (map_err TxExecutionError_Engine (fst r), snd r) (\<lambda>_ e. (Inr (), e))"

definition execute_tx_payload_readonly ::
  "Engine \<Rightarrow> Transaction \<Rightarrow> (TxExecutionError + unit) \<times> Engine" where
  "execute_tx_payload_readonly e tx =
     (case tx_payload tx of
        TxPayload_Deposit d \<Rightarrow> run_engine (process_deposit e (tx_from tx) d)
      | TxPayload_Withdraw w \<Rightarrow> run_engine (process_withdraw e (tx_from tx) w)
      | TxPayload_Transfer t \<Rightarrow> run_engine (process_transfer e (tx_from tx) t)
      | TxPayload_PlaceOrder x \<Rightarrow> run_engine (process_place_order e (tx_from tx) x)
      | TxPayload_CancelOrder x \<Rightarrow> run_engine (process_cancel_order e (tx_from tx) x)
      | TxPayload_ClosePosition x \<Rightarrow> run_engine (process_close_position e (tx_from tx) x)
      | TxPayload_SetAgent a \<Rightarrow> run_engine (process_set_agent e (tx_from tx) a)
      | TxPayload_RemoveAgent a \<Rightarrow> run_engine (process_remove_agent e (tx_from tx) a)
      | TxPayload_BridgeDeposit d \<Rightarrow> run_engine (process_bridge_deposit e (tx_from tx) d)
      | TxPayload_BridgeWithdraw w \<Rightarrow> run_engine (process_bridge_withdraw e (tx_from tx) w)
      | TxPayload_ModifyOrder _ \<Rightarrow> (Inl (TxExecutionError_NotImplemented ''ModifyOrder''), e))"

definition verify_tx_owner :: "tx_codec \<Rightarrow> recovery \<Rightarrow> Transaction \<Rightarrow> TxExecutionError + unit" where
  "verify_tx_owner c recover tx =
     bindE (map_err TxExecutionError_Auth (recover_signer c recover tx)) (\<lambda>signer.
       if signer = tx_from tx then Inr () else Inl TxExecutionError_Unauthorized)"

definition on_engine ::
  "(Engine \<Rightarrow> (TxExecutionError + 'a) \<times> Engine) \<Rightarrow> node \<Rightarrow> (TxExecutionError + 'a) \<times> node" where
  "on_engine f n = (case f (nd_engine n) of (r, e) \<Rightarrow> (r, n\<lparr>nd_engine := e\<rparr>))"

definition execute_tx_payload ::
  "tx_codec \<Rightarrow> recovery \<Rightarrow> node \<Rightarrow> Transaction \<Rightarrow> (TxExecutionError + unit) \<times> node" where
  "execute_tx_payload c recover n tx =
     (case tx_payload tx of
        TxPayload_SetAgent a \<Rightarrow>
          bindR (verify_tx_owner c recover tx, n) (\<lambda>_ n.
            on_engine (\<lambda>e. run_engine (process_set_agent e (tx_from tx) a))
              (n\<lparr>nd_auth := set_agent (nd_auth n) (tx_from tx) (sa_agent a) (sa_permissions a)\<rparr>))
      | TxPayload_RemoveAgent a \<Rightarrow>
          bindR (verify_tx_owner c recover tx, n) (\<lambda>_ n.
            on_engine (\<lambda>e. run_engine (process_remove_agent e (tx_from tx) a))
              (n\<lparr>nd_auth := remove_agent (nd_auth n) (tx_from tx) (ra_agent a)\<rparr>))
      | _ \<Rightarrow> on_engine (\<lambda>e. execute_tx_payload_readonly e tx) n)"

subsection \<open>One transaction and a batch\<close>

definition verify_nonce :: "node \<Rightarrow> Transaction \<Rightarrow> TxExecutionError + unit" where
  "verify_nonce n tx =
     bindE (map_err TxExecutionError_State (get_nonce (eng_state (nd_engine n)) (tx_from tx))) (\<lambda>current.
       if tx_nonce tx < current then Inl (TxExecutionError_InvalidNonce current (tx_nonce tx))
       else if tx_nonce tx > current then Inl (TxExecutionError_NonceGap current (tx_nonce tx))
       else Inr ())"

definition bump_nonce :: "Address \<Rightarrow> node \<Rightarrow> (TxExecutionError + u64) \<times> node" where
  "bump_nonce a = on_engine (\<lambda>e.
     case increment_nonce (eng_state e) a of
       (r, s) \<Rightarrow> (map_err TxExecutionError_State r, e\<lparr>eng_state := s\<rparr>))"

definition execute ::
  "tx_codec \<Rightarrow> recovery \<Rightarrow> node \<Rightarrow> Transaction \<Rightarrow> (TxExecutionError + unit) \<times> node" where
  "execute c recover n tx =
     bindR (map_err TxExecutionError_Auth (verify_transaction c recover tx), n) (\<lambda>_ n.
     bindR (verify_nonce n tx, n) (\<lambda>_ n.
     bindR (execute_tx_payload c recover n tx) (\<lambda>_ n.
     bindR (bump_nonce (tx_from tx) n) (\<lambda>_ n.
       (Inr (), n\<lparr>nd_mempool := snd (mempool_remove (tx_hash c tx) (nd_mempool n))\<rparr>)))))"

definition execute_bytes ::
  "tx_codec \<Rightarrow> recovery \<Rightarrow> node \<Rightarrow> u8 list \<Rightarrow> (TxExecutionError + unit) \<times> node" where
  "execute_bytes c recover n bytes =
     bindR (map_err TxExecutionError_Decode (decode_tx c bytes), n) (\<lambda>tx n. execute c recover n tx)"

fun execute_batch ::
  "tx_codec \<Rightarrow> recovery \<Rightarrow> u8 list list \<Rightarrow> TxExecutionStats \<Rightarrow> node \<Rightarrow> TxExecutionStats \<times> node" where
  "execute_batch c recover [] st n = (st, n)"
| "execute_batch c recover (b # bs) st n =
     (case execute_bytes c recover n b of
        (Inr _, n') \<Rightarrow> execute_batch c recover bs (record_success st) n'
      | (Inl _, n') \<Rightarrow> execute_batch c recover bs (record_failure st) n')"

definition execute_tx_batch ::
  "tx_codec \<Rightarrow> recovery \<Rightarrow> u8 list list \<Rightarrow> node \<Rightarrow> TxExecutionStats \<times> node" where
  "execute_tx_batch c recover bs n = execute_batch c recover bs \<lparr>successful = 0, failed = 0\<rparr> n"

subsection \<open>The node service\<close>

definition DEFAULT_MAX_BYTES :: u64 where "DEFAULT_MAX_BYTES = 1000000"
definition MAX_TXS_PER_BLOCK :: nat where "MAX_TXS_PER_BLOCK = 1000"
definition GENESIS_HEIGHT :: u64 where "GENESIS_HEIGHT = 1"

datatype Status = Status_InvalidArgument string | Status_Internal StateError

definition new_node :: "StateManager \<Rightarrow> node" where
  "new_node s = \<lparr>nd_engine = new_engine s, nd_auth = Map.empty, nd_mempool = mempool_new config_default\<rparr>"

definition on_state :: "(StateManager \<Rightarrow> (StateError + 'a) \<times> StateManager) \<Rightarrow> node \<Rightarrow> (StateError + 'a) \<times> node" where
  "on_state f n =
     (case f (eng_state (nd_engine n)) of
        (r, s) \<Rightarrow> (r, n\<lparr>nd_engine := (nd_engine n)\<lparr>eng_state := s\<rparr>\<rparr>))"

definition default_assets :: "Asset list" where
  "default_assets =
     [\<lparr>asset_id = 0, asset_symbol = ''USDC'', asset_name = ''USD Coin'', asset_decimals = 6,
       asset_is_collateral = True, asset_collateral_weight_bps = 10000\<rparr>,
      \<lparr>asset_id = 1, asset_symbol = ''USDT'', asset_name = ''Tether USD'', asset_decimals = 6,
       asset_is_collateral = True, asset_collateral_weight_bps = 9800\<rparr>,
      \<lparr>asset_id = 2, asset_symbol = ''DAI'', asset_name = ''Dai Stablecoin'', asset_decimals = 18,
       asset_is_collateral = True, asset_collateral_weight_bps = 9500\<rparr>]"

fun set_assets :: "Asset list \<Rightarrow> StateManager \<Rightarrow> (StateError + unit) \<times> StateManager" where
  "set_assets [] s = (Inr (), s)"
| "set_assets (a # as) s = bindR (set_asset s (asset_id a) a) (\<lambda>_ s. set_assets as s)"

definition initialize_assets :: "node \<Rightarrow> (StateError + unit) \<times> node" where
  "initialize_assets = on_state (set_assets default_assets)"

definition initialize_bridge_operators :: "Address list \<Rightarrow> node \<Rightarrow> (StateError + unit) \<times> node" where
  "initialize_bridge_operators ops =
     on_state (\<lambda>s. (Inr (), fold (\<lambda>a s. set_bridge_operator s a True) ops s))"

definition validate_init_chain :: "string \<Rightarrow> u64 \<Rightarrow> Status + u64" where
  "validate_init_chain chain_id initial_height =
     (if chain_id = [] then Inl (Status_InvalidArgument ''Chain ID is required'')
      else Inr (if initial_height = 0 then GENESIS_HEIGHT else initial_height))"

text \<open>The Merkle tree and the order of the database iterator, used by every commit.\<close>

type_synonym db_env = "(StateKey, state_value) Jmt \<times>
  ((StateKey StorageKey \<rightharpoonup> state_value db_value) \<Rightarrow> StateKey StorageKey list)"

definition init_chain :: "db_env \<Rightarrow> string \<Rightarrow> u64 \<Rightarrow> node \<Rightarrow> (Status + B256) \<times> node" where
  "init_chain env chain_id initial_height n =
     bindR (validate_init_chain chain_id initial_height, n) (\<lambda>height n.
       case on_state (\<lambda>s. commit_state (fst env) (snd env) (begin_block s height)) n of
         (r, n') \<Rightarrow> (map_err Status_Internal r, n'))"

text \<open>The closure of \<open>scan\<close>, which stops at the first transaction that does not fit.\<close>

fun take_fitting :: "u64 \<Rightarrow> u64 \<Rightarrow> u8 list list \<Rightarrow> u8 list list" where
  "take_fitting max_bytes used [] = []"
| "take_fitting max_bytes used (b # bs) =
     (let tx_size = of_nat (length b) in
      if used + tx_size > max_bytes then [] else b # take_fitting max_bytes (used + tx_size) bs)"

definition fetch_txs_from_mempool :: "tx_codec \<Rightarrow> Address list \<Rightarrow> u64 \<Rightarrow> node \<Rightarrow> u8 list list" where
  "fetch_txs_from_mempool c order max_bytes n =
     take_fitting max_bytes 0 (map (borsh_tx c) (ready_txs order MAX_TXS_PER_BLOCK (nd_mempool n)))"

definition execute_txs ::
  "db_env \<Rightarrow> tx_codec \<Rightarrow> recovery \<Rightarrow> u64 \<Rightarrow> u8 list list \<Rightarrow> node \<Rightarrow> (Status + B256) \<times> node" where
  "execute_txs env c recover height txs n =
     (let n1 = snd (on_state (\<lambda>s. (Inr (), begin_block s height)) n);
          n2 = snd (execute_tx_batch c recover txs n1) in
      case on_state (commit_state (fst env) (snd env)) n2 of (r, n') \<Rightarrow> (map_err Status_Internal r, n'))"

definition set_final :: "u64 \<Rightarrow> node \<Rightarrow> (Status + unit) \<times> node" where
  "set_final height n = (Inr (), n)"

section \<open>Payloads keep the nonces\<close>

text \<open>No payload writes a nonce, whether it succeeds or fails.\<close>

lemma get_nonce_cong:
  "sm_get s' (StateKey_Nonce a) = sm_get s (StateKey_Nonce a) \<Longrightarrow> get_nonce s' a = get_nonce s a"
  by (simp add: get_nonce_def get_or_default_sm)

lemma update_balance_nonce:
  "get_nonce (fst (snd (update_balance sv a i amount up reason))) b = get_nonce (fst sv) b"
  by (auto simp: update_balance_def bindR_def set_balance_def get_nonce_def get_or_default_sm
      split: sum.splits prod.splits)

lemma svc_nonce:
  "get_nonce (fst (snd (deposit sv a d))) b = get_nonce (fst sv) b"
  "get_nonce (fst (snd (withdraw sv a w))) b = get_nonce (fst sv) b"
  "get_nonce (fst (snd (transfer sv a t))) b = get_nonce (fst sv) b"
  "get_nonce (fst (snd (bridge_deposit sv a bd))) b = get_nonce (fst sv) b"
  "get_nonce (fst (snd (bridge_withdraw sv a bw))) b = get_nonce (fst sv) b"
proof -
  show "get_nonce (fst (snd (deposit sv a d))) b = get_nonce (fst sv) b"
    "get_nonce (fst (snd (withdraw sv a w))) b = get_nonce (fst sv) b"
    by (simp_all add: deposit_def withdraw_def update_balance_nonce)
  show "get_nonce (fst (snd (transfer sv a t))) b = get_nonce (fst sv) b"
    by (auto simp: transfer_def bindR_def Let_def set_balance_def get_nonce_def get_or_default_sm
        split: sum.splits prod.splits)
  show "get_nonce (fst (snd (bridge_deposit sv a bd))) b = get_nonce (fst sv) b"
    "get_nonce (fst (snd (bridge_withdraw sv a bw))) b = get_nonce (fst sv) b"
    by (auto simp: bridge_deposit_def bridge_withdraw_def bindR_def set_balance_def get_nonce_def get_or_default_sm
        split: sum.splits prod.splits)
qed

lemma trading_nonce:
  "get_nonce (tg_state (snd (place_order t trader x))) a = get_nonce (tg_state t) a"
  "get_nonce (tg_state (snd (cancel_order t trader y))) a = get_nonce (tg_state t) a"
  "get_nonce (tg_state (snd (close_position t trader z))) a = get_nonce (tg_state t) a"
  by (rule get_nonce_cong; simp add: trading_frame trading_key_def)+

definition node_nonce :: "node \<Rightarrow> Address \<Rightarrow> StateError + u64" where
  "node_nonce n a = get_nonce (eng_state (nd_engine n)) a"

lemma node_nonce_upd [simp]:
  "node_nonce (n\<lparr>nd_auth := r\<rparr>) a = node_nonce n a" "node_nonce (n\<lparr>nd_mempool := m\<rparr>) a = node_nonce n a"
  by (simp_all add: node_nonce_def)

lemma on_svc_nonce:
  assumes "\<And>sv. get_nonce (fst (snd (f sv))) a = get_nonce (fst sv) a"
  shows "get_nonce (eng_state (snd (on_svc f e))) a = get_nonce (eng_state e) a"
  using assms [of "(eng_state e, eng_context e)"] by (auto simp: on_svc_def split: prod.splits)

lemma on_trading_nonce:
  assumes "\<And>t. get_nonce (tg_state (snd (f t))) a = get_nonce (tg_state t) a"
  shows "get_nonce (eng_state (snd (on_trading f e))) a = get_nonce (eng_state e) a"
  using assms [of "engine_trading e"] by (auto simp: on_trading_def engine_trading_def split: prod.splits)

lemma run_engine_snd [simp]: "snd (run_engine r) = snd r"
  by (cases "fst r") (simp_all add: run_engine_def)

lemma payload_readonly_nonce:
  "get_nonce (eng_state (snd (execute_tx_payload_readonly e tx))) a = get_nonce (eng_state e) a"
  by (cases "tx_payload tx")
    (simp_all add: execute_tx_payload_readonly_def process_deposit_def process_withdraw_def process_transfer_def
      process_bridge_deposit_def process_bridge_withdraw_def process_place_order_def process_cancel_order_def
      process_close_position_def process_set_agent_def process_remove_agent_def on_svc_nonce svc_nonce
      on_trading_nonce trading_nonce)

lemma on_engine_nonce:
  assumes "\<And>e. get_nonce (eng_state (snd (f e))) a = get_nonce (eng_state e) a"
  shows "node_nonce (snd (on_engine f n)) a = node_nonce n a"
  using assms [of "nd_engine n"] by (auto simp: on_engine_def node_nonce_def split: prod.splits)

lemma execute_tx_payload_nonce: "node_nonce (snd (execute_tx_payload c recover n tx)) a = node_nonce n a"
proof -
  have agent: "node_nonce (snd (bindR (verify_tx_owner c recover tx, n)
      (\<lambda>_ n. on_engine f (n\<lparr>nd_auth := g n\<rparr>)))) a = node_nonce n a"
    if "\<And>e. get_nonce (eng_state (snd (f e))) a = get_nonce (eng_state e) a" for f g
    by (rule bindR_snd) (simp_all add: on_engine_nonce [OF that])
  show ?thesis
    by (cases "tx_payload tx")
      (simp_all add: execute_tx_payload_def on_engine_nonce payload_readonly_nonce agent
        process_set_agent_def process_remove_agent_def)
qed

section \<open>Signatures and nonces\<close>

lemma u64_less_succ: "k \<noteq> - 1 \<Longrightarrow> k < k + 1" for k :: u64
proof -
  assume "k \<noteq> - 1"
  then have "1 + k \<noteq> 0" by (metis add.commute eq_neg_iff_add_eq_0)
  from unatSuc [OF this] show ?thesis by (simp add: word_less_nat_alt add.commute)
qed

lemma bump_nonce_ok:
  assumes "node_nonce n a = Inr k"
  shows "\<exists>n'. bump_nonce a n = (Inr (k + 1), n') \<and> nd_mempool n' = nd_mempool n \<and> nd_auth n' = nd_auth n \<and>
    node_nonce n' b = (if b = a then Inr (k + 1) else node_nonce n b)"
  using assms
  by (auto simp: bump_nonce_def on_engine_def increment_nonce_def node_nonce_def Let_def nonces.read_write
      set_nonce_def get_nonce_def get_or_default_sm)

lemma verify_nonce_Inr: "verify_nonce n tx = Inr () \<longleftrightarrow> node_nonce n (tx_from tx) = Inr (tx_nonce tx)"
  by (auto simp: verify_nonce_def node_nonce_def result_simps split: if_splits)

lemma execute_success:
  assumes "execute c recover n tx = (Inr (), n')"
  shows "recover_signer c recover tx = Inr (tx_from tx)" "node_nonce n (tx_from tx) = Inr (tx_nonce tx)"
    and "node_nonce n' a = (if a = tx_from tx then Inr (tx_nonce tx + 1) else node_nonce n a)"
    and "\<exists>n1. nd_mempool n' = snd (mempool_remove (tx_hash c tx) (nd_mempool n1)) \<and>
      execute_tx_payload c recover n tx = (Inr (), n1)"
proof -
  obtain n1 n2 k where v: "verify_transaction c recover tx = Inr ()" "verify_nonce n tx = Inr ()"
    and p: "execute_tx_payload c recover n tx = (Inr (), n1)" and b: "bump_nonce (tx_from tx) n1 = (Inr k, n2)"
    and n': "n' = n2\<lparr>nd_mempool := snd (mempool_remove (tx_hash c tx) (nd_mempool n2))\<rparr>"
    using assms by (auto simp: execute_def result_simps)
  show "recover_signer c recover tx = Inr (tx_from tx)"
    using v(1) by (auto simp: verify_transaction_def result_simps split: if_splits)
  show nonce: "node_nonce n (tx_from tx) = Inr (tx_nonce tx)"
    using v(2) by (simp add: verify_nonce_Inr)
  have keep: "node_nonce n1 a = node_nonce n a" for a
    using execute_tx_payload_nonce [of c recover n tx a] p by simp
  show "node_nonce n' a = (if a = tx_from tx then Inr (tx_nonce tx + 1) else node_nonce n a)"
    using bump_nonce_ok [of n1 "tx_from tx" "tx_nonce tx" a] b nonce by (auto simp: keep n')
  show "\<exists>n1. nd_mempool n' = snd (mempool_remove (tx_hash c tx) (nd_mempool n1)) \<and>
      execute_tx_payload c recover n tx = (Inr (), n1)"
    using bump_nonce_ok [of n1 "tx_from tx" "tx_nonce tx"] b nonce p by (auto simp: keep n')
qed

text \<open>A failing execution has done nothing or failed in its payload: raising the nonce cannot fail
  once the nonce was read.\<close>

lemma execute_failed_payload:
  assumes "execute c recover n tx = (Inl err, n')"
  shows "n' = n \<or> execute_tx_payload c recover n tx = (Inl err, n')"
proof -
  consider "n' = n"
    | n1 where "node_nonce n (tx_from tx) = Inr (tx_nonce tx)"
        "execute_tx_payload c recover n tx = (Inr (), n1)" "bump_nonce (tx_from tx) n1 = (Inl err, n')"
    | "execute_tx_payload c recover n tx = (Inl err, n')"
    using assms
    by (auto simp: execute_def bindR_def verify_nonce_Inr [symmetric] split: sum.splits prod.splits)
  then show ?thesis
  proof cases
    case 2
    then show ?thesis
      using bump_nonce_ok [of n1 "tx_from tx" "tx_nonce tx"]
        execute_tx_payload_nonce [of c recover n tx "tx_from tx"] by auto
  qed simp_all
qed

lemma execute_failure:
  assumes "execute c recover n tx = (Inl err, n')"
  shows "node_nonce n' a = node_nonce n a"
  using execute_failed_payload [OF assms] execute_tx_payload_nonce [of c recover n tx a] by auto

section \<open>A batch\<close>

text \<open>The transactions of a batch that succeed, in order.\<close>

fun batch_executed :: "tx_codec \<Rightarrow> recovery \<Rightarrow> u8 list list \<Rightarrow> node \<Rightarrow> Transaction list" where
  "batch_executed c recover [] n = []"
| "batch_executed c recover (b # bs) n =
     (case execute_bytes c recover n b of
        (Inr _, n') \<Rightarrow>
          (case decode_tx c b of Inr tx \<Rightarrow> [tx] | Inl _ \<Rightarrow> []) @ batch_executed c recover bs n'
      | (Inl _, n') \<Rightarrow> batch_executed c recover bs n')"

lemma execute_bytes_success:
  "execute_bytes c recover n b = (Inr (), n') \<Longrightarrow>
     \<exists>tx. decode_tx c b = Inr tx \<and> execute c recover n tx = (Inr (), n')"
  by (auto simp: execute_bytes_def result_simps)

lemma execute_bytes_failure:
  "execute_bytes c recover n b = (Inl err, n') \<Longrightarrow> node_nonce n' a = node_nonce n a"
  by (cases "decode_tx c b") (auto simp: execute_bytes_def execute_failure)

text \<open>The nonces from \<open>k\<close> on, one per executed transaction.\<close>

fun nonces_from :: "u64 \<Rightarrow> nat \<Rightarrow> u64 list" where
  "nonces_from k 0 = []"
| "nonces_from k (Suc m) = k # nonces_from (k + 1) m"

lemma nonces_from_nth: "i < m \<Longrightarrow> nonces_from k m ! i = k + of_nat i"
proof (induction m arbitrary: k i)
  case (Suc m)
  then show ?case by (cases i) (simp_all add: algebra_simps)
qed simp

lemma length_nonces_from [simp]: "length (nonces_from k m) = m"
  by (induction m arbitrary: k) simp_all

lemma nonces_from_distinct: "m \<le> 2 ^ 64 \<Longrightarrow> distinct (nonces_from k m)"
proof -
  assume m: "m \<le> 2 ^ 64"
  have "i = j" if "i < m" "j < m" "nonces_from k m ! i = nonces_from k m ! j" for i j
  proof -
    have "(of_nat i :: u64) = of_nat j"
      using that by (simp add: nonces_from_nth)
    then have "unat (of_nat i :: u64) = unat (of_nat j :: u64)" by simp
    then show ?thesis
      using that m by (simp add: unat_of_nat)
  qed
  then show ?thesis by (auto simp: distinct_conv_nth)
qed

abbreviation sent_by :: "Address \<Rightarrow> Transaction list \<Rightarrow> Transaction list" where
  "sent_by a \<equiv> filter (\<lambda>tx. tx_from tx = a)"

lemma batch_executed_nonces:
  assumes "node_nonce n a = Inr k"
  shows "map tx_nonce (sent_by a (batch_executed c recover bs n)) =
      nonces_from k (length (sent_by a (batch_executed c recover bs n))) \<and>
    node_nonce (snd (execute_batch c recover bs st n)) a =
      Inr (k + of_nat (length (sent_by a (batch_executed c recover bs n))))"
  using assms
proof (induction bs arbitrary: n k st)
  case (Cons b bs)
  obtain r n1 where eb: "execute_bytes c recover n b = (r, n1)" by fastforce
  show ?case
  proof (cases r)
    case (Inl err)
    with eb execute_bytes_failure [of c recover n b err n1 a] Cons.prems Cons.IH [of n1 k]
    show ?thesis by simp
  next
    case (Inr u)
    obtain tx where tx: "decode_tx c b = Inr tx" "execute c recover n tx = (Inr (), n1)"
      using execute_bytes_success [of c recover n b n1] eb Inr by auto
    note ex = execute_success(2,3) [OF tx(2)]
    show ?thesis
      using eb Inr tx(1) ex Cons.prems Cons.IH [of n1 "if tx_from tx = a then k + 1 else k"]
      by (auto simp: algebra_simps)
  qed
qed simp

lemma batch_stats:
  "execute_batch c recover bs st n = (st', n') \<Longrightarrow>
     successful st' = successful st + length (batch_executed c recover bs n) \<and>
     successful st' + failed st' = successful st + failed st + length bs"
proof (induction bs arbitrary: st n)
  case (Cons b bs)
  then show ?case
    using execute_bytes_success [of c recover n b]
    by (fastforce simp: record_success_def record_failure_def split: prod.splits sum.splits)
qed simp

section \<open>Block size\<close>

definition block_bytes :: "u8 list list \<Rightarrow> nat" where
  "block_bytes bs = sum_list (map length bs)"

lemma take_fitting_prefix: "\<exists>rest. bs = take_fitting max_bytes used bs @ rest"
  by (induction bs arbitrary: used) (auto simp: Let_def)

lemma take_fitting_bytes:
  assumes "unat used \<le> unat max_bytes" "\<forall>b\<in>set bs. unat max_bytes + length b < 2 ^ 64"
  shows "unat used + block_bytes (take_fitting max_bytes used bs) \<le> unat max_bytes"
  using assms
proof (induction bs arbitrary: used)
  case Nil
  then show ?case by (simp add: block_bytes_def)
next
  case (Cons b bs)
  let ?n = "of_nat (length b) :: u64"
  have len: "length b < 2 ^ 64" "unat used + length b < 2 ^ 64"
    using Cons.prems by auto
  then have sum: "unat (used + ?n) = unat used + length b"
    by (simp add: unat_word_ariths unat_of_nat)
  show ?case
  proof (cases "used + ?n > max_bytes")
    case True
    with Cons.prems(1) show ?thesis by (simp add: block_bytes_def)
  next
    case False
    then have "unat (used + ?n) \<le> unat max_bytes"
      by (simp add: not_less word_le_nat_alt)
    with Cons.IH [of "used + ?n"] Cons.prems(2) False sum show ?thesis
      by (simp add: Let_def block_bytes_def)
  qed
qed

section \<open>Properties\<close>

text \<open>A node with an empty database, a recovery that always returns account 7, and a codec that
  decodes one byte as a deposit of that amount with nonce 0.\<close>

definition exec_codec :: tx_codec where
  "exec_codec = sample_codec\<lparr>borsh_from_slice := (\<lambda>b. Inr (sample_deposit 0 (ucast (hd b))))\<rparr>"

definition exec_recovery :: recovery where
  "exec_recovery sig h = Inr 7"

definition exec_node :: node where
  "exec_node = new_node genesis_state"

lemmas exec_eval =
  execute_def verify_transaction_def recover_signer_def verify_nonce_def execute_tx_payload_def on_engine_def
  execute_tx_payload_readonly_def run_engine_def process_deposit_def on_svc_def deposit_def update_balance_def
  bump_nonce_def increment_nonce_def exec_recovery_def exec_node_def new_node_def new_engine_def
  sample_deposit_def new_raw_def store_simps checked_add_def emit_def Let_def

lemma exec_decode: "decode_tx exec_codec [b] = Inr (sample_deposit 0 (ucast b))"
  by (simp add: decode_tx_def exec_codec_def MAX_TX_SIZE_def)

text \<open>Of two copies of one transaction the first is executed.\<close>

lemma sample_batch_executed:
  "batch_executed exec_codec exec_recovery [[5], [5]] exec_node = [sample_deposit 0 5]"
proof -
  obtain n1 where ex: "execute exec_codec exec_recovery exec_node (sample_deposit 0 5) = (Inr (), n1)"
    by (simp add: exec_eval)
  have "node_nonce n1 7 = Inr 1"
    using execute_success(3) [OF ex, of 7] by (simp add: sample_deposit_def new_raw_def)
  then have "\<not> is_ok (fst (execute exec_codec exec_recovery n1 (sample_deposit 0 5)))"
    using execute_success(2) [of exec_codec exec_recovery n1 "sample_deposit 0 5"]
    by (cases "execute exec_codec exec_recovery n1 (sample_deposit 0 5)")
      (auto simp: is_ok_iff sample_deposit_def new_raw_def)
  then obtain err n2 where "execute exec_codec exec_recovery n1 (sample_deposit 0 5) = (Inl err, n2)"
    by (cases "execute exec_codec exec_recovery n1 (sample_deposit 0 5)"; cases "fst (execute exec_codec exec_recovery n1 (sample_deposit 0 5))") auto
  with ex show ?thesis by (simp add: execute_bytes_def exec_decode)
qed

text \<open>C14: A transaction is executed only if its signature recovers to its sender and it carries the
  sender's current nonce.  Execution raises that nonce by one and no other nonce.\<close>

theorem execute_authorised:
  assumes "execute c recover n tx = (Inr (), n')"
  shows "recover_signer c recover tx = Inr (tx_from tx) \<and> node_nonce n (tx_from tx) = Inr (tx_nonce tx) \<and>
    node_nonce n' a = (if a = tx_from tx then Inr (tx_nonce tx + 1) else node_nonce n a)"
  using execute_success [OF assms] by simp

theorem execute_authorised_witness:
  "\<exists>n'. execute exec_codec exec_recovery exec_node (sample_deposit 0 5) = (Inr (), n') \<and>
     node_nonce n' 7 = Inr 1 \<and> get_balance (eng_state (nd_engine n')) 7 0 = Inr 5"
proof -
  obtain n' where ex: "execute exec_codec exec_recovery exec_node (sample_deposit 0 5) = (Inr (), n')"
    and bal: "get_balance (eng_state (nd_engine n')) 7 0 = Inr 5"
    by (simp add: exec_eval)
  show ?thesis
    using execute_authorised [OF ex, of 7] ex bal by (simp add: sample_deposit_def new_raw_def)
qed

text \<open>Executing an executed transaction again is refused with an invalid nonce and changes
  nothing, as long as the nonce counter did not wrap around.\<close>

lemma execute_twice_refused:
  assumes "execute c recover n tx = (Inr (), n')" "tx_nonce tx \<noteq> - 1"
  shows "execute c recover n' tx = (Inl (TxExecutionError_InvalidNonce (tx_nonce tx + 1) (tx_nonce tx)), n')"
proof -
  have "verify_transaction c recover tx = Inr ()"
    using execute_success(1) [OF assms(1)] by (simp add: verify_transaction_def)
  moreover have "tx_nonce tx < tx_nonce tx + 1"
    using assms(2) by (rule u64_less_succ)
  ultimately show ?thesis
    using execute_success(3) [OF assms(1), of "tx_from tx"]
    by (simp add: execute_def verify_nonce_def node_nonce_def)
qed

text \<open>C3: The transactions of one sender that a batch executes have consecutive nonces, from the
  sender's nonce before the batch on; so none is executed twice (below \<open>2\<^sup>6\<^sup>4\<close> of them), whatever
  the batch contains.  The sender's nonce counts them, and the statistics count all of them.\<close>

theorem batch_executes_once:
  assumes "node_nonce n a = Inr k" "execute_tx_batch c recover bs n = (st, n')"
    and "length bs \<le> 2 ^ 64"
  shows "map tx_nonce (sent_by a (batch_executed c recover bs n)) =
      nonces_from k (length (sent_by a (batch_executed c recover bs n))) \<and>
    distinct (map tx_nonce (sent_by a (batch_executed c recover bs n))) \<and>
    node_nonce n' a = Inr (k + of_nat (length (sent_by a (batch_executed c recover bs n)))) \<and>
    successful st = length (batch_executed c recover bs n) \<and> successful st + failed st = length bs"
proof -
  note st = batch_stats [OF assms(2) [unfolded execute_tx_batch_def]]
  have "length (sent_by a (batch_executed c recover bs n)) \<le> length (batch_executed c recover bs n)"
    by simp
  also have "\<dots> \<le> 2 ^ 64"
    using st assms(3) by simp
  finally have "distinct (nonces_from k (length (sent_by a (batch_executed c recover bs n))))"
    by (rule nonces_from_distinct)
  then show ?thesis
    using st batch_executed_nonces [OF assms(1), of c recover bs "\<lparr>successful = 0, failed = 0\<rparr>"] assms(2)
    by (simp add: execute_tx_batch_def)
qed

theorem batch_executes_once_witness:
  "\<exists>st n'. execute_tx_batch exec_codec exec_recovery [[5], [5]] exec_node = (st, n') \<and>
     successful st = 1 \<and> failed st = 1 \<and> node_nonce n' 7 = Inr 1"
proof -
  obtain st n' where b: "execute_tx_batch exec_codec exec_recovery [[5], [5]] exec_node = (st, n')" by fastforce
  have "node_nonce exec_node 7 = Inr 0" by (simp add: node_nonce_def exec_eval)
  moreover have "length [[5], [5 :: u8]] \<le> 2 ^ 64" by simp
  ultimately show ?thesis
    using batch_executes_once [OF _ b, of 7 0] b
    unfolding sample_batch_executed by (auto simp: sample_deposit_def new_raw_def)
qed

text \<open>C34: A transaction that fails leaves every nonce as it was, whichever check or operation
  refused it.  It changes nothing at all unless its payload itself failed, and then exactly what
  the payload had written before the failure is kept.\<close>

theorem failed_tx_keeps_nonces:
  assumes "execute c recover n tx = (Inl err, n')"
  shows "node_nonce n' a = node_nonce n a \<and>
    (n' = n \<or> execute_tx_payload c recover n tx = (Inl err, n'))"
  using execute_failure [OF assms] execute_failed_payload [OF assms] by blast

theorem failed_tx_keeps_nonces_witness:
  "\<exists>err n'. execute exec_codec exec_recovery exec_node (sample_deposit 1 5) = (Inl err, n') \<and>
     node_nonce n' 7 = node_nonce exec_node 7"
proof -
  have "execute exec_codec exec_recovery exec_node (sample_deposit 1 5) =
      (Inl (TxExecutionError_NonceGap 0 1), exec_node)"
    by (simp add: exec_eval)
  from failed_tx_keeps_nonces [OF this, of 7] this show ?thesis by blast
qed

text \<open>A block built from the pool is a prefix of the encoded ready transactions, and its
  transactions take up no more than \<open>max_bytes\<close> bytes, as long as no transaction comes near
  \<open>2\<^sup>6\<^sup>4\<close> bytes.\<close>

lemma block_within_limit:
  assumes "\<forall>tx\<in>set (ready_txs order MAX_TXS_PER_BLOCK (nd_mempool n)).
    unat max_bytes + length (borsh_tx c tx) < 2 ^ 64"
  shows "block_bytes (fetch_txs_from_mempool c order max_bytes n) \<le> unat max_bytes \<and>
    (\<exists>rest. map (borsh_tx c) (ready_txs order MAX_TXS_PER_BLOCK (nd_mempool n)) =
      fetch_txs_from_mempool c order max_bytes n @ rest)"
  using take_fitting_bytes [of 0 max_bytes "map (borsh_tx c) (ready_txs order MAX_TXS_PER_BLOCK (nd_mempool n))"]
    take_fitting_prefix assms
  by (auto simp: fetch_txs_from_mempool_def)

end
