(* ===== verification/Query_Node.thy ===== *)
theory Query_Node
  imports Executor Event_Store
begin

text \<open>
  \<open>crates/exec/src/readonly_executor.rs\<close>: a query node replays the blocks of a leader and answers
  queries from its own engine and event store.  The answers of the leader over HTTP are arguments.
  The background service is a loop over rounds, each given by whether the service is still running
  and what the leader answers.

  Proved: synchronisation ends, and a successful one reaches the height of the leader and counts
  the blocks it has replayed; a failing one leaves the height as it was.
\<close>

section \<open>Model\<close>

text \<open>The texts of other errors that \<open>QueryError\<close> repeats.\<close>

datatype query_cause = query_state StateError | query_events EventStoreError

datatype ReadOnlyError =
    ReadOnlyError_InitError string
  | ReadOnlyError_NetworkError string
  | ReadOnlyError_ExecutionError TxExecutionError
  | ReadOnlyError_QueryError query_cause

record ReadOnlyExecutor =
  ro_engine :: Engine
  ro_event_store :: RocksDbEventStore
  ro_block_height :: u64

definition new_read_only :: "StateManager \<Rightarrow> event_db \<Rightarrow> ReadOnlyExecutor" where
  "new_read_only s events =
     \<lparr>ro_engine = new_engine s, ro_event_store = new_event_store events 1000, ro_block_height = 0\<rparr>"

record SyncResult =
  synced_blocks :: u64
  new_height :: u64
  is_synced :: bool

fun replay_txs ::
  "tx_codec \<Rightarrow> (u64 \<times> Transaction) list \<Rightarrow> Engine \<Rightarrow> (ReadOnlyError + unit) \<times> Engine" where
  "replay_txs c [] e = (Inr (), e)"
| "replay_txs c ((height, tx) # txs) e =
     (case execute_tx_payload_readonly (begin_tx e (tx_hash c tx) height 0) tx of
        (Inl err, e') \<Rightarrow> (Inl (ReadOnlyError_ExecutionError err), e')
      | (Inr _, e') \<Rightarrow> replay_txs c txs (snd (take_events e')))"

text \<open>The answer of the leader to a request for blocks, flattened.\<close>

type_synonym leader_blocks = "u64 \<Rightarrow> u64 \<Rightarrow> string + (u64 \<times> Transaction list) list"

definition fetch_transactions ::
  "leader_blocks \<Rightarrow> u64 \<Rightarrow> u64 \<Rightarrow> ReadOnlyError + (u64 \<times> Transaction) list" where
  "fetch_transactions fetch from_height to_height =
     bindE (map_err ReadOnlyError_NetworkError (fetch from_height to_height)) (\<lambda>blocks.
       Inr (concat (map (\<lambda>(height, txs). map (\<lambda>tx. (height, tx)) txs) blocks)))"

text \<open>The loop over the missing blocks.\<close>

partial_function (option) sync_loop ::
  "tx_codec \<Rightarrow> leader_blocks \<Rightarrow> u64 \<Rightarrow> u64 \<Rightarrow> u64 \<Rightarrow> u64 \<Rightarrow> Engine \<Rightarrow>
     ((ReadOnlyError + u64) \<times> Engine) option" where
  "sync_loop c fetch batch_size leader_height current synced e =
     (if current \<le> leader_height then
        (let end_height = min (current + batch_size - 1) leader_height in
         case fetch_transactions fetch current end_height of
           Inl err \<Rightarrow> Some (Inl err, e)
         | Inr txs \<Rightarrow>
             (case replay_txs c txs e of
                (Inl err, e') \<Rightarrow> Some (Inl err, e')
              | (Inr _, e') \<Rightarrow>
                  sync_loop c fetch batch_size leader_height (end_height + 1)
                    (synced + (end_height - current + 1)) e'))
      else Some (Inr synced, e))"

definition sync_from_leader ::
  "tx_codec \<Rightarrow> (string + u64) \<Rightarrow> leader_blocks \<Rightarrow> u64 \<Rightarrow>
     ReadOnlyExecutor \<Rightarrow> ((ReadOnlyError + SyncResult) \<times> ReadOnlyExecutor) option" where
  "sync_from_leader c leader fetch batch_size ro =
     (case leader of
        Inl err \<Rightarrow> Some (Inl (ReadOnlyError_NetworkError err), ro)
      | Inr leader_height \<Rightarrow>
          if leader_height \<le> ro_block_height ro then
            Some (Inr \<lparr>synced_blocks = 0, new_height = ro_block_height ro, is_synced = True\<rparr>, ro)
          else
            (case sync_loop c fetch batch_size leader_height (ro_block_height ro + 1) 0 (ro_engine ro) of
               None \<Rightarrow> None
             | Some (Inl err, e) \<Rightarrow> Some (Inl err, ro\<lparr>ro_engine := e\<rparr>)
             | Some (Inr n, e) \<Rightarrow>
                 Some (Inr \<lparr>synced_blocks = n, new_height = leader_height, is_synced = True\<rparr>,
                       ro\<lparr>ro_engine := e, ro_block_height := leader_height\<rparr>)))"

subsection \<open>Queries\<close>

definition ro_get_balance :: "ReadOnlyExecutor \<Rightarrow> Address \<Rightarrow> u32 \<Rightarrow> ReadOnlyError + u128" where
  "ro_get_balance ro address asset =
     map_err (ReadOnlyError_QueryError \<circ> query_state) (get_balance (eng_state (ro_engine ro)) address asset)"

definition ro_get_position :: "ReadOnlyExecutor \<Rightarrow> Address \<Rightarrow> u32 \<Rightarrow> ReadOnlyError + Position option" where
  "ro_get_position ro address market =
     map_err (ReadOnlyError_QueryError \<circ> query_state) (get_position (eng_state (ro_engine ro)) address market)"

definition ro_get_order :: "ReadOnlyExecutor \<Rightarrow> u64 \<Rightarrow> ReadOnlyError + Order option" where
  "ro_get_order ro i = map_err (ReadOnlyError_QueryError \<circ> query_state) (get_order (eng_state (ro_engine ro)) i)"

definition ro_get_orderbook :: "ReadOnlyExecutor \<Rightarrow> u32 \<Rightarrow> ReadOnlyError + Order list" where
  "ro_get_orderbook ro market = Inr []"

definition ro_get_events_by_block ::
  "event_codec \<Rightarrow> ReadOnlyExecutor \<Rightarrow> u64 \<Rightarrow> u64 \<Rightarrow> ReadOnlyError + DomainEvent list" where
  "ro_get_events_by_block ec ro from_height to_height =
     map_err (ReadOnlyError_QueryError \<circ> query_events) (res_get_by_block_range ec (ro_event_store ro) from_height to_height)"

definition ro_get_events_by_tx :: "event_codec \<Rightarrow> ReadOnlyExecutor \<Rightarrow> B256 \<Rightarrow> ReadOnlyError + DomainEvent list" where
  "ro_get_events_by_tx ec ro h =
     map_err (ReadOnlyError_QueryError \<circ> query_events) (res_get_by_tx ec (ro_event_store ro) h)"

definition ro_get_events_by_address ::
  "event_codec \<Rightarrow> ReadOnlyExecutor \<Rightarrow> Address \<Rightarrow> nat \<Rightarrow> ReadOnlyError + DomainEvent list" where
  "ro_get_events_by_address ec ro address limit =
     map_err (ReadOnlyError_QueryError \<circ> query_events) (res_get_by_address ec (ro_event_store ro) address limit)"

definition ro_state_root :: "ReadOnlyExecutor \<Rightarrow> B256" where
  "ro_state_root ro = state_root (eng_state (ro_engine ro))"

subsection \<open>The background service\<close>

record ReadOnlyConfig =
  roc_leader_url :: string
  roc_sync_interval_secs :: u64
  roc_sync_batch_size :: u64
  roc_verify_state_root :: bool

definition default_read_only_config :: ReadOnlyConfig where
  "default_read_only_config =
     \<lparr>roc_leader_url = ''http://localhost:3000'', roc_sync_interval_secs = 5, roc_sync_batch_size = 100,
      roc_verify_state_root = True\<rparr>"

text \<open>Errors of a round are logged only.  \<open>None\<close>: a round did not end.\<close>

fun sync_service_start ::
  "tx_codec \<Rightarrow> ReadOnlyConfig \<Rightarrow> (bool \<times> (string + u64) \<times> leader_blocks) list \<Rightarrow> ReadOnlyExecutor \<Rightarrow>
     ReadOnlyExecutor option" where
  "sync_service_start c cfg [] ro = Some ro"
| "sync_service_start c cfg ((running, leader, fetch) # rounds) ro =
     (if running then
        (case sync_from_leader c leader fetch (roc_sync_batch_size cfg) ro of
           None \<Rightarrow> None
         | Some (_, ro') \<Rightarrow> sync_service_start c cfg rounds ro')
      else Some ro)"

section \<open>Synchronisation ends\<close>

lemma sync_loop_result:
  assumes "0 < unat batch_size" "unat leader_height + unat batch_size < 2 ^ 64" "unat current \<le> unat leader_height + 1"
  shows "\<exists>r e'. sync_loop c fetch batch_size leader_height current synced e = Some (r, e') \<and>
    (\<forall>n. r = Inr n \<longrightarrow> n = synced + (leader_height + 1 - current))"
  using assms(3)
proof (induction "unat leader_height + 1 - unat current" arbitrary: current synced e rule: less_induct)
  case less
  show ?case
  proof (cases "current \<le> leader_height")
    case False
    then have "unat current = unat (leader_height + 1)"
      using less.prems assms by (simp add: word_le_nat_alt unat_word_ariths)
    then have "current = leader_height + 1" by (simp only: word_unat_eq_iff)
    then show ?thesis using False by (simp add: sync_loop.simps)
  next
    case True
    define h where "h = min (current + batch_size - 1) leader_height"
    have cur: "unat current \<le> unat leader_height"
      using True by (simp add: word_le_nat_alt)
    have "unat (current + batch_size) = unat current + unat batch_size"
      using cur assms(2) by (simp add: unat_word_ariths)
    moreover have "1 \<le> current + batch_size"
      using assms(1) calculation by (simp add: word_le_nat_alt)
    ultimately have "unat (current + batch_size - 1) = unat current + unat batch_size - 1"
      by (simp add: unat_sub word_le_nat_alt)
    then have h: "unat current \<le> unat h" "unat h \<le> unat leader_height"
      using assms(1) cur by (auto simp: h_def unat_min)
    then have h1: "unat (h + 1) = unat h + 1"
      using assms by (simp add: unat_word_ariths)
    then have decr: "unat leader_height + 1 - unat (h + 1) < unat leader_height + 1 - unat current"
      using h cur by simp
    show ?thesis
    proof (cases "fetch_transactions fetch current h")
      case (Inl err)
      then show ?thesis using True by (simp add: sync_loop.simps [of _ _ _ _ current] h_def [symmetric])
    next
      case (Inr txs)
      obtain r e1 where replay: "replay_txs c txs e = (r, e1)" by fastforce
      show ?thesis
      proof (cases r)
        case (Inl err)
        then show ?thesis
          using True Inr replay by (simp add: sync_loop.simps [of _ _ _ _ current] h_def [symmetric])
      next
        case (Inr u)
        have count: "synced + (h - current + 1) + (leader_height + 1 - (h + 1)) = synced + (leader_height + 1 - current)"
          by simp
        from less.hyps [OF decr, of "synced + (h - current + 1)" e1] h1 h(2)
        obtain r' e' where "sync_loop c fetch batch_size leader_height (h + 1) (synced + (h - current + 1)) e1 = Some (r', e')"
          "\<forall>n. r' = Inr n \<longrightarrow> n = synced + (leader_height + 1 - current)"
          unfolding count by auto
        then show ?thesis
          using True Inr \<open>fetch_transactions fetch current h = Inr txs\<close> replay
          by (simp add: sync_loop.simps [of _ _ _ _ current] h_def [symmetric])
      qed
    qed
  qed
qed

section \<open>Properties\<close>

text \<open>C36: Synchronisation of a query node ends for every leader and every answer of the leader, if
  the batch size is positive and the leader's height plus a batch stays below \<open>2\<^sup>6\<^sup>4\<close>.  On
  success the node is at the larger of the two heights and has counted the missing blocks; on a
  network or execution error its height is unchanged.\<close>

theorem sync_from_leader_ends:
  assumes "0 < unat batch_size" "unat leader_height + unat batch_size < 2 ^ 64"
  shows "\<exists>r ro'. sync_from_leader c (Inr leader_height) fetch batch_size ro = Some (r, ro') \<and>
    (case r of
       Inr res \<Rightarrow> ro_block_height ro' = max (ro_block_height ro) leader_height \<and> new_height res = ro_block_height ro' \<and>
         synced_blocks res = ro_block_height ro' - ro_block_height ro
     | Inl _ \<Rightarrow> ro_block_height ro' = ro_block_height ro)"
proof (cases "leader_height \<le> ro_block_height ro")
  case True
  then show ?thesis by (simp add: sync_from_leader_def max_def)
next
  case False
  then have "unat (ro_block_height ro + 1) \<le> unat leader_height + 1"
    using assms by (simp add: word_le_nat_alt unat_word_ariths)
  from sync_loop_result [OF assms this, of c fetch 0 "ro_engine ro"]
  obtain r e' where "sync_loop c fetch batch_size leader_height (ro_block_height ro + 1) 0 (ro_engine ro) = Some (r, e')"
    "\<forall>n. r = Inr n \<longrightarrow> n = leader_height - ro_block_height ro"
    by (auto simp: algebra_simps)
  with False show ?thesis
    by (cases r) (auto simp: sync_from_leader_def max_def)
qed

theorem sync_from_leader_ends_witness:
  "\<exists>r ro'. sync_from_leader exec_codec (Inr 250) (\<lambda>_ _. Inr []) 100 (new_read_only genesis_state []) = Some (r, ro') \<and>
     (case r of Inr res \<Rightarrow> ro_block_height ro' = 250 \<and> synced_blocks res = 250 | Inl _ \<Rightarrow> ro_block_height ro' = 0)"
proof -
  obtain r ro' where "sync_from_leader exec_codec (Inr 250) (\<lambda>_ _. Inr []) 100 (new_read_only genesis_state []) = Some (r, ro')"
    "case r of
       Inr res \<Rightarrow> ro_block_height ro' = max (ro_block_height (new_read_only genesis_state [])) 250 \<and>
         new_height res = ro_block_height ro' \<and>
         synced_blocks res = ro_block_height ro' - ro_block_height (new_read_only genesis_state [])
     | Inl _ \<Rightarrow> ro_block_height ro' = ro_block_height (new_read_only genesis_state [])"
    using sync_from_leader_ends [of 100 250 exec_codec "\<lambda>_ _. Inr []" "new_read_only genesis_state []"] by auto
  then show ?thesis
    by (auto simp: new_read_only_def max_def split: sum.splits)
qed

end
