(* ===== verification/Rpc.thy ===== *)
theory Rpc
  imports Executor
begin

text \<open>
  \<open>crates/rpc/src\<close>: the request handlers (\<open>handlers.rs\<close>), the response types (\<open>types.rs\<close>) and the
  errors with their HTTP status codes (\<open>error.rs\<close>).  The RPC server shares the engine, the mempool
  and the registry of agents with the executor service, so it works on the same node.  Each
  handler is one step; \<open>hex::decode\<close> is an argument.  The cause that a message repeats after its
  context is left out of the message.

  Proved: a submitted transaction is admitted exactly if it decodes, is signed by its sender and
  the pool takes it, and is then reported as pending; and a request that sets an agent can be
  replayed, since the handler looks at no nonce.
\<close>

section \<open>Model\<close>

subsection \<open>Errors\<close>

datatype RpcError =
    RpcError_InvalidRequest string
  | RpcError_AuthError string
  | RpcError_MempoolError string
  | RpcError_StateError string
  | RpcError_EngineError string
  | RpcError_ServerError string
  | RpcError_NotFound
  | RpcError_Internal string

fun into_response :: "RpcError \<Rightarrow> nat \<times> string" where
  "into_response (RpcError_InvalidRequest msg) = (400, msg)"
| "into_response (RpcError_MempoolError msg) = (400, msg)"
| "into_response (RpcError_AuthError msg) = (401, msg)"
| "into_response RpcError_NotFound = (404, ''Not found'')"
| "into_response (RpcError_StateError msg) = (500, msg)"
| "into_response (RpcError_EngineError msg) = (500, msg)"
| "into_response (RpcError_ServerError msg) = (500, msg)"
| "into_response (RpcError_Internal msg) = (500, msg)"

definition into_rpc_error :: "string \<Rightarrow> StateError + 'a \<Rightarrow> RpcError + 'a" where
  "into_rpc_error context = map_err (\<lambda>_. RpcError_StateError context)"

subsection \<open>Responses\<close>

record TxStatus =
  ts_tx_hash :: B256
  ts_status :: string
  ts_block_height :: "u64 option"
  ts_error :: "string option"

definition tx_pending :: "B256 \<Rightarrow> TxStatus" where
  "tx_pending h = \<lparr>ts_tx_hash = h, ts_status = ''pending'', ts_block_height = None, ts_error = None\<rparr>"

definition tx_not_found :: "B256 \<Rightarrow> TxStatus" where
  "tx_not_found h = \<lparr>ts_tx_hash = h, ts_status = ''not_found'', ts_block_height = None,
     ts_error = Some ''Transaction not found''\<rparr>"

definition tx_confirmed :: "B256 \<Rightarrow> u64 \<Rightarrow> TxStatus" where
  "tx_confirmed h height = \<lparr>ts_tx_hash = h, ts_status = ''confirmed'', ts_block_height = Some height, ts_error = None\<rparr>"

definition tx_failed :: "B256 \<Rightarrow> string \<Rightarrow> TxStatus" where
  "tx_failed h err = \<lparr>ts_tx_hash = h, ts_status = ''failed'', ts_block_height = None, ts_error = Some err\<rparr>"

record PositionInfo =
  pi_market_id :: u32
  pi_size :: u64
  pi_entry_price :: u64
  pi_is_long :: bool
  pi_margin :: u128
  pi_unrealized_pnl :: u128
  pi_is_profit :: bool

definition from_position :: "Position \<Rightarrow> u32 \<Rightarrow> PositionInfo" where
  "from_position p market_id =
     \<lparr>pi_market_id = market_id, pi_size = pos_size p, pi_entry_price = pos_entry_price p, pi_is_long = pos_is_long p,
      pi_margin = pos_margin p, pi_unrealized_pnl = 0, pi_is_profit = True\<rparr>"

record OrderInfo =
  oi_id :: u64
  oi_market_id :: u32
  oi_owner :: Address
  oi_is_buy :: bool
  oi_price :: u64
  oi_original_size :: u64
  oi_remaining_size :: u64
  oi_created_at :: u64

definition order_info :: "Order \<Rightarrow> OrderInfo" where
  "order_info x =
     \<lparr>oi_id = ord_id x, oi_market_id = ord_market_id x, oi_owner = ord_owner x, oi_is_buy = ord_is_buy x,
      oi_price = ord_price x, oi_original_size = ord_original_size x, oi_remaining_size = ord_remaining_size x,
      oi_created_at = ord_created_at x\<rparr>"

record MarketInfo =
  mi_id :: u32
  mi_symbol :: string
  mi_base_asset_id :: u32
  mi_quote_asset_id :: u32
  mi_price_decimals :: u8
  mi_size_decimals :: u8
  mi_min_order_size :: u64
  mi_max_leverage :: u32

definition market_info :: "Market \<Rightarrow> MarketInfo" where
  "market_info m =
     \<lparr>mi_id = mkt_id m, mi_symbol = mkt_symbol m, mi_base_asset_id = mkt_base_asset_id m,
      mi_quote_asset_id = mkt_quote_asset_id m, mi_price_decimals = mkt_price_decimals m,
      mi_size_decimals = mkt_size_decimals m, mi_min_order_size = mkt_min_order_size m,
      mi_max_leverage = mkt_max_leverage m\<rparr>"

record FundingRateInfo =
  fi_rate :: i64
  fi_last_update :: u64
  fi_index :: i128
  fi_mark_price :: u64
  fi_oracle_price :: u64

definition funding_rate_info :: "FundingRate \<Rightarrow> FundingRateInfo" where
  "funding_rate_info f =
     \<lparr>fi_rate = fr_rate f, fi_last_update = fr_last_update f, fi_index = fr_index f, fi_mark_price = fr_mark_price f,
      fi_oracle_price = fr_oracle_price f\<rparr>"

record AssetInfo =
  ai_id :: u32
  ai_symbol :: string
  ai_name :: string
  ai_decimals :: u8
  ai_is_collateral :: bool
  ai_collateral_weight_bps :: u32

definition asset_info :: "Asset \<Rightarrow> AssetInfo" where
  "asset_info a =
     \<lparr>ai_id = asset_id a, ai_symbol = asset_symbol a, ai_name = asset_name a, ai_decimals = asset_decimals a,
      ai_is_collateral = asset_is_collateral a, ai_collateral_weight_bps = asset_collateral_weight_bps a\<rparr>"

subsection \<open>Transactions in requests\<close>

text \<open>The decoders and the recovery that the handlers use.\<close>

record rpc_env =
  hex_decode :: "string \<Rightarrow> string + u8 list"
  rpc_codec :: tx_codec
  rpc_recovery :: recovery

text \<open>\<open>trim_start_matches("0x")\<close> strips the prefix as often as it occurs.\<close>

fun trim_0x :: "string \<Rightarrow> string" where
  "trim_0x (a # b # s) = (if a = CHR ''0'' \<and> b = CHR ''x'' then trim_0x s else a # b # s)"
| "trim_0x s = s"

definition decode_hex_tx :: "rpc_env \<Rightarrow> string \<Rightarrow> RpcError + u8 list" where
  "decode_hex_tx env hex = map_err (\<lambda>_. RpcError_InvalidRequest ''Invalid hex'') (hex_decode env (trim_0x hex))"

definition decode_and_verify_tx :: "rpc_env \<Rightarrow> string \<Rightarrow> RpcError + Transaction" where
  "decode_and_verify_tx env hex =
     bindE (decode_hex_tx env hex) (\<lambda>tx_bytes.
     bindE (map_err (\<lambda>_. RpcError_InvalidRequest ''Invalid transaction'') (decode_tx (rpc_codec env) tx_bytes)) (\<lambda>tx.
     bindE (map_err (\<lambda>_. RpcError_AuthError ''Signature verification failed'')
              (verify_transaction (rpc_codec env) (rpc_recovery env) tx)) (\<lambda>_.
       Inr tx)))"

definition submit_transaction :: "rpc_env \<Rightarrow> string \<Rightarrow> node \<Rightarrow> (RpcError + B256) \<times> node" where
  "submit_transaction env hex n =
     bindR (decode_and_verify_tx env hex, n) (\<lambda>tx n.
       let h = tx_hash (rpc_codec env) tx in
       case mempool_add (rpc_codec env) tx (nd_mempool n) of
         (r, m) \<Rightarrow>
           bindR (map_err (\<lambda>_. RpcError_MempoolError ''Failed to add to mempool'') r, n\<lparr>nd_mempool := m\<rparr>) (\<lambda>_ n.
             (Inr h, n)))"

definition get_transaction_status :: "node \<Rightarrow> B256 \<Rightarrow> RpcError + TxStatus" where
  "get_transaction_status n h =
     Inr (if index_get (mp_index (nd_mempool n)) h \<noteq> None then tx_pending h else tx_not_found h)"

definition rpc_set_agent :: "rpc_env \<Rightarrow> string \<Rightarrow> node \<Rightarrow> (RpcError + bool) \<times> node" where
  "rpc_set_agent env hex n =
     bindR (decode_and_verify_tx env hex, n) (\<lambda>tx n.
       case tx_payload tx of
         TxPayload_SetAgent a \<Rightarrow>
           (Inr True, n\<lparr>nd_auth := set_agent (nd_auth n) (tx_from tx) (sa_agent a) (sa_permissions a)\<rparr>)
       | _ \<Rightarrow> (Inl (RpcError_InvalidRequest ''Invalid transaction payload''), n))"

definition rpc_remove_agent :: "rpc_env \<Rightarrow> string \<Rightarrow> node \<Rightarrow> (RpcError + bool) \<times> node" where
  "rpc_remove_agent env hex n =
     bindR (decode_and_verify_tx env hex, n) (\<lambda>tx n.
       case tx_payload tx of
         TxPayload_RemoveAgent a \<Rightarrow>
           (Inr True, n\<lparr>nd_auth := remove_agent (nd_auth n) (tx_from tx) (ra_agent a)\<rparr>)
       | _ \<Rightarrow> (Inl (RpcError_InvalidRequest ''Invalid transaction payload''), n))"

subsection \<open>Queries\<close>

abbreviation node_state :: "node \<Rightarrow> StateManager" where
  "node_state n \<equiv> eng_state (nd_engine n)"

definition rpc_get_balance :: "node \<Rightarrow> Address \<Rightarrow> u32 \<Rightarrow> RpcError + u128" where
  "rpc_get_balance n address asset = into_rpc_error ''Failed to get balance'' (get_balance (node_state n) address asset)"

definition rpc_get_nonce :: "node \<Rightarrow> Address \<Rightarrow> RpcError + u64" where
  "rpc_get_nonce n address = into_rpc_error ''Failed to get nonce'' (get_nonce (node_state n) address)"

definition rpc_get_position :: "node \<Rightarrow> Address \<Rightarrow> u32 \<Rightarrow> RpcError + PositionInfo option" where
  "rpc_get_position n address market =
     bindE (into_rpc_error ''Failed to get position'' (get_position (node_state n) address market)) (\<lambda>p.
       Inr (map_option (\<lambda>p. from_position p market) p))"

definition rpc_get_positions :: "node \<Rightarrow> Address \<Rightarrow> RpcError + PositionInfo list" where
  "rpc_get_positions n address = Inr []"

definition rpc_get_order :: "node \<Rightarrow> u64 \<Rightarrow> RpcError + OrderInfo option" where
  "rpc_get_order n i =
     bindE (into_rpc_error ''Failed to get order'' (get_order (node_state n) i)) (\<lambda>x. Inr (map_option order_info x))"

definition rpc_list_orders :: "node \<Rightarrow> Address \<Rightarrow> u32 option \<Rightarrow> RpcError + OrderInfo list" where
  "rpc_list_orders n address market = Inr []"

definition rpc_get_market_info :: "node \<Rightarrow> u32 \<Rightarrow> RpcError + MarketInfo option" where
  "rpc_get_market_info n m =
     bindE (into_rpc_error ''Failed to get market'' (get_market (node_state n) m)) (\<lambda>x. Inr (map_option market_info x))"

definition rpc_get_funding_rate :: "node \<Rightarrow> u32 \<Rightarrow> RpcError + FundingRateInfo" where
  "rpc_get_funding_rate n m =
     bindE (into_rpc_error ''Failed to get funding rate'' (get_funding_rate (node_state n) m)) (\<lambda>f.
       Inr (funding_rate_info f))"

definition rpc_list_agents :: "node \<Rightarrow> Address \<Rightarrow> RpcError + (Address \<times> u64) list" where
  "rpc_list_agents n address = Inr []"

definition rpc_get_asset_info :: "node \<Rightarrow> u32 \<Rightarrow> RpcError + AssetInfo option" where
  "rpc_get_asset_info n i =
     bindE (into_rpc_error ''Failed to get asset'' (get_asset (node_state n) i)) (\<lambda>x. Inr (map_option asset_info x))"

definition rpc_list_assets :: "node \<Rightarrow> RpcError + AssetInfo list" where
  "rpc_list_assets n =
     bindE (into_rpc_error ''Failed to list assets'' (list_all_assets (node_state n))) (\<lambda>ids.
       Inr (List.map_filter
         (\<lambda>i. case get_asset (node_state n) i of Inr (Some a) \<Rightarrow> Some (asset_info a) | _ \<Rightarrow> None) ids))"

definition rpc_check_bridge_operator :: "node \<Rightarrow> Address \<Rightarrow> RpcError + bool" where
  "rpc_check_bridge_operator n address =
     into_rpc_error ''Failed to check bridge operator'' (is_bridge_operator (node_state n) address)"

section \<open>What the handlers admit\<close>

lemma decode_and_verify_Inr:
  "decode_and_verify_tx env hex = Inr tx \<longleftrightarrow>
     (\<exists>bytes. hex_decode env (trim_0x hex) = Inr bytes \<and> decode_tx (rpc_codec env) bytes = Inr tx \<and>
        verify_transaction (rpc_codec env) (rpc_recovery env) tx = Inr ())"
  by (auto simp: decode_and_verify_tx_def decode_hex_tx_def result_simps)

lemma submit_success:
  assumes "submit_transaction env hex n = (Inr h, n')"
  obtains tx m where "decode_and_verify_tx env hex = Inr tx" "h = tx_hash (rpc_codec env) tx"
    "mempool_add (rpc_codec env) tx (nd_mempool n) = (Inr h, m)" "n' = n\<lparr>nd_mempool := m\<rparr>"
proof -
  obtain tx where tx: "decode_and_verify_tx env hex = Inr tx"
    using assms by (auto simp: submit_transaction_def result_simps)
  obtain r m where add: "mempool_add (rpc_codec env) tx (nd_mempool n) = (r, m)" by fastforce
  with assms tx obtain h' where "r = Inr h'" "h = tx_hash (rpc_codec env) tx" "n' = n\<lparr>nd_mempool := m\<rparr>"
    by (auto simp: submit_transaction_def result_simps Let_def)
  with add mempool_add_success(1) [of "rpc_codec env" tx "nd_mempool n" h' m] tx show ?thesis
    by (intro that [OF tx]) simp_all
qed

lemma submit_error:
  assumes "submit_transaction env hex n = (Inl e, n')"
  shows "n' = n"
proof (cases "decode_and_verify_tx env hex")
  case (Inr tx)
  obtain r m where add: "mempool_add (rpc_codec env) tx (nd_mempool n) = (r, m)" by fastforce
  with assms Inr obtain e' where "r = Inl e'" "n' = n\<lparr>nd_mempool := m\<rparr>"
    by (cases r) (auto simp: submit_transaction_def Let_def)
  with add mempool_add_error [of "rpc_codec env" tx "nd_mempool n" e' m] show ?thesis by simp
qed (use assms in \<open>simp add: submit_transaction_def\<close>)

section \<open>Properties\<close>

text \<open>Requests that carry one byte, decoded as the sample codec does.\<close>

definition sample_env :: rpc_env where
  "sample_env = \<lparr>hex_decode = (\<lambda>s. Inr [of_nat (length s)]), rpc_codec = exec_codec, rpc_recovery = exec_recovery\<rparr>"

lemma sample_request: "decode_and_verify_tx sample_env ''0x00000'' = Inr (sample_deposit 0 5)"
  by (simp add: decode_and_verify_tx_def decode_hex_tx_def sample_env_def exec_decode verify_transaction_def
      recover_signer_def exec_recovery_def Let_def)
    (simp add: sample_deposit_def new_raw_def)

lemma sample_submit:
  obtains n where "submit_transaction sample_env ''0x00000'' exec_node = (Inr 5, n)"
    "index_get (mp_index (nd_mempool n)) 5 = Some (sample_deposit 0 5)"
  unfolding submit_transaction_def sample_request
  by (simp add: mempool_add_def sample_deposit_def new_raw_def
      validate_capacity_def is_full_def index_len_def validate_not_duplicate_def index_contains_def
      validate_sender_rate_limit_def index_sender_tx_count_def index_insert_def tx_hash_def exec_codec_def sample_env_def
      sample_codec_def exec_node_def new_node_def mempool_new_def config_default_def config_new_def index_new_def
      index_get_def Let_def)

text \<open>The submission of a transaction either changes nothing and is answered as a bad or
  unauthorised request, or it adds exactly the decoded transaction to the pool, under its hash,
  which was free before: then its sender signed it, and the node reports it as pending.\<close>

lemma submit_admits:
  "case submit_transaction env hex n of
     (Inl e, n') \<Rightarrow> n' = n \<and> (fst (into_response e) = 400 \<or> fst (into_response e) = 401)
   | (Inr h, n') \<Rightarrow>
       (\<exists>tx. recover_signer (rpc_codec env) (rpc_recovery env) tx = Inr (tx_from tx) \<and> h = tx_hash (rpc_codec env) tx \<and>
          index_get (mp_index (nd_mempool n)) h = None \<and>
          ti_txs (mp_index (nd_mempool n')) = (ti_txs (mp_index (nd_mempool n)))(h \<mapsto> tx) \<and>
          nd_engine n' = nd_engine n \<and> nd_auth n' = nd_auth n \<and>
          get_transaction_status n' h = Inr (tx_pending h))"
proof (cases "submit_transaction env hex n")
  case (Pair r n')
  show ?thesis
  proof (cases r)
    case (Inl e)
    have "fst (into_response e) = 400 \<or> fst (into_response e) = 401"
      using Pair Inl
      by (auto simp: submit_transaction_def decode_and_verify_tx_def decode_hex_tx_def Let_def bindR_def bindE_def
          map_err_def split: sum.splits prod.splits)
    with submit_error [of env hex n e n'] Pair Inl show ?thesis by simp
  next
    case (Inr h)
    then obtain tx m where tx: "decode_and_verify_tx env hex = Inr tx" "h = tx_hash (rpc_codec env) tx"
      and add: "mempool_add (rpc_codec env) tx (nd_mempool n) = (Inr h, m)" and n': "n' = n\<lparr>nd_mempool := m\<rparr>"
      using submit_success [of env hex n h n'] Pair by metis
    have "recover_signer (rpc_codec env) (rpc_recovery env) tx = Inr (tx_from tx)"
      using tx(1) by (auto simp: decode_and_verify_Inr verify_transaction_def result_simps split: if_splits)
    moreover note mempool_add_success(2,5) [OF add]
    ultimately show ?thesis
      using Pair Inr tx(2) n'
      by (auto simp: index_get_def index_contains_def index_insert_def Let_def get_transaction_status_def)
  qed
qed

text \<open>A request that sets an agent can be sent again by anyone who saw it, at any later time and in
  every state of the node: the handler looks at no nonce, so the permission comes back after
  the account has removed the agent.\<close>

lemma set_agent_request_replayable:
  assumes "rpc_set_agent env hex n = (Inr True, n1)"
  shows "\<exists>account agent p. get_permissions (nd_auth n1) account agent = Some p \<and>
    (\<forall>n2. \<exists>n3. rpc_set_agent env hex n2 = (Inr True, n3) \<and> get_permissions (nd_auth n3) account agent = Some p)"
proof -
  obtain tx where tx: "decode_and_verify_tx env hex = Inr tx"
    using assms by (auto simp: rpc_set_agent_def result_simps)
  then obtain a where a: "tx_payload tx = TxPayload_SetAgent a"
    using assms by (cases "tx_payload tx") (auto simp: rpc_set_agent_def)
  have "rpc_set_agent env hex m =
      (Inr True, m\<lparr>nd_auth := set_agent (nd_auth m) (tx_from tx) (sa_agent a) (sa_permissions a)\<rparr>)" for m
    using tx a by (simp add: rpc_set_agent_def)
  with assms show ?thesis
    by (intro exI [of _ "tx_from tx"] exI [of _ "sa_agent a"] exI [of _ "sa_permissions a"])
      (auto simp: get_permissions_set)
qed

end
