(* ===== verification/Node_Invariants.thy ===== *)
theory Node_Invariants
  imports Rpc
begin

text \<open>
  What the executor keeps of the whole node, over batches of arbitrary bytes: the balances of every
  asset change only by what executed deposits and withdrawals add and take, whatever else the batch
  contains and whichever of its transactions fail; and the store stays well typed.

  The second part lets a node run: its steps are the RPC requests that change it, its setup and
  genesis, and the execution of blocks of arbitrary bytes.  In every reachable node the pool holds
  only what its senders signed, and the registry of agents only what its accounts signed.
\<close>

section \<open>The supply of an asset\<close>

text \<open>What a successful transaction adds to and takes from the supply of an asset, and the accounts
  whose balances it may touch.\<close>

definition minted :: "Transaction \<Rightarrow> u32 \<Rightarrow> nat" where
  "minted tx i =
     (case tx_payload tx of
        TxPayload_Deposit d \<Rightarrow> if dep_asset_id d = i then unat (dep_amount d) else 0
      | TxPayload_BridgeDeposit d \<Rightarrow> if bd_asset_id d = i then unat (bd_amount d) else 0
      | _ \<Rightarrow> 0)"

definition burned :: "Transaction \<Rightarrow> u32 \<Rightarrow> nat" where
  "burned tx i =
     (case tx_payload tx of
        TxPayload_Withdraw w \<Rightarrow> if wd_asset_id w = i then unat (wd_amount w) else 0
      | TxPayload_BridgeWithdraw w \<Rightarrow> if bw_asset_id w = i then unat (bw_amount w) else 0
      | _ \<Rightarrow> 0)"

definition parties :: "Transaction \<Rightarrow> Address set" where
  "parties tx =
     (case tx_payload tx of
        TxPayload_Transfer t \<Rightarrow> {tx_from tx, tr_to t}
      | TxPayload_BridgeDeposit d \<Rightarrow> {bd_user d}
      | TxPayload_BridgeWithdraw w \<Rightarrow> {bw_user w}
      | _ \<Rightarrow> {tx_from tx})"

text \<open>From one state to another, the total of each asset over the accounts \<open>A\<close> grows by \<open>inn\<close> and
  shrinks by \<open>out\<close>, and the store stays well typed.\<close>

definition moves_supply ::
  "Address set \<Rightarrow> (u32 \<Rightarrow> nat) \<Rightarrow> (u32 \<Rightarrow> nat) \<Rightarrow> StateManager \<Rightarrow> StateManager \<Rightarrow> bool" where
  "moves_supply A inn out s s' \<longleftrightarrow>
     well_typed s' \<and> (\<forall>i. asset_total s' i A + out i = asset_total s i A + inn i)"

abbreviation keeps_supply :: "Address set \<Rightarrow> StateManager \<Rightarrow> StateManager \<Rightarrow> bool" where
  "keeps_supply A \<equiv> moves_supply A (\<lambda>_. 0) (\<lambda>_. 0)"

lemma moves_supplyD:
  "moves_supply A inn out s s' \<Longrightarrow> well_typed s'"
  "moves_supply A inn out s s' \<Longrightarrow> asset_total s' i A + out i = asset_total s i A + inn i"
  by (simp_all add: moves_supply_def)

lemma keeps_supply_refl: "well_typed s \<Longrightarrow> keeps_supply A s s"
  by (simp add: moves_supply_def)

lemma moves_supply_trans:
  assumes "moves_supply A inn out s s1" "moves_supply A inn' out' s1 s2"
  shows "moves_supply A (\<lambda>i. inn i + inn' i) (\<lambda>i. out i + out' i) s s2"
proof -
  have "asset_total s2 i A + (out i + out' i) = asset_total s i A + (inn i + inn' i)" for i
    using moves_supplyD(2) [OF assms(1), of i] moves_supplyD(2) [OF assms(2), of i] by simp
  then show ?thesis using moves_supplyD(1) [OF assms(2)] by (simp add: moves_supply_def)
qed

lemma asset_total_cong:
  assumes "\<And>a. a \<in> A \<Longrightarrow> get_balance s' a i = get_balance s a i"
  shows "asset_total s' i A = asset_total s i A"
  unfolding asset_total_def balances.total_def
  by (rule sum.cong) (use assms in \<open>auto simp: balances.held_def\<close>)

lemma same_balances_keep_supply:
  assumes "well_typed s'" "\<And>a i. get_balance s' a i = get_balance s a i"
  shows "keeps_supply A s s'"
  using asset_total_cong [OF assms(2)] assms(1) by (auto simp only: moves_supply_def)

lemma asset_total_set:
  assumes "finite A" "a \<in> A" "get_balance s a i = Inr old"
  shows "asset_total (set_balance s a i new) j A + (if j = i then unat old else 0) =
    asset_total s j A + (if j = i then unat new else 0)"
  using balances.total_write [of "(\<lambda>x. (x, j)) ` A" s "(a, i)" new] assms
  by (auto simp: asset_total_def balances.held_def image_iff)

lemma set_balance_moves:
  assumes "finite A" "a \<in> A" "well_typed s" "get_balance s a i = Inr old" "unat new + out = unat old + inn"
  shows "moves_supply A (\<lambda>j. if j = i then inn else 0) (\<lambda>j. if j = i then out else 0) s (set_balance s a i new)"
proof -
  have "asset_total (set_balance s a i new) j A + (if j = i then out else 0) =
      asset_total s j A + (if j = i then inn else 0)" for j
    using asset_total_set [OF assms(1,2,4), of new j] assms(5) by (auto split: if_splits)
  then show ?thesis using assms(3) by (simp add: moves_supply_def)
qed

text \<open>One account holds no more than the total, and two no more than the total together.\<close>

lemma two_balances_bounded:
  assumes "finite A" "a \<in> A" "b \<in> A" "a \<noteq> b" "get_balance s a i = Inr x" "get_balance s b i = Inr y"
  shows "unat x + unat y \<le> asset_total s i A"
proof -
  have "sum (balances.held s) {(a, i), (b, i)} \<le> sum (balances.held s) ((\<lambda>x. (x, i)) ` A)"
    using assms(1-3) by (intro sum_mono2) auto
  then show ?thesis using assms(4-6) by (simp add: asset_total_def balances.total_def balances.held_def)
qed

section \<open>Services\<close>

lemma update_balance_moves:
  assumes "update_balance (s, ctx) a i amount up reason = (r, s', ctx')"
    and "finite A" "a \<in> A" "well_typed s"
  shows "moves_supply A (\<lambda>j. if is_ok r \<and> up \<and> i = j then unat amount else 0)
    (\<lambda>j. if is_ok r \<and> \<not> up \<and> i = j then unat amount else 0) s s'"
proof (cases r)
  case (Inl e)
  with assms update_balance_error [of "(s, ctx)" a i amount up reason e "(s', ctx')"]
  show ?thesis by (simp add: keeps_supply_refl)
next
  case (Inr u)
  then obtain old new where old: "get_balance s a i = Inr old" "s' = set_balance s a i new"
    "if up then unat new = unat old + unat amount else unat old = unat new + unat amount"
    using update_balance_success [of s ctx a i amount up reason s' ctx'] assms(1) by (metis old.unit.exhaust)
  show ?thesis
    using set_balance_moves [OF assms(2-4) old(1), of new "if up then 0 else unat amount"
        "if up then unat amount else 0"] old(2,3) Inr
    by (auto simp: moves_supply_def split: if_splits)
qed

lemma transfer_keeps:
  assumes "transfer (s, ctx) sender t = (r, s', ctx')"
    and "finite A" "{sender, tr_to t} \<subseteq> A" "well_typed s" "asset_total s (tr_asset_id t) A < 2 ^ 128"
  shows "keeps_supply A s s'"
proof (cases r)
  case (Inl e)
  obtain b where b: "get_balance s (tr_to t) (tr_asset_id t) = Inr b"
    using typed_reads(1) [OF assms(4)] by (metis is_ok_iff)
  have "e \<noteq> Overflow"
  proof
    assume "e = Overflow"
    then obtain a where a: "sender \<noteq> tr_to t" "get_balance s sender (tr_asset_id t) = Inr a" "tr_amount t \<le> a"
      "checked_add b (tr_amount t) = None"
      using assms(1) Inl b
      by (auto simp: transfer_def result_simps result_errors Let_def not_less split: if_splits)
    then have "2 ^ 128 \<le> unat b + unat a"
      by (auto simp: checked_add_def word_le_nat_alt split: if_splits)
    also have "\<dots> \<le> asset_total s (tr_asset_id t) A"
      using two_balances_bounded [of A "tr_to t" sender s "tr_asset_id t" b a] a assms(2,3) b by auto
    finally show False using assms(5) by simp
  qed
  then show ?thesis
    using transfer_error [of s ctx sender t e s' ctx'] assms(1,4) Inl b by (simp add: keeps_supply_refl)
next
  case (Inr u)
  then have ok: "transfer (s, ctx) sender t = (Inr (), s', ctx')" using assms(1) by simp
  obtain a b where s': "s' = set_balance (set_balance s sender (tr_asset_id t) a) (tr_to t) (tr_asset_id t) b"
    using transfer_success [OF ok] by metis
  have "asset_total s' i A = asset_total s i A" for i
  proof (cases "i = tr_asset_id t")
    case True
    then show ?thesis using transfer_conserves [OF ok assms(2)] assms(3) by simp
  next
    case False
    then show ?thesis by (intro asset_total_cong) (simp add: s')
  qed
  then show ?thesis using assms(4) by (simp add: moves_supply_def s')
qed

lemma bridge_moves:
  assumes "finite A" "well_typed s"
  shows "bridge_deposit (s, ctx) operator d = (r, s', ctx') \<Longrightarrow> bd_user d \<in> A \<Longrightarrow>
      moves_supply A (\<lambda>j. if is_ok r \<and> bd_asset_id d = j then unat (bd_amount d) else 0) (\<lambda>_. 0) s s'"
    and "bridge_withdraw (s, ctx) operator w = (r, s', ctx') \<Longrightarrow> bw_user w \<in> A \<Longrightarrow>
      moves_supply A (\<lambda>_. 0) (\<lambda>j. if is_ok r \<and> bw_asset_id w = j then unat (bw_amount w) else 0) s s'"
proof -
  assume d: "bridge_deposit (s, ctx) operator d = (r, s', ctx')" and A: "bd_user d \<in> A"
  show "moves_supply A (\<lambda>j. if is_ok r \<and> bd_asset_id d = j then unat (bd_amount d) else 0) (\<lambda>_. 0) s s'"
  proof (cases r)
    case (Inl e)
    with d bridge_error(1) [of "(s, ctx)" operator d e "(s', ctx')"] assms(2) show ?thesis
      by (simp add: keeps_supply_refl)
  next
    case (Inr u)
    then obtain old where old: "get_balance s (bd_user d) (bd_asset_id d) = Inr old"
      "unat (old + bd_amount d) = unat old + unat (bd_amount d)"
      "s' = set_balance s (bd_user d) (bd_asset_id d) (old + bd_amount d)"
      using bridge_deposit_success [of s ctx operator d s' ctx'] d by auto
    then show ?thesis
      using set_balance_moves [OF assms(1) A assms(2) old(1), of "old + bd_amount d" 0 "unat (bd_amount d)"] Inr
      by (simp add: eq_commute [of "bd_asset_id d"])
  qed
next
  assume w: "bridge_withdraw (s, ctx) operator w = (r, s', ctx')" and A: "bw_user w \<in> A"
  show "moves_supply A (\<lambda>_. 0) (\<lambda>j. if is_ok r \<and> bw_asset_id w = j then unat (bw_amount w) else 0) s s'"
  proof (cases r)
    case (Inl e)
    with w bridge_error(2) [of "(s, ctx)" operator w e "(s', ctx')"] assms(2) show ?thesis
      by (simp add: keeps_supply_refl)
  next
    case (Inr u)
    then obtain old where old: "get_balance s (bw_user w) (bw_asset_id w) = Inr old" "bw_amount w \<le> old"
      "s' = set_balance s (bw_user w) (bw_asset_id w) (old - bw_amount w)"
      using bridge_withdraw_success [of s ctx operator w s' ctx'] w by auto
    then have "unat (old - bw_amount w) + unat (bw_amount w) = unat old"
      by (simp add: unat_sub word_le_nat_alt)
    then show ?thesis
      using set_balance_moves [OF assms(1) A assms(2) old(1), of "old - bw_amount w" "unat (bw_amount w)" 0] Inr old(3)
      by (simp add: eq_commute [of "bw_asset_id w"])
  qed
qed

lemma get_balance_cong:
  "sm_get s' (StateKey_Balance a i) = sm_get s (StateKey_Balance a i) \<Longrightarrow> get_balance s' a i = get_balance s a i"
  by (simp add: get_balance_def get_or_default_sm)

lemma trading_keeps:
  assumes "well_typed (tg_state t)"
  shows "keeps_supply A (tg_state t) (tg_state (snd (place_order t trader x)))"
    and "keeps_supply A (tg_state t) (tg_state (snd (cancel_order t trader y)))"
    and "keeps_supply A (tg_state t) (tg_state (snd (close_position t trader z)))"
  using typed.kept_place_order [OF assms] typed.kept_cancel_order [OF assms] typed.kept_close_position [OF assms]
  by (auto intro!: same_balances_keep_supply get_balance_cong simp: trading_frame trading_key_def)

section \<open>Transactions\<close>

lemma svc_moves:
  assumes "\<And>r s' ctx'. f (eng_state e, eng_context e) = (r, s', ctx') \<Longrightarrow>
    moves_supply A (inn (is_ok r)) (out (is_ok r)) (eng_state e) s'"
  shows "moves_supply A (inn (is_ok (fst (on_svc f e)))) (out (is_ok (fst (on_svc f e)))) (eng_state e)
    (eng_state (snd (on_svc f e)))"
  using assms by (auto simp: on_svc_def split: prod.splits)

lemma trading_moves:
  assumes "\<And>t. well_typed (tg_state t) \<Longrightarrow> keeps_supply A (tg_state t) (tg_state (snd (f t)))"
    and "well_typed (eng_state e)"
  shows "keeps_supply A (eng_state e) (eng_state (snd (on_trading f e)))"
  using assms(1) [of "engine_trading e"] assms(2)
  by (auto simp: on_trading_def engine_trading_def split: prod.splits)

lemma run_engine_ok [simp]: "is_ok (fst (run_engine r)) \<longleftrightarrow> is_ok (fst r)"
  by (cases "fst r") (simp_all add: run_engine_def)

lemmas process_defs = process_deposit_def process_withdraw_def process_transfer_def process_bridge_deposit_def
  process_bridge_withdraw_def process_place_order_def process_cancel_order_def process_close_position_def
  process_set_agent_def process_remove_agent_def

lemma payload_readonly_moves:
  assumes A: "finite A" "parties tx \<subseteq> A" and s: "well_typed (eng_state e)"
    and small: "\<And>i. asset_total (eng_state e) i A < 2 ^ 128"
  defines "r \<equiv> execute_tx_payload_readonly e tx"
  shows "moves_supply A (\<lambda>i. if is_ok (fst r) then minted tx i else 0)
    (\<lambda>i. if is_ok (fst r) then burned tx i else 0) (eng_state e) (eng_state (snd r))"
proof (cases "tx_payload tx")
  case (TxPayload_Deposit d)
  then show ?thesis
    using svc_moves [of "\<lambda>sv. deposit sv (tx_from tx) d" e A
        "\<lambda>ok i. if ok \<and> dep_asset_id d = i then unat (dep_amount d) else 0" "\<lambda>_ _. 0"]
      update_balance_moves [of "eng_state e" "eng_context e" "tx_from tx" "dep_asset_id d" "dep_amount d" True] A s
    by (auto simp: r_def execute_tx_payload_readonly_def process_defs deposit_def minted_def burned_def parties_def if_if_eq_conj cong: if_cong)
next
  case (TxPayload_Withdraw w)
  then show ?thesis
    using svc_moves [of "\<lambda>sv. withdraw sv (tx_from tx) w" e A "\<lambda>_ _. 0"
        "\<lambda>ok i. if ok \<and> wd_asset_id w = i then unat (wd_amount w) else 0"]
      update_balance_moves [of "eng_state e" "eng_context e" "tx_from tx" "wd_asset_id w" "wd_amount w" False] A s
    by (auto simp: r_def execute_tx_payload_readonly_def process_defs withdraw_def minted_def burned_def parties_def if_if_eq_conj cong: if_cong)
next
  case (TxPayload_Transfer t)
  then show ?thesis
    using svc_moves [of "\<lambda>sv. transfer sv (tx_from tx) t" e A "\<lambda>_ _. 0" "\<lambda>_ _. 0"]
      transfer_keeps [of "eng_state e" "eng_context e" "tx_from tx" t] A s small
    by (auto simp: r_def execute_tx_payload_readonly_def process_defs minted_def burned_def parties_def cong: if_cong)
next
  case (TxPayload_BridgeDeposit d)
  then show ?thesis
    using svc_moves [of "\<lambda>sv. bridge_deposit sv (tx_from tx) d" e A
        "\<lambda>ok i. if ok \<and> bd_asset_id d = i then unat (bd_amount d) else 0" "\<lambda>_ _. 0"]
      bridge_moves(1) [of A "eng_state e" "eng_context e" "tx_from tx" d] A s
    by (auto simp: r_def execute_tx_payload_readonly_def process_defs minted_def burned_def parties_def if_if_eq_conj cong: if_cong)
next
  case (TxPayload_BridgeWithdraw w)
  then show ?thesis
    using svc_moves [of "\<lambda>sv. bridge_withdraw sv (tx_from tx) w" e A "\<lambda>_ _. 0"
        "\<lambda>ok i. if ok \<and> bw_asset_id w = i then unat (bw_amount w) else 0"]
      bridge_moves(2) [of A "eng_state e" "eng_context e" "tx_from tx" w] A s
    by (auto simp: r_def execute_tx_payload_readonly_def process_defs minted_def burned_def parties_def if_if_eq_conj cong: if_cong)
qed (simp_all add: r_def execute_tx_payload_readonly_def process_defs minted_def burned_def keeps_supply_refl s
    trading_moves trading_keeps cong: if_cong)

lemma payload_moves:
  assumes A: "finite A" "parties tx \<subseteq> A" and s: "well_typed (eng_state (nd_engine n))"
    and small: "\<And>i. asset_total (eng_state (nd_engine n)) i A < 2 ^ 128"
    and r: "execute_tx_payload c recover n tx = (r, n')"
  shows "moves_supply A (\<lambda>i. if is_ok r then minted tx i else 0) (\<lambda>i. if is_ok r then burned tx i else 0)
    (eng_state (nd_engine n)) (eng_state (nd_engine n'))"
proof -
  have other: ?thesis if "execute_tx_payload c recover n tx = on_engine (\<lambda>e. execute_tx_payload_readonly e tx) n"
    using payload_readonly_moves [OF A s small] r that by (auto simp: on_engine_def split: prod.splits)
  have agent: ?thesis if "minted tx = (\<lambda>_. 0)" "burned tx = (\<lambda>_. 0)"
    and "execute_tx_payload c recover n tx = bindR (verify_tx_owner c recover tx, n)
      (\<lambda>_ n. on_engine f (n\<lparr>nd_auth := g n\<rparr>))" and "\<And>e. eng_state (snd (f e)) = eng_state e" for f g
  proof -
    have "eng_state (nd_engine (snd (execute_tx_payload c recover n tx))) = eng_state (nd_engine n)"
      unfolding that(3)
      by (rule bindR_snd [where I = "\<lambda>n1. eng_state (nd_engine n1) = eng_state (nd_engine n)"])
        (simp_all add: on_engine_def that(4) split_beta)
    then show ?thesis
      using keeps_supply_refl [OF s, of A] by (simp add: r that(1,2) cong: if_cong)
  qed
  show ?thesis
  proof (cases "tx_payload tx")
    case (TxPayload_SetAgent a)
    then show ?thesis
      by (intro agent) (auto simp: minted_def burned_def execute_tx_payload_def process_set_agent_def)
  next
    case (TxPayload_RemoveAgent a)
    then show ?thesis
      by (intro agent) (auto simp: minted_def burned_def execute_tx_payload_def process_remove_agent_def)
  qed (simp_all add: other execute_tx_payload_def)
qed


lemma execute_moves:
  assumes A: "finite A" "parties tx \<subseteq> A" and s: "well_typed (eng_state (nd_engine n))"
    and small: "\<And>i. asset_total (eng_state (nd_engine n)) i A < 2 ^ 128"
    and r: "execute c recover n tx = (r, n')"
  shows "moves_supply A (\<lambda>i. if is_ok r then minted tx i else 0) (\<lambda>i. if is_ok r then burned tx i else 0)
    (eng_state (nd_engine n)) (eng_state (nd_engine n'))"
proof -
  note payload = payload_moves [OF A s small]
  have bump: "keeps_supply A (eng_state (nd_engine n1)) (eng_state (nd_engine n2))"
    if "well_typed (eng_state (nd_engine n1))" "bump_nonce a n1 = (Inr k, n2)" for a k n1 n2
    using that
    by (intro same_balances_keep_supply get_balance_cong)
      (auto simp: bump_nonce_def on_engine_def increment_nonce_def result_simps Let_def set_nonce_def split: prod.splits)
  show ?thesis
  proof (cases r)
    case (Inr u)
    then obtain n1 n2 k where p: "execute_tx_payload c recover n tx = (Inr (), n1)"
      and b: "bump_nonce (tx_from tx) n1 = (Inr k, n2)"
      and n': "n' = n2\<lparr>nd_mempool := snd (mempool_remove (tx_hash c tx) (nd_mempool n2))\<rparr>"
      using r by (auto simp: execute_def result_simps)
    have m: "moves_supply A (minted tx) (burned tx) (eng_state (nd_engine n)) (eng_state (nd_engine n1))"
      using payload [OF p] by simp
    show ?thesis
      using moves_supply_trans [OF m bump [OF moves_supplyD(1) [OF m] b]] Inr by (simp add: n')
  next
    case (Inl err)
    with execute_failed_payload [of c recover n tx err n'] r payload [of c recover "Inl err" n'] keeps_supply_refl [OF s]
    show ?thesis by auto
  qed
qed

section \<open>Batches\<close>

definition node_total :: "node \<Rightarrow> u32 \<Rightarrow> Address set \<Rightarrow> nat" where
  "node_total n i A = asset_total (eng_state (nd_engine n)) i A"

definition total_minted :: "Transaction list \<Rightarrow> u32 \<Rightarrow> nat" where
  "total_minted txs i = sum_list (map (\<lambda>tx. minted tx i) txs)"

definition total_burned :: "Transaction list \<Rightarrow> u32 \<Rightarrow> nat" where
  "total_burned txs i = sum_list (map (\<lambda>tx. burned tx i) txs)"

lemma total_flow [simp]:
  "total_minted [] = (\<lambda>_. 0)" "total_burned [] = (\<lambda>_. 0)"
  "total_minted [tx] = minted tx" "total_burned [tx] = burned tx"
  "total_minted (xs @ ys) = (\<lambda>i. total_minted xs i + total_minted ys i)"
  "total_burned (xs @ ys) = (\<lambda>i. total_burned xs i + total_burned ys i)"
  by (auto simp: total_minted_def total_burned_def fun_eq_iff)

lemma execute_bytes_moves:
  assumes A: "finite A" "\<And>tx. decode_tx c b = Inr tx \<Longrightarrow> parties tx \<subseteq> A"
    and s: "well_typed (eng_state (nd_engine n))" and small: "\<And>i. node_total n i A < 2 ^ 128"
    and r: "execute_bytes c recover n b = (r, n')"
  shows "moves_supply A
    (total_minted (case r of Inr _ \<Rightarrow> (case decode_tx c b of Inr tx \<Rightarrow> [tx] | Inl _ \<Rightarrow> []) | Inl _ \<Rightarrow> []))
    (total_burned (case r of Inr _ \<Rightarrow> (case decode_tx c b of Inr tx \<Rightarrow> [tx] | Inl _ \<Rightarrow> []) | Inl _ \<Rightarrow> []))
    (eng_state (nd_engine n)) (eng_state (nd_engine n'))"
proof (cases "decode_tx c b")
  case (Inl e)
  then show ?thesis
    using r keeps_supply_refl [OF s, of A] by (auto simp: execute_bytes_def)
next
  case (Inr tx)
  have "execute c recover n tx = (r, n')" using r Inr by (simp add: execute_bytes_def)
  from execute_moves [OF A(1) A(2) [OF Inr] s small [unfolded node_total_def] this] Inr
  show ?thesis by (cases r) simp_all
qed

lemma batch_moves:
  assumes "finite A" "\<And>b tx. b \<in> set bs \<Longrightarrow> decode_tx c b = Inr tx \<Longrightarrow> parties tx \<subseteq> A"
    and "well_typed (eng_state (nd_engine n))"
    and "\<And>i. node_total n i A + total_minted (batch_executed c recover bs n) i < 2 ^ 128"
  shows "moves_supply A (total_minted (batch_executed c recover bs n)) (total_burned (batch_executed c recover bs n))
    (eng_state (nd_engine n)) (eng_state (nd_engine (snd (execute_batch c recover bs st n))))"
  using assms
proof (induction bs arbitrary: n st)
  case Nil
  then show ?case using keeps_supply_refl [of "eng_state (nd_engine n)"] by simp
next
  case (Cons b bs)
  obtain r n1 where eb: "execute_bytes c recover n b = (r, n1)" by fastforce
  define txs where
    "txs = (case r of Inr _ \<Rightarrow> (case decode_tx c b of Inr tx \<Rightarrow> [tx] | Inl _ \<Rightarrow> []) | Inl _ \<Rightarrow> [])"
  have ex: "batch_executed c recover (b # bs) n = txs @ batch_executed c recover bs n1"
    by (cases r) (simp_all add: eb txs_def)
  have small: "node_total n i A < 2 ^ 128" for i
    using Cons.prems(4) [of i] by simp
  have step: "moves_supply A (total_minted txs) (total_burned txs) (eng_state (nd_engine n)) (eng_state (nd_engine n1))"
    unfolding txs_def by (rule execute_bytes_moves [OF Cons.prems(1) _ Cons.prems(3) small eb]) (rule Cons.prems(2) [OF list.set_intros(1)])
  have bound: "node_total n1 i A + total_minted (batch_executed c recover bs n1) i < 2 ^ 128" for i
    using moves_supplyD(2) [OF step, of i] Cons.prems(4) [of i] unfolding ex
    by (simp add: node_total_def)
  have rest: "moves_supply A (total_minted (batch_executed c recover bs n1)) (total_burned (batch_executed c recover bs n1))
      (eng_state (nd_engine n1)) (eng_state (nd_engine (snd (execute_batch c recover bs st n1))))" for st
    by (rule Cons.IH [OF Cons.prems(1) _ moves_supplyD(1) [OF step] bound]) (rule Cons.prems(2) [OF list.set_intros(2)])
  have "snd (execute_batch c recover (b # bs) st n) =
      snd (execute_batch c recover bs (case r of Inr _ \<Rightarrow> record_success st | Inl _ \<Rightarrow> record_failure st) n1)"
    by (cases r) (simp_all add: eb)
  then show ?case
    using moves_supply_trans [OF step rest] unfolding ex by simp
qed

section \<open>A running node\<close>

inductive node_step :: "rpc_env \<Rightarrow> node \<Rightarrow> node \<Rightarrow> bool" for env where
  node_submit: "node_step env n (snd (submit_transaction env hex n))"
| node_set_agent: "node_step env n (snd (rpc_set_agent env hex n))"
| node_remove_agent: "node_step env n (snd (rpc_remove_agent env hex n))"
| node_assets: "node_step env n (snd (initialize_assets n))"
| node_operators: "node_step env n (snd (initialize_bridge_operators ops n))"
| node_genesis: "node_step env n (snd (init_chain dbe chain_id height n))"
| node_block: "node_step env n (snd (execute_txs dbe (rpc_codec env) (rpc_recovery env) height txs n))"

inductive node_reachable :: "rpc_env \<Rightarrow> node \<Rightarrow> bool" for env where
  node_start: "node_reachable env (new_node s)"
| node_run: "node_reachable env n \<Longrightarrow> node_step env n n' \<Longrightarrow> node_reachable env n'"

definition signed_tx :: "rpc_env \<Rightarrow> Transaction \<Rightarrow> bool" where
  "signed_tx env tx \<longleftrightarrow> verify_transaction (rpc_codec env) (rpc_recovery env) tx = Inr ()"

definition pool_signed :: "rpc_env \<Rightarrow> node \<Rightarrow> bool" where
  "pool_signed env n \<longleftrightarrow>
     mempool_ok (rpc_codec env) (nd_mempool n) \<and> mp_config (nd_mempool n) = config_default \<and>
     (\<forall>h tx. ti_txs (mp_index (nd_mempool n)) h = Some tx \<longrightarrow> signed_tx env tx)"

definition agents_signed :: "rpc_env \<Rightarrow> node \<Rightarrow> bool" where
  "agents_signed env n \<longleftrightarrow>
     (\<forall>a g p. get_permissions (nd_auth n) a g = Some p \<longrightarrow>
        (\<exists>tx. signed_tx env tx \<and> tx_from tx = a \<and> tx_payload tx = TxPayload_SetAgent \<lparr>sa_agent = g, sa_permissions = p\<rparr>))"

abbreviation authentic :: "rpc_env \<Rightarrow> node \<Rightarrow> bool" where
  "authentic env n \<equiv> pool_signed env n \<and> agents_signed env n"

lemma authentic_upd [simp]:
  "pool_signed env (n\<lparr>nd_auth := r\<rparr>) \<longleftrightarrow> pool_signed env n" "pool_signed env (n\<lparr>nd_engine := e\<rparr>) \<longleftrightarrow> pool_signed env n"
  "agents_signed env (n\<lparr>nd_mempool := m\<rparr>) \<longleftrightarrow> agents_signed env n"
  "agents_signed env (n\<lparr>nd_engine := e\<rparr>) \<longleftrightarrow> agents_signed env n"
  by (simp_all add: pool_signed_def agents_signed_def)

lemma agents_signed_set:
  assumes "agents_signed env n" "signed_tx env tx" "tx_payload tx = TxPayload_SetAgent a"
  shows "agents_signed env (n\<lparr>nd_auth := set_agent (nd_auth n) (tx_from tx) (sa_agent a) (sa_permissions a)\<rparr>)"
  using assms by (auto simp: agents_signed_def get_permissions_set)

lemma agents_signed_remove:
  "agents_signed env n \<Longrightarrow> agents_signed env (n\<lparr>nd_auth := remove_agent (nd_auth n) a g\<rparr>)"
  by (simp add: agents_signed_def get_permissions_remove)

lemma pool_signed_remove:
  assumes "pool_signed env n"
  shows "pool_signed env (n\<lparr>nd_mempool := snd (mempool_remove h (nd_mempool n))\<rparr>)"
proof -
  let ?m = "snd (mempool_remove h (nd_mempool n))"
  have "mp_config ?m = mp_config (nd_mempool n)"
    by (simp add: mempool_remove_def split: prod.splits)
  moreover have "signed_tx env tx" if "ti_txs (mp_index ?m) h' = Some tx" for h' tx
  proof -
    have "ti_txs (mp_index (nd_mempool n)) h' = Some tx"
      using that by (auto simp: mempool_remove_def index_remove_def split: prod.splits option.splits if_splits)
    then show ?thesis using assms by (simp add: pool_signed_def)
  qed
  ultimately show ?thesis
    using assms mempool_remove_ok by (simp add: pool_signed_def)
qed

lemma pool_signed_add:
  assumes "pool_signed env n" "signed_tx env tx"
    and "mempool_add (rpc_codec env) tx (nd_mempool n) = (Inr h, m)"
  shows "pool_signed env (n\<lparr>nd_mempool := m\<rparr>)"
  using assms mempool_add_success(5) [OF assms(3)] mempool_add_ok [of "rpc_codec env" "nd_mempool n" tx]
  by (auto simp: pool_signed_def index_insert_def Let_def split: if_splits)

text \<open>Engine steps leave pool and registry alone.\<close>

lemma on_engine_authentic [simp]:
  "pool_signed env (snd (on_engine f n)) \<longleftrightarrow> pool_signed env n"
  "agents_signed env (snd (on_engine f n)) \<longleftrightarrow> agents_signed env n"
  by (simp_all add: on_engine_def split_beta)

lemma on_state_authentic [simp]:
  "pool_signed env (snd (on_state f n)) \<longleftrightarrow> pool_signed env n"
  "agents_signed env (snd (on_state f n)) \<longleftrightarrow> agents_signed env n"
  by (simp_all add: on_state_def split_beta)

lemma verify_tx_owner_signed:
  "verify_tx_owner (rpc_codec env) (rpc_recovery env) tx = Inr () \<Longrightarrow> signed_tx env tx"
  by (auto simp: verify_tx_owner_def signed_tx_def verify_transaction_def result_simps split: if_splits)

lemma payload_authentic:
  assumes "authentic env n"
  shows "authentic env (snd (execute_tx_payload (rpc_codec env) (rpc_recovery env) n tx))"
proof (cases "tx_payload tx")
  case (TxPayload_SetAgent a)
  show ?thesis
  proof (cases "verify_tx_owner (rpc_codec env) (rpc_recovery env) tx")
    case (Inr u)
    then have "agents_signed env (n\<lparr>nd_auth := set_agent (nd_auth n) (tx_from tx) (sa_agent a) (sa_permissions a)\<rparr>)"
      using agents_signed_set [OF _ verify_tx_owner_signed TxPayload_SetAgent] assms by simp
    then show ?thesis
      using assms Inr by (simp add: execute_tx_payload_def TxPayload_SetAgent)
  qed (use assms in \<open>simp add: execute_tx_payload_def TxPayload_SetAgent\<close>)
next
  case (TxPayload_RemoveAgent a)
  show ?thesis
    using assms agents_signed_remove
    by (cases "verify_tx_owner (rpc_codec env) (rpc_recovery env) tx")
      (auto simp: execute_tx_payload_def TxPayload_RemoveAgent)
qed (use assms in \<open>simp_all add: execute_tx_payload_def\<close>)

lemma execute_authentic:
  assumes "authentic env n"
  shows "authentic env (snd (execute (rpc_codec env) (rpc_recovery env) n tx))"
proof (cases "execute (rpc_codec env) (rpc_recovery env) n tx")
  case (Pair r n')
  note p = payload_authentic [OF assms, of tx]
  show ?thesis
  proof (cases r)
    case (Inl err)
    then show ?thesis using execute_failed_payload [OF Pair [unfolded Inl]] Pair assms p by auto
  next
    case (Inr u)
    then obtain n1 n2 k where n1: "execute_tx_payload (rpc_codec env) (rpc_recovery env) n tx = (Inr (), n1)"
      and b: "bump_nonce (tx_from tx) n1 = (Inr k, n2)"
      and n': "n' = n2\<lparr>nd_mempool := snd (mempool_remove (tx_hash (rpc_codec env) tx) (nd_mempool n2))\<rparr>"
      using Pair by (auto simp: execute_def result_simps)
    have "authentic env n2"
    proof -
      have "n2 = snd (bump_nonce (tx_from tx) n1)" using b by simp
      then show ?thesis using p n1 by (simp add: bump_nonce_def)
    qed
    then show ?thesis
      using Pair n' pool_signed_remove [of env n2] by simp
  qed
qed

lemma execute_batch_authentic:
  "authentic env n \<Longrightarrow> authentic env (snd (execute_batch (rpc_codec env) (rpc_recovery env) bs st n))"
proof (induction bs arbitrary: st n)
  case (Cons b bs)
  have "authentic env (snd (execute_bytes (rpc_codec env) (rpc_recovery env) n b))"
    by (cases "decode_tx (rpc_codec env) b") (simp_all add: execute_bytes_def execute_authentic Cons.prems)
  then show ?case
    using Cons.IH by (auto split: prod.splits sum.splits)
qed simp

lemma node_step_authentic:
  assumes "node_step env n n'" "authentic env n"
  shows "authentic env n'"
  using assms(1)
proof (cases rule: node_step.cases)
  case (node_submit hex)
  then show ?thesis
  proof (cases "submit_transaction env hex n")
    case (Pair r n1)
    show ?thesis
    proof (cases r)
      case (Inl e)
      then show ?thesis using submit_error [of env hex n e n1] Pair node_submit assms(2) by simp
    next
      case (Inr h)
      then obtain tx m where tx: "decode_and_verify_tx env hex = Inr tx"
        and add: "mempool_add (rpc_codec env) tx (nd_mempool n) = (Inr h, m)" and n1: "n1 = n\<lparr>nd_mempool := m\<rparr>"
        using submit_success [of env hex n h n1] Pair by metis
      have "signed_tx env tx" using tx by (auto simp: decode_and_verify_Inr signed_tx_def)
      with pool_signed_add [OF _ this add] assms(2) show ?thesis
        by (simp add: node_submit Pair n1)
    qed
  qed
next
  case (node_set_agent hex)
  show ?thesis
  proof (cases "decode_and_verify_tx env hex")
    case (Inr tx)
    then have "signed_tx env tx" by (auto simp: decode_and_verify_Inr signed_tx_def)
    with assms(2) agents_signed_set [OF _ this] show ?thesis
      by (cases "tx_payload tx") (simp_all add: node_set_agent rpc_set_agent_def Inr)
  qed (use assms(2) in \<open>simp add: node_set_agent rpc_set_agent_def\<close>)
next
  case (node_remove_agent hex)
  show ?thesis
  proof (cases "decode_and_verify_tx env hex")
    case (Inr tx)
    with assms(2) agents_signed_remove show ?thesis
      by (cases "tx_payload tx") (simp_all add: node_remove_agent rpc_remove_agent_def)
  qed (use assms(2) in \<open>simp add: node_remove_agent rpc_remove_agent_def\<close>)
next
  case (node_genesis dbe chain_id height)
  then show ?thesis
    using assms(2) by (cases "validate_init_chain chain_id height") (simp_all add: init_chain_def split_beta)
next
  case (node_block dbe height txs)
  then show ?thesis
    using assms(2) execute_batch_authentic
    by (simp add: execute_txs_def execute_tx_batch_def Let_def split_beta)
qed (use assms(2) in \<open>simp_all add: initialize_assets_def initialize_bridge_operators_def\<close>)

lemma node_reachable_signed: "node_reachable env n \<Longrightarrow> authentic env n"
proof (induction rule: node_reachable.induct)
  case (node_start s)
  then show ?case
    by (simp add: pool_signed_def agents_signed_def new_node_def mempool_new_ok get_permissions_def)
      (simp add: mempool_new_def index_new_def)
qed (rule node_step_authentic)

section \<open>Properties\<close>

text \<open>C6: A batch of arbitrary bytes changes the supply of an asset only by its executed deposits and
  withdrawals: over every finite set of accounts that contains the parties of its transactions,
  the new total plus what was withdrawn is the old total plus what was deposited.  Orders, fills,
  transfers, agents and all failing transactions change no total, and the store stays well typed.
  The bound excludes the one leak there is, a transfer whose recipient would overflow.\<close>

theorem supply_conserved:
  assumes "execute_tx_batch c recover bs n = (st, n')"
    and "well_typed (eng_state (nd_engine n))" "finite A"
    and "\<forall>b\<in>set bs. \<forall>tx. decode_tx c b = Inr tx \<longrightarrow> parties tx \<subseteq> A"
    and "\<forall>j. node_total n j A + total_minted (batch_executed c recover bs n) j < 2 ^ 128"
  shows "node_total n' i A + total_burned (batch_executed c recover bs n) i =
      node_total n i A + total_minted (batch_executed c recover bs n) i \<and>
    well_typed (eng_state (nd_engine n'))"
proof -
  have n': "n' = snd (execute_batch c recover bs \<lparr>successful = 0, failed = 0\<rparr> n)"
    using assms(1) by (simp add: execute_tx_batch_def)
  have "moves_supply A (total_minted (batch_executed c recover bs n)) (total_burned (batch_executed c recover bs n))
      (eng_state (nd_engine n)) (eng_state (nd_engine n'))"
    unfolding n' by (rule batch_moves) (use assms(2-5) in auto)
  then show ?thesis by (simp add: moves_supply_def node_total_def)
qed

theorem supply_conserved_witness:
  "\<exists>st n'. execute_tx_batch exec_codec exec_recovery [[5], [5]] exec_node = (st, n') \<and>
     node_total n' 0 {7} = 5 \<and> well_typed (eng_state (nd_engine n'))"
proof -
  have flow: "minted (sample_deposit 0 5) j = (if j = 0 then 5 else 0)" "burned (sample_deposit 0 5) j = 0" for j
    by (auto simp: minted_def burned_def sample_deposit_def new_raw_def)
  have start: "node_total exec_node j {7} = 0" "well_typed (eng_state (nd_engine exec_node))" for j
    by (simp_all add: node_total_def asset_total_def balances.total_def balances.held_def exec_node_def new_node_def
        new_engine_def store_simps well_typed_genesis)
  obtain st n' where b: "execute_tx_batch exec_codec exec_recovery [[5], [5]] exec_node = (st, n')" by fastforce
  have "\<forall>b\<in>set [[5], [5]]. \<forall>tx. decode_tx exec_codec b = Inr tx \<longrightarrow> parties tx \<subseteq> {7}"
    by (simp add: exec_decode parties_def sample_deposit_def new_raw_def)
  moreover have "\<forall>j. node_total exec_node j {7} + total_minted (batch_executed exec_codec exec_recovery [[5], [5]] exec_node) j < 2 ^ 128"
    unfolding sample_batch_executed by (simp add: start flow)
  ultimately show ?thesis
    using supply_conserved [OF b start(2), of "{7}" 0] b
    unfolding sample_batch_executed by (simp add: flow start)
qed



end
