(* ===== verification/Snapshot_Exporter.thy ===== *)
theory Snapshot_Exporter
  imports State_Manager
begin

text \<open>
  \<open>crates/state/src/snapshot_exporter.rs\<close>: a checkpoint of the database is packed into an archive and
  published with its metadata in an object store or a local directory, where \<open>latest.json\<close> names the
  newest snapshot.

  The world is the files and the objects.  Every call of the operating system or of an object store
  takes its outcome from a list: it succeeds, or it fails; a failed write may leave other bytes in
  the file, and a failed upload may nevertheless have reached the store.  The archive format, the
  JSON and hex encodings and the contents of a checkpoint are arguments (\<open>snap_env\<close>).

  Proved: whatever fails and whenever, \<open>latest.json\<close> never names a snapshot that is not completely
  there; and the size of a directory is the sum of its files.
\<close>

section \<open>Model\<close>

subsection \<open>Metadata and configuration\<close>

record SnapshotMetadata =
  sn_height :: u64
  sn_state_root :: string
  sn_timestamp :: u64
  sn_db_size :: u64
  sn_snapshot_size :: u64
  sn_chain_id :: string
  sn_version :: string

record S3Config =
  s3_bucket :: string
  s3_region :: string
  s3_prefix :: string

record GCSConfig =
  gcs_bucket :: string
  gcs_prefix :: string

text \<open>A path is the list of its components.\<close>

type_synonym path = "string list"

datatype CloudProvider =
    CloudProvider_S3 S3Config
  | CloudProvider_GCS GCSConfig
  | CloudProvider_Local path

record SnapshotExporterConfig =
  sec_provider :: CloudProvider
  sec_auto_export_interval :: u64
  sec_chain_id :: string

record SnapshotExporter =
  sx_config :: SnapshotExporterConfig
  sx_last_export_height :: u64

definition new_snapshot_exporter :: "SnapshotExporterConfig \<Rightarrow> SnapshotExporter" where
  "new_snapshot_exporter config = \<lparr>sx_config = config, sx_last_export_height = 0\<rparr>"

definition should_export :: "SnapshotExporter \<Rightarrow> u64 \<Rightarrow> bool" where
  "should_export x height =
     (if sec_auto_export_interval (sx_config x) = 0 then False
      else height > 0 \<and> height \<ge> sx_last_export_height x + sec_auto_export_interval (sx_config x))"

subsection \<open>Files, objects and failures\<close>

datatype io_outcome = Io_ok | Io_failed "u8 list option"

datatype cloud_service = Service_S3 | Service_GCS

text \<open>A path holds a file or the directory of a checkpoint; other directories are implicit.\<close>

datatype 'db fs_node = Node_File "u8 list" | Node_Checkpoint 'db

record 'db world =
  w_files :: "path \<rightharpoonup> 'db fs_node"
  w_objects :: "cloud_service \<times> string \<times> string \<rightharpoonup> u8 list"
  w_outcomes :: "io_outcome list"

text \<open>One call: what it does if it succeeds, and if it fails after it has begun.\<close>

definition io ::
  "string \<Rightarrow> ('db world \<Rightarrow> 'db world) \<Rightarrow> (u8 list \<Rightarrow> 'db world \<Rightarrow> 'db world) \<Rightarrow> 'db world \<Rightarrow>
     (StateError + unit) \<times> 'db world" where
  "io msg effect torn w =
     (let w' = w\<lparr>w_outcomes := tl (w_outcomes w)\<rparr> in
      case (if w_outcomes w = [] then Io_ok else hd (w_outcomes w)) of
        Io_ok \<Rightarrow> (Inr (), effect w')
      | Io_failed None \<Rightarrow> (Inl (StorageError msg), w')
      | Io_failed (Some junk) \<Rightarrow> (Inl (StorageError msg), torn junk w'))"

definition set_file :: "path \<Rightarrow> u8 list \<Rightarrow> 'db world \<Rightarrow> 'db world" where
  "set_file p b w = w\<lparr>w_files := (w_files w)(p \<mapsto> Node_File b)\<rparr>"

definition set_object :: "cloud_service \<times> string \<times> string \<Rightarrow> u8 list \<Rightarrow> 'db world \<Rightarrow> 'db world" where
  "set_object k b w = w\<lparr>w_objects := (w_objects w)(k \<mapsto> b)\<rparr>"

definition io_check :: "string \<Rightarrow> 'db world \<Rightarrow> (StateError + unit) \<times> 'db world" where
  "io_check msg = io msg (\<lambda>w. w) (\<lambda>_ w. w)"

definition write_file :: "string \<Rightarrow> path \<Rightarrow> u8 list \<Rightarrow> 'db world \<Rightarrow> (StateError + unit) \<times> 'db world" where
  "write_file msg p b = io msg (set_file p b) (set_file p)"

definition put_object ::
  "string \<Rightarrow> cloud_service \<times> string \<times> string \<Rightarrow> u8 list \<Rightarrow> 'db world \<Rightarrow> (StateError + unit) \<times> 'db world" where
  "put_object msg k b = io msg (set_object k b) (\<lambda>_. set_object k b)"

definition read_file :: "string \<Rightarrow> path \<Rightarrow> 'db world \<Rightarrow> (StateError + u8 list) \<times> 'db world" where
  "read_file msg p w =
     bindR (io_check msg w) (\<lambda>_ w.
       case w_files w p of Some (Node_File b) \<Rightarrow> (Inr b, w) | _ \<Rightarrow> (Inl (StorageError msg), w))"

definition copy_file :: "string \<Rightarrow> path \<Rightarrow> path \<Rightarrow> 'db world \<Rightarrow> (StateError + unit) \<times> 'db world" where
  "copy_file msg from_path to_path w =
     (case w_files w from_path of
        Some (Node_File b) \<Rightarrow> write_file msg to_path b w
      | _ \<Rightarrow> (Inl (StorageError msg), w))"

definition remove_dir_all :: "string \<Rightarrow> path \<Rightarrow> 'db world \<Rightarrow> (StateError + unit) \<times> 'db world" where
  "remove_dir_all msg dir =
     (let rm = (\<lambda>w. w\<lparr>w_files := (\<lambda>p. if prefix dir p then None else w_files w p)\<rparr>) in
      io msg rm (\<lambda>_. rm))"

subsection \<open>The size of a directory\<close>

text \<open>What \<open>read_dir\<close> and \<open>metadata\<close> find: a file with its length, or a directory with its entries.
  \<open>None\<close> stands for a call that fails.\<close>

datatype fs_tree = Fs_file "u64 option" | Fs_dir "fs_tree option list option"

text \<open>The accumulator of \<open>try_fold\<close>.  For a path that is no directory the size is 0; the recursion
  meets directories only.\<close>

fun dir_entries_size :: "u64 \<Rightarrow> fs_tree option list \<Rightarrow> StateError + u64"
  and sub_dir_size :: "fs_tree option list option \<Rightarrow> StateError + u64" where
  "dir_entries_size acc [] = Inr acc"
| "dir_entries_size acc (None # es) = Inl (StorageError ''Failed to read entry'')"
| "dir_entries_size acc (Some (Fs_dir d) # es) =
     bindE (sub_dir_size d) (\<lambda>sz. dir_entries_size (acc + sz) es)"
| "dir_entries_size acc (Some (Fs_file len) # es) =
     (case len of
        None \<Rightarrow> Inl (StorageError ''Failed to get metadata'')
      | Some sz \<Rightarrow> dir_entries_size (acc + sz) es)"
| "sub_dir_size None = Inl (StorageError ''Failed to read directory'')"
| "sub_dir_size (Some es) = dir_entries_size 0 es"

definition get_dir_size :: "fs_tree \<Rightarrow> StateError + u64" where
  "get_dir_size t = (case t of Fs_file _ \<Rightarrow> Inr 0 | Fs_dir d \<Rightarrow> sub_dir_size d)"

subsection \<open>Names\<close>

fun decimal :: "nat \<Rightarrow> string" where
  "decimal n = (if n < 10 then [char_of (48 + n)] else decimal (n div 10) @ [char_of (48 + n mod 10)])"

declare decimal.simps [simp del]

definition snapshot_name :: "u64 \<Rightarrow> string" where
  "snapshot_name height = ''pranklin-snapshot-'' @ decimal (unat height) @ ''.tar.lz4''"

definition metadata_name :: "u64 \<Rightarrow> string" where
  "metadata_name height = ''pranklin-snapshot-'' @ decimal (unat height) @ ''.json''"

definition latest_name :: string where
  "latest_name = ''latest.json''"

text \<open>The JSON value of \<open>latest.json\<close>: height, archive, metadata, and the time for GCS.\<close>

datatype latest_content =
    Latest_S3 u64 string string
  | Latest_GCS u64 string string u64
  | Latest_Local u64 string string

record 'db snap_env =
  se_pack :: "'db \<Rightarrow> u8 list"
  se_metadata_json :: "SnapshotMetadata \<Rightarrow> u8 list"
  se_latest_json :: "latest_content \<Rightarrow> u8 list"
  se_hex :: "B256 \<Rightarrow> string"
  se_path_string :: "path \<Rightarrow> string"
  se_temp_root :: path
  se_pkg_version :: string

subsection \<open>Publishing\<close>

definition upload_to_s3 ::
  "'db snap_env \<Rightarrow> path \<Rightarrow> path \<Rightarrow> S3Config \<Rightarrow> u64 \<Rightarrow> 'db world \<Rightarrow> (StateError + unit) \<times> 'db world" where
  "upload_to_s3 env snapshot_path metadata_path cfg height w =
     (let snapshot_key = s3_prefix cfg @ ''/'' @ snapshot_name height;
          metadata_key = s3_prefix cfg @ ''/'' @ metadata_name height;
          latest_key = s3_prefix cfg @ ''/'' @ latest_name;
          url = (\<lambda>key. ''s3://'' @ s3_bucket cfg @ ''/'' @ key) in
      bindR (read_file ''Failed to read snapshot'' snapshot_path w) (\<lambda>snapshot_data w.
      bindR (put_object ''Failed to upload snapshot to S3'' (Service_S3, s3_bucket cfg, snapshot_key) snapshot_data w) (\<lambda>_ w.
      bindR (read_file ''Failed to read metadata'' metadata_path w) (\<lambda>metadata_data w.
      bindR (put_object ''Failed to upload metadata to S3'' (Service_S3, s3_bucket cfg, metadata_key) metadata_data w) (\<lambda>_ w.
        put_object ''Failed to upload latest.json to S3'' (Service_S3, s3_bucket cfg, latest_key)
          (se_latest_json env (Latest_S3 height (url snapshot_key) (url metadata_key))) w)))))"

definition upload_to_gcs ::
  "'db snap_env \<Rightarrow> u64 \<Rightarrow> path \<Rightarrow> path \<Rightarrow> GCSConfig \<Rightarrow> u64 \<Rightarrow> 'db world \<Rightarrow> (StateError + unit) \<times> 'db world" where
  "upload_to_gcs env now snapshot_path metadata_path cfg height w =
     (let snapshot_nm = gcs_prefix cfg @ ''/'' @ snapshot_name height;
          metadata_nm = gcs_prefix cfg @ ''/'' @ metadata_name height;
          latest_nm = gcs_prefix cfg @ ''/'' @ latest_name;
          bucket_name = ''projects/_/buckets/'' @ gcs_bucket cfg;
          url = (\<lambda>nm. ''gs://'' @ gcs_bucket cfg @ ''/'' @ nm) in
      bindR (io_check ''Failed to initialize GCS client'' w) (\<lambda>_ w.
      bindR (read_file ''Failed to read snapshot file'' snapshot_path w) (\<lambda>snapshot_data w.
      bindR (put_object ''Failed to upload snapshot'' (Service_GCS, bucket_name, snapshot_nm) snapshot_data w) (\<lambda>_ w.
      bindR (read_file ''Failed to read metadata file'' metadata_path w) (\<lambda>metadata_data w.
      bindR (put_object ''Failed to upload metadata'' (Service_GCS, bucket_name, metadata_nm) metadata_data w) (\<lambda>_ w.
        put_object ''Failed to upload latest.json'' (Service_GCS, bucket_name, latest_nm)
          (se_latest_json env (Latest_GCS height (url snapshot_nm) (url metadata_nm) now)) w))))))"

definition copy_to_local ::
  "'db snap_env \<Rightarrow> path \<Rightarrow> path \<Rightarrow> path \<Rightarrow> u64 \<Rightarrow> 'db world \<Rightarrow> (StateError + unit) \<times> 'db world" where
  "copy_to_local env snapshot_path metadata_path dest_dir height w =
     (let dest_snapshot = dest_dir @ [snapshot_name height];
          dest_metadata = dest_dir @ [metadata_name height] in
      bindR (io_check ''Failed to create destination directory'' w) (\<lambda>_ w.
      bindR (copy_file ''Failed to copy snapshot'' snapshot_path dest_snapshot w) (\<lambda>_ w.
      bindR (copy_file ''Failed to copy metadata'' metadata_path dest_metadata w) (\<lambda>_ w.
        write_file ''Failed to write latest.json'' (dest_dir @ [latest_name])
          (se_latest_json env (Latest_Local height (se_path_string env dest_snapshot) (se_path_string env dest_metadata))) w))))"

subsection \<open>The export\<close>

text \<open>Creating the archive file, the encoder, the archive, and finishing both.\<close>

definition compress_lz4 :: "'db snap_env \<Rightarrow> path \<Rightarrow> path \<Rightarrow> 'db world \<Rightarrow> (StateError + unit) \<times> 'db world" where
  "compress_lz4 env source_dir output_path w =
     bindR (write_file ''Failed to create archive'' output_path [] w) (\<lambda>_ w.
     bindR (io_check ''Failed to create LZ4 encoder'' w) (\<lambda>_ w.
     case w_files w source_dir of
       Some (Node_Checkpoint d) \<Rightarrow>
         bindR (io ''Failed to create tar'' (\<lambda>w. w) (set_file output_path) w) (\<lambda>_ w.
         bindR (io ''Failed to finalize tar'' (\<lambda>w. w) (set_file output_path) w) (\<lambda>_ w.
           write_file ''Failed to finalize LZ4'' output_path (se_pack env d) w))
     | _ \<Rightarrow> (Inl (StorageError ''Failed to create tar''), w)))"

text \<open>What the clock, the directory of the database and the database show during an export.\<close>

record 'db export_input =
  ei_db :: 'db
  ei_state_root :: B256
  ei_db_dir :: fs_tree
  ei_now :: u64
  ei_upload_time :: u64

definition export_snapshot ::
  "'db snap_env \<Rightarrow> 'db export_input \<Rightarrow> u64 \<Rightarrow> SnapshotExporter \<Rightarrow> 'db world \<Rightarrow>
     (StateError + SnapshotMetadata) \<times> SnapshotExporter \<times> 'db world" where
  "export_snapshot env inp height x w =
     (let temp_dir = se_temp_root env @ [''pranklin_snapshot_'' @ decimal (unat height)];
          checkpoint_path = temp_dir @ [''checkpoint''];
          snapshot_path = temp_dir @ [snapshot_name height];
          metadata_path = temp_dir @ [metadata_name height];
          run =
            bindR (io_check ''Failed to flush RocksDB'' w) (\<lambda>_ w.
            bindR (io_check ''Failed to create temp dir'' w) (\<lambda>_ w.
            bindR (io ''Failed to create checkpoint''
                     (\<lambda>w. w\<lparr>w_files := (w_files w)(checkpoint_path \<mapsto> Node_Checkpoint (ei_db inp))\<rparr>) (\<lambda>_ w. w) w) (\<lambda>_ w.
            bindR (get_dir_size (ei_db_dir inp), w) (\<lambda>db_size w.
            bindR (compress_lz4 env checkpoint_path snapshot_path w) (\<lambda>_ w.
            bindR (read_file ''Failed to get snapshot size'' snapshot_path w) (\<lambda>archive w.
            (let metadata =
               \<lparr>sn_height = height, sn_state_root = ''0x'' @ se_hex env (ei_state_root inp), sn_timestamp = ei_now inp,
                sn_db_size = db_size, sn_snapshot_size = of_nat (length archive),
                sn_chain_id = sec_chain_id (sx_config x), sn_version = se_pkg_version env\<rparr> in
             bindR (write_file ''Failed to write metadata'' metadata_path (se_metadata_json env metadata) w) (\<lambda>_ w.
             bindR (case sec_provider (sx_config x) of
                      CloudProvider_S3 cfg \<Rightarrow> upload_to_s3 env snapshot_path metadata_path cfg height w
                    | CloudProvider_GCS cfg \<Rightarrow>
                        upload_to_gcs env (ei_upload_time inp) snapshot_path metadata_path cfg height w
                    | CloudProvider_Local dest \<Rightarrow> copy_to_local env snapshot_path metadata_path dest height w) (\<lambda>_ w.
             bindR (remove_dir_all ''Failed to cleanup temp dir'' temp_dir w) (\<lambda>_ w.
               (Inr metadata, w)))))))))))
      in case run of
           (Inl err, w') \<Rightarrow> (Inl err, x, w')
         | (Inr metadata, w') \<Rightarrow> (Inr metadata, x\<lparr>sx_last_export_height := height\<rparr>, w'))"

section \<open>Names are unambiguous\<close>

definition digits_value :: "string \<Rightarrow> nat" where
  "digits_value s = foldl (\<lambda>acc c. acc * 10 + (of_char c - 48)) 0 s"

lemma decimal_value: "digits_value (decimal n) = n"
proof (induction n rule: decimal.induct)
  case (1 n)
  show ?case
  proof (cases "n < 10")
    case True
    then show ?thesis by (subst decimal.simps) (simp add: digits_value_def)
  next
    case False
    with 1 have "digits_value (decimal (n div 10)) = n div 10" by simp
    moreover have "decimal n = decimal (n div 10) @ [char_of (48 + n mod 10)]"
      using False by (subst decimal.simps) simp
    moreover have "(48 + n mod 10) mod 256 = 48 + n mod 10" by (simp add: mod_less)
    ultimately show ?thesis
      by (simp add: digits_value_def)
  qed
qed

lemma decimal_inj [simp]: "decimal m = decimal n \<longleftrightarrow> m = n"
  by (metis decimal_value)

lemma names_inj [simp]:
  "snapshot_name h = snapshot_name k \<longleftrightarrow> h = k" "metadata_name h = metadata_name k \<longleftrightarrow> h = k"
  by (simp_all add: snapshot_name_def metadata_name_def word_unat_eq_iff)

lemma names_differ [simp]:
  "snapshot_name h \<noteq> metadata_name k" "metadata_name k \<noteq> snapshot_name h"
  "snapshot_name h \<noteq> latest_name" "latest_name \<noteq> snapshot_name h"
  "metadata_name h \<noteq> latest_name" "latest_name \<noteq> metadata_name h"
proof -
  have "last (snapshot_name h) \<noteq> last (metadata_name k)" by (simp add: snapshot_name_def metadata_name_def)
  then show "snapshot_name h \<noteq> metadata_name k" "metadata_name k \<noteq> snapshot_name h" by auto
qed (simp_all add: snapshot_name_def metadata_name_def latest_name_def)

section \<open>Complete snapshots\<close>

definition latest_entry :: "latest_content \<Rightarrow> u64 \<times> string \<times> string" where
  "latest_entry c = (case c of Latest_S3 h a m \<Rightarrow> (h, a, m) | Latest_GCS h a m _ \<Rightarrow> (h, a, m) | Latest_Local h a m \<Rightarrow> (h, a, m))"

text \<open>What \<open>latest.json\<close> names is there: an archive of a checkpoint and the metadata of its height.\<close>

definition published :: "'db snap_env \<Rightarrow> (string \<Rightarrow> string) \<Rightarrow> (string \<Rightarrow> u8 list option) \<Rightarrow> bool" where
  "published env url get \<longleftrightarrow>
     (\<forall>b. get latest_name = Some b \<longrightarrow>
        (\<exists>h c d m. b = se_latest_json env c \<and> latest_entry c = (h, url (snapshot_name h), url (metadata_name h)) \<and>
           get (snapshot_name h) = Some (se_pack env d) \<and> get (metadata_name h) = Some (se_metadata_json env m) \<and>
           sn_height m = h))"

lemma published_empty: "get latest_name = None \<Longrightarrow> published env url get"
  by (simp add: published_def)

lemma published_put_snapshot: "published env url get \<Longrightarrow> published env url (get(snapshot_name h \<mapsto> se_pack env d))"
  unfolding published_def by (simp add: fun_upd_def) metis

lemma published_put_metadata:
  "published env url get \<Longrightarrow> sn_height m = h \<Longrightarrow> published env url (get(metadata_name h \<mapsto> se_metadata_json env m))"
  unfolding published_def by (simp add: fun_upd_def) metis

lemma published_put_latest:
  assumes "get (snapshot_name h) = Some (se_pack env d)" "get (metadata_name h) = Some (se_metadata_json env m)"
    and "sn_height m = h" "latest_entry c = (h, url (snapshot_name h), url (metadata_name h))"
  shows "published env url (get(latest_name \<mapsto> se_latest_json env c))"
  using assms by (auto simp: published_def intro!: exI [of _ c])

section \<open>The interface of a destination\<close>

lemma bindRE:
  assumes "bindR m f = (r, s')"
  obtains e s where "m = (Inl e, s)" "r = Inl e" "s' = s" | a s where "m = (Inr a, s)" "f a s = (r, s')"
  using assms by (auto simp: bindR_def split: prod.splits sum.splits)

text \<open>A destination stores named contents.  A failed write leaves the destination as it was or has
  happened; \<open>ok\<close> are the outcomes under which this holds, \<open>source\<close> the files that writing leaves alone.\<close>

locale destination =
  fixes get :: "'w \<Rightarrow> string \<Rightarrow> u8 list option"
    and put :: "string \<Rightarrow> string \<Rightarrow> u8 list \<Rightarrow> 'w \<Rightarrow> (StateError + unit) \<times> 'w"
    and ok :: "'w \<Rightarrow> bool"
    and source :: "'w \<Rightarrow> 'f"
  assumes put_done: "ok w \<Longrightarrow> put msg n b w = (Inr (), w') \<Longrightarrow> get w' = (get w)(n \<mapsto> b)"
    and put_failed: "ok w \<Longrightarrow> put msg n b w = (Inl e, w') \<Longrightarrow> get w' = get w \<or> get w' = (get w)(n \<mapsto> b)"
    and put_frame: "ok w \<Longrightarrow> put msg n b w = (r, w') \<Longrightarrow> ok w' \<and> source w' = source w"
begin

lemma put_get: "ok w \<Longrightarrow> put msg n b w = (r, w') \<Longrightarrow> get w' = get w \<or> get w' = (get w)(n \<mapsto> b)"
  using put_done put_failed by (cases r) auto

lemma put_other: "ok w \<Longrightarrow> put msg n b w = (r, w') \<Longrightarrow> n' \<noteq> n \<Longrightarrow> get w' n' = get w n'"
  using put_get by fastforce

lemma snapshot_put:
  assumes "put msg (snapshot_name h) (se_pack env d) w = (r, w')" "ok w" "published env url (get w)"
  shows "published env url (get w')" "r = Inr () \<Longrightarrow> get w' (snapshot_name h) = Some (se_pack env d)"
  using put_get [OF assms(2,1)] put_done [OF assms(2), of msg "snapshot_name h" "se_pack env d" w'] assms
  by (auto simp: published_put_snapshot)

lemma metadata_put:
  assumes "put msg (metadata_name h) (se_metadata_json env m) w = (r, w')" "ok w" "published env url (get w)" "sn_height m = h"
  shows "published env url (get w')" "r = Inr () \<Longrightarrow> get w' (metadata_name h) = Some (se_metadata_json env m)"
    "get w' (snapshot_name h) = get w (snapshot_name h)"
  using put_get [OF assms(2,1)] put_done [OF assms(2), of msg "metadata_name h" "se_metadata_json env m" w'] assms
    put_other [OF assms(2,1)]
  by (auto simp: published_put_metadata)

lemma latest_put:
  assumes "put msg latest_name (se_latest_json env c) w = (r, w')" "ok w" "published env url (get w)"
    and "get w (snapshot_name h) = Some (se_pack env d)" "get w (metadata_name h) = Some (se_metadata_json env m)"
    and "sn_height m = h" "latest_entry c = (h, url (snapshot_name h), url (metadata_name h))"
  shows "published env url (get w')" "r = Inr () \<Longrightarrow> get w' latest_name = Some (se_latest_json env c)"
  using put_get [OF assms(2,1)] put_done [OF assms(2), of msg latest_name "se_latest_json env c" w'] assms(1,3)
    published_put_latest [where get = "get w", OF assms(4-7)]
  by auto

text \<open>The order of the three writes, with the files read in between: first the last two, then all.\<close>

abbreviation between :: "'db snap_env \<Rightarrow> (string \<Rightarrow> string) \<Rightarrow> 'f \<Rightarrow> 'w \<Rightarrow> bool" where
  "between env url src v \<equiv> published env url (get v) \<and> source v = src \<and> ok v"

abbreviation there :: "'db snap_env \<Rightarrow> latest_content \<Rightarrow> u64 \<Rightarrow> 'db \<Rightarrow> SnapshotMetadata \<Rightarrow> 'w \<Rightarrow> bool" where
  "there env c h d m v \<equiv> get v latest_name = Some (se_latest_json env c) \<and> get v (snapshot_name h) = Some (se_pack env d) \<and>
     get v (metadata_name h) = Some (se_metadata_json env m)"

lemma publish_metadata:
  assumes run: "bindR (put msg2 (metadata_name h) (se_metadata_json env m) w) (\<lambda>_ w.
      put msg3 latest_name (se_latest_json env c) w) = (r, w')"
    and w: "between env url src w" "get w (snapshot_name h) = Some (se_pack env d)"
    and c: "sn_height m = h" "latest_entry c = (h, url (snapshot_name h), url (metadata_name h))"
  shows "between env url src w' \<and> (r = Inr () \<longrightarrow> there env c h d m w')"
  using run
proof (cases rule: bindRE)
  case (1 e v)
  then show ?thesis using metadata_put [OF 1(1), of url] put_frame [OF _ 1(1)] w c(1) by simp
next
  case (2 u v)
  note mp = metadata_put [OF 2(1), of url]
  have v: "between env url src v" using mp put_frame [OF _ 2(1)] w c(1) by simp
  have "get v (snapshot_name h) = Some (se_pack env d)" "get v (metadata_name h) = Some (se_metadata_json env m)"
    using mp w c(1) by auto
  from latest_put [OF 2(2) _ _ this c] put_frame [OF _ 2(2)] put_other [OF _ 2(2)] v this show ?thesis by auto
qed

lemma publish_in_order:
  assumes run: "bindR (rd1 w) (\<lambda>a w. bindR (put msg1 (snapshot_name h) a w) (\<lambda>_ w. bindR (rd2 w) (\<lambda>b w.
      bindR (put msg2 (metadata_name h) b w) (\<lambda>_ w. put msg3 latest_name (se_latest_json env c) w)))) = (r, w')"
    and reads: "\<And>u x v. rd1 u = (x, v) \<Longrightarrow> get v = get u \<and> source v = source u \<and> (ok u \<longrightarrow> ok v)"
      "\<And>u x v. rd2 u = (x, v) \<Longrightarrow> get v = get u \<and> source v = source u \<and> (ok u \<longrightarrow> ok v)"
    and data: "\<And>u a v. source u = src \<Longrightarrow> rd1 u = (Inr a, v) \<Longrightarrow> a = se_pack env d"
      "\<And>u a v. source u = src \<Longrightarrow> rd2 u = (Inr a, v) \<Longrightarrow> a = se_metadata_json env m"
    and w: "between env url src w"
    and c: "sn_height m = h" "latest_entry c = (h, url (snapshot_name h), url (metadata_name h))"
  shows "between env url src w' \<and> (r = Inr () \<longrightarrow> there env c h d m w')"
  using run
proof (cases rule: bindRE)
  case (1 e v)
  then show ?thesis using reads(1) [OF 1(1)] w by simp
next
  case r1: (2 a w1)
  have a: "a = se_pack env d" using data(1) r1(1) w by blast
  have w1: "between env url src w1" using reads(1) [OF r1(1)] w by simp
  from r1(2) show ?thesis
  proof (cases rule: bindRE)
    case (1 e v)
    then show ?thesis using snapshot_put [OF 1(1) [unfolded a], of url] put_frame [OF _ 1(1)] w1 by simp
  next
    case p: (2 u w2)
    note sp = snapshot_put [OF p(1) [unfolded a], of url]
    have w2: "between env url src w2" using sp put_frame [OF _ p(1)] w1 by simp
    from p(2) show ?thesis
    proof (cases rule: bindRE)
      case (1 e v)
      then show ?thesis using reads(2) [OF 1(1)] w2 by simp
    next
      case r2: (2 b w3)
      have b: "b = se_metadata_json env m" using data(2) r2(1) w2 by blast
      show ?thesis
        by (rule publish_metadata [OF r2(2) [unfolded b] _ _ c, of src d])
          (use reads(2) [OF r2(1)] w2 sp(2) w1 in auto)
    qed
  qed
qed

end

section \<open>The three destinations\<close>

definition torn :: "io_outcome \<Rightarrow> bool" where
  "torn r \<longleftrightarrow> (\<exists>b. r = Io_failed (Some b))"

lemma io_result:
  "io msg f g w = (Inr (), w') \<longleftrightarrow>
     (w_outcomes w = [] \<or> hd (w_outcomes w) = Io_ok) \<and> w' = f (w\<lparr>w_outcomes := tl (w_outcomes w)\<rparr>)"
  "io msg f g w = (Inl e, w') \<longleftrightarrow> e = StorageError msg \<and>
     (\<exists>os. w_outcomes w = Io_failed None # os \<and> w' = w\<lparr>w_outcomes := os\<rparr> \<or>
       (\<exists>b. w_outcomes w = Io_failed (Some b) # os \<and> w' = g b (w\<lparr>w_outcomes := os\<rparr>)))"
  by (cases "w_outcomes w"; auto simp: io_def Let_def split: io_outcome.splits option.splits)+

text \<open>The part of the files below the directory for temporary files.\<close>

definition temp_files :: "'db snap_env \<Rightarrow> 'db world \<Rightarrow> (path \<rightharpoonup> 'db fs_node)" where
  "temp_files env w = (w_files w) |` {p. prefix (se_temp_root env) p}"

lemma temp_files_cong: "w_files w' = w_files w \<Longrightarrow> temp_files env w' = temp_files env w"
  by (simp add: temp_files_def)

definition object_get :: "cloud_service \<Rightarrow> string \<Rightarrow> string \<Rightarrow> 'db world \<Rightarrow> string \<Rightarrow> u8 list option" where
  "object_get svc bucket pre w n = w_objects w (svc, bucket, pre @ ''/'' @ n)"

definition object_put ::
  "cloud_service \<Rightarrow> string \<Rightarrow> string \<Rightarrow> string \<Rightarrow> string \<Rightarrow> u8 list \<Rightarrow> 'db world \<Rightarrow> (StateError + unit) \<times> 'db world" where
  "object_put svc bucket pre msg n = put_object msg (svc, bucket, pre @ ''/'' @ n)"

interpretation objects: destination "object_get svc bucket pre" "object_put svc bucket pre" "\<lambda>_. True" w_files
  by unfold_locales
    (auto simp: object_put_def put_object_def io_def object_get_def set_object_def fun_eq_iff Let_def
      split: io_outcome.splits option.splits if_splits)

definition file_get :: "path \<Rightarrow> 'db world \<Rightarrow> string \<Rightarrow> u8 list option" where
  "file_get dir w n = (case w_files w (dir @ [n]) of Some (Node_File b) \<Rightarrow> Some b | _ \<Rightarrow> None)"

definition file_put :: "path \<Rightarrow> string \<Rightarrow> string \<Rightarrow> u8 list \<Rightarrow> 'db world \<Rightarrow> (StateError + unit) \<times> 'db world" where
  "file_put dir msg n = write_file msg (dir @ [n])"

definition whole :: "'db world \<Rightarrow> bool" where
  "whole w \<longleftrightarrow> (\<forall>r\<in>set (w_outcomes w). \<not> torn r)"

lemma whole_tl: "whole w \<Longrightarrow> \<forall>r\<in>set (tl (w_outcomes w)). \<not> torn r"
  by (cases "w_outcomes w") (auto simp: whole_def)

interpretation local_dir: destination "file_get dir" "file_put dir" whole
    "\<lambda>w. (w_files w) |` {p. \<forall>n. p \<noteq> dir @ [n]}"
proof unfold_locales
  fix w :: "'a world" and msg n b w'
  assume w: "whole w"
  show "file_get dir w' = (file_get dir w)(n \<mapsto> b)" if "file_put dir msg n b w = (Inr (), w')"
    using that by (auto simp: file_put_def write_file_def io_result file_get_def set_file_def fun_eq_iff)
  show "file_get dir w' = file_get dir w \<or> file_get dir w' = (file_get dir w)(n \<mapsto> b)"
    if "file_put dir msg n b w = (Inl e, w')" for e
    using that w by (auto simp: file_put_def write_file_def io_result file_get_def whole_def torn_def fun_eq_iff)
  show "whole w' \<and> (w_files w') |` {p. \<forall>n. p \<noteq> dir @ [n]} = (w_files w) |` {p. \<forall>n. p \<noteq> dir @ [n]}"
    if "file_put dir msg n b w = (r, w')" for r
    using that w whole_tl [OF w]
    by (cases r; auto simp: file_put_def write_file_def io_result whole_def set_file_def torn_def restrict_map_def fun_eq_iff)
qed

section \<open>Uploading\<close>

lemma io_check_result: "io_check msg w = (r, w') \<Longrightarrow> w' = w\<lparr>w_outcomes := tl (w_outcomes w)\<rparr>"
  by (cases r) (auto simp: io_check_def io_result)

lemma read_file_result:
  "read_file msg p w = (r, w') \<Longrightarrow> w' = w\<lparr>w_outcomes := tl (w_outcomes w)\<rparr>"
  "read_file msg p w = (Inr b, w') \<Longrightarrow> w_files w p = Some (Node_File b)"
  by (auto simp: read_file_def bindR_def split: prod.splits sum.splits option.splits fs_node.splits dest!: io_check_result)

lemma outcomes_irrelevant [simp]:
  "object_get svc bucket pre (w\<lparr>w_outcomes := os\<rparr>) = object_get svc bucket pre w"
  "file_get dir (w\<lparr>w_outcomes := os\<rparr>) = file_get dir w"
  by (simp_all add: object_get_def file_get_def fun_eq_iff)

definition dest_get :: "CloudProvider \<Rightarrow> 'db world \<Rightarrow> string \<Rightarrow> u8 list option" where
  "dest_get p = (case p of
     CloudProvider_S3 c \<Rightarrow> object_get Service_S3 (s3_bucket c) (s3_prefix c)
   | CloudProvider_GCS c \<Rightarrow> object_get Service_GCS (''projects/_/buckets/'' @ gcs_bucket c) (gcs_prefix c)
   | CloudProvider_Local dir \<Rightarrow> file_get dir)"

definition dest_url :: "'db snap_env \<Rightarrow> CloudProvider \<Rightarrow> string \<Rightarrow> string" where
  "dest_url env p n = (case p of
     CloudProvider_S3 c \<Rightarrow> ''s3://'' @ s3_bucket c @ ''/'' @ s3_prefix c @ ''/'' @ n
   | CloudProvider_GCS c \<Rightarrow> ''gs://'' @ gcs_bucket c @ ''/'' @ gcs_prefix c @ ''/'' @ n
   | CloudProvider_Local dir \<Rightarrow> se_path_string env (dir @ [n]))"

text \<open>The temporary directory lies outside a local destination.\<close>

definition separate :: "'db snap_env \<Rightarrow> CloudProvider \<Rightarrow> bool" where
  "separate env p \<longleftrightarrow> (case p of CloudProvider_Local dir \<Rightarrow> \<forall>n. \<not> prefix (se_temp_root env) (dir @ [n]) | _ \<Rightarrow> True)"

definition intact :: "CloudProvider \<Rightarrow> 'db world \<Rightarrow> bool" where
  "intact p w \<longleftrightarrow> (case p of CloudProvider_Local _ \<Rightarrow> whole w | _ \<Rightarrow> True)"

definition upload ::
  "'db snap_env \<Rightarrow> u64 \<Rightarrow> CloudProvider \<Rightarrow> path \<Rightarrow> path \<Rightarrow> u64 \<Rightarrow> 'db world \<Rightarrow> (StateError + unit) \<times> 'db world" where
  "upload env now p sp mp h w = (case p of
     CloudProvider_S3 cfg \<Rightarrow> upload_to_s3 env sp mp cfg h w
   | CloudProvider_GCS cfg \<Rightarrow> upload_to_gcs env now sp mp cfg h w
   | CloudProvider_Local dest \<Rightarrow> copy_to_local env sp mp dest h w)"

text \<open>The pointer names height \<open>h\<close>, and the archive of \<open>d\<close> and the metadata \<open>m\<close> are there.\<close>

definition names_height :: "'db snap_env \<Rightarrow> CloudProvider \<Rightarrow> u64 \<Rightarrow> 'db \<Rightarrow> SnapshotMetadata \<Rightarrow> 'db world \<Rightarrow> bool" where
  "names_height env p h d m w \<longleftrightarrow> (\<exists>c. dest_get p w latest_name = Some (se_latest_json env c) \<and>
     latest_entry c = (h, dest_url env p (snapshot_name h), dest_url env p (metadata_name h))) \<and>
     dest_get p w (snapshot_name h) = Some (se_pack env d) \<and> dest_get p w (metadata_name h) = Some (se_metadata_json env m)"

lemma object_upload:
  assumes run: "bindR (read_file m1 sp w) (\<lambda>a w. bindR (object_put svc bucket pre m2 (snapshot_name h) a w) (\<lambda>_ w.
      bindR (read_file m3 mp w) (\<lambda>b w. bindR (object_put svc bucket pre m4 (metadata_name h) b w) (\<lambda>_ w.
        object_put svc bucket pre m5 latest_name (se_latest_json env c) w)))) = (r, w')"
    and files: "w_files w sp = Some (Node_File (se_pack env d))" "w_files w mp = Some (Node_File (se_metadata_json env m))"
    and w: "published env url (object_get svc bucket pre w)"
    and c: "sn_height m = h" "latest_entry c = (h, url (snapshot_name h), url (metadata_name h))"
  shows "published env url (object_get svc bucket pre w') \<and>
    (r = Inr () \<longrightarrow> objects.there svc bucket pre env c h d m w')"
proof -
  have rd: "object_get svc bucket pre v = object_get svc bucket pre u \<and> w_files v = w_files u \<and> (True \<longrightarrow> True)"
    if "read_file q f u = (x, v)" for q f u x v
    using read_file_result(1) [OF that] by simp
  have d1: "a = se_pack env d" if "w_files u = w_files w" "read_file m1 sp u = (Inr a, v)" for u a v
    using read_file_result(2) [OF that(2)] that(1) files(1) by simp
  have d2: "a = se_metadata_json env m" if "w_files u = w_files w" "read_file m3 mp u = (Inr a, v)" for u a v
    using read_file_result(2) [OF that(2)] that(1) files(2) by simp
  have "objects.between svc bucket pre env url (w_files w) w' \<and>
      (r = Inr () \<longrightarrow> objects.there svc bucket pre env c h d m w')"
    by (rule objects.publish_in_order [where ?rd1.0 = "read_file m1 sp" and ?rd2.0 = "read_file m3 mp" and d = d and m = m, OF run])
      (use rd d1 d2 w c in blast)+
  then show ?thesis by simp
qed

definition peek_file :: "string \<Rightarrow> path \<Rightarrow> 'db world \<Rightarrow> (StateError + u8 list) \<times> 'db world" where
  "peek_file msg p w = (case w_files w p of Some (Node_File b) \<Rightarrow> (Inr b, w) | _ \<Rightarrow> (Inl (StorageError msg), w))"

lemma copy_file_peek: "bindR (copy_file msg p q w) k = bindR (peek_file msg p w) (\<lambda>b w. bindR (write_file msg q b w) k)"
  by (simp add: copy_file_def peek_file_def split: option.split fs_node.split)

lemma peek_file_result: "peek_file msg p w = (r, w') \<Longrightarrow> w' = w" "peek_file msg p w = (Inr b, w') \<Longrightarrow> w_files w p = Some (Node_File b)"
  by (auto simp: peek_file_def split: option.splits fs_node.splits)

lemma local_upload:
  assumes run: "bindR (peek_file m1 sp w) (\<lambda>a w. bindR (file_put dir m2 (snapshot_name h) a w) (\<lambda>_ w.
      bindR (peek_file m3 mp w) (\<lambda>b w. bindR (file_put dir m4 (metadata_name h) b w) (\<lambda>_ w.
        file_put dir m5 latest_name (se_latest_json env c) w)))) = (r, w')"
    and files: "w_files w sp = Some (Node_File (se_pack env d))" "w_files w mp = Some (Node_File (se_metadata_json env m))"
      "\<And>n. sp \<noteq> dir @ [n]" "\<And>n. mp \<noteq> dir @ [n]"
    and w: "published env url (file_get dir w)" "whole w"
    and c: "sn_height m = h" "latest_entry c = (h, url (snapshot_name h), url (metadata_name h))"
  shows "published env url (file_get dir w') \<and> whole w' \<and>
    (r = Inr () \<longrightarrow> local_dir.there dir env c h d m w')"
proof -
  let ?src = "\<lambda>w. (w_files w) |` {p. \<forall>n. p \<noteq> dir @ [n]}"
  have other: "w_files u p = w_files w p" if "?src u = ?src w" "\<And>n. p \<noteq> dir @ [n]" for u p
    using fun_cong [OF that(1), of p] that(2) by simp
  have "a = se_pack env d" if "?src u = ?src w" "peek_file m1 sp u = (Inr a, v)" for u a v
    using other [OF that(1) files(3)] peek_file_result(2) [OF that(2)] files(1) by simp
  moreover have "a = se_metadata_json env m" if "?src u = ?src w" "peek_file m3 mp u = (Inr a, v)" for u a v
    using other [OF that(1) files(4)] peek_file_result(2) [OF that(2)] files(2) by simp
  ultimately show ?thesis
    using local_dir.publish_in_order [where ?rd1.0 = "peek_file m1 sp" and ?rd2.0 = "peek_file m3 mp" and w = w and
        src = "?src w" and d = d and m = m, OF run _ _ _ _ _ c] peek_file_result(1) w by blast
qed

lemma upload_published:
  assumes run: "upload env now p sp mp h w = (r, w')"
    and files: "w_files w sp = Some (Node_File (se_pack env d))" "w_files w mp = Some (Node_File (se_metadata_json env m))"
      "prefix (se_temp_root env) sp" "prefix (se_temp_root env) mp"
    and w: "published env (dest_url env p) (dest_get p w)" "intact p w" "separate env p" and m: "sn_height m = h"
  shows "published env (dest_url env p) (dest_get p w') \<and> intact p w' \<and> (r = Inr () \<longrightarrow> names_height env p h d m w')"
proof (cases p)
  case (CloudProvider_S3 cfg)
  show ?thesis
    using object_upload [OF run [unfolded CloudProvider_S3 upload_def CloudProvider.case upload_to_s3_def Let_def,
          folded object_put_def] files(1,2), of "dest_url env p"] w m CloudProvider_S3
    by (auto simp: dest_get_def dest_url_def intact_def names_height_def latest_entry_def)
next
  case (CloudProvider_GCS cfg)
  from run [unfolded CloudProvider_GCS upload_def CloudProvider.case upload_to_gcs_def Let_def] show ?thesis
  proof (cases rule: bindRE)
    case (1 e v)
    then show ?thesis using w io_check_result [OF 1(1)]
      by (simp add: CloudProvider_GCS dest_get_def intact_def)
  next
    case (2 u v)
    then show ?thesis
      using object_upload [OF 2(2) [folded object_put_def], of d m "dest_url env p"] files(1,2) w m io_check_result [OF 2(1)] CloudProvider_GCS
      by (auto simp: dest_get_def dest_url_def intact_def names_height_def latest_entry_def)
  qed
next
  case (CloudProvider_Local dir)
  have out: "q \<noteq> dir @ [n]" if "prefix (se_temp_root env) q" for q n
    using w(3) that by (auto simp: separate_def CloudProvider_Local)
  from run [unfolded CloudProvider_Local upload_def CloudProvider.case copy_to_local_def Let_def copy_file_peek] show ?thesis
  proof (cases rule: bindRE)
    case (1 e v)
    then show ?thesis using w io_check_result [OF 1(1)] whole_tl [of w]
      by (simp add: CloudProvider_Local dest_get_def intact_def whole_def)
  next
    case (2 u v)
    have v: "v = w\<lparr>w_outcomes := tl (w_outcomes w)\<rparr>" by (rule io_check_result [OF 2(1)])
    have "whole v" "published env (dest_url env p) (file_get dir v)"
      using w whole_tl [of w] by (simp_all add: v CloudProvider_Local dest_get_def intact_def whole_def)
    moreover have "w_files v sp = Some (Node_File (se_pack env d))" "w_files v mp = Some (Node_File (se_metadata_json env m))"
      using files by (simp_all add: v)
    ultimately have "published env (dest_url env p) (file_get dir w') \<and> whole w' \<and> (r = Inr () \<longrightarrow>
        local_dir.there dir env
          (Latest_Local h (se_path_string env (dir @ [snapshot_name h])) (se_path_string env (dir @ [metadata_name h]))) h d m w')"
      using out [OF files(3)] out [OF files(4)] m
      by (intro local_upload [OF 2(2) [folded file_put_def]]) (simp_all add: latest_entry_def dest_url_def CloudProvider_Local)
    then show ?thesis
      by (auto simp: CloudProvider_Local dest_get_def dest_url_def intact_def names_height_def latest_entry_def)
  qed
qed

section \<open>The whole export\<close>

text \<open>A run ends in \<open>I\<close> if it fails, and in \<open>Q\<close> with its result if it succeeds.\<close>

definition ends_in :: "('s \<Rightarrow> bool) \<Rightarrow> ('e + 'a) \<times> 's \<Rightarrow> ('a \<Rightarrow> 's \<Rightarrow> bool) \<Rightarrow> bool" where
  "ends_in I m Q = (case m of (Inl _, s) \<Rightarrow> I s | (Inr a, s) \<Rightarrow> Q a s)"

lemma ends_in_bind:
  assumes "ends_in I m Q" "\<And>a s. Q a s \<Longrightarrow> ends_in I (f a s) R"
  shows "ends_in I (bindR m f) R"
proof (cases m)
  case (Pair r s)
  then show ?thesis using assms by (cases r) (simp_all add: ends_in_def)
qed

lemma ends_in_io:
  assumes "\<And>os. os = tl (w_outcomes w) \<Longrightarrow> Q () (f (w\<lparr>w_outcomes := os\<rparr>))"
    and "\<And>os. set os \<subseteq> set (w_outcomes w) \<Longrightarrow> I (w\<lparr>w_outcomes := os\<rparr>)"
    and "\<And>b os. set os \<subseteq> set (w_outcomes w) \<Longrightarrow> Io_failed (Some b) \<in> set (w_outcomes w) \<Longrightarrow> I (g b (w\<lparr>w_outcomes := os\<rparr>))"
  shows "ends_in I (io msg f g w) Q"
proof (cases "io msg f g w")
  case (Pair r w')
  show ?thesis
  proof (cases r)
    case (Inl e)
    with Pair have "I w'" using assms(2,3) by (auto simp only: io_result list.set) blast+
    with Pair Inl show ?thesis by (simp add: ends_in_def)
  next
    case (Inr u)
    with Pair have "Q () w'" using assms(1) by (simp add: io_result)
    with Pair Inr show ?thesis by (simp add: ends_in_def)
  qed
qed

definition dest_ok :: "'db snap_env \<Rightarrow> CloudProvider \<Rightarrow> 'db world \<Rightarrow> bool" where
  "dest_ok env p w \<longleftrightarrow> published env (dest_url env p) (dest_get p w) \<and> intact p w"

lemma dest_outcomes [simp]: "dest_get p (w\<lparr>w_outcomes := os\<rparr>) = dest_get p w"
  by (cases p) (simp_all add: dest_get_def)

lemma dest_ok_outcomes:
  "dest_ok env p w \<Longrightarrow> set os \<subseteq> set (w_outcomes w) \<Longrightarrow> dest_ok env p (w\<lparr>w_outcomes := os\<rparr>)"
  by (auto simp: dest_ok_def intact_def whole_def split: CloudProvider.splits)

lemma dest_temp:
  assumes "separate env p" "\<And>q. \<not> prefix (se_temp_root env) q \<Longrightarrow> fs q = w_files w q"
  shows "dest_get p (w\<lparr>w_files := fs\<rparr>) = dest_get p w"
  using assms by (cases p) (auto simp: dest_get_def object_get_def file_get_def separate_def fun_eq_iff)

lemma dest_ok_temp:
  assumes "dest_ok env p w" "separate env p" "\<And>q. \<not> prefix (se_temp_root env) q \<Longrightarrow> fs q = w_files w q"
  shows "dest_ok env p (w\<lparr>w_files := fs\<rparr>)"
  using assms(1) dest_temp [OF assms(2,3)] by (simp add: dest_ok_def intact_def whole_def split: CloudProvider.splits)

lemma dest_ok_set_file:
  "dest_ok env p w \<Longrightarrow> separate env p \<Longrightarrow> prefix (se_temp_root env) q \<Longrightarrow> dest_ok env p (set_file q b w)"
  unfolding set_file_def by (rule dest_ok_temp) auto

lemma tl_subset: "set (tl xs) \<subseteq> set xs"
  by (cases xs) auto

text \<open>A call that changes at most temporary files keeps the destination.\<close>

lemma ends_in_temp:
  assumes w: "dest_ok env p w" "separate env p"
    and f: "\<And>v. dest_ok env p v \<Longrightarrow> w_files v = w_files w \<Longrightarrow> dest_ok env p (f v) \<and> J (w_files (f v))"
    and g: "\<And>b v. dest_ok env p v \<Longrightarrow> w_files v = w_files w \<Longrightarrow> dest_ok env p (g b v)"
  shows "ends_in (dest_ok env p) (io msg f g w) (\<lambda>_ w'. dest_ok env p w' \<and> J (w_files w'))"
proof (rule ends_in_io)
  show "dest_ok env p (f (w\<lparr>w_outcomes := os\<rparr>)) \<and> J (w_files (f (w\<lparr>w_outcomes := os\<rparr>))) " if "os = tl (w_outcomes w)" for os
    using that f dest_ok_outcomes [OF w(1) tl_subset] by auto
qed (use g dest_ok_outcomes [OF w(1)] in auto)

lemma ends_in_check:
  assumes "dest_ok env p w" "separate env p" "J (w_files w)"
  shows "ends_in (dest_ok env p) (io_check msg w) (\<lambda>_ w'. dest_ok env p w' \<and> J (w_files w'))"
  unfolding io_check_def by (rule ends_in_temp [OF assms(1,2)]) (use assms(3) in simp_all)

lemma ends_in_read:
  assumes "dest_ok env p w" "separate env p" "J (w_files w)"
  shows "ends_in (dest_ok env p) (read_file msg q w) (\<lambda>_ w'. dest_ok env p w' \<and> J (w_files w'))"
  unfolding read_file_def
  by (rule ends_in_bind [OF ends_in_check [where J = J, OF assms]]) (simp add: ends_in_def split: option.split fs_node.split)

lemma ends_in_write:
  assumes "dest_ok env p w" "separate env p" "prefix (se_temp_root env) q" "J ((w_files w)(q \<mapsto> Node_File b))"
  shows "ends_in (dest_ok env p) (write_file msg q b w) (\<lambda>_ w'. dest_ok env p w' \<and> J (w_files w'))"
  unfolding write_file_def
proof (rule ends_in_temp [OF assms(1,2)])
  show "dest_ok env p (set_file q b v) \<and> J (w_files (set_file q b v))" if "dest_ok env p v" "w_files v = w_files w" for v
    using dest_ok_set_file [OF that(1) assms(2,3)] assms(4) that(2) by (simp add: set_file_def)
qed (rule dest_ok_set_file [OF _ assms(2,3)])

lemma compress_ends_in:
  assumes w: "dest_ok env p w" "separate env p" and q: "prefix (se_temp_root env) q" "q \<noteq> src"
    and d: "w_files w src = Some (Node_Checkpoint d)"
  shows "ends_in (dest_ok env p) (compress_lz4 env src q w)
    (\<lambda>_ w'. dest_ok env p w' \<and> w_files w' q = Some (Node_File (se_pack env d)))"
  unfolding compress_lz4_def
proof (rule ends_in_bind [OF ends_in_write [OF w q(1), where J = "\<lambda>fs. fs src = Some (Node_Checkpoint d)"]])
  show "((w_files w)(q \<mapsto> Node_File [])) src = Some (Node_Checkpoint d)" using d q(2) by simp
next
  let ?J = "\<lambda>fs. fs src = Some (Node_Checkpoint d)"
  have tar: "ends_in (dest_ok env p) (io msg (\<lambda>w. w) (set_file q) v) (\<lambda>_ w'. dest_ok env p w' \<and> True)"
    if "dest_ok env p v" for v msg
    by (rule ends_in_temp [OF that w(2)]) (use dest_ok_set_file [OF _ w(2) q(1)] in auto)
  fix v assume v: "dest_ok env p v \<and> ?J (w_files v)"
  show "ends_in (dest_ok env p) (bindR (io_check ''Failed to create LZ4 encoder'' v) (\<lambda>_ w.
      case w_files w src of
        Some (Node_Checkpoint d) \<Rightarrow>
          bindR (io ''Failed to create tar'' (\<lambda>w. w) (set_file q) w) (\<lambda>_ w.
          bindR (io ''Failed to finalize tar'' (\<lambda>w. w) (set_file q) w) (\<lambda>_ w.
            write_file ''Failed to finalize LZ4'' q (se_pack env d) w))
      | _ \<Rightarrow> (Inl (StorageError ''Failed to create tar''), w)))
    (\<lambda>_ w'. dest_ok env p w' \<and> w_files w' q = Some (Node_File (se_pack env d)))"
  proof (rule ends_in_bind [OF ends_in_check [OF _ w(2), where J = ?J]])
    fix u w1 assume w1: "dest_ok env p w1 \<and> ?J (w_files w1)"
    have "ends_in (dest_ok env p) (bindR (io ''Failed to create tar'' (\<lambda>w. w) (set_file q) w1) (\<lambda>_ w.
        bindR (io ''Failed to finalize tar'' (\<lambda>w. w) (set_file q) w) (\<lambda>_ w.
          write_file ''Failed to finalize LZ4'' q (se_pack env d) w)))
      (\<lambda>_ w'. dest_ok env p w' \<and> w_files w' q = Some (Node_File (se_pack env d)))"
      by (rule ends_in_bind [OF tar] ends_in_write [OF _ w(2) q(1), where J = "\<lambda>fs. fs q = Some (Node_File (se_pack env d))"]
          | (use w1 in simp))+
    then show "ends_in (dest_ok env p) (case w_files w1 src of
        Some (Node_Checkpoint d) \<Rightarrow>
          bindR (io ''Failed to create tar'' (\<lambda>w. w) (set_file q) w1) (\<lambda>_ w.
          bindR (io ''Failed to finalize tar'' (\<lambda>w. w) (set_file q) w) (\<lambda>_ w.
            write_file ''Failed to finalize LZ4'' q (se_pack env d) w))
      | _ \<Rightarrow> (Inl (StorageError ''Failed to create tar''), w1))
      (\<lambda>_ w'. dest_ok env p w' \<and> w_files w' q = Some (Node_File (se_pack env d)))"
      using w1 by simp
  qed (use v in auto)
qed

lemma ends_in_pure: "I w \<Longrightarrow> (\<And>a. Q a w) \<Longrightarrow> ends_in I (v, w) Q"
  by (cases v) (simp_all add: ends_in_def)

lemma ends_in_result:
  assumes "(case run of (Inl err, w') \<Rightarrow> (Inl err, x, w') | (Inr m, w') \<Rightarrow> (Inr m, x2, w')) = (r, x', w')" "ends_in I run Q"
  shows "case r of Inl _ \<Rightarrow> x' = x \<and> I w' | Inr m \<Rightarrow> x' = x2 \<and> Q m w'"
  using assms by (auto simp: ends_in_def split: prod.splits sum.splits)

lemma ends_in_upload:
  assumes w: "dest_ok env p w" "separate env p" and m: "sn_height m = h"
    and files: "w_files w sp = Some (Node_File (se_pack env d)) \<and> w_files w mp = Some (Node_File (se_metadata_json env m))"
      "prefix (se_temp_root env) sp" "prefix (se_temp_root env) mp"
  shows "ends_in (dest_ok env p) (upload env now p sp mp h w) (\<lambda>_ w'. dest_ok env p w' \<and> names_height env p h d m w')"
proof (cases "upload env now p sp mp h w")
  case (Pair r w')
  from upload_published [OF Pair conjunct1 [OF files(1)] conjunct2 [OF files(1)] files(2,3) _ _ w(2) m] w(1)
  show ?thesis by (cases r) (simp_all add: Pair ends_in_def dest_ok_def)
qed

lemma names_height_cong: "dest_get p w' = dest_get p w \<Longrightarrow> names_height env p h d m w' = names_height env p h d m w"
  by (simp add: names_height_def)

lemma ends_in_remove:
  assumes w: "dest_ok env p w" "separate env p" and q: "prefix (se_temp_root env) q"
    and n: "names_height env p h d m w"
  shows "ends_in (dest_ok env p) (remove_dir_all msg q w) (\<lambda>_ w'. dest_ok env p w' \<and> names_height env p h d m w')"
proof -
  let ?rm = "\<lambda>w. w\<lparr>w_files := (\<lambda>p. if prefix q p then None else w_files w p)\<rparr>"
  have rm: "dest_get p (?rm v) = dest_get p v" for v :: "'a world"
    by (rule dest_temp [OF w(2)]) (use q in \<open>auto simp: prefix_order.order_trans\<close>)
  have ok: "dest_ok env p (?rm v)" if "dest_ok env p v" for v
    by (rule dest_ok_temp [OF that w(2)]) (use q in \<open>auto simp: prefix_order.order_trans\<close>)
  have out: "dest_get p (w\<lparr>w_outcomes := os\<rparr>) = dest_get p w" for os by simp
  show ?thesis
    unfolding remove_dir_all_def Let_def
  proof (rule ends_in_io)
    show "dest_ok env p (?rm (w\<lparr>w_outcomes := os\<rparr>)) \<and> names_height env p h d m (?rm (w\<lparr>w_outcomes := os\<rparr>))"
      if "os = tl (w_outcomes w)" for os
      unfolding names_height_cong [OF rm] names_height_cong [OF out]
      using ok [OF dest_ok_outcomes [OF w(1) tl_subset]] n that by blast
  qed (blast intro: ok dest_ok_outcomes [OF w(1)])+
qed

lemma ends_in_checkpoint:
  assumes w: "dest_ok env p w" "separate env p" and q: "prefix (se_temp_root env) q"
  shows "ends_in (dest_ok env p)
    (io msg (\<lambda>w. w\<lparr>w_files := (w_files w)(q \<mapsto> Node_Checkpoint d)\<rparr>) (\<lambda>_ w. w) w)
    (\<lambda>_ w'. dest_ok env p w' \<and> w_files w' q = Some (Node_Checkpoint d))"
proof (rule ends_in_temp [OF w, where J = "\<lambda>fs. fs q = Some (Node_Checkpoint d)"])
  show "dest_ok env p (v\<lparr>w_files := (w_files v)(q \<mapsto> Node_Checkpoint d)\<rparr>) \<and>
      w_files (v\<lparr>w_files := (w_files v)(q \<mapsto> Node_Checkpoint d)\<rparr>) q = Some (Node_Checkpoint d)"
    if "dest_ok env p v" for v
    using q by (intro conjI dest_ok_temp [OF that w(2)]) auto
qed

text \<open>An export keeps the destination; if it succeeds, the pointer names its height.\<close>

lemma export_keeps_destination:
  assumes run: "export_snapshot env inp h x w = (r, x', w')"
    and p: "sec_provider (sx_config x) = p" and w: "dest_ok env p w" "separate env p"
  shows "case r of Inl _ \<Rightarrow> x' = x \<and> dest_ok env p w'
    | Inr m \<Rightarrow> x' = x\<lparr>sx_last_export_height := h\<rparr> \<and> dest_ok env p w' \<and>
        names_height env p h (ei_db inp) m w' \<and> sn_height m = h \<and> sn_state_root m = ''0x'' @ se_hex env (ei_state_root inp)"
proof -
  let ?t = "se_temp_root env @ [''pranklin_snapshot_'' @ decimal (unat h)]"
  let ?ck = "?t @ [''checkpoint'']" and ?sp = "?t @ [snapshot_name h]" and ?mp = "?t @ [metadata_name h]"
  have temp: "prefix (se_temp_root env) (?t @ [n])" "prefix (se_temp_root env) ?t" for n by simp_all
  have ne: "?sp \<noteq> ?ck" "?mp \<noteq> ?sp" by (simp_all add: snapshot_name_def metadata_name_def)
  let ?packed = "\<lambda>fs. fs ?sp = Some (Node_File (se_pack env (ei_db inp)))"
  note check = ends_in_bind [OF ends_in_check [where J = "\<lambda>_. True", OF _ w(2) TrueI]]
    and checkpoint = ends_in_bind [OF ends_in_checkpoint [OF _ w(2) temp(1)]]
    and sz = ends_in_bind [OF ends_in_pure [where Q = "\<lambda>_ w'. dest_ok env p w' \<and> w_files w' ?ck = Some (Node_Checkpoint (ei_db inp))"]]
    and compress = ends_in_bind [OF compress_ends_in [OF _ w(2) temp(1) ne(1)]]
    and reading = ends_in_bind [OF ends_in_read [where J = ?packed, OF _ w(2)]]
    and writing = ends_in_bind [OF ends_in_write [where J = "\<lambda>fs. ?packed fs \<and> fs ?mp = Some (Node_File b)" for b, OF _ w(2) temp(1)]]
    and uploading = ends_in_bind [OF ends_in_upload [OF _ w(2) _ _ temp(1) temp(1)]]
    and cleanup = ends_in_bind [OF ends_in_remove [OF _ w(2) temp(2)]]
  show ?thesis
    apply (rule ends_in_result [OF run [unfolded export_snapshot_def Let_def p, folded upload_def]])
    apply (rule check, rule w(1))
    apply (rule check, erule conjunct1)
    apply (rule checkpoint, erule conjunct1)
    apply (rule sz, erule conjunct1, assumption)
    apply (rule compress, erule conjunct1, erule conjunct2)
    apply (rule reading, erule conjunct1, erule conjunct2)
    apply (rule writing, erule conjunct1)
    apply (simp add: ne(2))
    apply (rule uploading, erule conjunct1)
    prefer 2 apply (erule conjunct2)
    apply simp
    apply (rule cleanup, erule conjunct1, erule conjunct2)
    apply (simp add: ends_in_def)
    done
qed

section \<open>Runs of the exporter\<close>

text \<open>A node exports at any heights, with any database, clock and outcomes of the calls; it is restarted
  with a new exporter; and other programs write anywhere but to the destination.  In a local
  destination no write is torn: \<open>copy_to_local\<close> overwrites files in place.\<close>

inductive snapshot_reachable :: "'db snap_env \<Rightarrow> CloudProvider \<Rightarrow> SnapshotExporter \<Rightarrow> 'db world \<Rightarrow> bool"
  for env p where
  snapshot_start:
    "sec_provider cfg = p \<Longrightarrow> dest_get p w latest_name = None \<Longrightarrow> snapshot_reachable env p (new_snapshot_exporter cfg) w"
| snapshot_export:
    "snapshot_reachable env p x w \<Longrightarrow> intact p (w\<lparr>w_outcomes := os\<rparr>) \<Longrightarrow>
     export_snapshot env inp h x (w\<lparr>w_outcomes := os\<rparr>) = (r, x', w') \<Longrightarrow> snapshot_reachable env p x' w'"
| snapshot_restart:
    "snapshot_reachable env p x w \<Longrightarrow> sec_provider cfg = p \<Longrightarrow> snapshot_reachable env p (new_snapshot_exporter cfg) w"
| snapshot_other:
    "snapshot_reachable env p x w \<Longrightarrow> dest_get p w' = dest_get p w \<Longrightarrow> snapshot_reachable env p x w'"

lemma snapshot_reachable_published:
  assumes "snapshot_reachable env p x w" "separate env p"
  shows "sec_provider (sx_config x) = p \<and> published env (dest_url env p) (dest_get p w)"
  using assms
proof (induction rule: snapshot_reachable.induct)
  case (snapshot_export x w os inp h r x' w')
  then have "dest_ok env p (w\<lparr>w_outcomes := os\<rparr>)" by (simp add: dest_ok_def)
  from export_keeps_destination [OF snapshot_export.hyps(3) _ this] snapshot_export
  show ?case by (cases r) (auto simp: dest_ok_def)
qed (simp_all add: new_snapshot_exporter_def published_empty)


text \<open>An export at height 5 that succeeds, and one at height 10 whose upload of the metadata fails.\<close>

definition demo_env :: "u8 list snap_env" where
  "demo_env = \<lparr>se_pack = (\<lambda>d. d), se_metadata_json = (\<lambda>m. [ucast (sn_height m)]),
     se_latest_json = (\<lambda>c. [ucast (fst (latest_entry c))]), se_hex = (\<lambda>_. ''00''), se_path_string = concat,
     se_temp_root = [''tmp''], se_pkg_version = ''1''\<rparr>"

definition demo_provider :: CloudProvider where
  "demo_provider = CloudProvider_S3 \<lparr>s3_bucket = ''b'', s3_region = ''r'', s3_prefix = ''p''\<rparr>"

definition demo_input :: "u8 list export_input" where
  "demo_input = \<lparr>ei_db = [7], ei_state_root = 0, ei_db_dir = Fs_dir (Some [Some (Fs_file (Some 3))]), ei_now = 1, ei_upload_time = 2\<rparr>"

definition demo_start :: "SnapshotExporter \<times> u8 list world" where
  "demo_start =
     (new_snapshot_exporter \<lparr>sec_provider = demo_provider, sec_auto_export_interval = 5, sec_chain_id = ''c''\<rparr>,
      \<lparr>w_files = (\<lambda>_. None), w_objects = (\<lambda>_. None), w_outcomes = []\<rparr>)"

definition demo_export :: "u64 \<Rightarrow> io_outcome list \<Rightarrow> SnapshotExporter \<times> u8 list world \<Rightarrow> SnapshotExporter \<times> u8 list world" where
  "demo_export h os s = snd (export_snapshot demo_env demo_input h (fst s) ((snd s)\<lparr>w_outcomes := os\<rparr>))"

definition demo_run :: "SnapshotExporter \<times> u8 list world" where
  "demo_run = demo_export 10 (replicate 13 Io_ok @ [Io_failed None]) (demo_export 5 [] demo_start)"

lemma demo_export_reachable:
  "snapshot_reachable demo_env demo_provider (fst s) (snd s) \<Longrightarrow>
   snapshot_reachable demo_env demo_provider (fst (demo_export h os s)) (snd (demo_export h os s))"
  unfolding demo_export_def
  by (rule snapshot_export [where inp = demo_input and h = h and os = os])
    (auto simp: intact_def demo_provider_def intro!: prod_eqI)

lemma demo_run_reachable: "snapshot_reachable demo_env demo_provider (fst demo_run) (snd demo_run)"
  unfolding demo_run_def
  by (intro demo_export_reachable)
    (simp add: demo_start_def snapshot_start dest_get_def demo_provider_def object_get_def)

lemma demo_latest: "dest_get demo_provider (snd demo_run) latest_name = Some [5]"
  by code_simp


section \<open>An export without failures\<close>

lemma io_ok [simp]: "w_outcomes w = [] \<Longrightarrow> io msg f g w = (Inr (), f w)"
  by (cases w) (simp add: io_def)

lemma io_ok_calls:
  assumes "w_outcomes w = []"
  shows "io_check msg w = (Inr (), w)" "write_file msg q b w = (Inr (), set_file q b w)"
    "put_object msg k b w = (Inr (), set_object k b w)"
    "w_files w q = Some (Node_File b) \<Longrightarrow> read_file msg q w = (Inr b, w)"
    "w_files w q = Some (Node_File b) \<Longrightarrow> copy_file msg q q' w = (Inr (), set_file q' b w)"
  using assms by (simp_all add: io_check_def write_file_def put_object_def read_file_def copy_file_def)

lemma set_simps [simp]:
  "w_outcomes (set_file q b w) = w_outcomes w" "w_outcomes (set_object k b w) = w_outcomes w"
  "w_files (set_file q b w) = (w_files w)(q \<mapsto> Node_File b)" "w_files (set_object k b w) = w_files w"
  by (simp_all add: set_file_def set_object_def)

lemma upload_ok:
  assumes "w_outcomes w = []" "w_files w sp = Some (Node_File a)" "w_files w mp = Some (Node_File b)"
    and "separate env p" "prefix (se_temp_root env) mp"
  shows "\<exists>w'. upload env now p sp mp h w = (Inr (), w') \<and> w_outcomes w' = []"
proof (cases p)
  case (CloudProvider_Local dir)
  then have "dir @ [snapshot_name h] \<noteq> mp" using assms(4,5) by (auto simp: separate_def)
  then show ?thesis using assms(1-3) CloudProvider_Local by (simp add: upload_def copy_to_local_def Let_def io_ok_calls)
qed (use assms(1-3) in \<open>simp_all add: upload_def upload_to_s3_def upload_to_gcs_def Let_def io_ok_calls\<close>)

lemma compress_ok:
  assumes "w_outcomes w = []" "w_files w src = Some (Node_Checkpoint d)" "src \<noteq> q"
  shows "compress_lz4 env src q w = (Inr (), set_file q (se_pack env d) (set_file q [] w))"
  using assms by (simp add: compress_lz4_def io_ok_calls)

text \<open>If no call fails, the export succeeds, with the sizes of the database and of the archive.\<close>

lemma export_without_failures:
  assumes ok: "w_outcomes w = []" "separate env (sec_provider (sx_config x))" and sz: "get_dir_size (ei_db_dir inp) = Inr s"
  shows "\<exists>w'. export_snapshot env inp h x w =
    (Inr \<lparr>sn_height = h, sn_state_root = ''0x'' @ se_hex env (ei_state_root inp), sn_timestamp = ei_now inp, sn_db_size = s,
       sn_snapshot_size = of_nat (length (se_pack env (ei_db inp))), sn_chain_id = sec_chain_id (sx_config x),
       sn_version = se_pkg_version env\<rparr>, x\<lparr>sx_last_export_height := h\<rparr>, w')"
proof -
  let ?t = "se_temp_root env @ [''pranklin_snapshot_'' @ decimal (unat h)]"
  have ne: "''checkpoint'' \<noteq> snapshot_name h" "snapshot_name h \<noteq> ''checkpoint''" by (simp_all add: snapshot_name_def)
  have up: "\<exists>w'. upload env (ei_upload_time inp) (sec_provider (sx_config x)) (?t @ [snapshot_name h]) (?t @ [metadata_name h]) h v
      = (Inr (), w') \<and> w_outcomes w' = []"
    if "w_outcomes v = []" "w_files v (?t @ [snapshot_name h]) = Some (Node_File (se_pack env (ei_db inp)))"
      "w_files v (?t @ [metadata_name h]) = Some (Node_File b)" for v b
    by (rule upload_ok [OF that ok(2)]) simp
  define v where "v b = set_file (?t @ [metadata_name h]) b (set_file (?t @ [snapshot_name h]) (se_pack env (ei_db inp))
      (set_file (?t @ [snapshot_name h]) [] (w\<lparr>w_files := (w_files w)(?t @ [''checkpoint''] \<mapsto> Node_Checkpoint (ei_db inp))\<rparr>)))" for b
  have upv: "\<exists>w'. upload env (ei_upload_time inp) (sec_provider (sx_config x)) (?t @ [snapshot_name h]) (?t @ [metadata_name h]) h (v b)
      = (Inr (), w') \<and> w_outcomes w' = []" for b
    by (rule up) (simp_all add: ok v_def)
  show ?thesis
    unfolding export_snapshot_def Let_def upload_def [symmetric]
    using upv [of "se_metadata_json env \<lparr>sn_height = h, sn_state_root = ''0x'' @ se_hex env (ei_state_root inp), sn_timestamp = ei_now inp, sn_db_size = s,
       sn_snapshot_size = of_nat (length (se_pack env (ei_db inp))), sn_chain_id = sec_chain_id (sx_config x),
       sn_version = se_pkg_version env\<rparr>"]
    by (auto simp: io_ok_calls ok sz compress_ok ne remove_dir_all_def Let_def v_def)
qed

section \<open>The size of a directory\<close>

text \<open>The results of all calls of \<open>metadata\<close> and \<open>read_dir\<close> below a directory, in order.\<close>

fun tree_lengths :: "fs_tree option list \<Rightarrow> u64 option list" where
  "tree_lengths [] = []"
| "tree_lengths (None # es) = None # tree_lengths es"
| "tree_lengths (Some (Fs_dir None) # es) = None # tree_lengths es"
| "tree_lengths (Some (Fs_dir (Some ds)) # es) = tree_lengths ds @ tree_lengths es"
| "tree_lengths (Some (Fs_file len) # es) = len # tree_lengths es"

lemma dir_entries_size_sum:
  "dir_entries_size acc es = Inr s \<longleftrightarrow> None \<notin> set (tree_lengths es) \<and> s = acc + sum_list (map the (tree_lengths es))"
proof (induction es arbitrary: acc s rule: tree_lengths.induct)
  case (4 ds es)
  show ?case
  proof (cases "dir_entries_size 0 ds")
    case (Inl e)
    then have "None \<in> set (tree_lengths ds)" using 4(1) [of 0] by fastforce
    with Inl show ?thesis by simp
  next
    case (Inr z)
    then show ?thesis using 4(1) [of 0 z] 4(2) by (auto simp: algebra_simps)
  qed
qed (auto split: option.split)

end
