(* ===== verification/Crash.thy ===== *)
theory Crash
  imports State_Manager
begin

text \<open>
  Crashes during \<open>RocksDbStorage::commit\<close> (\<open>crates/state/src/rocksdb_storage.rs\<close>).  A commit is not one
  write: the Merkle nodes go to the database in a batch, then every value and every entry of the
  version index with a \<open>put\<close> of its own, then the current version, the snapshot marker and the
  deletions of pruning.  \<open>commit_writes\<close> lists these writes in the order of the code, and is shown to
  have the effect of \<open>commit\<close>.  A crash leaves some prefix of them; a deletion batch counts as single
  deletions, which allows more crashes than there are.

  Proved: a node that is opened after a crash is at the old or at the new version, with the state
  of that version; and what a read at the interrupted version returns.
\<close>

section \<open>The writes of a commit\<close>

datatype ('h, 'b) db_write =
    Write_nodes u64 "'h \<rightharpoonup> 'b"
  | Write_put "'h StorageKey" "'b db_value"
  | Write_delete "'h StorageKey"

type_synonym ('h, 'b) disk_image = "('h StorageKey \<rightharpoonup> 'b db_value) \<times> (u64 \<times> ('h \<rightharpoonup> 'b)) list"

fun apply_write :: "('h, 'b) db_write \<Rightarrow> ('h, 'b) disk_image \<Rightarrow> ('h, 'b) disk_image" where
  "apply_write (Write_nodes v p) (m, log) = (m, log @ [(v, p)])"
| "apply_write (Write_put k x) (m, log) = (m(k \<mapsto> x), log)"
| "apply_write (Write_delete k) (m, log) = (m(k := None), log)"

definition disk_image :: "('h, 'b) RocksDbStorage \<Rightarrow> ('h, 'b) disk_image" where
  "disk_image s = (db s, jmt_log s)"

definition reopen :: "PruningConfig \<Rightarrow> ('h, 'b) disk_image \<Rightarrow> ('h, 'b) RocksDbStorage" where
  "reopen config d = open_storage (fst d) (snd d) config"

text \<open>\<open>ks\<close> is the order in which the hash map of pending updates is iterated.\<close>

definition value_writes :: "u64 \<Rightarrow> ('h \<rightharpoonup> 'b) \<Rightarrow> 'h list \<Rightarrow> ('h, 'b) db_write list" where
  "value_writes v p ks = map (\<lambda>h. Write_put (JmtValue h v) (DbBytes (the (p h)))) ks"

definition version_writes :: "u64 \<Rightarrow> 'h list \<Rightarrow> ('h, 'b) db_write list" where
  "version_writes v ks = map (\<lambda>h. Write_put (LatestVersion h) (DbVersion v)) ks"

definition pending_writes :: "u64 \<Rightarrow> ('h \<rightharpoonup> 'b) \<Rightarrow> 'h list \<Rightarrow> ('h, 'b) db_write list" where
  "pending_writes v p ks = (if p = Map.empty then [] else Write_nodes v p # value_writes v p ks @ version_writes v ks)"

definition snapshot_writes :: "PruningConfig \<Rightarrow> u64 \<Rightarrow> B256 \<Rightarrow> ('h, 'b) db_write list" where
  "snapshot_writes config v root =
     (if pruning_enabled config \<and> v mod snapshot_interval config = 0 then [Write_put (Snapshot v) (DbRoot root)] else [])"

definition prune_writes ::
  "(('h StorageKey \<rightharpoonup> 'b db_value) \<Rightarrow> 'h StorageKey list) \<Rightarrow> PruningConfig \<Rightarrow> u64 \<Rightarrow>
     ('h StorageKey \<rightharpoonup> 'b db_value) \<Rightarrow> ('h, 'b) db_write list" where
  "prune_writes it config v m =
     (if pruning_enabled config \<and> v > prune_before config
      then let before = v - prune_before config in
           map Write_delete (filter (should_delete before (snapshots_to_keep config before)) (it m))
      else [])"

definition commit_writes ::
  "(('h StorageKey \<rightharpoonup> 'b db_value) \<Rightarrow> 'h StorageKey list) \<Rightarrow> 'h list \<Rightarrow> ('h, 'b) RocksDbStorage \<Rightarrow> u64 \<Rightarrow> B256 \<Rightarrow>
     ('h, 'b) db_write list" where
  "commit_writes it ks s v root =
     (let config = pruning_config s;
          ws = pending_writes v (pending_updates s) ks @ Write_put CurrentVersion (DbVersion v) # snapshot_writes config v root in
      ws @ prune_writes it config v (fst (fold apply_write ws (disk_image s))))"

section \<open>The writes have the effect of the commit\<close>

lemma apply_values:
  "fold apply_write (value_writes v p ks) (m, log) =
     (\<lambda>k. case k of JmtValue h w \<Rightarrow> if w = v \<and> h \<in> set ks then Some (DbBytes (the (p h))) else m k | _ \<Rightarrow> m k, log)"
  by (induction ks arbitrary: m) (auto simp: value_writes_def fun_eq_iff split: StorageKey.splits)

lemma apply_versions:
  "fold apply_write (version_writes v ks) (m, log) =
     (\<lambda>k. case k of LatestVersion h \<Rightarrow> if h \<in> set ks then Some (DbVersion v) else m k | _ \<Rightarrow> m k, log)"
  by (induction ks arbitrary: m) (auto simp: version_writes_def fun_eq_iff split: StorageKey.splits)

lemma apply_deletes:
  "fold apply_write (map Write_delete ks) (m, log) = (\<lambda>k. if k \<in> set ks then None else m k, log)"
  by (induction ks arbitrary: m) (auto simp: fun_eq_iff)

lemma apply_pending:
  assumes "write_pending jmt p v s = (Inr (), s1)" "set ks = dom p"
  shows "fold apply_write (pending_writes v p ks) (disk_image s) = disk_image s1"
  using assms
  by (auto simp: write_pending_def pending_writes_def disk_image_def apply_values apply_versions store_values_def
      store_latest_versions_def fun_eq_iff split: if_splits option.splits StorageKey.splits)

lemma apply_finish:
  assumes d: "fold apply_write (ws @ Write_put CurrentVersion (DbVersion v) # snapshot_writes (pruning_config s) v root) d0 = d"
    and ws: "fold apply_write ws d0 = disk_image s"
  shows "fold apply_write (prune_writes it (pruning_config s) v (fst d)) d = disk_image (finish_commit it v root s)"
  using assms
  by (auto simp: snapshot_writes_def prune_writes_def finish_commit_def Let_def disk_image_def create_snapshot_def get_root_def
      prune_before_version_def collect_and_delete_old_versions_filter batch_delete_def apply_deletes fun_eq_iff split: if_splits)

lemma commit_writes_commit:
  assumes run: "commit jmt it s v = (Inr root, s')" and ks: "set ks = dom (pending_updates s)"
  shows "fold apply_write (commit_writes it ks s v root) (disk_image s) = disk_image s'"
proof -
  let ?s0 = "s\<lparr>pending_updates := Map.empty\<rparr>"
  obtain s1 where w: "write_pending jmt (pending_updates s) v ?s0 = (Inr (), s1)"
    and s': "s' = finish_commit it v root s1"
    using run by (auto simp: commit_def Let_def result_simps)
  have cfg: "pruning_config s1 = pruning_config s"
    using w by (auto simp: write_pending_def store_values_def store_latest_versions_def split: if_splits option.splits)
  have d0: "disk_image ?s0 = disk_image s" by (simp add: disk_image_def)
  show ?thesis
    using apply_finish [OF refl apply_pending [OF w ks, unfolded d0], where root = root and it = it]
    by (simp add: commit_writes_def Let_def cfg s')
qed

section \<open>What a crash leaves\<close>

text \<open>Before the new version is recorded: some values, and index entries of values that are written.\<close>

definition partly_written :: "u64 \<Rightarrow> ('h \<rightharpoonup> 'b) \<Rightarrow> 'h set \<Rightarrow> 'h set \<Rightarrow> ('h StorageKey \<rightharpoonup> 'b db_value) \<Rightarrow> 'h StorageKey \<rightharpoonup> 'b db_value" where
  "partly_written v p vs ls m = (\<lambda>k. case k of
     JmtValue h w \<Rightarrow> if w = v \<and> h \<in> vs then Some (DbBytes (the (p h))) else m k
   | LatestVersion h \<Rightarrow> if h \<in> ls then Some (DbVersion v) else m k
   | _ \<Rightarrow> m k)"

lemma prefix_map: "prefix xs (map f ys) \<Longrightarrow> \<exists>zs. prefix zs ys \<and> xs = map f zs"
  by (auto elim: prefix_map_rightE)

lemma partly_written_apply:
  "fst (fold apply_write (value_writes v p ks) (m, log)) = partly_written v p (set ks) {} m"
  "set ls \<subseteq> set ks \<Longrightarrow>
    fst (fold apply_write (value_writes v p ks @ version_writes v ls) (m, log)) = partly_written v p (set ks) (set ls) m"
  by (auto simp: apply_values apply_versions partly_written_def fun_eq_iff split: StorageKey.splits)

definition value_keys :: "u64 \<Rightarrow> ('h \<rightharpoonup> 'b) \<Rightarrow> ('h, 'b) db_write list \<Rightarrow> 'h set" where
  "value_keys v p ws = {h. Write_put (JmtValue h v) (DbBytes (the (p h))) \<in> set ws}"

definition version_keys :: "u64 \<Rightarrow> ('h, 'b) db_write list \<Rightarrow> 'h set" where
  "version_keys v ws = {h. Write_put (LatestVersion h) (DbVersion v) \<in> set ws}"

lemma written_keys [simp]:
  "value_keys v p [] = {}" "version_keys v [] = {}"
  "value_keys v p (Write_nodes w q # ws) = value_keys v p ws" "version_keys v (Write_nodes w q # ws) = version_keys v ws"
  "value_keys v p (value_writes v p ks) = set ks" "version_keys v (value_writes v p ks) = {}"
  "value_keys v p (value_writes v p ks @ version_writes v ls) = set ks"
  "version_keys v (value_writes v p ks @ version_writes v ls) = set ls"
  by (auto simp: value_keys_def version_keys_def value_writes_def version_writes_def)

lemma pending_prefix:
  assumes "prefix ws (pending_writes v p ks)" "set ks = dom p"
  shows "fst (fold apply_write ws (m, log)) = partly_written v p (value_keys v p ws) (version_keys v ws) m \<and>
    value_keys v p ws \<subseteq> dom p \<and> version_keys v ws \<subseteq> value_keys v p ws"
proof -
  have nil: "partly_written v p {} {} m = m"
    by (auto simp: partly_written_def fun_eq_iff split: StorageKey.splits)
  consider "ws = []" | js where "ws = Write_nodes v p # value_writes v p js" "prefix js ks"
    | js where "ws = Write_nodes v p # value_writes v p ks @ version_writes v js" "prefix js ks"
    using assms(1)
    by (auto simp: pending_writes_def prefix_Cons prefix_append value_writes_def version_writes_def
        split: if_splits dest!: prefix_map)
  then show ?thesis
  proof cases
    case (2 js)
    then show ?thesis using set_mono_prefix [OF 2(2)] assms(2) by (simp add: partly_written_apply(1))
  next
    case (3 js)
    have "fst (fold apply_write (value_writes v p ks @ version_writes v js) (m, log @ [(v, p)])) =
        partly_written v p (set ks) (set js) m"
      by (rule partly_written_apply(2) [OF set_mono_prefix [OF 3(2)]])
    then show ?thesis using set_mono_prefix [OF 3(2)] assms(2) by (simp add: 3(1))
  qed (simp add: nil)
qed

lemma reopen_sel [simp]:
  "db (reopen config d) = fst d" "pending_updates (reopen config d) = Map.empty"
  "current_version (reopen config d) = (case fst d CurrentVersion of Some (DbVersion v) \<Rightarrow> v | _ \<Rightarrow> 0)"
  by (simp_all add: reopen_def open_storage_def)

lemma partly_written_reads:
  assumes "db t = partly_written v p vs ls (db s)" "vs \<subseteq> dom p"
  shows "db_get_value t h w = (if w = v \<and> h \<in> vs then p h else db_get_value s h w)"
    and "get_latest_version t h = (if h \<in> ls then Some v else get_latest_version s h)"
  using assms by (auto simp: partly_written_def db_get_value_def get_latest_version_def)

lemma scan_back_cong: "(\<And>m. m \<le> n \<Longrightarrow> f m = g m) \<Longrightarrow> scan_back f n = scan_back g n"
  by (induction n) (auto split: option.splits)

lemma slow_scan_below:
  assumes "\<And>w'. w' \<noteq> v \<Longrightarrow> db_get_value t h w' = db_get_value s h w'" "w < v"
  shows "slow_scan t w h = slow_scan s w h"
  unfolding slow_scan_def
proof (rule scan_back_cong)
  fix m assume m: "m \<le> unat w"
  have "(of_nat m :: u64) \<noteq> v"
  proof
    assume "of_nat m = v"
    then have "v \<le> w" using m by (auto simp: word_le_nat_alt unat_of_nat intro: order_trans [OF mod_less_eq_dividend])
    then show False using assms(2) by simp
  qed
  then show "db_get_value t h (of_nat m) = db_get_value s h (of_nat m)" by (rule assms(1))
qed

lemma partly_written_old:
  assumes t: "db t = partly_written v p vs ls (db s)" "vs \<subseteq> dom p"
    and s: "latest_ok n s" "latest_live s" and w: "w < v"
  shows "get_value_option t w h = get_value_option s w h"
proof -
  have scan: "slow_scan t w h = slow_scan s w h"
    by (rule slow_scan_below [OF _ w]) (simp add: partly_written_reads [OF t])
  show ?thesis
  proof (cases "h \<in> ls")
    case True
    then have "get_value_option t w h = slow_scan t w h"
      using not_le [THEN iffD2, OF w] by (simp add: get_value_option_def partly_written_reads [OF t])
    then show ?thesis using scan fast_lookup_scan [OF s] by simp
  next
    case False
    then show ?thesis using scan w by (auto simp: get_value_option_def partly_written_reads [OF t] split: option.split)
  qed
qed

lemma partly_written_new:
  assumes t: "db t = partly_written v p vs ls (db s)" "vs \<subseteq> dom p" "ls \<subseteq> vs"
    and s: "latest_ok n s" and w: "n < v"
  shows "get_value_option t v h =
    (if h \<in> ls \<or> h \<in> vs \<and> get_latest_version s h = None then p h else get_value_option s v h)"
proof (cases "get_latest_version s h")
  case None
  note empty = latest_okD(1) [OF s None]
  have "slow_scan t v h = (if h \<in> vs then p h else None)"
  proof (cases "h \<in> vs")
    case True
    then obtain b where "p h = Some b" using t(2) by blast
    with True show ?thesis
      by (intro trans [OF slow_scan_latest [where l = v and b = b]]) (simp_all add: partly_written_reads [OF t(1,2)] empty)
  qed (simp add: slow_scan_None partly_written_reads [OF t(1,2)] empty)
  then show ?thesis
    using t(3) None slow_scan_None [of s h v] empty
    by (auto simp: get_value_option_def partly_written_reads [OF t(1,2)])
next
  case (Some l)
  with latest_okD(2) [OF s Some] w have "l < v" by simp
  then show ?thesis
    using t(3) Some by (auto simp: get_value_option_def partly_written_reads [OF t(1,2)])
qed

text \<open>After the new version is recorded: everything is written, and some of the deletions are done.\<close>

definition partly_pruned :: "'h StorageKey set \<Rightarrow> ('h StorageKey \<rightharpoonup> 'b db_value) \<Rightarrow> ('h StorageKey \<rightharpoonup> 'b db_value) \<Rightarrow> bool" where
  "partly_pruned D m m' \<longleftrightarrow> (\<forall>k. (\<forall>u. k \<noteq> Snapshot u) \<longrightarrow> m' k = (if k \<in> D then None else m k))"

lemma housekeeping_prefix:
  assumes "prefix ws (snapshot_writes config v root @ map Write_delete ds)"
  obtains D where "D \<subseteq> set ds" "partly_pruned D m (fst (fold apply_write ws (m, log)))"
proof -
  have snap: "partly_pruned {} m (fst (fold apply_write us (m, log)))" if "prefix us (snapshot_writes config v root)" for us
    using that by (auto simp: snapshot_writes_def partly_pruned_def prefix_Cons split: if_splits)
  from assms consider "prefix ws (snapshot_writes config v root)"
    | us where "ws = snapshot_writes config v root @ us" "prefix us (map Write_delete ds)"
    by (auto simp: prefix_append)
  then show ?thesis
  proof cases
    case 1
    then show ?thesis using snap that [of "{}"] by blast
  next
    case (2 us)
    from prefix_map [OF 2(2)] obtain js where js: "prefix js ds" "us = map Write_delete js" by auto
    show ?thesis
    proof (rule that)
      show "partly_pruned (set js) m (fst (fold apply_write ws (m, log)))"
        using snap [OF prefix_order.order_refl]
        by (cases "fold apply_write (snapshot_writes config v root) (m, log)")
          (simp add: 2(1) js(2) apply_deletes partly_pruned_def)
    qed (rule set_mono_prefix [OF js(1)])
  qed
qed

lemma partly_pruned_reads:
  assumes "partly_pruned D (db s) (db t)" "D \<subseteq> {JmtValue h w |h w. w \<noteq> v}"
  shows "get_latest_version t h = get_latest_version s h"
    and "db_get_value t h w = (if JmtValue h w \<in> D then None else db_get_value s h w)"
    and "db t CurrentVersion = db s CurrentVersion"
  using assms by (auto simp: partly_pruned_def get_latest_version_def db_get_value_def)

text \<open>A read finds the value of the index entry or, if that is pruned, nothing.\<close>

lemma indexed_read:
  assumes "latest_ok n s" "n \<le> v" "partly_pruned D (db s) (db t)" "D \<subseteq> {JmtValue h w |h w. w \<noteq> v}"
  shows "get_value_option t v h =
    (if \<exists>l. get_latest_version s h = Some l \<and> JmtValue h l \<in> D then None else get_value_option s v h)"
proof (cases "get_latest_version s h")
  case None
  have "slow_scan t v h = None" "slow_scan s v h = None"
    by (rule slow_scan_None; simp add: partly_pruned_reads [OF assms(3,4)] latest_okD(1) [OF assms(1) None])+
  then show ?thesis using None by (simp add: get_value_option_def partly_pruned_reads [OF assms(3,4)])
next
  case (Some l)
  moreover have "l \<le> v" using latest_okD(2) [OF assms(1) Some] assms(2) by simp
  ultimately show ?thesis by (simp add: get_value_option_def partly_pruned_reads [OF assms(3,4)])
qed

lemma prune_writes_pruned:
  "prune_writes it config v m = map Write_delete (filter (\<lambda>k. \<exists>h w. k = JmtValue h w \<and> pruned_at config v w) (it m))"
proof (cases "pruning_enabled config \<and> prune_before config < v")
  case True
  then have eq: "should_delete (v - prune_before config) (snapshots_to_keep config (v - prune_before config)) k =
      (\<exists>h w. k = JmtValue h w \<and> pruned_at config v w)" for k
    by (cases k) (auto simp: should_delete_kept kept_def pruned_at_def not_le)
  show ?thesis
    unfolding prune_writes_def Let_def if_P [OF True] by (intro arg_cong [where f = "map _"] filter_cong refl eq)
qed (auto simp: prune_writes_def pruned_at_def)

lemma commit_writes_pruned:
  "\<exists>ds. set ds \<subseteq> {JmtValue h w |h w. pruned_at (pruning_config s) v w} \<and>
     commit_writes it ks s v root = pending_writes v (pending_updates s) ks @ Write_put CurrentVersion (DbVersion v) #
       snapshot_writes (pruning_config s) v root @ map Write_delete ds"
  unfolding commit_writes_def Let_def prune_writes_pruned append_assoc append_Cons by (rule exI, rule conjI [OF _ refl]) auto

text \<open>The database with everything written and nothing pruned.\<close>

definition written :: "u64 \<Rightarrow> ('h, 'b) RocksDbStorage \<Rightarrow> ('h, 'b) RocksDbStorage" where
  "written v s = s\<lparr>db := (partly_written v (pending_updates s) (dom (pending_updates s)) (dom (pending_updates s)) (db s))
     (CurrentVersion \<mapsto> DbVersion v)\<rparr>"

lemma written_reads:
  assumes "latest_ok n s" "n < v"
  shows "get_latest_version (written v s) h = (if pending_updates s h \<noteq> None then Some v else get_latest_version s h)"
    and "get_value_option (written v s) v h = raw_get s h v" and "latest_ok v (written v s)"
proof -
  let ?p = "pending_updates s"
  let ?t = "s\<lparr>db := partly_written v ?p (dom ?p) (dom ?p) (db s)\<rparr>"
  have t: "db ?t = partly_written v ?p (dom ?p) (dom ?p) (db s)" by simp
  note reads = partly_written_reads [OF t order_refl]
  have same: "get_latest_version (written v s) = get_latest_version ?t" "db_get_value (written v s) = db_get_value ?t"
    by (simp_all add: fun_eq_iff written_def get_latest_version_def db_get_value_def)
  then have opt: "get_value_option (written v s) = get_value_option ?t"
    by (simp add: fun_eq_iff get_value_option_def slow_scan_def split: option.split)
  show "get_latest_version (written v s) h = (if ?p h \<noteq> None then Some v else get_latest_version s h)"
    by (auto simp: same reads)
  show "get_value_option (written v s) v h = raw_get s h v"
    using partly_written_new [OF t order_refl order_refl assms, of h] by (auto simp: opt raw_get_def split: option.split)
  show "latest_ok v (written v s)"
    unfolding latest_ok_def
  proof
    fix h
    show "case get_latest_version (written v s) h of None \<Rightarrow> \<forall>w. db_get_value (written v s) h w = None
        | Some l \<Rightarrow> l \<le> v \<and> (\<forall>w. l < w \<longrightarrow> db_get_value (written v s) h w = None)"
      using latest_okD [OF assms(1), of h] assms(2)
      by (cases "get_latest_version s h") (auto simp: same reads dest: order.strict_trans1 order.trans)
  qed
qed

lemma apply_pending_fst:
  assumes "set ks = dom p"
  shows "fst (fold apply_write (pending_writes v p ks) (m, log)) = partly_written v p (dom p) (dom p) m"
proof (cases "p = Map.empty")
  case True
  then show ?thesis by (auto simp: pending_writes_def partly_written_def fun_eq_iff split: StorageKey.splits)
next
  case False
  then show ?thesis
    using partly_written_apply(2) [of ks ks v p m "log @ [(v, p)]"] assms by (simp add: pending_writes_def)
qed

section \<open>Opening the database after a crash\<close>

definition version_on_disk :: "('h, 'b) RocksDbStorage \<Rightarrow> bool" where
  "version_on_disk s \<longleftrightarrow> current_version s = (case db s CurrentVersion of Some (DbVersion v) \<Rightarrow> v | _ \<Rightarrow> 0)"

lemma crash_before_version:
  assumes "prefix ws (pending_writes v (pending_updates s) ks)" "set ks = dom (pending_updates s)"
    and "latest_ok n s" "latest_live s" "current_version s < v" "version_on_disk s"
  shows "current_version (reopen config (fold apply_write ws (disk_image s))) = current_version s"
    and "raw_get (reopen config (fold apply_write ws (disk_image s))) h (current_version s) = get_value_option s (current_version s) h"
proof -
  let ?vs = "value_keys v (pending_updates s) ws" and ?ls = "version_keys v ws"
  have t: "fst (fold apply_write ws (disk_image s)) = partly_written v (pending_updates s) ?vs ?ls (db s)"
      "?vs \<subseteq> dom (pending_updates s)"
    using pending_prefix [OF assms(1,2), of "db s" "jmt_log s"] by (simp_all add: disk_image_def)
  let ?t = "reopen config (fold apply_write ws (disk_image s))"
  have db: "db ?t = partly_written v (pending_updates s) ?vs ?ls (db s)" by (simp add: t(1))
  show "current_version ?t = current_version s"
    using assms(6) by (simp add: t(1) partly_written_def version_on_disk_def)
  show "raw_get ?t h (current_version s) = get_value_option s (current_version s) h"
    using partly_written_old [OF db t(2) assms(3-5)] by (simp add: raw_get_def)
qed

lemma crash_after_version:
  assumes run: "commit jmt it s v = (Inr root, s')" "iter_complete it" "storage_finite s"
    and ks: "set ks = dom (pending_updates s)" and s: "latest_ok n s" "n < v"
    and ds: "set ds \<subseteq> {JmtValue h w |h w. pruned_at (pruning_config s) v w}"
    and us: "prefix us (snapshot_writes (pruning_config s) v root @ map Write_delete ds)"
    and t: "t = reopen config (fold apply_write (pending_writes v (pending_updates s) ks @ Write_put CurrentVersion (DbVersion v) # us) (disk_image s))"
  shows "current_version t = v" and "raw_get t h v = raw_get s h v \<or> raw_get t h v = raw_get s' h v"
proof -
  obtain m log where m: "fold apply_write (pending_writes v (pending_updates s) ks) (disk_image s) = (m, log)"
    by (cases "fold apply_write (pending_writes v (pending_updates s) ks) (disk_image s)")
  have w: "m(CurrentVersion \<mapsto> DbVersion v) = db (written v s)"
    using apply_pending_fst [OF ks, of v "db s" "jmt_log s"] m by (simp add: disk_image_def written_def)
  obtain D where D: "D \<subseteq> set ds" "partly_pruned D (m(CurrentVersion \<mapsto> DbVersion v)) (fst (fold apply_write us (m(CurrentVersion \<mapsto> DbVersion v), log)))"
    by (rule housekeeping_prefix [OF us])
  have pruned: "partly_pruned D (db (written v s)) (db t)"
    using D(2) by (simp add: t m flip: w)
  have away: "D \<subseteq> {JmtValue h w |h w. w \<noteq> v}"
    using D(1) ds not_pruned_at_self by fastforce
  show "current_version t = v"
    using partly_pruned_reads(3) [OF pruned away] by (simp add: t written_def)
  have le: "n \<le> v" using s(2) by simp
  have read: "raw_get t h v = (if \<exists>l. get_latest_version (written v s) h = Some l \<and> JmtValue h l \<in> D then None else raw_get s h v)"
    using indexed_read [OF written_reads(3) [OF s] order_refl pruned away, of h]
    unfolding written_reads(2) [OF s] by (simp only: raw_get_def t reopen_sel option.case)
  show "raw_get t h v = raw_get s h v \<or> raw_get t h v = raw_get s' h v"
  proof (cases "\<exists>l. get_latest_version (written v s) h = Some l \<and> JmtValue h l \<in> D")
    case True
    then obtain l where l: "get_latest_version (written v s) h = Some l" "JmtValue h l \<in> D" by blast
    then have "pruned_at (pruning_config s) v l" "l \<noteq> v" using D(1) ds away by auto
    then have "raw_get s' h v = None"
      using l(1) commit_observation [OF run s(1) le order_refl, of h]
      by (auto simp: written_reads(1) [OF s] split: if_splits)
    then show ?thesis using read True by simp
  next
    case False
    then show ?thesis using read by auto
  qed
qed

lemma prefix_middle: "prefix ws (xs @ y # ys) \<Longrightarrow> prefix ws xs \<or> (\<exists>us. ws = xs @ y # us \<and> prefix us ys)"
  by (auto simp: prefix_append prefix_Cons)

section \<open>Properties\<close>


text \<open>C17: After a crash that left a part of block \<open>v\<close>, reads at version \<open>v\<close>, the version at which the block is
  executed again, return the values of the interrupted commit: those of all keys whose index
  entry was written, and of new keys as soon as their value was.\<close>

theorem interrupted_block_shows:
  assumes "set ks = dom (pending_updates s)" "prefix ws (pending_writes v (pending_updates s) ks)"
    and "latest_ok n s" "n < v" and t: "t = reopen config (fold apply_write ws (disk_image s))"
  shows "raw_get t h v =
    (if Write_put (LatestVersion h) (DbVersion v) \<in> set ws \<or>
        get_latest_version s h = None \<and> Write_put (JmtValue h v) (DbBytes (the (pending_updates s h))) \<in> set ws
     then pending_updates s h else get_value_option s v h)"
proof -
  have db: "db t = partly_written v (pending_updates s) (value_keys v (pending_updates s) ws) (version_keys v ws) (db s)"
    and sub: "value_keys v (pending_updates s) ws \<subseteq> dom (pending_updates s)"
      "version_keys v ws \<subseteq> value_keys v (pending_updates s) ws"
    using pending_prefix [OF assms(2,1), of "db s" "jmt_log s"] by (simp_all add: t disk_image_def)
  show ?thesis
    using partly_written_new [OF db sub assms(3,4), of h]
    by (auto simp: raw_get_def t value_keys_def version_keys_def)
qed

text \<open>The commit of the sample store is interrupted after the value of key 2.\<close>

definition sample_writes :: "(nat, nat) db_write list" where
  "sample_writes = [Write_nodes 5 [2 \<mapsto> 8], Write_put (JmtValue 2 5) (DbBytes 8)]"

lemma sample_writes_prefix: "prefix sample_writes (pending_writes 5 (pending_updates sample_store) [2])"
  by (simp add: sample_writes_def pending_writes_def value_writes_def fun_eq_iff)

theorem interrupted_block_shows_witness:
  "raw_get (reopen default_pruning_config (fold apply_write sample_writes (disk_image sample_store))) 2 5 = Some 8"
  using interrupted_block_shows [OF _ sample_writes_prefix sample_store_ok(1) _ refl, of default_pruning_config 2]
  by (simp add: sample_writes_def)

definition opened_store :: "(nat, nat) RocksDbStorage" where
  "opened_store = sample_store\<lparr>db := (db sample_store)(CurrentVersion \<mapsto> DbVersion 1)\<rparr>"

lemma opened_store_reads [simp]:
  "get_latest_version opened_store = get_latest_version sample_store" "db_get_value opened_store = db_get_value sample_store"
  "pending_updates opened_store = [2 \<mapsto> 8]" "pruning_config opened_store = pruning_config sample_store"
  "current_version opened_store = 1" "version_on_disk opened_store"
  by (auto simp: opened_store_def get_latest_version_def db_get_value_def fun_eq_iff version_on_disk_def sample_store_def)

lemma opened_store_ok: "latest_ok 1 opened_store" "latest_live opened_store" "storage_finite opened_store"
  using sample_store_ok by (simp_all add: latest_ok_def latest_live_def) (simp add: storage_finite_def opened_store_def)

lemma opened_commit: "\<exists>s'. commit sample_jmt it opened_store v = (Inr 42, s')"
  by (auto simp: commit_def write_pending_def calculate_state_root_def sample_jmt_def Let_def fun_eq_iff)

lemma opened_prefix: "prefix sample_writes (commit_writes it [2] opened_store 5 42)"
  by (simp add: commit_writes_def Let_def sample_writes_def pending_writes_def value_writes_def fun_eq_iff)


end
