(* ===== verification/Block_Writes.thy ===== *)
theory Block_Writes
  imports Executor
begin

text \<open>
  What the execution of a block keeps.  Everything a transaction does to the state, successful or
  not, is buffered: it puts and deletes keys and updates the cached position index.  A predicate
  that these three writes keep holds after every batch.  The interface \<open>write_invariant\<close> gives the
  interface \<open>trading_invariant\<close> of the order operations.
\<close>

locale write_invariant =
  fixes I :: "StateManager \<Rightarrow> bool"
  assumes kept_put: "I s \<Longrightarrow> I (sm_put s k x)"
    and kept_del: "I s \<Longrightarrow> I (sm_del s k)"
    and kept_index: "I s \<Longrightarrow> I (s\<lparr>position_index := ix\<rparr>)"
begin

lemma kept_positions: "I s \<Longrightarrow> I (set_position s a m p)" "I s \<Longrightarrow> I (delete_position s a m)"
  by (auto simp: set_position_def delete_position_def update_position_index_def remove_from_position_index_def Let_def
      kept_put kept_del kept_index split: option.splits)

lemma kept_lists: "I s \<Longrightarrow> I (snd (add_active_order s m i))" "I s \<Longrightarrow> I (snd (remove_active_order s m i))"
  "I s \<Longrightarrow> I (snd (next_order_id s))"
  by (auto simp: add_active_order_def remove_active_order_def next_order_id_def bindR_def Let_def kept_put kept_del
      split: sum.splits)

end

sublocale write_invariant \<subseteq> trading: trading_invariant I
  by unfold_locales (simp_all add: set_order_def kept_put kept_positions kept_lists)

context write_invariant
begin

lemma kept_balance: "I s \<Longrightarrow> I (set_balance s a i v)"
  by (simp add: set_balance_def kept_put)

lemma kept_update_balance: "I (fst sv) \<Longrightarrow> I (fst (snd (update_balance sv a i amount up reason)))"
  by (auto simp: update_balance_def bindR_def kept_balance split: sum.splits prod.splits)

lemma kept_svc:
  "I (fst sv) \<Longrightarrow> I (fst (snd (deposit sv a d)))"
  "I (fst sv) \<Longrightarrow> I (fst (snd (withdraw sv a w)))"
  "I (fst sv) \<Longrightarrow> I (fst (snd (transfer sv a t)))"
  "I (fst sv) \<Longrightarrow> I (fst (snd (bridge_deposit sv a bd)))"
  "I (fst sv) \<Longrightarrow> I (fst (snd (bridge_withdraw sv a bw)))"
proof -
  show "I (fst sv) \<Longrightarrow> I (fst (snd (deposit sv a d)))" "I (fst sv) \<Longrightarrow> I (fst (snd (withdraw sv a w)))"
    by (simp_all add: deposit_def withdraw_def kept_update_balance)
  show "I (fst sv) \<Longrightarrow> I (fst (snd (transfer sv a t)))"
    by (auto simp: transfer_def bindR_def Let_def kept_balance split: sum.splits prod.splits)
  show "I (fst sv) \<Longrightarrow> I (fst (snd (bridge_deposit sv a bd)))" "I (fst sv) \<Longrightarrow> I (fst (snd (bridge_withdraw sv a bw)))"
    by (auto simp: bridge_deposit_def bridge_withdraw_def bindR_def kept_balance split: sum.splits prod.splits)
qed

lemma kept_on_svc:
  assumes "\<And>sv. I (fst sv) \<Longrightarrow> I (fst (snd (f sv)))"
  shows "I (eng_state e) \<Longrightarrow> I (eng_state (snd (on_svc f e)))"
  using assms [of "(eng_state e, eng_context e)"] by (auto simp: on_svc_def split: prod.splits)

lemma kept_on_trading:
  assumes "\<And>t. I (tg_state t) \<Longrightarrow> I (tg_state (snd (f t)))"
  shows "I (eng_state e) \<Longrightarrow> I (eng_state (snd (on_trading f e)))"
  using assms [of "engine_trading e"] by (auto simp: on_trading_def engine_trading_def split: prod.splits)

lemma kept_payload_readonly: "I (eng_state e) \<Longrightarrow> I (eng_state (snd (execute_tx_payload_readonly e tx)))"
  by (cases "tx_payload tx")
    (simp_all add: execute_tx_payload_readonly_def process_deposit_def process_withdraw_def process_transfer_def
      process_bridge_deposit_def process_bridge_withdraw_def process_place_order_def process_cancel_order_def
      process_close_position_def process_set_agent_def process_remove_agent_def kept_on_svc kept_svc
      kept_on_trading trading.kept_place_order trading.kept_cancel_order trading.kept_close_position)

lemma kept_on_engine:
  assumes "\<And>e. I (eng_state e) \<Longrightarrow> I (eng_state (snd (f e)))" "I (eng_state (nd_engine n))"
  shows "I (eng_state (nd_engine (snd (on_engine f n))))"
  using assms by (auto simp: on_engine_def split: prod.splits) (metis snd_conv)

lemma kept_payload:
  assumes "I (eng_state (nd_engine n))"
  shows "I (eng_state (nd_engine (snd (execute_tx_payload c recover n tx))))"
proof -
  have agent: "I (eng_state (nd_engine (snd (bindR (verify_tx_owner c recover tx, n) (\<lambda>_ n. on_engine f (n\<lparr>nd_auth := g n\<rparr>))))))"
    if "\<And>e. I (eng_state e) \<Longrightarrow> I (eng_state (snd (f e)))" for f g
    by (rule bindR_snd [where I = "\<lambda>n. I (eng_state (nd_engine n))"]) (simp_all add: assms kept_on_engine [OF that])
  show ?thesis
    by (cases "tx_payload tx")
      (simp_all add: execute_tx_payload_def kept_on_engine kept_payload_readonly agent assms
        process_set_agent_def process_remove_agent_def)
qed

lemma kept_bump_nonce: "I (eng_state (nd_engine n)) \<Longrightarrow> I (eng_state (nd_engine (snd (bump_nonce a n))))"
  unfolding bump_nonce_def
  by (rule kept_on_engine) (auto simp: increment_nonce_def bindR_def Let_def set_nonce_def kept_put split: prod.splits sum.splits)

lemma kept_execute_bytes:
  assumes "I (eng_state (nd_engine n))"
  shows "I (eng_state (nd_engine (snd (execute_bytes c recover n b))))"
  unfolding execute_bytes_def execute_def
  by (rule bindR_snd [where I = "\<lambda>n. I (eng_state (nd_engine n))"], simp_all add: assms kept_payload kept_bump_nonce)+

lemma kept_batch: "I (eng_state (nd_engine n)) \<Longrightarrow> I (eng_state (nd_engine (snd (execute_batch c recover bs st n))))"
proof (induction bs arbitrary: st n)
  case (Cons b bs)
  then show ?case using kept_execute_bytes [OF Cons.prems, of c recover b] by (auto split: prod.splits sum.splits)
qed simp

end

abbreviation node_state :: "node \<Rightarrow> StateManager" where
  "node_state n \<equiv> eng_state (nd_engine n)"

end
