(* ===== verification/Service.thy ===== *)
theory Service
  imports Block_Writes Snapshot_Exporter Crash
begin

text \<open>
  The node as a program: \<open>PranklinExecutorService\<close> (\<open>crates/exec/src/server.rs\<close>) with its snapshot
  exporter, the statistics of \<open>crates/exec/src/executor_trait.rs\<close>, and the start of the daemon
  (\<open>crates/app/src\<close>: \<open>config.rs\<close>, \<open>init.rs\<close>, \<open>server.rs\<close>).

  The handlers of the components are those of theory Executor.  A block that is due for a snapshot
  spawns a task with a clone of the exporter; the task runs at any later time, on the database of
  that moment.  The parser of addresses and the conversion of a string to a path are arguments;
  the sockets and the log are left out.

  Proved: when the blocks export; that a node opened on the archive of a snapshot reads what the
  exporting node had committed; what starting the daemon writes; that \<open>latest.json\<close> names a
  complete snapshot in every state of the running system.
\<close>

section \<open>Model\<close>

subsection \<open>The service\<close>

record PranklinExecutorService =
  ps_node :: node
  ps_max_bytes :: u64
  ps_db_path :: string
  ps_snapshot_exporter :: "SnapshotExporter option"

text \<open>What a database directory holds: the entries, and the Merkle nodes as the log of value sets.\<close>

type_synonym disk = "(StateKey, state_value) disk_image"

definition open_state :: "disk \<Rightarrow> StateManager" where
  "open_state d = new_state_manager (reopen default_pruning_config d)"

definition disk_of :: "StateManager \<Rightarrow> disk" where
  "disk_of s = disk_image (storage s)"

definition new_service :: "disk \<Rightarrow> string \<Rightarrow> SnapshotExporterConfig option \<Rightarrow> PranklinExecutorService" where
  "new_service d db_path snapshot_config =
     \<lparr>ps_node = new_node (open_state d), ps_max_bytes = DEFAULT_MAX_BYTES, ps_db_path = db_path,
      ps_snapshot_exporter = map_option new_snapshot_exporter snapshot_config\<rparr>"

definition get_components :: "PranklinExecutorService \<Rightarrow> AgentRegistry \<times> Mempool \<times> Engine" where
  "get_components s = (nd_auth (ps_node s), nd_mempool (ps_node s), nd_engine (ps_node s))"

text \<open>The server and the service share their components; a clone is the same value.\<close>

definition new_server_with_components ::
  "disk \<Rightarrow> string \<Rightarrow> PranklinExecutorService \<times> PranklinExecutorService" where
  "new_server_with_components d db_path = (let service = new_service d db_path None in (service, service))"

definition new_server_with_components_and_snapshots ::
  "disk \<Rightarrow> string \<Rightarrow> SnapshotExporterConfig \<Rightarrow> PranklinExecutorService \<times> PranklinExecutorService" where
  "new_server_with_components_and_snapshots d db_path snapshot_config =
     (let service = new_service d db_path (Some snapshot_config) in (service, service))"

text \<open>The spawned task holds a clone of the exporter and the height.\<close>

type_synonym snapshot_task = "SnapshotExporter \<times> u64"

definition handle_snapshot_export :: "PranklinExecutorService \<Rightarrow> u64 \<Rightarrow> snapshot_task option" where
  "handle_snapshot_export s block_height =
     (case ps_snapshot_exporter s of
        None \<Rightarrow> None
      | Some exporter \<Rightarrow> if should_export exporter block_height then Some (exporter, block_height) else None)"

definition service_init_chain ::
  "db_env \<Rightarrow> string \<Rightarrow> u64 \<Rightarrow> PranklinExecutorService \<Rightarrow> (Status + B256 \<times> u64) \<times> PranklinExecutorService" where
  "service_init_chain env chain_id initial_height s =
     (case init_chain env chain_id initial_height (ps_node s) of
        (Inl e, n) \<Rightarrow> (Inl e, s\<lparr>ps_node := n\<rparr>)
      | (Inr root, n) \<Rightarrow> (Inr (root, ps_max_bytes s), s\<lparr>ps_node := n\<rparr>))"

definition service_get_txs :: "tx_codec \<Rightarrow> Address list \<Rightarrow> PranklinExecutorService \<Rightarrow> u8 list list" where
  "service_get_txs c order s = fetch_txs_from_mempool c order (ps_max_bytes s) (ps_node s)"

definition service_execute_txs ::
  "db_env \<Rightarrow> tx_codec \<Rightarrow> recovery \<Rightarrow> u64 \<Rightarrow> u8 list list \<Rightarrow> PranklinExecutorService \<Rightarrow>
     (Status + B256 \<times> u64) \<times> PranklinExecutorService \<times> snapshot_task option" where
  "service_execute_txs env c recover block_height txs s =
     (case execute_txs env c recover block_height txs (ps_node s) of
        (Inl e, n) \<Rightarrow> (Inl e, s\<lparr>ps_node := n\<rparr>, None)
      | (Inr root, n) \<Rightarrow>
          (let s' = s\<lparr>ps_node := n\<rparr> in
           (Inr (root, ps_max_bytes s'), s', handle_snapshot_export s' block_height)))"

text \<open>What a task finds when it runs: the clock and the directory of the database.\<close>

record ambient =
  am_db_dir :: fs_tree
  am_now :: u64
  am_upload_time :: u64

definition run_snapshot_task ::
  "disk snap_env \<Rightarrow> ambient \<Rightarrow> PranklinExecutorService \<Rightarrow> snapshot_task \<Rightarrow> disk world \<Rightarrow>
     (StateError + SnapshotMetadata) \<times> SnapshotExporter \<times> disk world" where
  "run_snapshot_task env am s task w =
     (let state = eng_state (nd_engine (ps_node s)) in
      export_snapshot env
        \<lparr>ei_db = disk_of state, ei_state_root = get_root (storage state) (snd task), ei_db_dir = am_db_dir am,
         ei_now = am_now am, ei_upload_time = am_upload_time am\<rparr>
        (snd task) (fst task) w)"

subsection \<open>Statistics and the default batch of an executor\<close>

record ExecutionStats =
  total_txs :: u64
  successful_txs :: u64
  failed_txs :: u64
  total_time_us :: u64
  avg_time_us :: u64

definition default_execution_stats :: ExecutionStats where
  "default_execution_stats = \<lparr>total_txs = 0, successful_txs = 0, failed_txs = 0, total_time_us = 0, avg_time_us = 0\<rparr>"

text \<open>\<open>None\<close> is the division by zero when the counter wraps around.\<close>

definition stats_record :: "ExecutionStats \<Rightarrow> bool \<Rightarrow> u64 \<Rightarrow> ExecutionStats option" where
  "stats_record st success time_us =
     (let st1 = st\<lparr>total_txs := total_txs st + 1\<rparr>;
          st2 = (if success then st1\<lparr>successful_txs := successful_txs st1 + 1\<rparr>
                 else st1\<lparr>failed_txs := failed_txs st1 + 1\<rparr>);
          st3 = st2\<lparr>total_time_us := total_time_us st2 + time_us\<rparr> in
      if total_txs st3 = 0 then None
      else Some (st3\<lparr>avg_time_us := total_time_us st3 div total_txs st3\<rparr>))"

datatype ExecutionMode = ExecutionMode_Sequential | ExecutionMode_ValidationOnly

definition default_execution_mode :: ExecutionMode where
  "default_execution_mode = ExecutionMode_Sequential"

fun trait_execute_batch :: "('x \<Rightarrow> 'tx \<Rightarrow> 'r \<times> 'x) \<Rightarrow> 'x \<Rightarrow> 'tx list \<Rightarrow> 'r list \<times> 'x" where
  "trait_execute_batch execute_tx x [] = ([], x)"
| "trait_execute_batch execute_tx x (tx # txs) =
     (case execute_tx x tx of (r, x1) \<Rightarrow>
        (case trait_execute_batch execute_tx x1 txs of (rs, x2) \<Rightarrow> (r # rs, x2)))"

subsection \<open>Configuration of the daemon\<close>

record SnapshotConfig =
  cfg_s3_bucket :: "string option"
  cfg_s3_region :: string
  cfg_s3_prefix :: string
  cfg_gcs_bucket :: "string option"
  cfg_gcs_prefix :: string
  cfg_local_path :: string

record StartConfig =
  cfg_grpc_addr :: string
  cfg_rpc_addr :: string
  cfg_db_path :: string
  cfg_chain_id :: string
  cfg_debug :: bool
  cfg_bridge_operators :: "string list"
  cfg_snapshot_enable :: bool
  cfg_snapshot_interval :: u64
  cfg_snapshot :: SnapshotConfig

datatype Commands = Commands_Start StartConfig | Commands_Version

definition cloud_provider_from :: "(string \<Rightarrow> path) \<Rightarrow> SnapshotConfig \<Rightarrow> CloudProvider" where
  "cloud_provider_from path_of config =
     (case cfg_s3_bucket config of
        Some bucket \<Rightarrow> CloudProvider_S3 \<lparr>s3_bucket = bucket, s3_region = cfg_s3_region config, s3_prefix = cfg_s3_prefix config\<rparr>
      | None \<Rightarrow>
          (case cfg_gcs_bucket config of
             Some bucket \<Rightarrow> CloudProvider_GCS \<lparr>gcs_bucket = bucket, gcs_prefix = cfg_gcs_prefix config\<rparr>
           | None \<Rightarrow> CloudProvider_Local (path_of (cfg_local_path config))))"

definition snapshot_exporter_config :: "(string \<Rightarrow> path) \<Rightarrow> StartConfig \<Rightarrow> SnapshotExporterConfig option" where
  "snapshot_exporter_config path_of config =
     (if cfg_snapshot_enable config
      then Some \<lparr>sec_provider = cloud_provider_from path_of (cfg_snapshot config),
                 sec_auto_export_interval = cfg_snapshot_interval config, sec_chain_id = cfg_chain_id config\<rparr>
      else None)"

fun collect_results :: "('e + 'a) list \<Rightarrow> 'e + 'a list" where
  "collect_results [] = Inr []"
| "collect_results (r # rs) = bindE r (\<lambda>a. bindE (collect_results rs) (\<lambda>xs. Inr (a # xs)))"

definition parse_bridge_operators :: "(string \<Rightarrow> string + Address) \<Rightarrow> StartConfig \<Rightarrow> string + Address list" where
  "parse_bridge_operators parse config = collect_results (map parse (cfg_bridge_operators config))"

definition has_bridge_operators :: "StartConfig \<Rightarrow> bool" where
  "has_bridge_operators config = (cfg_bridge_operators config \<noteq> [])"

subsection \<open>Default assets and operators (init.rs)\<close>

record AssetConfig =
  ac_id :: u32
  ac_symbol :: string
  ac_name :: string
  ac_decimals :: u8
  ac_collateral_weight_bps :: u32

definition asset_from :: "AssetConfig \<Rightarrow> Asset" where
  "asset_from config =
     \<lparr>asset_id = ac_id config, asset_symbol = ac_symbol config, asset_name = ac_name config,
      asset_decimals = ac_decimals config, asset_is_collateral = True,
      asset_collateral_weight_bps = ac_collateral_weight_bps config\<rparr>"

definition DEFAULT_ASSETS :: "AssetConfig list" where
  "DEFAULT_ASSETS =
     [\<lparr>ac_id = 0, ac_symbol = ''USDC'', ac_name = ''USD Coin'', ac_decimals = 6, ac_collateral_weight_bps = 10000\<rparr>,
      \<lparr>ac_id = 1, ac_symbol = ''USDT'', ac_name = ''Tether USD'', ac_decimals = 6, ac_collateral_weight_bps = 9800\<rparr>,
      \<lparr>ac_id = 2, ac_symbol = ''DAI'', ac_name = ''Dai Stablecoin'', ac_decimals = 18, ac_collateral_weight_bps = 9500\<rparr>]"

fun initialize_assets_loop :: "AssetConfig list \<Rightarrow> StateManager \<Rightarrow> (StateError + unit) \<times> StateManager" where
  "initialize_assets_loop [] s = (Inr (), s)"
| "initialize_assets_loop (config # cs) s =
     bindR (set_asset s (ac_id config) (asset_from config)) (\<lambda>_ s. initialize_assets_loop cs s)"

definition initialize_default_assets :: "StateManager \<Rightarrow> (StateError + unit) \<times> StateManager" where
  "initialize_default_assets = initialize_assets_loop DEFAULT_ASSETS"

definition init_bridge_operators :: "Address list \<Rightarrow> StateManager \<Rightarrow> (StateError + unit) \<times> StateManager" where
  "init_bridge_operators operators s = (Inr (), fold (\<lambda>op s. set_bridge_operator s op True) operators s)"

definition initialize_test_environment :: "StateManager \<Rightarrow> (StateError + Address) \<times> StateManager" where
  "initialize_test_environment s =
     (let test_operator = word_rcat (replicate 20 (1 :: u8)) in
      bindR (initialize_default_assets s) (\<lambda>_ s.
      bindR (init_bridge_operators [test_operator] s) (\<lambda>_ s. (Inr test_operator, s))))"

subsection \<open>Starting the daemon (server.rs)\<close>

datatype start_error =
    Start_assets StateError
  | Start_operators StateError
  | Start_parse string

definition on_node :: "(node \<Rightarrow> ('e + 'a) \<times> node) \<Rightarrow> PranklinExecutorService \<Rightarrow> ('e + 'a) \<times> PranklinExecutorService" where
  "on_node f s = (case f (ps_node s) of (r, n) \<Rightarrow> (r, s\<lparr>ps_node := n\<rparr>))"

definition server_initialize_assets :: "PranklinExecutorService \<Rightarrow> (start_error + unit) \<times> PranklinExecutorService" where
  "server_initialize_assets s = (case on_node initialize_assets s of (r, s') \<Rightarrow> (map_err Start_assets r, s'))"

definition server_initialize_bridge_operators ::
  "(string \<Rightarrow> string + Address) \<Rightarrow> StartConfig \<Rightarrow> PranklinExecutorService \<Rightarrow> (start_error + unit) \<times> PranklinExecutorService" where
  "server_initialize_bridge_operators parse config s =
     (if \<not> has_bridge_operators config then (Inr (), s)
      else bindR (map_err Start_parse (parse_bridge_operators parse config), s) (\<lambda>operators s.
        case on_node (initialize_bridge_operators operators) s of (r, s') \<Rightarrow> (map_err Start_operators r, s')))"

text \<open>The result holds the server and what the RPC server shares with it.\<close>

definition start_server ::
  "(string \<Rightarrow> path) \<Rightarrow> (string \<Rightarrow> string + Address) \<Rightarrow> disk \<Rightarrow> StartConfig \<Rightarrow>
     start_error + PranklinExecutorService \<times> (AgentRegistry \<times> Mempool \<times> Engine)" where
  "start_server path_of parse d config =
     (let service = snd (case snapshot_exporter_config path_of config of
                           Some cfg \<Rightarrow> new_server_with_components_and_snapshots d (cfg_db_path config) cfg
                         | None \<Rightarrow> new_server_with_components d (cfg_db_path config)) in
      fst (bindR (server_initialize_assets service) (\<lambda>_ service.
           bindR (server_initialize_bridge_operators parse config service) (\<lambda>_ service.
             (Inr (service, get_components service), service)))))"

text \<open>The content type of a request or response; \<open>visible\<close> is \<open>HeaderValue::to_str\<close> succeeding.\<close>

definition convert_content_type :: "(string \<Rightarrow> bool) \<Rightarrow> string \<Rightarrow> string \<Rightarrow> string option \<Rightarrow> string option" where
  "convert_content_type visible from_type to_type header =
     (case header of
        None \<Rightarrow> None
      | Some ct \<Rightarrow> if visible ct \<and> sublist from_type ct then Some to_type else Some ct)"

definition convert_connect_to_grpc :: "(string \<Rightarrow> bool) \<Rightarrow> string option \<Rightarrow> string option" where
  "convert_connect_to_grpc visible = convert_content_type visible ''application/proto'' ''application/grpc''"

definition convert_grpc_to_connect :: "(string \<Rightarrow> bool) \<Rightarrow> string option \<Rightarrow> string option" where
  "convert_grpc_to_connect visible = convert_content_type visible ''application/grpc'' ''application/proto''"

section \<open>Executing a block does not touch the disk\<close>

definition same_disk :: "StateManager \<Rightarrow> StateManager \<Rightarrow> bool" where
  "same_disk s0 s \<longleftrightarrow> disk_of s = disk_of s0 \<and> version s = version s0 \<and>
     root_cache (storage s) = root_cache (storage s0)"

lemma same_disk_refl [simp]: "same_disk s s"
  by (simp add: same_disk_def)

lemma same_disk_put [simp]:
  "same_disk s0 (sm_put s k x) = same_disk s0 s" "same_disk s0 (sm_del s k) = same_disk s0 s"
  "same_disk s0 (s\<lparr>position_index := i\<rparr>) = same_disk s0 s"
  by (simp_all add: same_disk_def disk_of_def disk_image_def sm_put_def sm_del_def raw_set_def raw_delete_def)

interpretation on_disk: write_invariant "same_disk s0"
  by unfold_locales simp_all

lemma execute_batch_disk:
  "same_disk (node_state n) (node_state (snd (execute_batch c recover bs st n)))"
  by (rule on_disk.kept_batch) simp

section \<open>Opening a committed database\<close>

lemma finish_commit_version: "db (finish_commit it v root s) CurrentVersion = Some (DbVersion v)"
  by (auto simp: finish_commit_def Let_def create_snapshot_def prune_before_version_def
      collect_and_delete_old_versions_filter batch_delete_def should_delete_def)

lemma commit_on_disk:
  assumes "commit jmt it s v = (Inr root, s')"
  shows "db s' CurrentVersion = Some (DbVersion v)" "pending_updates s' = Map.empty" "get_root s' v = root"
    "version_on_disk s'"
proof -
  obtain log where s': "s' = finish_commit it v root (write_values (pending_updates s) v
      (s\<lparr>pending_updates := Map.empty, jmt_log := log\<rparr>))"
    using commit_success [OF assms] by blast
  show v: "db s' CurrentVersion = Some (DbVersion v)" by (simp add: s' finish_commit_version)
  show "pending_updates s' = Map.empty" "get_root s' v = root" by (simp_all add: s' get_root_def)
  show "version_on_disk s'" by (simp add: version_on_disk_def v) (simp add: s')
qed

lemma open_state_sel [simp]:
  "version (open_state d) = (case fst d CurrentVersion of Some (DbVersion v) \<Rightarrow> v | _ \<Rightarrow> 0)"
  "position_index (open_state d) = Map.empty"
  by (simp_all add: open_state_def new_state_manager_def)

lemma open_state_get: "sm_get (open_state (disk_of s)) k = get_value_option (storage s) (version (open_state (disk_of s))) k"
proof -
  have "get_value_option (storage (open_state (disk_of s))) = get_value_option (storage s)"
    by (rule get_value_option_cong) (simp add: open_state_def new_state_manager_def disk_of_def disk_image_def)
  moreover have "pending_updates (storage (open_state (disk_of s))) = Map.empty"
    by (simp add: open_state_def new_state_manager_def)
  ultimately show ?thesis by (simp add: sm_get_def raw_get_def)
qed

lemma reopen_committed:
  assumes "commit_state jmt it s = (Inr root, s')"
  shows "version (open_state (disk_of s')) = version s" "version s' = version s"
    "sm_get (open_state (disk_of s')) = sm_get s'" "get_root (storage s') (version s) = root"
proof -
  have run: "commit jmt it (storage s) (version s) = (Inr root, storage s')" and s': "version s' = version s"
    using assms by (auto simp: commit_state_def split: prod.splits)
  note disk = commit_on_disk [OF run]
  show "version s' = version s" by (rule s')
  show v: "version (open_state (disk_of s')) = version s" using disk(1) by (simp add: disk_of_def disk_image_def)
  show "get_root (storage s') (version s) = root" by (rule disk(3))
  show "sm_get (open_state (disk_of s')) = sm_get s'"
    unfolding fun_eq_iff open_state_get v by (simp add: sm_get_def raw_get_def disk(2) s')
qed

lemma on_state_result: "on_state f n = (r, n') \<longleftrightarrow> (\<exists>s. f (node_state n) = (r, s) \<and> n' = n\<lparr>nd_engine := (nd_engine n)\<lparr>eng_state := s\<rparr>\<rparr>)"
  by (auto simp: on_state_def split: prod.splits)

lemma execute_txs_commits:
  assumes "execute_txs env c recover h txs n = (Inr root, n')"
  shows "version (open_state (disk_of (node_state n'))) = h" "sm_get (open_state (disk_of (node_state n'))) = sm_get (node_state n')"
    "get_root (storage (node_state n')) h = root"
proof -
  let ?n1 = "snd (on_state (\<lambda>s. (Inr (), begin_block s h)) n)"
  let ?n2 = "snd (execute_tx_batch c recover txs ?n1)"
  have "version (node_state ?n1) = h" by (simp add: on_state_def begin_block_def)
  then have v: "version (node_state ?n2) = h"
    using execute_batch_disk [of ?n1 c recover txs] by (simp add: execute_tx_batch_def same_disk_def)
  obtain s' where "commit_state (fst env) (snd env) (node_state ?n2) = (Inr root, s')" "node_state n' = s'"
    using assms by (auto simp: execute_txs_def Let_def map_err_Inr on_state_result split: prod.splits)
  from reopen_committed [OF this(1)] this(2) v
  show "version (open_state (disk_of (node_state n'))) = h" "sm_get (open_state (disk_of (node_state n'))) = sm_get (node_state n')"
    "get_root (storage (node_state n')) h = root" by auto
qed

section \<open>The running system\<close>

text \<open>A service, the tasks it spawned that have not run yet, and the world outside.  Tasks run in any
  order, each as a whole; a restart drops them and opens the database again.\<close>

type_synonym system = "PranklinExecutorService \<times> snapshot_task list \<times> disk world"

inductive system_reachable :: "disk snap_env \<Rightarrow> SnapshotExporterConfig \<Rightarrow> system \<Rightarrow> bool"
  for senv cfg where
  system_start:
    "dest_get (sec_provider cfg) w latest_name = None \<Longrightarrow> system_reachable senv cfg (new_service d path (Some cfg), [], w)"
| system_init_chain:
    "system_reachable senv cfg (s, ts, w) \<Longrightarrow> service_init_chain env chain_id h s = (r, s') \<Longrightarrow>
     system_reachable senv cfg (s', ts, w)"
| system_execute:
    "system_reachable senv cfg (s, ts, w) \<Longrightarrow> service_execute_txs env c recover h txs s = (r, s', task) \<Longrightarrow>
     system_reachable senv cfg (s', ts @ (case task of None \<Rightarrow> [] | Some t \<Rightarrow> [t]), w)"
| system_request:
    "system_reachable senv cfg (s, ts, w) \<Longrightarrow>
     system_reachable senv cfg (s\<lparr>ps_node := (ps_node s)\<lparr>nd_auth := a, nd_mempool := m\<rparr>\<rparr>, ts, w)"
| system_task:
    "system_reachable senv cfg (s, ts1 @ t # ts2, w) \<Longrightarrow> intact (sec_provider cfg) (w\<lparr>w_outcomes := os\<rparr>) \<Longrightarrow>
     run_snapshot_task senv am s t (w\<lparr>w_outcomes := os\<rparr>) = (r, x', w') \<Longrightarrow> system_reachable senv cfg (s, ts1 @ ts2, w')"
| system_restart:
    "system_reachable senv cfg (s, ts, w) \<Longrightarrow>
     system_reachable senv cfg (new_service (disk_of (node_state (ps_node s))) path (Some cfg), [], w)"

text \<open>No export ever reaches the exporter of the service: tasks work on clones.\<close>

definition exporters_fresh :: "SnapshotExporterConfig \<Rightarrow> system \<Rightarrow> bool" where
  "exporters_fresh cfg = (\<lambda>(s, ts, w). ps_snapshot_exporter s = Some (new_snapshot_exporter cfg) \<and>
     (\<forall>t\<in>set ts. fst t = new_snapshot_exporter cfg))"

lemma new_snapshot_exporter_config [simp]: "sx_config (new_snapshot_exporter cfg) = cfg"
  by (simp add: new_snapshot_exporter_def)

lemma service_frame:
  "service_init_chain env chain_id h s = (r, s') \<Longrightarrow> ps_snapshot_exporter s' = ps_snapshot_exporter s"
  "service_execute_txs env c recover h txs s = (r', s', task) \<Longrightarrow> ps_snapshot_exporter s' = ps_snapshot_exporter s"
  by (auto simp: service_init_chain_def service_execute_txs_def Let_def split: prod.splits sum.splits)

lemma service_task:
  "service_execute_txs env c recover h txs s = (r, s', task) \<Longrightarrow>
   task = (case r of Inl _ \<Rightarrow> None | Inr _ \<Rightarrow> handle_snapshot_export s' h)"
  by (auto simp: service_execute_txs_def Let_def split: prod.splits sum.splits)

lemma handle_snapshot_export_fresh:
  assumes "ps_snapshot_exporter s = Some (new_snapshot_exporter cfg)"
  shows "handle_snapshot_export s h =
    (if 0 < sec_auto_export_interval cfg \<and> sec_auto_export_interval cfg \<le> h then Some (new_snapshot_exporter cfg, h) else None)"
  using assms
  by (auto simp: handle_snapshot_export_def should_export_def new_snapshot_exporter_def word_neq_0_conv)

lemma system_reachable_fresh: "system_reachable senv cfg S \<Longrightarrow> exporters_fresh cfg S"
proof (induction rule: system_reachable.induct)
  case (system_execute s ts w env c recover h txs r s' task)
  then have s': "ps_snapshot_exporter s' = Some (new_snapshot_exporter cfg)"
    using service_frame(2) by (fastforce simp: exporters_fresh_def)
  show ?case
    using system_execute.IH s' service_task [OF system_execute.hyps(2)]
    by (auto simp: exporters_fresh_def handle_snapshot_export_fresh split: sum.splits if_splits)
qed (auto simp: exporters_fresh_def new_service_def dest: service_frame(1))

text \<open>So every run of the system is a run of the exporter, restarted before each export.\<close>

lemma system_snapshot_reachable:
  "system_reachable senv cfg (s, ts, w) \<Longrightarrow> snapshot_reachable senv (sec_provider cfg) (new_snapshot_exporter cfg) w"
proof (induction "(s, ts, w)" arbitrary: s ts w rule: system_reachable.induct)
  case (system_task s ts1 t ts2 w os am r x' w')
  have t: "fst t = new_snapshot_exporter cfg"
    using system_reachable_fresh [OF system_task.hyps(1)] by (simp add: exporters_fresh_def)
  have "snapshot_reachable senv (sec_provider cfg) x' w'"
    by (rule snapshot_export [OF system_task.hyps(2,3) system_task.hyps(4) [unfolded run_snapshot_task_def Let_def t]])
  then show ?case by (rule snapshot_restart) simp
qed (auto intro: snapshot_start)

section \<open>Properties\<close>

text \<open>C35: The exporter of a running node never learns of an export.  A node with export interval \<open>i\<close> starts an
  export at every block from height \<open>i\<close> on, and none before: not one every \<open>i\<close> blocks.\<close>

theorem exports_every_block:
  assumes "system_reachable senv cfg (s, ts, w)" "service_execute_txs env c recover h txs s = (Inr res, s', task)"
  shows "task = (if 0 < sec_auto_export_interval cfg \<and> sec_auto_export_interval cfg \<le> h
    then Some (new_snapshot_exporter cfg, h) else None)"
proof -
  have "ps_snapshot_exporter s' = Some (new_snapshot_exporter cfg)"
    using system_reachable_fresh [OF assms(1)] service_frame(2) [OF assms(2)] by (simp add: exporters_fresh_def)
  then show ?thesis using service_task [OF assms(2)] by (simp add: handle_snapshot_export_fresh)
qed

text \<open>C11: A node opened on the archive of a snapshot continues where the exporting node was: if the export
  that a block started runs before the next block and succeeds, then the destination holds under
  the block's height an archive whose database opens at that height and reads, key for key, what
  the exporting node reads, and the metadata carries the root the block returned.\<close>

theorem snapshot_bootstraps:
  assumes "service_execute_txs env c recover h txs s = (Inr (root, mb), s', Some task)"
    and "run_snapshot_task senv am s' task w = (Inr m, x', w')"
    and "p = sec_provider (sx_config (fst task))" "dest_ok senv p w" "separate senv p"
    and unpack: "unpack (se_pack senv (disk_of (node_state (ps_node s')))) = disk_of (node_state (ps_node s'))"
  shows "\<exists>b. dest_get p w' (snapshot_name h) = Some b \<and> version (open_state (unpack b)) = h \<and>
    sm_get (open_state (unpack b)) = sm_get (node_state (ps_node s')) \<and>
    dest_get p w' (metadata_name h) = Some (se_metadata_json senv m) \<and> sn_state_root m = ''0x'' @ se_hex senv root"
proof -
  have n: "execute_txs env c recover h txs (ps_node s) = (Inr root, ps_node s')"
    using assms(1) by (auto simp: service_execute_txs_def Let_def split: prod.splits sum.splits)
  have h: "snd task = h"
    using service_task [OF assms(1)] by (auto simp: handle_snapshot_export_def split: option.splits if_splits)
  note committed = execute_txs_commits [OF n]
  have "names_height senv p h (disk_of (node_state (ps_node s'))) m w'" "sn_state_root m = ''0x'' @ se_hex senv root"
    using export_keeps_destination [OF assms(2) [unfolded run_snapshot_task_def Let_def h] assms(3) [symmetric] assms(4,5)]
    by (simp_all add: committed(3))
  then show ?thesis
    using committed(1,2)
    by (intro exI [of _ "se_pack senv (disk_of (node_state (ps_node s')))"]) (simp add: names_height_def unpack del: open_state_sel)
qed

text \<open>C16: What a block writes before its commit is lost in a crash and nothing else: after a committed block,
  the next block may execute any transactions; a node opened on the disk at that moment is at the
  committed height and reads what was committed.\<close>

theorem uncommitted_block_lost:
  assumes "execute_txs env c recover h txs n = (Inr root, n')"
  shows "let n2 = snd (execute_tx_batch c recover txs2 (snd (on_state (\<lambda>s. (Inr (), begin_block s h2)) n')))
    in version (open_state (disk_of (node_state n2))) = h \<and> sm_get (open_state (disk_of (node_state n2))) = sm_get (node_state n')"
proof -
  let ?n1 = "snd (on_state (\<lambda>s. (Inr (), begin_block s h2)) n')"
  have "disk_of (node_state (snd (execute_tx_batch c recover txs2 ?n1))) = disk_of (node_state ?n1)"
    using execute_batch_disk [of ?n1 c recover txs2] by (simp add: execute_tx_batch_def same_disk_def)
  moreover have "disk_of (node_state ?n1) = disk_of (node_state n')"
    by (simp add: on_state_def begin_block_def disk_of_def)
  ultimately show ?thesis using execute_txs_commits [OF assms] by (simp add: Let_def)
qed

text \<open>A node with an empty database that exports at every block to an object store, and its first block.\<close>

definition demo_jmt :: db_env where
  "demo_jmt = (\<lparr>put_value_set = (\<lambda>_ _ _. None), get_root_hash = (\<lambda>_ _. Inr 42)\<rparr>, \<lambda>_. [])"

definition demo_config :: SnapshotExporterConfig where
  "demo_config = \<lparr>sec_provider = demo_provider, sec_auto_export_interval = 1, sec_chain_id = ''c''\<rparr>"

definition demo_service :: PranklinExecutorService where
  "demo_service = new_service (Map.empty, []) ''db'' (Some demo_config)"

definition demo_snap_env :: "disk snap_env" where
  "demo_snap_env = \<lparr>se_pack = (\<lambda>_. [7]), se_metadata_json = (\<lambda>m. [ucast (sn_height m)]),
     se_latest_json = (\<lambda>c. [ucast (fst (latest_entry c))]), se_hex = (\<lambda>_. ''2a''), se_path_string = concat,
     se_temp_root = [''tmp''], se_pkg_version = ''1''\<rparr>"

definition demo_world :: "disk world" where
  "demo_world = \<lparr>w_files = Map.empty, w_objects = Map.empty, w_outcomes = []\<rparr>"

definition demo_ambient :: ambient where
  "demo_ambient = \<lparr>am_db_dir = Fs_dir (Some []), am_now = 1, am_upload_time = 2\<rparr>"

lemma demo_commit: "\<exists>st'. commit (fst demo_jmt) it st v = (Inr 42, st')"
  by (auto simp: demo_jmt_def commit_def Let_def write_pending_def calculate_state_root_def)

lemma demo_execute_any: "\<exists>n'. execute_txs (fst demo_jmt, it) c recover h txs n = (Inr 42, n')"
proof -
  let ?n2 = "snd (execute_tx_batch c recover txs (snd (on_state (\<lambda>s. (Inr (), begin_block s h)) n)))"
  obtain st' where "commit (fst demo_jmt) it (storage (node_state ?n2)) (version (node_state ?n2)) = (Inr 42, st')"
    using demo_commit by blast
  then show ?thesis by (simp add: execute_txs_def Let_def on_state_def commit_state_def split: prod.splits)
qed

lemma demo_execute: "\<exists>n'. execute_txs demo_jmt c recover h txs n = (Inr 42, n')"
  using demo_execute_any [of "snd demo_jmt"] by simp

lemma demo_reachable: "system_reachable demo_snap_env demo_config (demo_service, [], demo_world)"
  unfolding demo_service_def
  by (rule system_start) (simp add: demo_config_def demo_world_def dest_get_def demo_provider_def object_get_def)

lemma demo_block: "\<exists>s'. service_execute_txs demo_jmt exec_codec exec_recovery 1 [[5]] demo_service = (Inr (42, 1000000), s', handle_snapshot_export s' 1)"
proof -
  obtain n' where "execute_txs demo_jmt exec_codec exec_recovery 1 [[5]] (ps_node demo_service) = (Inr 42, n')"
    using demo_execute by blast
  then show ?thesis by (simp add: service_execute_txs_def Let_def demo_service_def new_service_def DEFAULT_MAX_BYTES_def)
qed

theorem exports_every_block_witness:
  "\<exists>s'. service_execute_txs demo_jmt exec_codec exec_recovery 1 [[5]] demo_service =
     (Inr (42, 1000000), s', Some (new_snapshot_exporter demo_config, 1))"
proof -
  obtain s' where s': "service_execute_txs demo_jmt exec_codec exec_recovery 1 [[5]] demo_service =
      (Inr (42, 1000000), s', handle_snapshot_export s' 1)"
    using demo_block by blast
  from exports_every_block [OF demo_reachable s'] s' show ?thesis by (simp add: demo_config_def)
qed

lemma demo_task:
  assumes "service_execute_txs demo_jmt exec_codec exec_recovery 1 [[5]] demo_service =
      (Inr (42, 1000000), s', handle_snapshot_export s' 1)"
  shows "handle_snapshot_export s' 1 = Some (new_snapshot_exporter demo_config, 1)"
  using service_frame(2) [OF assms]
  by (simp add: handle_snapshot_export_fresh demo_service_def new_service_def) (simp add: demo_config_def)

theorem snapshot_bootstraps_witness:
  "\<exists>s' m x' w' b. run_snapshot_task demo_snap_env demo_ambient s' (new_snapshot_exporter demo_config, 1) demo_world = (Inr m, x', w') \<and>
     dest_get demo_provider w' (snapshot_name 1) = Some b \<and>
     version (open_state (disk_of (node_state (ps_node s')))) = 1 \<and>
     sm_get (open_state (disk_of (node_state (ps_node s')))) = sm_get (node_state (ps_node s'))"
proof -
  obtain s' where s': "service_execute_txs demo_jmt exec_codec exec_recovery 1 [[5]] demo_service =
      (Inr (42, 1000000), s', handle_snapshot_export s' 1)"
    using demo_block by blast
  note block = s' [unfolded demo_task [OF s']]
  have sep: "separate demo_snap_env demo_provider" by (simp add: separate_def demo_provider_def)
  have dir: "get_dir_size (am_db_dir demo_ambient) = Inr 0" by (simp add: get_dir_size_def demo_ambient_def)
  have "w_outcomes demo_world = []" by (simp add: demo_world_def)
  from export_without_failures [OF this, of demo_snap_env "new_snapshot_exporter demo_config"
      "\<lparr>ei_db = disk_of (node_state (ps_node s')), ei_state_root = get_root (storage (node_state (ps_node s'))) 1,
        ei_db_dir = am_db_dir demo_ambient, ei_now = am_now demo_ambient, ei_upload_time = am_upload_time demo_ambient\<rparr>" 0 1] sep dir
  obtain m x' w' where run: "run_snapshot_task demo_snap_env demo_ambient s' (new_snapshot_exporter demo_config, 1) demo_world = (Inr m, x', w')"
    by (auto simp: run_snapshot_task_def Let_def demo_config_def)
  have dest: "dest_ok demo_snap_env demo_provider demo_world"
    by (simp add: dest_ok_def intact_def demo_provider_def published_def dest_get_def object_get_def demo_world_def)
  have p: "demo_provider = sec_provider (sx_config (fst (new_snapshot_exporter demo_config, 1 :: u64)))"
    by (simp add: demo_config_def)
  show ?thesis
    using snapshot_bootstraps [where unpack = "\<lambda>_. disk_of (node_state (ps_node s'))", OF block run p dest sep refl] run
    by blast
qed

theorem uncommitted_block_lost_witness:
  "\<exists>n'. execute_txs demo_jmt exec_codec exec_recovery 1 [[5]] exec_node = (Inr 42, n') \<and>
     (let n2 = snd (execute_tx_batch exec_codec exec_recovery [[6]] (snd (on_state (\<lambda>s. (Inr (), begin_block s 2)) n')))
      in version (open_state (disk_of (node_state n2))) = 1 \<and> sm_get (open_state (disk_of (node_state n2))) = sm_get (node_state n'))"
proof -
  obtain n' where n': "execute_txs demo_jmt exec_codec exec_recovery 1 [[5]] exec_node = (Inr 42, n')"
    using demo_execute by blast
  from uncommitted_block_lost [OF this, of "[[6]]" 2] n' show ?thesis by blast
qed

section \<open>Starting the daemon\<close>

text \<open>The two copies of the initial data agree.\<close>

lemma initialize_assets_loop_set_assets: "initialize_assets_loop cs s = set_assets (map asset_from cs) s"
  by (induction cs arbitrary: s) (simp_all add: asset_from_def bindR_def split: prod.split sum.split)

lemma init_same:
  "initialize_assets n = on_state initialize_default_assets n"
  "initialize_bridge_operators ops n = on_state (init_bridge_operators ops) n"
proof -
  have "map asset_from DEFAULT_ASSETS = default_assets"
    by (simp add: DEFAULT_ASSETS_def default_assets_def asset_from_def)
  then show "initialize_assets n = on_state initialize_default_assets n"
    by (simp add: initialize_assets_def initialize_default_assets_def initialize_assets_loop_set_assets [abs_def])
  show "initialize_bridge_operators ops n = on_state (init_bridge_operators ops) n"
    by (simp add: initialize_bridge_operators_def init_bridge_operators_def [abs_def])
qed

fun asset_key :: "StateKey \<Rightarrow> bool" where
  "asset_key (StateKey_AssetInfo _) = True"
| "asset_key StateKey_AssetList = True"
| "asset_key _ = False"

fun operator_key :: "StateKey \<Rightarrow> bool" where
  "operator_key (StateKey_BridgeOperator _) = True"
| "operator_key _ = False"

lemma set_asset_effect:
  assumes "set_asset s i a = (Inr (), s')"
  shows "sm_get s' (StateKey_AssetInfo j) = (if j = i then Some (VAsset a) else sm_get s (StateKey_AssetInfo j))"
    and "\<not> asset_key k \<Longrightarrow> sm_get s' k = sm_get s k"
  using assms by (auto simp: set_asset_def add_to_list_def bindR_def split: sum.splits if_splits)

lemma set_assets_effect:
  assumes "set_assets as s = (Inr (), s')"
  shows "(\<not> asset_key k \<longrightarrow> sm_get s' k = sm_get s k) \<and>
    (distinct (map asset_id as) \<longrightarrow> a \<in> set as \<longrightarrow> sm_get s' (StateKey_AssetInfo (asset_id a)) = Some (VAsset a)) \<and>
    (i \<notin> asset_id ` set as \<longrightarrow> sm_get s' (StateKey_AssetInfo i) = sm_get s (StateKey_AssetInfo i))"
  using assms
proof (induction as arbitrary: s i)
  case (Cons b as)
  then obtain s1 where s1: "set_asset s (asset_id b) b = (Inr (), s1)" "set_assets as s1 = (Inr (), s')"
    by (auto simp: result_simps)
  show ?case using Cons.IH [OF s1(2)] set_asset_effect [OF s1(1)] by auto
qed simp

lemma set_operators_effect:
  "sm_get (fold (\<lambda>a s. set_bridge_operator s a True) ops s) k =
     (case k of StateKey_BridgeOperator a \<Rightarrow> if a \<in> set ops then Some (VBool True) else sm_get s k | _ \<Rightarrow> sm_get s k)"
  by (induction ops arbitrary: s) (auto simp: set_bridge_operator_def split: StateKey.splits)

lemma default_assets_distinct: "distinct (map asset_id default_assets)"
  by (simp add: default_assets_def)

lemma server_operators:
  assumes "server_initialize_bridge_operators parse config s = (Inr (), s')"
  obtains ops where "parse_bridge_operators parse config = Inr ops"
    "s' = s\<lparr>ps_node := snd (on_state (\<lambda>s. (Inr (), fold (\<lambda>a s. set_bridge_operator s a True) ops s)) (ps_node s))\<rparr>"
proof (cases "has_bridge_operators config")
  case False
  then have "parse_bridge_operators parse config = Inr []"
    by (simp add: has_bridge_operators_def parse_bridge_operators_def)
  then show ?thesis
    using that [of "[]"] assms False by (simp add: server_initialize_bridge_operators_def on_state_def)
next
  case True
  then show ?thesis
    using that assms
    by (auto simp: server_initialize_bridge_operators_def on_node_def initialize_bridge_operators_def on_state_def result_simps
        split: prod.splits)
qed

text \<open>Starting the daemon on a database leaves every stored value as it was except the assets and the bridge
  operators: the three default assets are set, the operators of the command line are authorised,
  and operators that are on the disk stay authorised although the command line does not name them.
  The agents, the mempool and the order book start empty.\<close>

lemma start_server_state:
  assumes "start_server path_of parse d config = Inr (service, components)"
  shows "\<exists>ops. parse_bridge_operators parse config = Inr ops \<and>
    (let s = node_state (ps_node service) in
     (\<forall>k. \<not> asset_key k \<and> \<not> operator_key k \<longrightarrow> sm_get s k = sm_get (open_state d) k) \<and>
     (\<forall>a. is_bridge_operator s a = (if a \<in> set ops then Inr True else is_bridge_operator (open_state d) a)) \<and>
     (\<forall>a\<in>set default_assets. get_asset s (asset_id a) = Inr (Some a)) \<and>
     components = (Map.empty, mempool_new config_default, (new_engine (open_state d))\<lparr>eng_state := s\<rparr>) \<and>
     ps_snapshot_exporter service = map_option new_snapshot_exporter (snapshot_exporter_config path_of config))"
proof -
  define s0 where "s0 = new_service d (cfg_db_path config) (snapshot_exporter_config path_of config)"
  obtain s1 where s1: "server_initialize_assets s0 = (Inr (), s1)"
    and s2: "server_initialize_bridge_operators parse config s1 = (Inr (), service)" and comps: "components = get_components service"
    using assms
    by (auto simp: start_server_def Let_def s0_def new_server_with_components_def new_server_with_components_and_snapshots_def
        bindR_def split: option.splits prod.splits sum.splits)
  obtain st where st: "set_assets default_assets (open_state d) = (Inr (), st)"
    and n1: "s1 = s0\<lparr>ps_node := (ps_node s0)\<lparr>nd_engine := (nd_engine (ps_node s0))\<lparr>eng_state := st\<rparr>\<rparr>\<rparr>"
    using s1 by (auto simp: server_initialize_assets_def on_node_def initialize_assets_def on_state_def result_simps s0_def
        new_service_def new_node_def new_engine_def split: prod.splits)
  obtain ops where ops: "parse_bridge_operators parse config = Inr ops"
    and n2: "service = s1\<lparr>ps_node := snd (on_state (\<lambda>s. (Inr (), fold (\<lambda>a s. set_bridge_operator s a True) ops s)) (ps_node s1))\<rparr>"
    by (rule server_operators [OF s2])
  have state: "node_state (ps_node service) = fold (\<lambda>a s. set_bridge_operator s a True) ops st"
    by (simp add: n2 n1 on_state_def)
  note assets = set_assets_effect [OF st]
  show ?thesis
  proof (intro exI [of _ ops] conjI, rule ops, unfold Let_def state, intro conjI allI ballI impI)
    fix k assume k: "\<not> asset_key k \<and> \<not> operator_key k"
    then show "sm_get (fold (\<lambda>a s. set_bridge_operator s a True) ops st) k = sm_get (open_state d) k"
      using assets by (cases k) (simp_all add: set_operators_effect)
  next
    fix a
    have "sm_get st (StateKey_BridgeOperator a) = sm_get (open_state d) (StateKey_BridgeOperator a)" using assets by simp
    then show "is_bridge_operator (fold (\<lambda>a s. set_bridge_operator s a True) ops st) a =
        (if a \<in> set ops then Inr True else is_bridge_operator (open_state d) a)"
      by (simp add: is_bridge_operator_def get_or_default_sm set_operators_effect)
  next
    fix a assume "a \<in> set default_assets"
    then show "get_asset (fold (\<lambda>a s. set_bridge_operator s a True) ops st) (asset_id a) = Inr (Some a)"
      using assets default_assets_distinct by (simp add: get_asset_def get_optional_sm set_operators_effect)
  qed (simp_all add: comps get_components_def n2 n1 on_state_def s0_def new_service_def new_node_def new_engine_def)
qed

text \<open>Recording a transaction fails only when the counter wraps around.\<close>

lemma stats_record_counts:
  assumes "stats_record st ok t = Some st'"
  shows "total_txs st' = total_txs st + 1" "successful_txs st' + failed_txs st' = successful_txs st + failed_txs st + 1"
    "avg_time_us st' = (total_time_us st + t) div (total_txs st + 1)"
  using assms by (auto simp: stats_record_def Let_def split: if_splits)

lemma stats_record_panics: "stats_record st ok t = None \<longleftrightarrow> total_txs st = - 1"
  by (auto simp: stats_record_def Let_def eq_neg_iff_add_eq_0)

lemma trait_execute_batch_append:
  "trait_execute_batch f x (txs @ txs') =
     (case trait_execute_batch f x txs of (rs, x1) \<Rightarrow> (case trait_execute_batch f x1 txs' of (rs', x2) \<Rightarrow> (rs @ rs', x2)))"
  by (induction txs arbitrary: x) (simp_all split: prod.split)

text \<open>A Connect request becomes a gRPC request, and its response goes back.\<close>

lemma content_types:
  assumes "visible ''application/proto''" "visible ''application/grpc''"
  shows "convert_connect_to_grpc visible (Some ''application/proto'') = Some ''application/grpc''"
    "convert_grpc_to_connect visible (Some ''application/grpc'') = Some ''application/proto''"
  using assms by (simp_all add: convert_connect_to_grpc_def convert_grpc_to_connect_def convert_content_type_def)

lemma provider_priority:
  "cfg_s3_bucket c = Some b \<Longrightarrow> \<exists>x. cloud_provider_from path_of c = CloudProvider_S3 x \<and> s3_bucket x = b"
  "cfg_s3_bucket c = None \<Longrightarrow> cfg_gcs_bucket c = Some b \<Longrightarrow> \<exists>x. cloud_provider_from path_of c = CloudProvider_GCS x \<and> gcs_bucket x = b"
  "cfg_s3_bucket c = None \<Longrightarrow> cfg_gcs_bucket c = None \<Longrightarrow> cloud_provider_from path_of c = CloudProvider_Local (path_of (cfg_local_path c))"
  by (simp_all add: cloud_provider_from_def)

end
