(* ===== verification/Websocket.thy ===== *)
theory Websocket
  imports Core_Types
begin

text \<open>
  \<open>crates/rpc/src/websocket.rs\<close>: the messages and the loop of one connection.  The JSON parser is an
  argument, and the frames that arrive are a list that ends where the connection does; \<open>None\<close> is a
  receive error.  The sending half of the outgoing channel is dropped when the channel is made, so
  the task that writes to the client ends at once and the replies are empty.  The broadcaster wraps
  a channel of the runtime and is not modelled.

  Proved: a connection is subscribed to a channel exactly if its last wish about it was to be.
\<close>

section \<open>Model\<close>

datatype WsMessage =
    WsMessage_Subscribe string
  | WsMessage_Unsubscribe string
  | WsMessage_OrderBookUpdate u32 "(u64 \<times> u64) list" "(u64 \<times> u64) list"
  | WsMessage_TradeUpdate u32 u64 u64 bool u64
  | WsMessage_PositionUpdate u32 string u64 u64 bool
  | WsMessage_FundingUpdate u32 i64
  | WsMessage_LiquidationEvent u32 string u64 u64
  | WsMessage_Ping
  | WsMessage_Pong
  | WsMessage_Error string

datatype ws_frame = Frame_Text string | Frame_Close | Frame_Other

definition handle_text :: "(string \<Rightarrow> WsMessage option) \<Rightarrow> string \<Rightarrow> string list \<Rightarrow> string list" where
  "handle_text parse text subscriptions =
     (case parse text of
        Some (WsMessage_Subscribe channel) \<Rightarrow> subscriptions @ [channel]
      | Some (WsMessage_Unsubscribe channel) \<Rightarrow> filter (\<lambda>c. c \<noteq> channel) subscriptions
      | _ \<Rightarrow> subscriptions)"

fun receive_loop :: "(string \<Rightarrow> WsMessage option) \<Rightarrow> ws_frame option list \<Rightarrow> string list \<Rightarrow> string list" where
  "receive_loop parse [] subscriptions = subscriptions"
| "receive_loop parse (None # fs) subscriptions = subscriptions"
| "receive_loop parse (Some (Frame_Text text) # fs) subscriptions = receive_loop parse fs (handle_text parse text subscriptions)"
| "receive_loop parse (Some Frame_Close # fs) subscriptions = subscriptions"
| "receive_loop parse (Some Frame_Other # fs) subscriptions = receive_loop parse fs subscriptions"

text \<open>The subscriptions at the end, and the messages sent to the client.\<close>

definition handle_socket :: "(string \<Rightarrow> WsMessage option) \<Rightarrow> ws_frame option list \<Rightarrow> string list \<times> WsMessage list" where
  "handle_socket parse frames = (receive_loop parse frames [], [])"

section \<open>Subscriptions\<close>

text \<open>What the client asked for before it closed, and whether it wants a channel after that.\<close>

fun wishes :: "(string \<Rightarrow> WsMessage option) \<Rightarrow> ws_frame option list \<Rightarrow> WsMessage list" where
  "wishes parse (Some (Frame_Text text) # fs) = (case parse text of Some w \<Rightarrow> w # wishes parse fs | None \<Rightarrow> wishes parse fs)"
| "wishes parse (Some Frame_Other # fs) = wishes parse fs"
| "wishes parse _ = []"

definition concerns :: "string \<Rightarrow> WsMessage \<Rightarrow> bool" where
  "concerns c w \<longleftrightarrow> w = WsMessage_Subscribe c \<or> w = WsMessage_Unsubscribe c"

lemma handle_text_subscribed:
  "c \<in> set (handle_text parse text subs) \<longleftrightarrow>
     (case parse text of Some w \<Rightarrow> if concerns c w then w = WsMessage_Subscribe c else c \<in> set subs | None \<Rightarrow> c \<in> set subs)"
  by (auto simp: handle_text_def concerns_def split: option.splits WsMessage.splits)

lemma receive_loop_subscribed:
  "c \<in> set (receive_loop parse fs subs) \<longleftrightarrow>
     (let ws = filter (concerns c) (wishes parse fs) in if ws = [] then c \<in> set subs else last ws = WsMessage_Subscribe c)"
  by (induction parse fs subs rule: receive_loop.induct) (auto simp: handle_text_subscribed Let_def split: option.splits)

lemma socket_subscribed:
  "c \<in> set (fst (handle_socket parse fs)) \<longleftrightarrow>
     (let ws = filter (concerns c) (wishes parse fs) in ws \<noteq> [] \<and> last ws = WsMessage_Subscribe c)"
  by (simp add: handle_socket_def receive_loop_subscribed Let_def)

end
