(* ===== verification/Rpc_Server.thy ===== *)
theory Rpc_Server
  imports Node_Invariants Websocket
begin

text \<open>
  \<open>crates/rpc/src\<close>: the router with its paths (\<open>lib.rs\<close>), the request and response bodies
  (\<open>types.rs\<close>), and the metrics (\<open>metrics.rs\<close>).

  A request is a method, a path and a body.  A JSON body is the record of the fields that some
  request type reads, each of the type that the struct gives it; other fields are ignored, as
  \<open>serde\<close> does, and \<open>None\<close> is a body that is no JSON object.  What the HTTP library answers by
  itself follows its documentation: 404 for an unknown path, 405 for another method, 400 for a
  malformed body and 422 for a missing field.  Answers to CORS preflight requests are left out.
  The registries of the metrics library are arguments.

  Proved: a request is a step of the running node or changes nothing, so that whatever is sent
  over HTTP, the state of the engine stays as the last block left it; the metrics are updated
  with as many labels as they were registered with, and can be set up once per process only.
\<close>

section \<open>Requests and responses\<close>

record rpc_fields =
  rq_tx :: "string option"
  rq_tx_hash :: "B256 option"
  rq_address :: "Address option"
  rq_asset_id :: "u32 option"
  rq_market_id :: "u32 option"
  rq_order_id :: "u64 option"

definition both :: "'a option \<Rightarrow> 'b option \<Rightarrow> ('a \<times> 'b) option" where
  "both x y = (case (x, y) of (Some a, Some b) \<Rightarrow> Some (a, b) | _ \<Rightarrow> None)"

definition SubmitTxRequest :: "rpc_fields \<Rightarrow> string option" where "SubmitTxRequest = rq_tx"
definition GetTxStatusRequest :: "rpc_fields \<Rightarrow> B256 option" where "GetTxStatusRequest = rq_tx_hash"
definition GetNonceRequest :: "rpc_fields \<Rightarrow> Address option" where "GetNonceRequest = rq_address"
definition GetOrderRequest :: "rpc_fields \<Rightarrow> u64 option" where "GetOrderRequest = rq_order_id"
definition GetMarketInfoRequest :: "rpc_fields \<Rightarrow> u32 option" where "GetMarketInfoRequest = rq_market_id"
definition GetFundingRateRequest :: "rpc_fields \<Rightarrow> u32 option" where "GetFundingRateRequest = rq_market_id"
definition SetAgentRequest :: "rpc_fields \<Rightarrow> string option" where "SetAgentRequest = rq_tx"
definition RemoveAgentRequest :: "rpc_fields \<Rightarrow> string option" where "RemoveAgentRequest = rq_tx"
definition ListAgentsRequest :: "rpc_fields \<Rightarrow> Address option" where "ListAgentsRequest = rq_address"
definition GetAssetInfoRequest :: "rpc_fields \<Rightarrow> u32 option" where "GetAssetInfoRequest = rq_asset_id"
definition CheckBridgeOperatorRequest :: "rpc_fields \<Rightarrow> Address option" where "CheckBridgeOperatorRequest = rq_address"

definition GetBalanceRequest :: "rpc_fields \<Rightarrow> (Address \<times> u32) option" where
  "GetBalanceRequest b = both (rq_address b) (rq_asset_id b)"

definition GetPositionRequest :: "rpc_fields \<Rightarrow> (Address \<times> u32) option" where
  "GetPositionRequest b = both (rq_address b) (rq_market_id b)"

definition ListOrdersRequest :: "rpc_fields \<Rightarrow> (Address \<times> u32 option) option" where
  "ListOrdersRequest b = map_option (\<lambda>a. (a, rq_market_id b)) (rq_address b)"

datatype rpc_reply =
    Reply_Text string
  | SuccessResponse bool
  | SubmitTxResponse B256
  | Reply_TxStatus TxStatus
  | GetBalanceResponse u128
  | GetNonceResponse u64
  | Reply_Position "PositionInfo option"
  | GetPositionsResponse "PositionInfo list"
  | Reply_Order "OrderInfo option"
  | ListOrdersResponse "OrderInfo list"
  | Reply_Market "MarketInfo option"
  | Reply_FundingRate FundingRateInfo
  | ListAgentsResponse "(Address \<times> u64) list"
  | Reply_Asset "AssetInfo option"
  | ListAssetsResponse "AssetInfo list"
  | CheckBridgeOperatorResponse bool
  | ErrorResponse string
  | Reply_Upgrade
  | Reply_Empty

section \<open>The router\<close>

datatype http_method = GET | HEAD | POST | Other_Method

type_synonym endpoint = "rpc_fields option \<Rightarrow> node \<Rightarrow> (nat \<times> rpc_reply) \<times> node"

definition answer :: "('a \<Rightarrow> rpc_reply) \<Rightarrow> RpcError + 'a \<Rightarrow> nat \<times> rpc_reply" where
  "answer f r =
     (case r of
        Inr a \<Rightarrow> (200, f a)
      | Inl e \<Rightarrow> (case into_response e of (status, msg) \<Rightarrow> (status, ErrorResponse msg)))"

text \<open>The extractor \<open>Json\<close> in front of a handler that reads, and of one that writes.\<close>

definition json_change ::
  "(rpc_fields \<Rightarrow> 'r option) \<Rightarrow> ('a \<Rightarrow> rpc_reply) \<Rightarrow> ('r \<Rightarrow> node \<Rightarrow> (RpcError + 'a) \<times> node) \<Rightarrow> endpoint" where
  "json_change req reply handler body n =
     (case body of
        None \<Rightarrow> ((400, Reply_Empty), n)
      | Some b \<Rightarrow>
          (case req b of
             None \<Rightarrow> ((422, Reply_Empty), n)
           | Some x \<Rightarrow> (case handler x n of (r, n') \<Rightarrow> (answer reply r, n'))))"

definition json_query ::
  "(rpc_fields \<Rightarrow> 'r option) \<Rightarrow> ('a \<Rightarrow> rpc_reply) \<Rightarrow> (node \<Rightarrow> 'r \<Rightarrow> RpcError + 'a) \<Rightarrow> endpoint" where
  "json_query req reply handler = json_change req reply (\<lambda>x n. (handler n x, n))"

definition health :: string where "health = ''OK''"

text \<open>The state of the server; the broadcaster is not read by any handler.\<close>

record 'm RpcState =
  rs_node :: node
  rs_metrics :: "'m option"

definition new_from_shared :: "Engine \<Rightarrow> AgentRegistry \<Rightarrow> Mempool \<Rightarrow> 'm RpcState" where
  "new_from_shared engine auth mempool =
     \<lparr>rs_node = \<lparr>nd_engine = engine, nd_auth = auth, nd_mempool = mempool\<rparr>, rs_metrics = None\<rparr>"

definition with_metrics :: "'m \<Rightarrow> 'm RpcState \<Rightarrow> 'm RpcState" where
  "with_metrics m s = s\<lparr>rs_metrics := Some m\<rparr>"

definition metrics_handler :: "('m \<Rightarrow> string + string) \<Rightarrow> 'm option \<Rightarrow> string" where
  "metrics_handler export metrics =
     (case metrics of
        Some m \<Rightarrow> (case export m of Inr s \<Rightarrow> s | Inl _ \<Rightarrow> ''# Metrics not enabled'' @ [CHR 0x0A])
      | None \<Rightarrow> ''# Metrics not enabled'' @ [CHR 0x0A])"

definition routes :: "rpc_env \<Rightarrow> string \<Rightarrow> (string \<times> http_method \<times> endpoint) list" where
  "routes env metrics_text =
     [(''/health'', GET, \<lambda>_ n. ((200, Reply_Text health), n)),
      (''/metrics'', GET, \<lambda>_ n. ((200, Reply_Text metrics_text), n)),
      (''/ws'', GET, \<lambda>_ n. ((101, Reply_Upgrade), n)),
      (''/tx/submit'', POST, json_change SubmitTxRequest SubmitTxResponse (submit_transaction env)),
      (''/tx/status'', POST, json_query GetTxStatusRequest Reply_TxStatus get_transaction_status),
      (''/account/balance'', POST, json_query GetBalanceRequest GetBalanceResponse (\<lambda>n (a, i). rpc_get_balance n a i)),
      (''/account/nonce'', POST, json_query GetNonceRequest GetNonceResponse rpc_get_nonce),
      (''/account/position'', POST, json_query GetPositionRequest Reply_Position (\<lambda>n (a, m). rpc_get_position n a m)),
      (''/account/positions'', POST, json_query GetNonceRequest GetPositionsResponse rpc_get_positions),
      (''/order/get'', POST, json_query GetOrderRequest Reply_Order rpc_get_order),
      (''/order/list'', POST, json_query ListOrdersRequest ListOrdersResponse (\<lambda>n (a, m). rpc_list_orders n a m)),
      (''/market/info'', POST, json_query GetMarketInfoRequest Reply_Market rpc_get_market_info),
      (''/market/funding'', POST, json_query GetFundingRateRequest Reply_FundingRate rpc_get_funding_rate),
      (''/agent/set'', POST, json_change SetAgentRequest SuccessResponse (rpc_set_agent env)),
      (''/agent/remove'', POST, json_change RemoveAgentRequest SuccessResponse (rpc_remove_agent env)),
      (''/agent/list'', POST, json_query ListAgentsRequest ListAgentsResponse rpc_list_agents),
      (''/asset/info'', POST, json_query GetAssetInfoRequest Reply_Asset rpc_get_asset_info),
      (''/asset/list'', GET, \<lambda>_ n. (answer ListAssetsResponse (rpc_list_assets n), n)),
      (''/bridge/check_operator'', POST,
        json_query CheckBridgeOperatorRequest CheckBridgeOperatorResponse rpc_check_bridge_operator)]"

text \<open>A \<open>get\<close> route also serves \<open>HEAD\<close>, without the body.\<close>

definition create_router :: "rpc_env \<Rightarrow> string \<Rightarrow> http_method \<Rightarrow> string \<Rightarrow> endpoint" where
  "create_router env metrics_text m path body n =
     (case map_of (routes env metrics_text) path of
        None \<Rightarrow> ((404, Reply_Empty), n)
      | Some (m', f) \<Rightarrow>
          if m = m' then f body n
          else if m = HEAD \<and> m' = GET then (case f body n of ((status, _), n') \<Rightarrow> ((status, Reply_Empty), n'))
          else ((405, Reply_Empty), n))"

text \<open>The listener: \<open>bind\<close> opens the socket and \<open>serve\<close> runs until it fails or is stopped.\<close>

definition rpc_start_server ::
  "(string \<Rightarrow> string + 'l) \<Rightarrow> ('l \<Rightarrow> (http_method \<Rightarrow> string \<Rightarrow> endpoint) \<Rightarrow> string + unit) \<Rightarrow>
     rpc_env \<Rightarrow> string \<Rightarrow> string \<Rightarrow> RpcError + unit" where
  "rpc_start_server bind serve env metrics_text addr =
     bindE (map_err RpcError_ServerError (bind addr)) (\<lambda>listener.
       map_err RpcError_ServerError (serve listener (create_router env metrics_text)))"

section \<open>Requests are steps of the node\<close>

lemma json_change_node:
  "snd (json_change req reply handler body n) =
     (case body of None \<Rightarrow> n | Some b \<Rightarrow> (case req b of None \<Rightarrow> n | Some x \<Rightarrow> snd (handler x n)))"
  by (simp add: json_change_def split: option.split prod.split)

lemma json_query_node [simp]: "snd (json_query req reply handler body n) = n"
  by (simp add: json_query_def json_change_node split: option.split)

lemma json_change_status:
  assumes "\<And>x e n'. handler x n = (Inl e, n') \<Longrightarrow> n' = n"
    and "fst (fst (json_change req reply handler body n)) \<noteq> 200"
  shows "snd (json_change req reply handler body n) = n"
  using assms by (auto simp: json_change_def answer_def split: option.splits prod.splits sum.splits)

lemma request_error:
  "rpc_set_agent env hex n = (Inl e, n') \<Longrightarrow> n' = n"
  "rpc_remove_agent env hex n = (Inl e, n') \<Longrightarrow> n' = n"
  by (auto simp: rpc_set_agent_def rpc_remove_agent_def bindR_def split: sum.splits TxPayload.splits)

lemma request_keeps_engine:
  "nd_engine (snd (submit_transaction env hex n)) = nd_engine n"
  "nd_engine (snd (rpc_set_agent env hex n)) = nd_engine n"
  "nd_engine (snd (rpc_remove_agent env hex n)) = nd_engine n"
  by (auto simp: submit_transaction_def rpc_set_agent_def rpc_remove_agent_def bindR_def Let_def
      split: sum.splits prod.splits TxPayload.splits)

text \<open>What every route guarantees of the node, given its answer.\<close>

definition endpoint_ok :: "rpc_env \<Rightarrow> string \<Rightarrow> http_method \<Rightarrow> endpoint \<Rightarrow> bool" where
  "endpoint_ok env path m f \<longleftrightarrow>
     (\<forall>body n. snd (f body n) = n \<or>
        node_step env n (snd (f body n)) \<and> nd_engine (snd (f body n)) = nd_engine n \<and> fst (fst (f body n)) = 200 \<and>
        m = POST \<and> path \<in> {''/tx/submit'', ''/agent/set'', ''/agent/remove''})"

lemma endpoint_okI: "(\<And>body n. snd (f body n) = n) \<Longrightarrow> endpoint_ok env path m f"
  by (simp add: endpoint_ok_def)

lemma endpoint_ok_change:
  assumes err: "\<And>x n e n'. handler x n = (Inl e, n') \<Longrightarrow> n' = n"
    and step: "\<And>x n. node_step env n (snd (handler x n))"
    and engine: "\<And>x n. nd_engine (snd (handler x n)) = nd_engine n"
    and path: "path \<in> {''/tx/submit'', ''/agent/set'', ''/agent/remove''}"
  shows "endpoint_ok env path POST (json_change req reply handler)"
  unfolding endpoint_ok_def
proof (intro allI)
  fix body n
  let ?r = "json_change req reply handler body n"
  have "snd ?r = n \<or> node_step env n (snd ?r) \<and> nd_engine (snd ?r) = nd_engine n"
    using step engine by (simp add: json_change_node split: option.split)
  with json_change_status [of handler n req reply body] err path
  show "snd ?r = n \<or> node_step env n (snd ?r) \<and> nd_engine (snd ?r) = nd_engine n \<and> fst (fst ?r) = 200 \<and>
      POST = POST \<and> path \<in> {''/tx/submit'', ''/agent/set'', ''/agent/remove''}"
    by blast
qed

lemma routes_ok: "(path, m, f) \<in> set (routes env metrics_text) \<Longrightarrow> endpoint_ok env path m f"
proof -
  have "endpoint_ok env ''/tx/submit'' POST (json_change SubmitTxRequest SubmitTxResponse (submit_transaction env))"
    by (rule endpoint_ok_change) (auto intro: node_submit request_keeps_engine dest: submit_error)
  moreover have "endpoint_ok env ''/agent/set'' POST (json_change SetAgentRequest SuccessResponse (rpc_set_agent env))"
    by (rule endpoint_ok_change) (auto intro: node_set_agent request_keeps_engine dest: request_error)
  moreover have "endpoint_ok env ''/agent/remove'' POST (json_change RemoveAgentRequest SuccessResponse (rpc_remove_agent env))"
    by (rule endpoint_ok_change) (auto intro: node_remove_agent request_keeps_engine dest: request_error)
  ultimately show "(path, m, f) \<in> set (routes env metrics_text) \<Longrightarrow> endpoint_ok env path m f"
    unfolding routes_def by (auto intro: endpoint_okI)
qed

lemma router_effect:
  assumes "create_router env metrics_text m path body n = ((status, reply), n')"
  shows "n' = n \<or> node_step env n n' \<and> nd_engine n' = nd_engine n \<and> status = 200 \<and> m = POST \<and>
    path \<in> {''/tx/submit'', ''/agent/set'', ''/agent/remove''}"
proof (cases "map_of (routes env metrics_text) path")
  case (Some r)
  obtain m' f where r: "r = (m', f)" by (cases r)
  have ok: "endpoint_ok env path m' f" using routes_ok map_of_SomeD [OF Some] r by blast
  obtain s y n2 where f: "f body n = ((s, y), n2)" by (metis surj_pair)
  have f_ok: "n2 = n \<or> node_step env n n2 \<and> nd_engine n2 = nd_engine n \<and> s = 200 \<and> m' = POST \<and>
      path \<in> {''/tx/submit'', ''/agent/set'', ''/agent/remove''}"
    using ok f unfolding endpoint_ok_def by (metis fst_conv snd_conv)
  consider "m = m'" "status = s" "n' = n2" | "m' = GET" "n' = n2" | "n' = n"
    using assms Some r f by (auto simp: create_router_def split: if_splits)
  then show ?thesis using f_ok by cases auto
qed (use assms in \<open>simp add: create_router_def\<close>)

section \<open>Metrics\<close>

datatype metric_kind = CounterVec | GaugeVec | HistogramVec

record metric_desc =
  md_name :: string
  md_help :: string
  md_kind :: metric_kind
  md_labels :: "string list"

definition metric :: "string \<Rightarrow> string \<Rightarrow> metric_kind \<Rightarrow> string list \<Rightarrow> metric_desc" where
  "metric name help kind labels = \<lparr>md_name = name, md_help = help, md_kind = kind, md_labels = labels\<rparr>"

text \<open>The fields of \<open>Metrics\<close>, in the order in which they are registered.\<close>

definition metric_table :: "metric_desc list" where
  "metric_table =
     [metric ''pranklin_tx_submitted_total'' ''Total number of transactions submitted'' CounterVec [''tx_type''],
      metric ''pranklin_tx_processed_total'' ''Total number of transactions processed'' CounterVec [''tx_type'', ''status''],
      metric ''pranklin_tx_failed_total'' ''Total number of failed transactions'' CounterVec [''tx_type'', ''error_type''],
      metric ''pranklin_orders_placed_total'' ''Total number of orders placed'' CounterVec [''market_id'', ''side''],
      metric ''pranklin_orders_cancelled_total'' ''Total number of orders cancelled'' CounterVec [''market_id''],
      metric ''pranklin_orders_filled_total'' ''Total number of orders filled'' CounterVec [''market_id''],
      metric ''pranklin_positions_opened_total'' ''Total number of positions opened'' CounterVec [''market_id'', ''side''],
      metric ''pranklin_positions_closed_total'' ''Total number of positions closed'' CounterVec [''market_id''],
      metric ''pranklin_liquidations_total'' ''Total number of liquidations'' CounterVec [''market_id''],
      metric ''pranklin_request_duration_seconds'' ''Request duration in seconds'' HistogramVec [''endpoint'', ''method''],
      metric ''pranklin_tx_processing_duration_seconds'' ''Transaction processing duration in seconds'' HistogramVec [''tx_type''],
      metric ''pranklin_active_orders'' ''Number of active orders'' GaugeVec [''market_id''],
      metric ''pranklin_active_positions'' ''Number of active positions'' GaugeVec [''market_id''],
      metric ''pranklin_total_volume'' ''Total trading volume'' CounterVec [''market_id''],
      metric ''pranklin_mempool_size'' ''Number of transactions in mempool'' GaugeVec [],
      metric ''pranklin_block_height'' ''Current block height'' GaugeVec []]"

text \<open>The registry of the process and a registry of one's own: registering a metric fails or
  gives the next registry.  The macros register in the registry of the process.\<close>

record ('g, 'o) prometheus =
  register_default :: "metric_desc \<Rightarrow> 'g \<Rightarrow> string + 'g"
  register_own :: "metric_desc \<Rightarrow> 'o \<Rightarrow> string + 'o"
  registry_new :: 'o

fun register_metrics ::
  "('g, 'o) prometheus \<Rightarrow> metric_desc list \<Rightarrow> 'o \<Rightarrow> 'g \<Rightarrow> (string + 'o) \<times> 'g" where
  "register_metrics P [] own g = (Inr own, g)"
| "register_metrics P (d # ds) own g =
     (case register_default P d g of
        Inl e \<Rightarrow> (Inl e, g)
      | Inr g' \<Rightarrow>
          (case register_own P d own of
             Inl e \<Rightarrow> (Inl e, g')
           | Inr own' \<Rightarrow> register_metrics P ds own' g'))"

definition metrics_new :: "('g, 'o) prometheus \<Rightarrow> 'g \<Rightarrow> (string + 'o) \<times> 'g" where
  "metrics_new P = register_metrics P metric_table (registry_new P)"

text \<open>\<open>Default\<close>: \<open>None\<close> is the panic of \<open>expect\<close>.\<close>

definition metrics_default :: "('g, 'o) prometheus \<Rightarrow> 'g \<Rightarrow> 'o option \<times> 'g" where
  "metrics_default P g = (case metrics_new P g of (Inr m, g') \<Rightarrow> (Some m, g') | (Inl _, g') \<Rightarrow> (None, g'))"

text \<open>An update: the metric, the values of its labels and what is done to it.\<close>

datatype metric_op = Op_Inc | Op_Set int

type_synonym metric_update = "string \<times> string list \<times> metric_op"

fun decimal :: "nat \<Rightarrow> string" where
  "decimal n = (if n < 10 then [char_of (48 + n)] else decimal (n div 10) @ [char_of (48 + n mod 10)])"

declare decimal.simps [simp del]

definition record_tx_submitted :: "string \<Rightarrow> metric_update" where
  "record_tx_submitted tx_type = (''pranklin_tx_submitted_total'', [tx_type], Op_Inc)"

definition record_tx_processed :: "string \<Rightarrow> bool \<Rightarrow> metric_update" where
  "record_tx_processed tx_type success =
     (''pranklin_tx_processed_total'', [tx_type, if success then ''success'' else ''failure''], Op_Inc)"

definition record_tx_failed :: "string \<Rightarrow> string \<Rightarrow> metric_update" where
  "record_tx_failed tx_type error_type = (''pranklin_tx_failed_total'', [tx_type, error_type], Op_Inc)"

definition record_order_placed :: "u32 \<Rightarrow> bool \<Rightarrow> metric_update" where
  "record_order_placed market_id is_buy =
     (''pranklin_orders_placed_total'', [decimal (unat market_id), if is_buy then ''buy'' else ''sell''], Op_Inc)"

definition record_order_cancelled :: "u32 \<Rightarrow> metric_update" where
  "record_order_cancelled market_id = (''pranklin_orders_cancelled_total'', [decimal (unat market_id)], Op_Inc)"

definition record_order_filled :: "u32 \<Rightarrow> metric_update" where
  "record_order_filled market_id = (''pranklin_orders_filled_total'', [decimal (unat market_id)], Op_Inc)"

definition set_active_orders :: "u32 \<Rightarrow> i64 \<Rightarrow> metric_update" where
  "set_active_orders market_id n = (''pranklin_active_orders'', [decimal (unat market_id)], Op_Set (sint n))"

definition set_mempool_size :: "i64 \<Rightarrow> metric_update" where
  "set_mempool_size n = (''pranklin_mempool_size'', [], Op_Set (sint n))"

definition set_block_height :: "u64 \<Rightarrow> metric_update" where
  "set_block_height height = (''pranklin_block_height'', [], Op_Set (uint height))"

text \<open>\<open>with_label_values\<close> panics unless it gets one value for each label; an update also has to
  fit the kind of the metric.\<close>

definition update_ok :: "metric_update \<Rightarrow> bool" where
  "update_ok u = (case u of (name, labels, op) \<Rightarrow>
     list_ex (\<lambda>d. md_name d = name \<and> length (md_labels d) = length labels \<and>
       md_kind d = (case op of Op_Inc \<Rightarrow> CounterVec | Op_Set _ \<Rightarrow> GaugeVec)) metric_table)"

lemma updates_ok:
  "update_ok (record_tx_submitted t)" "update_ok (record_tx_processed t b)" "update_ok (record_tx_failed t e)"
  "update_ok (record_order_placed m b)" "update_ok (record_order_cancelled m)" "update_ok (record_order_filled m)"
  "update_ok (set_active_orders m n)" "update_ok (set_mempool_size n)" "update_ok (set_block_height h)"
  by (simp_all add: update_ok_def metric_table_def metric_def record_tx_submitted_def record_tx_processed_def
      record_tx_failed_def record_order_placed_def record_order_cancelled_def record_order_filled_def
      set_active_orders_def set_mempool_size_def set_block_height_def)

text \<open>Two markets never share a counter: their decimal representations differ.\<close>

definition of_decimal :: "string \<Rightarrow> nat" where
  "of_decimal s = foldl (\<lambda>n c. 10 * n + (of_char c - 48)) 0 s"

lemma of_decimal: "of_decimal (decimal n) = n"
proof (induction n rule: decimal.induct)
  case (1 n)
  show ?case
  proof (cases "n < 10")
    case True
    then show ?thesis by (simp add: decimal.simps [of n] of_decimal_def)
  next
    case False
    with 1 have "foldl (\<lambda>n c. 10 * n + (of_char c - 48)) 0 (decimal (n div 10)) = n div 10" by (simp add: of_decimal_def)
    with False show ?thesis by (simp add: decimal.simps [of n] of_decimal_def)
  qed
qed

lemma market_counters_distinct:
  assumes "m \<noteq> m'"
  shows "fst (snd (record_order_filled m)) \<noteq> fst (snd (record_order_filled m'))"
proof -
  have "decimal (unat m) \<noteq> decimal (unat m')"
    using assms of_decimal by (metis unsigned_word_eqI)
  then show ?thesis by (simp add: record_order_filled_def)
qed

text \<open>The registry of the process refuses a name that it holds, and keeps the names it holds.\<close>

definition registry_laws :: "('g \<Rightarrow> string set) \<Rightarrow> ('g, 'o) prometheus \<Rightarrow> bool" where
  "registry_laws names P \<longleftrightarrow>
     (\<forall>d g. case register_default P d g of
        Inl _ \<Rightarrow> True
      | Inr g' \<Rightarrow> md_name d \<notin> names g \<and> names g' = insert (md_name d) (names g))"

lemma register_metrics_names:
  assumes "registry_laws names P" "register_metrics P ds own g = (r, g')"
  shows "names g \<subseteq> names g' \<and> (is_ok r \<longrightarrow> names g' = names g \<union> md_name ` set ds \<and> names g \<inter> md_name ` set ds = {})"
  using assms(2)
proof (induction ds arbitrary: own g)
  case (Cons d ds)
  show ?case
  proof (cases "register_default P d g")
    case (Inr g1)
    then have g1: "md_name d \<notin> names g" "names g1 = insert (md_name d) (names g)"
      using assms(1)[unfolded registry_laws_def, rule_format, of d g] by simp_all
    show ?thesis
    proof (cases "register_own P d own")
      case (Inr own')
      from Cons.IH [of own' g1] Cons.prems \<open>register_default P d g = Inr g1\<close> Inr g1 show ?thesis by auto
    next
      case (Inl e)
      with Cons.prems \<open>register_default P d g = Inr g1\<close> have "r = Inl e" "g' = g1" by simp_all
      with g1(2) show ?thesis by (simp add: is_ok_def subset_insertI)
    qed
  qed (use Cons.prems in \<open>auto simp: is_ok_def\<close>)
qed (auto simp: is_ok_def)

text \<open>So the metrics can be set up once in a process: a second \<open>Metrics::default()\<close> panics.\<close>

lemma metrics_once:
  assumes "registry_laws names P" "metrics_new P g = (Inr m, g')"
  shows "fst (metrics_default P g') = None"
proof -
  have "''pranklin_block_height'' \<in> md_name ` set metric_table" by (simp add: metric_table_def metric_def)
  moreover have "names g' = names g \<union> md_name ` set metric_table"
    using register_metrics_names [OF assms(1) assms(2)[unfolded metrics_new_def]] by (simp add: is_ok_def)
  moreover obtain r g2 where second: "metrics_new P g' = (r, g2)" by fastforce
  ultimately have "\<not> is_ok r"
    using register_metrics_names [OF assms(1) second[unfolded metrics_new_def]] by blast
  with second show ?thesis by (auto simp: metrics_default_def is_ok_def split: sum.splits)
qed

section \<open>Properties\<close>

text \<open>C8: Whatever request reaches the RPC server of a running node, the node stays one that the
  steps of a node reach, and the engine stays as the last block left it.  The node changes only by
  a \<open>POST\<close> to \<open>/tx/submit\<close>, \<open>/agent/set\<close> or \<open>/agent/remove\<close> that is answered with 200; a request
  answered in any other way changes nothing.\<close>

theorem http_request_effect:
  assumes "node_reachable env n" "create_router env metrics_text m path body n = ((status, reply), n')"
  shows "node_reachable env n' \<and> nd_engine n' = nd_engine n \<and>
    (n' = n \<or> status = 200 \<and> m = POST \<and> path \<in> {''/tx/submit'', ''/agent/set'', ''/agent/remove''})"
  using router_effect [OF assms(2)] node_run [OF assms(1)] assms(1) by auto

definition sample_body :: rpc_fields where
  "sample_body = \<lparr>rq_tx = Some ''0x00000'', rq_tx_hash = None, rq_address = None, rq_asset_id = None,
     rq_market_id = None, rq_order_id = None\<rparr>"

lemma sample_post:
  obtains n where "create_router sample_env [] POST ''/tx/submit'' (Some sample_body) exec_node = ((200, SubmitTxResponse 5), n)"
    "index_get (mp_index (nd_mempool n)) 5 = Some (sample_deposit 0 5)"
proof -
  obtain n where n: "submit_transaction sample_env ''0x00000'' exec_node = (Inr 5, n)"
    "index_get (mp_index (nd_mempool n)) 5 = Some (sample_deposit 0 5)"
    by (rule sample_submit)
  have "create_router sample_env [] POST ''/tx/submit'' (Some sample_body) exec_node = ((200, SubmitTxResponse 5), n)"
    by (simp add: create_router_def routes_def json_change_def SubmitTxRequest_def sample_body_def n(1) answer_def)
  from that [OF this n(2)] show ?thesis .
qed

theorem http_request_effect_witness:
  "\<exists>n. create_router sample_env [] POST ''/tx/submit'' (Some sample_body) exec_node = ((200, SubmitTxResponse 5), n) \<and>
     index_get (mp_index (nd_mempool n)) 5 = Some (sample_deposit 0 5) \<and>
     node_reachable sample_env n \<and> nd_engine n = nd_engine exec_node"
proof -
  obtain n where n: "create_router sample_env [] POST ''/tx/submit'' (Some sample_body) exec_node = ((200, SubmitTxResponse 5), n)"
    "index_get (mp_index (nd_mempool n)) 5 = Some (sample_deposit 0 5)"
    by (rule sample_post)
  have "node_reachable sample_env exec_node" unfolding exec_node_def by (rule node_start)
  from http_request_effect [OF this n(1)] n show ?thesis by blast
qed

end
