(* ===== verification/Load_Client.thy ===== *)
theory Load_Client
  imports Rpc_Server "HOL-Library.State_Monad"
begin

text \<open>
  \<open>crates/loadtest/src\<close>: the parts of the load-test client below its runner: the configuration
  (\<open>config.rs\<close>), the generators of payloads (\<open>generator.rs\<close>), wallets (\<open>wallet.rs\<close>), the RPC client
  (\<open>client.rs\<close>), the collection of results (\<open>metrics.rs\<close>) and the funding of accounts
  (\<open>setup.rs\<close>).

  The random source of the crate \<open>fastrand\<close> is an argument, a record of state transformers, and the
  generators are programs of the state monad over it.  Signing is an argument as well, and so are
  floating-point numbers and the histogram of latencies.  The client talks to the modelled router:
  a request is delivered, or it is lost on the way there or the answer on the way back.

  Proved: what the generators produce; that a transaction signed by a wallet passes the RPC server
  and lands in the pool; that the counters of the collector add up; and what funding reports.
\<close>

section \<open>Configuration\<close>

datatype TestScenario = Standard | OrderSpam | OrderMatching | Aggressive
datatype LoadTestMode = Sustained | Ramp | Burst | Stress
datatype TransactionType = TT_PlaceOrder | TT_CancelOrder | TT_Deposit | TT_Withdraw | TT_Transfer | TT_Mixed

fun show_scenario :: "TestScenario \<Rightarrow> string" where
  "show_scenario Standard = ''Standard load test''"
| "show_scenario OrderSpam = ''Order spam: submit & cancel rapidly''"
| "show_scenario OrderMatching = ''Order matching: matching buy/sell orders''"
| "show_scenario Aggressive = ''Aggressive: orderbook depth + market orders''"

fun show_mode :: "LoadTestMode \<Rightarrow> string" where
  "show_mode Sustained = ''Sustained''"
| "show_mode Ramp = ''Ramp''"
| "show_mode Burst = ''Burst''"
| "show_mode Stress = ''Stress''"

fun show_tx_type :: "TransactionType \<Rightarrow> string" where
  "show_tx_type TT_PlaceOrder = ''PlaceOrder''"
| "show_tx_type TT_CancelOrder = ''CancelOrder''"
| "show_tx_type TT_Deposit = ''Deposit''"
| "show_tx_type TT_Withdraw = ''Withdraw''"
| "show_tx_type TT_Transfer = ''Transfer''"
| "show_tx_type TT_Mixed = ''Mixed''"

record LoadTestConfig =
  lc_rpc_url :: string
  lc_num_workers :: nat
  lc_target_tps :: nat
  lc_duration_secs :: u64
  lc_mode :: LoadTestMode
  lc_tx_type :: TransactionType
  lc_num_wallets :: nat
  lc_market_id :: u32
  lc_asset_id :: u32
  lc_ramp_up_secs :: u64
  lc_burst_duration_secs :: u64
  lc_burst_interval_secs :: u64
  lc_operator_mode :: bool
  lc_initial_balance :: u128
  lc_scenario :: TestScenario

text \<open>The defaults of the command line.\<close>

definition default_load_config :: LoadTestConfig where
  "default_load_config =
     \<lparr>lc_rpc_url = ''http://localhost:3000'', lc_num_workers = 10, lc_target_tps = 100, lc_duration_secs = 30,
      lc_mode = Sustained, lc_tx_type = TT_Mixed, lc_num_wallets = 100, lc_market_id = 0, lc_asset_id = 0,
      lc_ramp_up_secs = 10, lc_burst_duration_secs = 5, lc_burst_interval_secs = 15, lc_operator_mode = False,
      lc_initial_balance = 10000000000, lc_scenario = Standard\<rparr>"

section \<open>Generators\<close>

text \<open>\<open>rnd_range lo hi\<close> draws from \<open>lo..hi\<close>, for every integer type.\<close>

record 'r fastrand =
  rnd_bool :: "('r, bool) state"
  rnd_range :: "nat \<Rightarrow> nat \<Rightarrow> ('r, nat) state"
  rnd_fill :: "nat \<Rightarrow> ('r, u8 list) state"

definition fastrand_ok :: "'r fastrand \<Rightarrow> bool" where
  "fastrand_ok R \<longleftrightarrow>
     (\<forall>lo hi. lo < hi \<longrightarrow> pred_state (\<lambda>x. lo \<le> x \<and> x < hi) (rnd_range R lo hi)) \<and>
     (\<forall>n. pred_state (\<lambda>bs. length bs = n) (rnd_fill R n))"

definition address_from_slice :: "u8 list \<Rightarrow> Address" where
  "address_from_slice bs = foldl (\<lambda>a b. push_bit 8 a OR ucast b) 0 bs"

definition hash_from_bytes :: "u8 list \<Rightarrow> B256" where
  "hash_from_bytes bs = foldl (\<lambda>a b. push_bit 8 a OR ucast b) 0 bs"

definition with_params :: "u32 \<Rightarrow> bool \<Rightarrow> OrderType \<Rightarrow> u64 \<Rightarrow> u64 \<Rightarrow> TimeInForce \<Rightarrow> TxPayload" where
  "with_params market_id is_buy order_type price sz time_in_force =
     TxPayload_PlaceOrder
       \<lparr>po_market_id = market_id, po_is_buy = is_buy, po_order_type = order_type,
        po_price = (if order_type = OrderType_Market then 0 else price), po_size = sz,
        po_time_in_force = time_in_force, po_reduce_only = False, po_post_only = (time_in_force = PostOnly)\<rparr>"

definition generate_order :: "'r fastrand \<Rightarrow> u32 \<Rightarrow> ('r, TxPayload) state" where
  "generate_order R market_id = do {
     is_buy \<leftarrow> rnd_bool R;
     price \<leftarrow> rnd_range R 45000000000 55000000000;
     sz \<leftarrow> rnd_range R 1000000 100000000;
     k \<leftarrow> rnd_range R 0 10;
     j \<leftarrow> rnd_range R 0 4;
     State_Monad.return (with_params market_id is_buy (if k < 8 then OrderType_Limit else OrderType_Market)
       (of_nat price) (of_nat sz) ([GTC, IOC, FOK, PostOnly] ! j))
   }"

definition generate_cancel :: "'r fastrand \<Rightarrow> ('r, TxPayload) state" where
  "generate_cancel R = do {
     i \<leftarrow> rnd_range R 1 1000000;
     State_Monad.return (TxPayload_CancelOrder \<lparr>co_order_id = of_nat i\<rparr>)
   }"

definition generate_deposit :: "'r fastrand \<Rightarrow> u32 \<Rightarrow> ('r, TxPayload) state" where
  "generate_deposit R asset = do {
     amount \<leftarrow> rnd_range R 100000000 10000000000;
     State_Monad.return (TxPayload_Deposit \<lparr>dep_amount = of_nat amount, dep_asset_id = asset\<rparr>)
   }"

definition generate_withdraw :: "'r fastrand \<Rightarrow> u32 \<Rightarrow> Address \<Rightarrow> ('r, TxPayload) state" where
  "generate_withdraw R asset address = do {
     amount \<leftarrow> rnd_range R 10000000 1000000000;
     State_Monad.return (TxPayload_Withdraw \<lparr>wd_amount = of_nat amount, wd_asset_id = asset, wd_to = address\<rparr>)
   }"

definition generate_transfer :: "'r fastrand \<Rightarrow> u32 \<Rightarrow> ('r, TxPayload) state" where
  "generate_transfer R asset = do {
     random_bytes \<leftarrow> rnd_fill R 20;
     amount \<leftarrow> rnd_range R 1000000 100000000;
     State_Monad.return (TxPayload_Transfer
       \<lparr>tr_to = address_from_slice random_bytes, tr_amount = of_nat amount, tr_asset_id = asset\<rparr>)
   }"

definition generate_mixed :: "'r fastrand \<Rightarrow> u32 \<Rightarrow> u32 \<Rightarrow> Address \<Rightarrow> ('r, TxPayload) state" where
  "generate_mixed R market_id asset address = do {
     k \<leftarrow> rnd_range R 0 5;
     (if k = 0 then generate_order R market_id
      else if k = 1 then generate_cancel R
      else if k = 2 then generate_deposit R asset
      else if k = 3 then generate_withdraw R asset address
      else generate_transfer R asset)
   }"

fun generate_payload ::
  "'r fastrand \<Rightarrow> TransactionType \<Rightarrow> u32 \<Rightarrow> u32 \<Rightarrow> Address \<Rightarrow> ('r, TxPayload) state" where
  "generate_payload R TT_PlaceOrder market_id asset address = generate_order R market_id"
| "generate_payload R TT_CancelOrder market_id asset address = generate_cancel R"
| "generate_payload R TT_Deposit market_id asset address = generate_deposit R asset"
| "generate_payload R TT_Withdraw market_id asset address = generate_withdraw R asset address"
| "generate_payload R TT_Transfer market_id asset address = generate_transfer R asset"
| "generate_payload R TT_Mixed market_id asset address = generate_mixed R market_id asset address"

section \<open>Wallets\<close>

text \<open>Elliptic-curve signing: the key of 32 bytes, its uncompressed public point, and the signature
  of a hash with its recovery id.\<close>

record 'k ecdsa =
  key_from_bytes :: "u8 list \<Rightarrow> 'k option"
  encoded_point :: "'k \<Rightarrow> u8 list"
  sign_prehash_recoverable :: "'k \<Rightarrow> B256 \<Rightarrow> string + u8 list \<times> u8"

record 'k Wallet =
  wl_signing_key :: 'k
  wl_address :: Address
  wl_nonce :: u64

definition address_of_key :: "tx_codec \<Rightarrow> 'k ecdsa \<Rightarrow> 'k \<Rightarrow> Address" where
  "address_of_key c E k = address_from_slice (drop 12 (be_bytes 32 (keccak256 c (drop 1 (encoded_point E k)))))"

text \<open>\<open>None\<close> is the panic on bytes that are no key.\<close>

definition new_random :: "tx_codec \<Rightarrow> 'k ecdsa \<Rightarrow> 'r fastrand \<Rightarrow> ('r, 'k Wallet option) state" where
  "new_random c E R = do {
     secret_key_bytes \<leftarrow> rnd_fill R 32;
     State_Monad.return (map_option
       (\<lambda>k. \<lparr>wl_signing_key = k, wl_address = address_of_key c E k, wl_nonce = 0\<rparr>)
       (key_from_bytes E secret_key_bytes))
   }"

definition wallet_next_nonce :: "'k Wallet \<Rightarrow> u64 \<times> 'k Wallet" where
  "wallet_next_nonce w = (wl_nonce w, w\<lparr>wl_nonce := wl_nonce w + 1\<rparr>)"

definition sign_transaction :: "tx_codec \<Rightarrow> 'k ecdsa \<Rightarrow> 'k \<Rightarrow> Transaction \<Rightarrow> string + Transaction" where
  "sign_transaction c E k tx =
     bindE (map_err (\<lambda>e. ''Failed to sign: '' @ e) (sign_prehash_recoverable E k (signing_hash c tx)))
       (\<lambda>(signature, recovery_id). Inr (with_signature tx (signature @ [recovery_id])))"

definition create_signed_transaction ::
  "tx_codec \<Rightarrow> 'k ecdsa \<Rightarrow> TxPayload \<Rightarrow> 'k Wallet \<Rightarrow> (string + Transaction) \<times> 'k Wallet" where
  "create_signed_transaction c E payload w =
     (case wallet_next_nonce w of
        (n, w') \<Rightarrow> (sign_transaction c E (wl_signing_key w) (new_raw n (wl_address w) payload), w'))"

definition generate_transaction ::
  "tx_codec \<Rightarrow> 'k ecdsa \<Rightarrow> 'r fastrand \<Rightarrow> TransactionType \<Rightarrow> u32 \<Rightarrow> u32 \<Rightarrow> 'k Wallet \<Rightarrow>
     ('r, (string + Transaction) \<times> 'k Wallet) state" where
  "generate_transaction c E R tx_type market_id asset w = do {
     payload \<leftarrow> generate_payload R tx_type market_id asset (wl_address w);
     State_Monad.return (create_signed_transaction c E payload w)
   }"

section \<open>The RPC client\<close>

datatype delivery = Delivered | Request_Lost string | Reply_Lost string

record load_env =
  le_env :: rpc_env
  le_hex :: "u8 list \<Rightarrow> string"
  le_base_url :: string
  le_status_error :: "nat \<Rightarrow> string \<Rightarrow> string"

definition no_fields :: rpc_fields where
  "no_fields = \<lparr>rq_tx = None, rq_tx_hash = None, rq_address = None, rq_asset_id = None, rq_market_id = None, rq_order_id = None\<rparr>"

text \<open>Sending and \<open>error_for_status\<close>; the metrics endpoint is not enabled.\<close>

definition http_exchange ::
  "load_env \<Rightarrow> delivery \<Rightarrow> http_method \<Rightarrow> string \<Rightarrow> rpc_fields option \<Rightarrow> node \<Rightarrow> (string + rpc_reply) \<times> node" where
  "http_exchange L d m endpoint body n =
     (case d of
        Request_Lost e \<Rightarrow> (Inl e, n)
      | _ \<Rightarrow>
          (case create_router (le_env L) [] m endpoint body n of
             ((status, reply), n') \<Rightarrow>
               (case d of
                  Reply_Lost e \<Rightarrow> (Inl e, n')
                | _ \<Rightarrow>
                    if 400 \<le> status \<and> status < 600 then (Inl (le_status_error L status (le_base_url L @ endpoint)), n')
                    else (Inr reply, n'))))"

definition post_json ::
  "load_env \<Rightarrow> delivery \<Rightarrow> string \<Rightarrow> rpc_fields \<Rightarrow> (rpc_reply \<Rightarrow> 'a option) \<Rightarrow> node \<Rightarrow> (string + 'a) \<times> node" where
  "post_json L d endpoint request parse n =
     bindR (http_exchange L d POST endpoint (Some request) n)
       (\<lambda>reply n. (ok_or ''error decoding response body'' (parse reply), n))"

definition client_submit_transaction ::
  "load_env \<Rightarrow> delivery \<Rightarrow> Transaction \<Rightarrow> node \<Rightarrow> (string + B256) \<times> node" where
  "client_submit_transaction L d tx =
     post_json L d ''/tx/submit''
       (no_fields\<lparr>rq_tx := Some (''0x'' @ le_hex L (borsh_tx (rpc_codec (le_env L)) tx))\<rparr>)
       (\<lambda>r. case r of SubmitTxResponse h \<Rightarrow> Some h | _ \<Rightarrow> None)"

definition client_get_transaction_status ::
  "load_env \<Rightarrow> delivery \<Rightarrow> B256 \<Rightarrow> node \<Rightarrow> (string + TxStatus) \<times> node" where
  "client_get_transaction_status L d h =
     post_json L d ''/tx/status'' (no_fields\<lparr>rq_tx_hash := Some h\<rparr>)
       (\<lambda>r. case r of Reply_TxStatus s \<Rightarrow> Some s | _ \<Rightarrow> None)"

definition client_get_balance ::
  "load_env \<Rightarrow> delivery \<Rightarrow> Address \<Rightarrow> u32 \<Rightarrow> node \<Rightarrow> (string + u128) \<times> node" where
  "client_get_balance L d address asset =
     post_json L d ''/account/balance'' (no_fields\<lparr>rq_address := Some address, rq_asset_id := Some asset\<rparr>)
       (\<lambda>r. case r of GetBalanceResponse b \<Rightarrow> Some b | _ \<Rightarrow> None)"

definition client_health :: "load_env \<Rightarrow> delivery \<Rightarrow> node \<Rightarrow> (string + string) \<times> node" where
  "client_health L d n =
     bindR (http_exchange L d GET ''/health'' None n)
       (\<lambda>reply n. (ok_or [] (case reply of Reply_Text t \<Rightarrow> Some t | _ \<Rightarrow> None), n))"

section \<open>Results\<close>

record 'f floats =
  f_of_u64 :: "u64 \<Rightarrow> 'f"
  f_of_nat :: "nat \<Rightarrow> 'f"
  f_div :: "'f \<Rightarrow> 'f \<Rightarrow> 'f"
  f_mul :: "'f \<Rightarrow> 'f \<Rightarrow> 'f"

text \<open>The histogram; quantiles are given per mille.\<close>

record ('h, 'f) histogram =
  h_new :: 'h
  h_record :: "u64 \<Rightarrow> 'h \<Rightarrow> 'h"
  h_min :: "'h \<Rightarrow> u64"
  h_max :: "'h \<Rightarrow> u64"
  h_mean :: "'h \<Rightarrow> 'f"
  h_quantile :: "nat \<Rightarrow> 'h \<Rightarrow> u64"

record 'h MetricsCollector =
  mc_total_requests :: u64
  mc_successful_requests :: u64
  mc_failed_requests :: u64
  mc_latency_histogram :: 'h
  mc_errors :: "string \<rightharpoonup> u64"

definition collector_new :: "('h, 'f) histogram \<Rightarrow> 'h MetricsCollector" where
  "collector_new H =
     \<lparr>mc_total_requests = 0, mc_successful_requests = 0, mc_failed_requests = 0, mc_latency_histogram = h_new H,
      mc_errors = Map.empty\<rparr>"

text \<open>A latency is a number of microseconds, truncated to 64 bits.\<close>

definition collector_success :: "('h, 'f) histogram \<Rightarrow> nat \<Rightarrow> 'h MetricsCollector \<Rightarrow> 'h MetricsCollector" where
  "collector_success H latency s =
     s\<lparr>mc_total_requests := mc_total_requests s + 1, mc_successful_requests := mc_successful_requests s + 1,
       mc_latency_histogram := h_record H (of_nat latency) (mc_latency_histogram s)\<rparr>"

definition collector_failure :: "string \<Rightarrow> 'h MetricsCollector \<Rightarrow> 'h MetricsCollector" where
  "collector_failure e s =
     s\<lparr>mc_total_requests := mc_total_requests s + 1, mc_failed_requests := mc_failed_requests s + 1,
       mc_errors := (mc_errors s)(e \<mapsto> (case mc_errors s e of None \<Rightarrow> 0 | Some n \<Rightarrow> n) + 1)\<rparr>"

record 'f LoadTestResults =
  lr_total_requests :: u64
  lr_successful_requests :: u64
  lr_failed_requests :: u64
  lr_duration_secs :: 'f
  lr_latency_min_ms :: 'f
  lr_latency_max_ms :: 'f
  lr_latency_mean_ms :: 'f
  lr_latency_p50_ms :: 'f
  lr_latency_p95_ms :: 'f
  lr_latency_p99_ms :: 'f
  lr_latency_p999_ms :: 'f
  lr_errors :: "string \<rightharpoonup> u64"

definition to_millis :: "'f floats \<Rightarrow> u64 \<Rightarrow> 'f" where
  "to_millis F x = f_div F (f_of_u64 F x) (f_of_nat F 1000)"

definition get_results :: "'f floats \<Rightarrow> ('h, 'f) histogram \<Rightarrow> 'f \<Rightarrow> 'h MetricsCollector \<Rightarrow> 'f LoadTestResults" where
  "get_results F H elapsed s =
     (let hist = mc_latency_histogram s in
      \<lparr>lr_total_requests = mc_total_requests s, lr_successful_requests = mc_successful_requests s,
       lr_failed_requests = mc_failed_requests s, lr_duration_secs = elapsed,
       lr_latency_min_ms = to_millis F (h_min H hist), lr_latency_max_ms = to_millis F (h_max H hist),
       lr_latency_mean_ms = f_div F (h_mean H hist) (f_of_nat F 1000),
       lr_latency_p50_ms = to_millis F (h_quantile H 500 hist), lr_latency_p95_ms = to_millis F (h_quantile H 950 hist),
       lr_latency_p99_ms = to_millis F (h_quantile H 990 hist), lr_latency_p999_ms = to_millis F (h_quantile H 999 hist),
       lr_errors = mc_errors s\<rparr>)"

definition load_success_rate :: "'f floats \<Rightarrow> 'f LoadTestResults \<Rightarrow> 'f" where
  "load_success_rate F r =
     (if lr_total_requests r = 0 then f_of_nat F 0
      else f_mul F (f_div F (f_of_u64 F (lr_successful_requests r)) (f_of_u64 F (lr_total_requests r))) (f_of_nat F 100))"

definition actual_tps :: "'f floats \<Rightarrow> 'f LoadTestResults \<Rightarrow> 'f" where
  "actual_tps F r =
     (if lr_duration_secs r = f_of_nat F 0 then f_of_nat F 0
      else f_div F (f_of_u64 F (lr_total_requests r)) (lr_duration_secs r))"

section \<open>Funding of accounts\<close>

definition bridge_deposit_for :: "Address \<Rightarrow> u128 \<Rightarrow> u32 \<Rightarrow> u8 list \<Rightarrow> TxPayload" where
  "bridge_deposit_for user amount asset random_bytes =
     TxPayload_BridgeDeposit
       \<lparr>bd_user = user, bd_amount = amount, bd_asset_id = asset, bd_external_tx_hash = hash_from_bytes random_bytes\<rparr>"

text \<open>The loop over the wallets.  \<open>between i\<close> is what the server did before the \<open>i\<close>-th request, and
  \<open>net i\<close> how that request was delivered.  The state is the operator's wallet, the random source and
  the node; the results are the numbers of successes and errors.\<close>

fun initialize_loop ::
  "load_env \<Rightarrow> 'k ecdsa \<Rightarrow> 'r fastrand \<Rightarrow> (nat \<Rightarrow> node \<Rightarrow> node) \<Rightarrow> (nat \<Rightarrow> delivery) \<Rightarrow> u32 \<Rightarrow> u128 \<Rightarrow>
     nat \<Rightarrow> 'k Wallet list \<Rightarrow> 'k Wallet \<times> 'r \<times> node \<Rightarrow> (nat \<times> nat) \<times> 'k Wallet \<times> 'r \<times> node" where
  "initialize_loop L E R between net asset amount i [] s = ((0, 0), s)"
| "initialize_loop L E R between net asset amount i (w # ws) (op, r, n) =
     (case run_state (rnd_fill R 32) r of
        (random_bytes, r') \<Rightarrow>
          (case create_signed_transaction (rpc_codec (le_env L)) E
                  (bridge_deposit_for (wl_address w) amount asset random_bytes) op of
             (stx, op') \<Rightarrow>
               (case bindR (stx, between i n) (client_submit_transaction L (net i)) of
                  (result, n') \<Rightarrow>
                    (case initialize_loop L E R between net asset amount (i + 1) ws (op', r', n') of
                       ((ok, err), s) \<Rightarrow> (if is_ok result then (ok + 1, err) else (ok, err + 1), s)))))"

definition initialize_wallets ::
  "load_env \<Rightarrow> 'k ecdsa \<Rightarrow> 'r fastrand \<Rightarrow> (nat \<Rightarrow> node \<Rightarrow> node) \<Rightarrow> (nat \<Rightarrow> delivery) \<Rightarrow> u32 \<Rightarrow> u128 \<Rightarrow>
     'k Wallet list \<Rightarrow> 'k Wallet \<times> 'r \<times> node \<Rightarrow> (string + unit) \<times> 'k Wallet \<times> 'r \<times> node" where
  "initialize_wallets L E R between net asset amount ws s =
     (case initialize_loop L E R between net asset amount 0 ws s of
        ((ok, err), s') \<Rightarrow> (if ok = 0 then Inl ''Failed to initialize any wallets'' else Inr (), s'))"

text \<open>The first ten wallets, with the balance the server answers at that moment.\<close>

fun verify_loop ::
  "load_env \<Rightarrow> (nat \<Rightarrow> node \<Rightarrow> node) \<Rightarrow> (nat \<Rightarrow> delivery) \<Rightarrow> u32 \<Rightarrow> u128 \<Rightarrow> nat \<Rightarrow> 'k Wallet list \<Rightarrow> node \<Rightarrow> nat \<times> node" where
  "verify_loop L between net asset expected i [] n = (0, n)"
| "verify_loop L between net asset expected i (w # ws) n =
     (case client_get_balance L (net i) (wl_address w) asset (between i n) of
        (r, n1) \<Rightarrow>
          (case verify_loop L between net asset expected (i + 1) ws n1 of
             (verified, n2) \<Rightarrow>
               ((case r of Inr b \<Rightarrow> if b \<ge> expected then verified + 1 else verified | Inl _ \<Rightarrow> verified), n2)))"

definition verify_balances ::
  "load_env \<Rightarrow> (nat \<Rightarrow> node \<Rightarrow> node) \<Rightarrow> (nat \<Rightarrow> delivery) \<Rightarrow> u32 \<Rightarrow> u128 \<Rightarrow> 'k Wallet list \<Rightarrow> node \<Rightarrow> nat \<times> node" where
  "verify_balances L between net asset expected ws =
     verify_loop L between net asset expected 0 (take 10 ws)"

section \<open>What the generators produce\<close>

lemma pred_state_bind:
  assumes "pred_state P m" "\<And>a. P a \<Longrightarrow> pred_state Q (f a)"
  shows "pred_state Q (State_Monad.bind m f)"
proof (rule pred_stateI)
  fix b s s'
  assume b: "run_state (State_Monad.bind m f) s = (b, s')"
  obtain a s1 where a: "run_state m s = (a, s1)" by fastforce
  with b have "run_state (f a) s1 = (b, s')" by (cases m) (simp add: State_Monad.bind_def)
  with assms(2) [OF pred_stateD [OF assms(1) a]] show "Q b" by blast
qed

lemma pred_state_return: "P a \<Longrightarrow> pred_state P (State_Monad.return a)"
  by (rule pred_stateI) (simp add: State_Monad.return_def)

lemma pred_state_True: "pred_state (\<lambda>_. True) m"
  by (rule pred_stateI) simp

lemma rnd_range_ok: "fastrand_ok R \<Longrightarrow> lo < hi \<Longrightarrow> pred_state (\<lambda>x. lo \<le> x \<and> x < hi) (rnd_range R lo hi)"
  by (simp add: fastrand_ok_def)

text \<open>Which payloads a generator may produce for a market, an asset and an address.\<close>

definition in_range :: "nat \<Rightarrow> nat \<Rightarrow> 'a::len word \<Rightarrow> bool" where
  "in_range lo hi x \<longleftrightarrow> lo \<le> unat x \<and> unat x < hi"

lemma in_range_of_nat: "lo \<le> n \<Longrightarrow> n < hi \<Longrightarrow> hi \<le> 2 ^ LENGTH('a) \<Longrightarrow> in_range lo hi (of_nat n :: 'a::len word)"
  by (simp add: in_range_def unat_of_nat take_bit_nat_eq_self)

fun generated :: "u32 \<Rightarrow> u32 \<Rightarrow> Address \<Rightarrow> TxPayload \<Rightarrow> bool" where
  "generated market asset address (TxPayload_PlaceOrder x) \<longleftrightarrow>
     po_market_id x = market \<and> in_range 1000000 100000000 (po_size x) \<and> \<not> po_reduce_only x \<and>
     po_post_only x = (po_time_in_force x = PostOnly) \<and>
     (po_order_type x = OrderType_Limit \<and> in_range 45000000000 55000000000 (po_price x) \<or>
      po_order_type x = OrderType_Market \<and> po_price x = 0)"
| "generated market asset address (TxPayload_CancelOrder x) \<longleftrightarrow> in_range 1 1000000 (co_order_id x)"
| "generated market asset address (TxPayload_Deposit d) \<longleftrightarrow>
     dep_asset_id d = asset \<and> in_range 100000000 10000000000 (dep_amount d)"
| "generated market asset address (TxPayload_Withdraw w) \<longleftrightarrow>
     wd_asset_id w = asset \<and> wd_to w = address \<and> in_range 10000000 1000000000 (wd_amount w)"
| "generated market asset address (TxPayload_Transfer t) \<longleftrightarrow>
     tr_asset_id t = asset \<and> in_range 1000000 100000000 (tr_amount t)"
| "generated market asset address _ \<longleftrightarrow> False"

lemma generate_order_ok:
  assumes "fastrand_ok R"
  shows "pred_state (generated market asset address) (generate_order R market)"
  unfolding generate_order_def
  by (rule pred_state_bind [OF pred_state_True], (rule pred_state_bind [OF rnd_range_ok [OF assms]], simp)+,
      rule pred_state_return)
    (auto simp: with_params_def in_range_of_nat)

lemma generate_one_ok:
  assumes "fastrand_ok R"
  shows "pred_state (generated market asset address) (generate_cancel R)"
    and "pred_state (generated market asset address) (generate_deposit R asset)"
    and "pred_state (generated market asset address) (generate_withdraw R asset address)"
  unfolding generate_cancel_def generate_deposit_def generate_withdraw_def
  by ((rule pred_state_bind [OF rnd_range_ok [OF assms]], simp, rule pred_state_return, simp add: in_range_of_nat))+

lemma generate_transfer_ok:
  assumes "fastrand_ok R"
  shows "pred_state (generated market asset address) (generate_transfer R asset)"
  unfolding generate_transfer_def
  by (rule pred_state_bind [OF pred_state_True], rule pred_state_bind [OF rnd_range_ok [OF assms]], simp,
      rule pred_state_return, simp add: in_range_of_nat)

lemma generate_payload_ok:
  assumes "fastrand_ok R"
  shows "pred_state (generated market asset address) (generate_payload R t market asset address)"
proof -
  note one = generate_order_ok [OF assms] generate_one_ok [OF assms] generate_transfer_ok [OF assms]
  have "pred_state (generated market asset address) (generate_mixed R market asset address)"
    unfolding generate_mixed_def
    by (rule pred_state_bind [OF pred_state_True]) (simp add: one)
  then show ?thesis by (cases t) (simp_all add: one)
qed

section \<open>Wallets and the server\<close>

text \<open>What the client relies on: a signature of 64 bytes and a parity from which the server's
  recovery gets the address of the key back, for the hashes that are signed.\<close>

definition signs_as :: "tx_codec \<Rightarrow> recovery \<Rightarrow> 'k ecdsa \<Rightarrow> 'k Wallet \<Rightarrow> bool" where
  "signs_as c recover E w \<longleftrightarrow>
     (\<forall>h signature rid. sign_prehash_recoverable E (wl_signing_key w) h = Inr (signature, rid) \<longrightarrow>
        length signature = 64 \<and> recover (signature, rid \<noteq> 0) h = Inr (wl_address w))"

lemma create_signed:
  assumes "create_signed_transaction c E payload w = (Inr tx, w')"
  obtains signature rid where
    "sign_prehash_recoverable E (wl_signing_key w) (signing_hash c (new_raw (wl_nonce w) (wl_address w) payload)) =
       Inr (signature, rid)"
    "tx = with_signature (new_raw (wl_nonce w) (wl_address w) payload) (signature @ [rid])"
  using assms
  by (auto simp: create_signed_transaction_def wallet_next_nonce_def sign_transaction_def result_simps)

lemma create_signed_fields:
  assumes "create_signed_transaction c E payload w = (Inr tx, w')"
  shows "tx_nonce tx = wl_nonce w" "tx_from tx = wl_address w" "tx_payload tx = payload"
  using assms by (auto elim!: create_signed simp: with_signature_def new_raw_def)

lemma create_signed_wallet:
  "snd (create_signed_transaction c E payload w) = w\<lparr>wl_nonce := wl_nonce w + 1\<rparr>"
  by (simp add: create_signed_transaction_def wallet_next_nonce_def)

lemma create_signed_verifies:
  assumes "signs_as c recover E w" "create_signed_transaction c E payload w = (Inr tx, w')"
  shows "verify_transaction c recover tx = Inr ()"
proof -
  obtain signature rid where s:
    "sign_prehash_recoverable E (wl_signing_key w) (signing_hash c (new_raw (wl_nonce w) (wl_address w) payload)) =
       Inr (signature, rid)"
    "tx = with_signature (new_raw (wl_nonce w) (wl_address w) payload) (signature @ [rid])"
    using create_signed [OF assms(2)] by blast
  with assms(1) have r: "length signature = 64"
    "recover (signature, rid \<noteq> 0) (signing_hash c (new_raw (wl_nonce w) (wl_address w) payload)) = Inr (wl_address w)"
    by (auto simp: signs_as_def)
  have bytes: "signature_bytes tx = signature @ [rid]"
    by (simp add: s(2) signature_bytes_def with_signature_def new_raw_def)
  have hash: "signing_hash c tx = signing_hash c (new_raw (wl_nonce w) (wl_address w) payload)"
    by (simp add: s(2) signing_hash_with_signature)
  show ?thesis
    using r create_signed_fields(2) [OF assms(2)]
    by (simp add: verify_transaction_def recover_signer_def bytes hash nth_append Let_def map_err_def bindE_def)
qed

lemma trim_0x_id: "CHR ''x'' \<notin> set s \<Longrightarrow> trim_0x s = s"
  by (cases s rule: trim_0x.cases) auto

text \<open>The encoding of the client and the decoding of the server are inverse on a transaction.\<close>

definition wire_ok :: "load_env \<Rightarrow> Transaction \<Rightarrow> bool" where
  "wire_ok L tx \<longleftrightarrow>
     (let c = rpc_codec (le_env L); bytes = borsh_tx c tx in
      borsh_from_slice c bytes = Inr tx \<and> length bytes \<le> MAX_TX_SIZE \<and>
      hex_decode (le_env L) (le_hex L bytes) = Inr bytes \<and> CHR ''x'' \<notin> set (le_hex L bytes))"

lemma server_decodes:
  assumes "wire_ok L tx" "verify_transaction (rpc_codec (le_env L)) (rpc_recovery (le_env L)) tx = Inr ()"
  shows "decode_and_verify_tx (le_env L) (''0x'' @ le_hex L (borsh_tx (rpc_codec (le_env L)) tx)) = Inr tx"
proof -
  let ?b = "borsh_tx (rpc_codec (le_env L)) tx"
  have "hex_decode (le_env L) (trim_0x (''0x'' @ le_hex L ?b)) = Inr ?b"
    using assms(1) by (simp add: wire_ok_def trim_0x_id Let_def)
  moreover have "decode_tx (rpc_codec (le_env L)) ?b = Inr tx"
    using assms(1) by (simp add: wire_ok_def decode_encode Let_def)
  ultimately show ?thesis using assms(2) by (auto simp: decode_and_verify_Inr)
qed

lemma client_submit:
  assumes "wire_ok L tx" "verify_transaction (rpc_codec (le_env L)) (rpc_recovery (le_env L)) tx = Inr ()"
    and "mempool_add (rpc_codec (le_env L)) tx (nd_mempool n) = (r, m)"
  shows "client_submit_transaction L Delivered tx n =
    (case r of Inr _ \<Rightarrow> (Inr (tx_hash (rpc_codec (le_env L)) tx), n\<lparr>nd_mempool := m\<rparr>)
     | Inl _ \<Rightarrow> (Inl (le_status_error L 400 (le_base_url L @ ''/tx/submit'')), n))"
proof (cases r)
  case (Inl e)
  with mempool_add_error [of "rpc_codec (le_env L)" tx "nd_mempool n" e m] assms(3) have "m = nd_mempool n" by simp
  with Inl assms(3) server_decodes [OF assms(1,2)] show ?thesis
    by (simp add: client_submit_transaction_def post_json_def http_exchange_def create_router_def routes_def
        json_change_def SubmitTxRequest_def no_fields_def submit_transaction_def answer_def Let_def)
next
  case (Inr h)
  with assms(3) server_decodes [OF assms(1,2)] show ?thesis
    by (simp add: client_submit_transaction_def post_json_def http_exchange_def create_router_def routes_def
        json_change_def SubmitTxRequest_def no_fields_def submit_transaction_def answer_def ok_or_def Let_def)
qed

section \<open>Collected results\<close>

definition collect :: "('h, 'f) histogram \<Rightarrow> 'h MetricsCollector \<Rightarrow> string + nat \<Rightarrow> 'h MetricsCollector" where
  "collect H s r = (case r of Inr latency \<Rightarrow> collector_success H latency s | Inl e \<Rightarrow> collector_failure e s)"

definition error_count :: "'h MetricsCollector \<Rightarrow> string \<Rightarrow> nat" where
  "error_count s e = (case mc_errors s e of None \<Rightarrow> 0 | Some n \<Rightarrow> unat n)"

abbreviation failures :: "(string + 'a) list \<Rightarrow> string list" where
  "failures rs \<equiv> List.map_filter (\<lambda>r. case r of Inl e \<Rightarrow> Some e | Inr _ \<Rightarrow> None) rs"

lemma failures_snoc: "failures (rs @ [Inl e]) = failures rs @ [e]" "failures (rs @ [Inr a]) = failures rs"
  by (simp_all add: List.map_filter_def)

lemma unat_Suc_u64: "unat x + 1 < 2 ^ 64 \<Longrightarrow> unat (x + 1) = unat x + 1" for x :: u64
  by (simp add: unat_word_ariths)

lemma count_list_le: "count_list xs x \<le> length xs"
  by (induction xs) auto

lemma failures_le: "length (failures rs) \<le> length rs"
  by (simp add: List.map_filter_def)

text \<open>As long as fewer than \<open>2\<^sup>6\<^sup>4\<close> requests were recorded, the counters are the numbers of requests,
  of successes and of failures, and each error is counted as often as it occurred.\<close>

lemma collect_counts:
  assumes "length rs < 2 ^ 64"
  shows "let s = foldl (collect H) (collector_new H) rs in
    unat (mc_total_requests s) = length rs \<and>
    unat (mc_successful_requests s) + length (failures rs) = length rs \<and>
    unat (mc_failed_requests s) = length (failures rs) \<and>
    (\<forall>e. error_count s e = count_list (failures rs) e)"
  using assms
proof (induction rs rule: rev_induct)
  case Nil
  then show ?case by (simp add: collector_new_def error_count_def List.map_filter_def)
next
  case (snoc r rs)
  define s where "s = foldl (collect H) (collector_new H) rs"
  have len: "length rs + 1 < 2 ^ 64" using snoc.prems by simp
  have s: "unat (mc_total_requests s) = length rs" "unat (mc_successful_requests s) + length (failures rs) = length rs"
    "unat (mc_failed_requests s) = length (failures rs)" "error_count s e = count_list (failures rs) e" for e
    using snoc by (simp_all add: s_def Let_def)
  have up: "unat (mc_total_requests s + 1) = length rs + 1" "unat (mc_successful_requests s + 1) = unat (mc_successful_requests s) + 1"
    "unat (mc_failed_requests s + 1) = length (failures rs) + 1"
    using unat_Suc_u64 [of "mc_total_requests s"] unat_Suc_u64 [of "mc_successful_requests s"]
      unat_Suc_u64 [of "mc_failed_requests s"] s(1-3) len by linarith+
  have fold: "foldl (collect H) (collector_new H) (rs @ [r]) = collect H s r" by (simp add: s_def)
  show ?case
  proof (cases r)
    case (Inr latency)
    have "error_count (collector_success H latency s) = error_count s"
      by (simp add: error_count_def collector_success_def fun_eq_iff)
    then show ?thesis
      unfolding fold Let_def using up s Inr by (simp add: collect_def collector_success_def failures_snoc)
  next
    case (Inl e)
    have "error_count s e + 1 < 2 ^ 64"
      using s(4) [of e] count_list_le [of "failures rs" e] failures_le [of rs] len by linarith
    then have "error_count (collector_failure e s) e = error_count s e + 1"
      using unat_Suc_u64 [of "case mc_errors s e of None \<Rightarrow> 0 | Some n \<Rightarrow> n"]
      by (auto simp: error_count_def collector_failure_def split: option.splits)
    moreover have "e' \<noteq> e \<Longrightarrow> error_count (collector_failure e s) e' = error_count s e'" for e'
      by (simp add: error_count_def collector_failure_def)
    moreover have "mc_total_requests (collector_failure e s) = mc_total_requests s + 1"
      "mc_successful_requests (collector_failure e s) = mc_successful_requests s"
      "mc_failed_requests (collector_failure e s) = mc_failed_requests s + 1"
      by (simp_all add: collector_failure_def)
    ultimately show ?thesis
      unfolding fold Let_def using up s Inl by (auto simp: collect_def failures_snoc)
  qed
qed

section \<open>What funding reports\<close>

definition no_blocks :: "(nat \<Rightarrow> node \<Rightarrow> node) \<Rightarrow> bool" where
  "no_blocks between \<longleftrightarrow> (\<forall>i n. nd_engine (between i n) = nd_engine n)"

lemma http_exchange_engine: "nd_engine (snd (http_exchange L d m p b n)) = nd_engine n"
proof -
  obtain st y n' where r: "create_router (le_env L) [] m p b n = ((st, y), n')" by (metis surj_pair)
  with router_effect [OF r] have "nd_engine n' = nd_engine n" by auto
  with r show ?thesis by (auto simp: http_exchange_def split: delivery.splits)
qed

lemma post_json_engine: "nd_engine (snd (post_json L d p b f n)) = nd_engine n"
  using http_exchange_engine [of L d POST p "Some b" n]
  by (auto simp: post_json_def bindR_def split: prod.splits sum.splits)

lemma client_submit_engine: "client_submit_transaction L d tx n = (q, n') \<Longrightarrow> nd_engine n' = nd_engine n"
  unfolding client_submit_transaction_def by (metis post_json_engine snd_conv)

lemma initialize_loop_effect:
  assumes "initialize_loop L E R between net asset amount i ws (op, r, n) = ((ok, err), op', r', n')"
  shows "ok + err = length ws" and "wl_nonce op' = wl_nonce op + of_nat (length ws)"
    and "no_blocks between \<Longrightarrow> nd_engine n' = nd_engine n"
proof -
  have "ok + err = length ws \<and> wl_nonce op' = wl_nonce op + of_nat (length ws) \<and>
      (no_blocks between \<longrightarrow> nd_engine n' = nd_engine n)"
    using assms
  proof (induction ws arbitrary: i op r n ok err op' r' n')
    case (Cons w ws)
    obtain bs r1 where r1: "run_state (rnd_fill R 32) r = (bs, r1)" by fastforce
    obtain stx op1 where c: "create_signed_transaction (rpc_codec (le_env L)) E
        (bridge_deposit_for (wl_address w) amount asset bs) op = (stx, op1)" by fastforce
    obtain q n1 where q: "bindR (stx, between i n) (client_submit_transaction L (net i)) = (q, n1)" by fastforce
    obtain ok1 err1 op2 r2 n2 where
      l: "initialize_loop L E R between net asset amount (i + 1) ws (op1, r1, n1) = ((ok1, err1), op2, r2, n2)"
      by (metis surj_pair)
    have eq: "ok + err = ok1 + err1 + 1" "op' = op2" "n' = n2"
      using Cons.prems r1 c q l by (auto split: if_splits)
    have "wl_nonce op1 = wl_nonce op + 1" using create_signed_wallet c by (metis snd_conv Wallet.select_convs(3) Wallet.surjective Wallet.update_convs(3))
    moreover have "no_blocks between \<Longrightarrow> nd_engine n1 = nd_engine n"
      using q by (cases stx) (auto simp: no_blocks_def dest: client_submit_engine)
    ultimately show ?case using Cons.IH [OF l] eq by simp
  qed auto
  then show "ok + err = length ws" "wl_nonce op' = wl_nonce op + of_nat (length ws)"
    "no_blocks between \<Longrightarrow> nd_engine n' = nd_engine n"
    by simp_all
qed

lemma client_get_balance_eval:
  "client_get_balance L Delivered a i n =
     (case get_balance (eng_state (nd_engine n)) a i of
        Inr b \<Rightarrow> (Inr b, n)
      | Inl _ \<Rightarrow> (Inl (le_status_error L 500 (le_base_url L @ ''/account/balance'')), n))"
  by (simp add: client_get_balance_def post_json_def http_exchange_def create_router_def routes_def json_query_def
      json_change_def GetBalanceRequest_def both_def no_fields_def rpc_get_balance_def into_rpc_error_def map_err_def
      answer_def ok_or_def split: sum.split)

definition has_balance :: "u32 \<Rightarrow> u128 \<Rightarrow> node \<Rightarrow> 'k Wallet \<Rightarrow> bool" where
  "has_balance asset expected n w =
     (case get_balance (eng_state (nd_engine n)) (wl_address w) asset of Inr b \<Rightarrow> b \<ge> expected | Inl _ \<Rightarrow> False)"

lemma verify_loop_exact:
  assumes "no_blocks between" "nd_engine n = nd_engine n0"
  shows "fst (verify_loop L between (\<lambda>_. Delivered) asset expected i ws n) = length (filter (has_balance asset expected n0) ws)"
  using assms(2)
proof (induction ws arbitrary: i n)
  case (Cons w ws)
  have e: "nd_engine (between i n) = nd_engine n0" using assms(1) Cons.prems by (simp add: no_blocks_def)
  have "snd (client_get_balance L Delivered (wl_address w) asset (between i n)) = between i n"
    by (simp add: client_get_balance_eval split: sum.split)
  with Cons.IH [OF e, of "i + 1"] e show ?case
    by (auto simp: client_get_balance_eval has_balance_def split: sum.splits prod.splits)
qed simp

text \<open>Funding counts submissions, not deposits: every wallet counts as a success or an error, one
  nonce of the operator is used up for each, and as long as the server executes no block the
  check afterwards finds exactly the balances of before, whatever was reported.\<close>

lemma funding_reports_submissions:
  assumes "initialize_loop L E R between net asset amount 0 ws (op, r, n) = ((ok, err), op', r', n')"
    and "no_blocks between" "no_blocks between'"
  shows "ok + err = length ws \<and> wl_nonce op' = wl_nonce op + of_nat (length ws) \<and>
    fst (verify_balances L between' (\<lambda>_. Delivered) asset amount ws n') =
      length (filter (has_balance asset amount n) (take 10 ws))"
  unfolding verify_balances_def
  using initialize_loop_effect [OF assms(1)] verify_loop_exact [OF assms(3), of n' n] assms(2) by simp

section \<open>Properties\<close>

text \<open>C32: What a wallet of the load-test client signs, the node takes: if the key of the wallet signs
  for its address and the encodings of client and server are inverse on the transaction, the RPC
  server admits it whenever the pool has room for it and its sender, and then reports it as
  pending under the hash it answers.  The transaction carries the wallet's next nonce, which is used
  up whatever becomes of the request.\<close>

theorem wallet_tx_admitted:
  assumes "signs_as (rpc_codec (le_env L)) (rpc_recovery (le_env L)) E w"
    and "create_signed_transaction (rpc_codec (le_env L)) E payload w = (Inr tx, w')"
    and "wire_ok L tx"
    and "\<not> is_full (nd_mempool n)" "\<not> index_contains (mp_index (nd_mempool n)) (tx_hash (rpc_codec (le_env L)) tx)"
    and "index_sender_tx_count (mp_index (nd_mempool n)) (wl_address w) < max_txs_per_sender (mp_config (nd_mempool n))"
  shows "tx_nonce tx = wl_nonce w \<and> wl_nonce w' = wl_nonce w + 1 \<and>
    (\<exists>n'. client_submit_transaction L Delivered tx n = (Inr (tx_hash (rpc_codec (le_env L)) tx), n') \<and>
       index_get (mp_index (nd_mempool n')) (tx_hash (rpc_codec (le_env L)) tx) = Some tx \<and>
       client_get_transaction_status L Delivered (tx_hash (rpc_codec (le_env L)) tx) n' =
         (Inr (tx_pending (tx_hash (rpc_codec (le_env L)) tx)), n'))"
proof -
  let ?c = "rpc_codec (le_env L)"
  have tx: "tx_nonce tx = wl_nonce w" "tx_from tx = wl_address w" "wl_nonce w' = wl_nonce w + 1"
    using create_signed_fields [OF assms(2)] create_signed_wallet [of ?c E payload w] assms(2) by simp_all
  define n' where "n' = n\<lparr>nd_mempool := nd_mempool n\<lparr>mp_index := snd (index_insert ?c tx (mp_index (nd_mempool n)))\<rparr>\<rparr>"
  have "mempool_add ?c tx (nd_mempool n) =
      (Inr (tx_hash ?c tx), nd_mempool n\<lparr>mp_index := snd (index_insert ?c tx (mp_index (nd_mempool n)))\<rparr>)"
    using assms(4-6) tx(2)
    by (simp add: mempool_add_def validate_capacity_def validate_not_duplicate_def validate_sender_rate_limit_def Let_def)
  from client_submit [OF assms(3) create_signed_verifies [OF assms(1,2)] this]
  have "client_submit_transaction L Delivered tx n = (Inr (tx_hash ?c tx), n')" by (simp add: n'_def)
  moreover have get: "index_get (mp_index (nd_mempool n')) (tx_hash ?c tx) = Some tx"
    by (simp add: n'_def index_get_def index_insert_def Let_def)
  moreover have "client_get_transaction_status L Delivered (tx_hash ?c tx) n' = (Inr (tx_pending (tx_hash ?c tx)), n')"
    by (simp add: client_get_transaction_status_def post_json_def http_exchange_def create_router_def routes_def
        json_query_def json_change_def GetTxStatusRequest_def no_fields_def get_transaction_status_def get answer_def ok_or_def)
  ultimately show ?thesis using tx by blast
qed

text \<open>A wallet whose signatures the sample recovery accepts, and a wire format for its deposits.\<close>

definition sample_ecdsa :: "unit ecdsa" where
  "sample_ecdsa = \<lparr>key_from_bytes = (\<lambda>_. Some ()), encoded_point = (\<lambda>_. replicate 8 0),
     sign_prehash_recoverable = (\<lambda>_ _. Inr (replicate 64 0, 0))\<rparr>"

definition sample_wallet :: "unit Wallet" where
  "sample_wallet = \<lparr>wl_signing_key = (), wl_address = 7, wl_nonce = 0\<rparr>"

definition sample_load :: load_env where
  "sample_load = \<lparr>le_env = sample_env, le_hex = (\<lambda>b. replicate (unat (hd b)) (CHR ''0'')), le_base_url = [],
     le_status_error = (\<lambda>_ _. [])\<rparr>"

abbreviation sample_payload :: TxPayload where
  "sample_payload \<equiv> TxPayload_Deposit \<lparr>dep_amount = 5, dep_asset_id = 0\<rparr>"

lemma zero_signature: "replicate 64 (0::u8) @ [0] = replicate 65 0"
  using replicate_add [of 64 1 "0::u8"] by simp

lemma sample_signed:
  "create_signed_transaction c sample_ecdsa sample_payload sample_wallet =
     (Inr (sample_deposit 0 5), sample_wallet\<lparr>wl_nonce := 1\<rparr>)"
  by (simp add: create_signed_transaction_def wallet_next_nonce_def sign_transaction_def sample_ecdsa_def sample_wallet_def
      with_signature_def new_raw_def sample_deposit_def zero_signature)

lemma sample_wire: "wire_ok sample_load (sample_deposit 0 5)"
  by (simp add: wire_ok_def sample_load_def sample_env_def exec_codec_def sample_codec_def MAX_TX_SIZE_def
      sample_deposit_def new_raw_def)

theorem wallet_tx_admitted_witness:
  "\<exists>n'. client_submit_transaction sample_load Delivered (sample_deposit 0 5) exec_node = (Inr 5, n') \<and>
     client_get_transaction_status sample_load Delivered 5 n' = (Inr (tx_pending 5), n')"
proof -
  let ?c = "rpc_codec (le_env sample_load)"
  have hash: "tx_hash ?c (sample_deposit 0 5) = 5"
    by (simp add: tx_hash_def sample_load_def sample_env_def exec_codec_def sample_codec_def sample_deposit_def new_raw_def)
  have "signs_as ?c (rpc_recovery (le_env sample_load)) sample_ecdsa sample_wallet"
    by (simp add: signs_as_def sample_ecdsa_def sample_wallet_def sample_load_def sample_env_def exec_recovery_def)
  moreover have "\<not> is_full (nd_mempool exec_node)" "index_sender_tx_count (mp_index (nd_mempool exec_node)) 7 <
      max_txs_per_sender (mp_config (nd_mempool exec_node))"
    "\<not> index_contains (mp_index (nd_mempool exec_node)) 5"
    by (simp_all add: exec_node_def new_node_def mempool_new_def config_default_def config_new_def index_new_def is_full_def
        index_len_def index_sender_tx_count_def index_contains_def)
  ultimately show ?thesis
    using wallet_tx_admitted [of sample_load sample_ecdsa sample_wallet sample_payload "sample_deposit 0 5" _ exec_node,
        OF _ sample_signed sample_wire] hash
    by (auto simp: sample_wallet_def)
qed

end
