(* ===== verification/Load_Runner.thy ===== *)
theory Load_Runner
  imports Load_Client "HOL-Library.Sublist"
begin

text \<open>
  \<open>crates/loadtest/src/runner.rs\<close> and \<open>scenarios.rs\<close>: the workers of a load test and how they are
  spawned and awaited.

  A worker is a state machine: it draws a payload and signs it, submits it, and records the answer.
  Workers share the wallets, the collector of results and the server, and interleave between any
  two of these steps; blocks, other clients and time pass in between.  The pauses of the workers
  are not enforced, so the interleavings of the code are among those of the model.  Random numbers
  come from generators of the threads, so that each draw starts from some state of a generator.
  Times are natural numbers of microseconds.  A scenario is a list of groups of workers: the workers
  of a group run at once, and a group is spawned when all workers of the one before have ended.

  The three lists at the end of the state are kept for the statements only: the nonces that were
  drawn with their wallets, the transactions that were signed, and the outcomes recorded.

  Proved: no two transactions of a run share sender and nonce; the collector counts every request
  once; in the aggressive scenario only one worker takes; orders of the matching scenario never
  match each other.
\<close>

section \<open>Workers\<close>

datatype worker_kind =
    Load_Worker nat
  | Burst_Sender nat
  | Spam_Worker
  | Trader bool nat
  | Depth_Builder nat
  | Market_Taker nat

text \<open>\<open>Sending\<close> holds whether this is the cancellation of the spam scenario, the wallet, the
  transaction and the time at which the attempt began.\<close>

datatype worker_pc =
    Ready
  | Sending bool nat Transaction nat
  | Answered bool nat nat "string + B256"
  | Cancelling nat u64
  | Finished

record worker =
  wk_kind :: worker_kind
  wk_pc :: worker_pc
  wk_spawned :: nat

record ('k, 'r, 'h, 'f) load_run =
  lx_env :: load_env
  lx_ecdsa :: "'k ecdsa"
  lx_rand :: "'r fastrand"
  lx_hist :: "('h, 'f) histogram"
  lx_config :: LoadTestConfig
  lx_start :: nat

abbreviation lx_codec :: "('k, 'r, 'h, 'f) load_run \<Rightarrow> tx_codec" where
  "lx_codec X \<equiv> rpc_codec (le_env (lx_env X))"

definition secs :: "u64 \<Rightarrow> nat" where
  "secs n = unat n * 1000000"

definition base_price :: u64 where "base_price = 50000000000"
definition price_spread :: nat where "price_spread = 100000000"
definition build_duration :: nat where "build_duration = 10000000"

definition time_is_up :: "('k, 'r, 'h, 'f) load_run \<Rightarrow> nat \<Rightarrow> bool" where
  "time_is_up X now \<longleftrightarrow> now - lx_start X \<ge> secs (lc_duration_secs (lx_config X))"

text \<open>The condition of the loop of a worker; the senders of a burst have no loop.\<close>

definition keeps_going :: "('k, 'r, 'h, 'f) load_run \<Rightarrow> nat \<Rightarrow> worker \<Rightarrow> bool" where
  "keeps_going X now w =
     (case wk_kind w of
        Burst_Sender _ \<Rightarrow> True
      | Depth_Builder _ \<Rightarrow> now - wk_spawned w < build_duration \<and> \<not> time_is_up X now
      | _ \<Rightarrow> \<not> time_is_up X now)"

definition trader_payload :: "'r fastrand \<Rightarrow> u32 \<Rightarrow> bool \<Rightarrow> ('r, TxPayload) state" where
  "trader_payload R market is_buyer = do {
     off \<leftarrow> rnd_range R 0 price_spread;
     sz \<leftarrow> rnd_range R 1000000 10000000;
     State_Monad.return (with_params market is_buyer OrderType_Limit
       (if is_buyer then base_price + of_nat off else base_price - of_nat off) (of_nat sz) IOC)
   }"

definition depth_payload :: "'r fastrand \<Rightarrow> u32 \<Rightarrow> bool \<Rightarrow> ('r, TxPayload) state" where
  "depth_payload R market is_buyer = do {
     off \<leftarrow> rnd_range R 0 1000000000;
     sz \<leftarrow> rnd_range R 5000000 50000000;
     State_Monad.return (with_params market is_buyer OrderType_Limit
       (if is_buyer then base_price - of_nat off else base_price + of_nat off) (of_nat sz) PostOnly)
   }"

definition taker_payload :: "'r fastrand \<Rightarrow> u32 \<Rightarrow> ('r, TxPayload) state" where
  "taker_payload R market = do {
     is_buy \<leftarrow> rnd_bool R;
     sz \<leftarrow> rnd_range R 1000000 20000000;
     State_Monad.return (with_params market is_buy OrderType_Market 0 (of_nat sz) IOC)
   }"

text \<open>What a worker sends next: the wallet and the payload.\<close>

fun worker_job :: "'r fastrand \<Rightarrow> LoadTestConfig \<Rightarrow> 'k Wallet list \<Rightarrow> worker_kind \<Rightarrow> ('r, nat \<times> TxPayload) state" where
  "worker_job R cfg ws (Load_Worker i) = do {
     p \<leftarrow> generate_payload R (lc_tx_type cfg) (lc_market_id cfg) (lc_asset_id cfg) (wl_address (ws ! (i mod length ws)));
     State_Monad.return (i mod length ws, p)
   }"
| "worker_job R cfg ws (Burst_Sender i) = do {
     p \<leftarrow> generate_payload R (lc_tx_type cfg) (lc_market_id cfg) (lc_asset_id cfg) (wl_address (ws ! (i mod length ws)));
     State_Monad.return (i mod length ws, p)
   }"
| "worker_job R cfg ws Spam_Worker = do {
     j \<leftarrow> rnd_range R 0 (length ws);
     p \<leftarrow> generate_order R (lc_market_id cfg);
     State_Monad.return (j, p)
   }"
| "worker_job R cfg ws (Trader is_buyer i) = do {
     p \<leftarrow> trader_payload R (lc_market_id cfg) is_buyer;
     State_Monad.return (i mod length ws, p)
   }"
| "worker_job R cfg ws (Depth_Builder i) = do {
     p \<leftarrow> depth_payload R (lc_market_id cfg) (even i);
     State_Monad.return (i mod length ws, p)
   }"
| "worker_job R cfg ws (Market_Taker i) = do {
     p \<leftarrow> taker_payload R (lc_market_id cfg);
     State_Monad.return (i mod length ws, p)
   }"

text \<open>The text recorded for a transaction that could not be signed, and for one that was refused.\<close>

fun creation_error :: "worker_kind \<Rightarrow> string \<Rightarrow> string" where
  "creation_error (Load_Worker _) e = e"
| "creation_error (Burst_Sender _) e = e"
| "creation_error _ e = ''TX creation: '' @ e"

definition submission_error :: "worker_kind \<Rightarrow> bool \<Rightarrow> string \<Rightarrow> string" where
  "submission_error k cancel e = (if k = Spam_Worker \<and> \<not> cancel then ''Place order failed: '' @ e else e)"

text \<open>A task that panics ends; the panic is dropped when its handle is awaited.  The tasks of a
  scenario panic without wallets, those of a ramp when the rate is zero after the ramp.\<close>

definition task_panics :: "('k, 'r, 'h, 'f) load_run \<Rightarrow> nat \<Rightarrow> 'k Wallet list \<Rightarrow> worker_kind \<Rightarrow> bool" where
  "task_panics X now ws k \<longleftrightarrow>
     ws = [] \<or>
     (case k of
        Load_Worker _ \<Rightarrow>
          lc_mode (lx_config X) = Ramp \<and> lc_target_tps (lx_config X) = 0 \<and> lc_num_workers (lx_config X) > 0 \<and>
          now - lx_start X \<ge> secs (lc_ramp_up_secs (lx_config X))
      | _ \<Rightarrow> False)"

section \<open>Scenarios\<close>

text \<open>The groups of workers of each mode and scenario; \<open>None\<close> is a panic of the runner itself, which
  computes the pause from the rate and picks the wallet of each worker before it spawns it.\<close>

definition load_workers :: "LoadTestConfig \<Rightarrow> nat \<Rightarrow> worker_kind list list option" where
  "load_workers cfg num_wallets =
     (if lc_num_workers cfg > 0 \<and> num_wallets = 0 then None else Some [map Load_Worker [0..<lc_num_workers cfg]])"

definition sustained_plan :: "LoadTestConfig \<Rightarrow> nat \<Rightarrow> worker_kind list list option" where
  "sustained_plan cfg num_wallets = (if lc_target_tps cfg = 0 then None else load_workers cfg num_wallets)"

definition ramp_plan :: "LoadTestConfig \<Rightarrow> nat \<Rightarrow> worker_kind list list option" where
  "ramp_plan = load_workers"

definition stress_plan :: "LoadTestConfig \<Rightarrow> nat \<Rightarrow> worker_kind list list option" where
  "stress_plan = load_workers"

definition spam_plan :: "nat \<Rightarrow> worker_kind list list" where
  "spam_plan n = [replicate n Spam_Worker]"

definition matching_plan :: "nat \<Rightarrow> worker_kind list list" where
  "matching_plan n =
     (let num_buyers = n div 2; num_sellers = n - n div 2 in
      [map (Trader True) [0..<num_buyers] @ map (\<lambda>i. Trader False (num_buyers + i)) [0..<num_sellers]])"

text \<open>The handles of the aggressive scenario are not collected: each is awaited before the iterator
  spawns the next, so that every worker is a group of its own.\<close>

definition aggressive_plan :: "nat \<Rightarrow> worker_kind list list" where
  "aggressive_plan n = map (\<lambda>i. [Depth_Builder i]) [0..<n div 2] @ map (\<lambda>i. [Market_Taker i]) [0..<n]"

definition test_plan :: "LoadTestConfig \<Rightarrow> nat \<Rightarrow> worker_kind list list option" where
  "test_plan cfg num_wallets =
     (case lc_scenario cfg of
        Standard \<Rightarrow>
          (case lc_mode cfg of
             Sustained \<Rightarrow> sustained_plan cfg num_wallets
           | Ramp \<Rightarrow> ramp_plan cfg num_wallets
           | Burst \<Rightarrow> Some []
           | Stress \<Rightarrow> stress_plan cfg num_wallets)
      | OrderSpam \<Rightarrow> Some (spam_plan (lc_num_workers cfg))
      | OrderMatching \<Rightarrow> Some (matching_plan (lc_num_workers cfg))
      | Aggressive \<Rightarrow> Some (aggressive_plan (lc_num_workers cfg)))"

text \<open>One round of the loop of a burst test: whether it is in a burst, and the time of the next
  change.  \<open>None\<close> is the panic of a negative duration.\<close>

definition burst_tick :: "nat \<Rightarrow> nat \<Rightarrow> nat \<Rightarrow> bool \<times> nat \<Rightarrow> (bool \<times> nat) option" where
  "burst_tick duration interval now = (\<lambda>(in_burst, next_burst).
     if now \<ge> next_burst then
       (if \<not> in_burst then Some (True, now + duration)
        else if duration \<le> interval then Some (False, now + (interval - duration))
        else None)
     else Some (in_burst, next_burst))"

definition is_burst_test :: "LoadTestConfig \<Rightarrow> bool" where
  "is_burst_test cfg \<longleftrightarrow> lc_scenario cfg = Standard \<and> lc_mode cfg = Burst"

section \<open>Runs\<close>

record ('k, 'h) load =
  ld_now :: nat
  ld_node :: node
  ld_wallets :: "'k Wallet list"
  ld_metrics :: "'h MetricsCollector"
  ld_workers :: "worker list"
  ld_plan :: "worker_kind list list"
  ld_burst :: "(bool \<times> nat) option"
  ld_nonces :: "(nat \<times> u64) list"
  ld_signed :: "(worker_kind \<times> nat \<times> Transaction) list"
  ld_outcomes :: "(string + nat) list"

definition load_start :: "('k, 'r, 'h, 'f) load_run \<Rightarrow> 'k Wallet list \<Rightarrow> node \<Rightarrow> ('k, 'h) load option" where
  "load_start X ws n =
     map_option (\<lambda>plan.
       \<lparr>ld_now = lx_start X, ld_node = n, ld_wallets = ws, ld_metrics = collector_new (lx_hist X), ld_workers = [],
        ld_plan = plan, ld_burst = (if is_burst_test (lx_config X) then Some (False, lx_start X) else None),
        ld_nonces = [], ld_signed = [], ld_outcomes = []\<rparr>)
       (test_plan (lx_config X) (length ws))"

definition set_pc :: "nat \<Rightarrow> worker_pc \<Rightarrow> ('k, 'h) load \<Rightarrow> ('k, 'h) load" where
  "set_pc i pc s = s\<lparr>ld_workers := (ld_workers s)[i := (ld_workers s ! i)\<lparr>wk_pc := pc\<rparr>]\<rparr>"

definition spawn :: "worker_kind list \<Rightarrow> ('k, 'h) load \<Rightarrow> ('k, 'h) load" where
  "spawn ks s = s\<lparr>ld_workers := map (\<lambda>k. \<lparr>wk_kind = k, wk_pc = Ready, wk_spawned = ld_now s\<rparr>) ks\<rparr>"

text \<open>Drawing a nonce and signing; a failure to sign is the answer.\<close>

definition sign_with ::
  "('k, 'r, 'h, 'f) load_run \<Rightarrow> nat \<Rightarrow> bool \<Rightarrow> nat \<Rightarrow> TxPayload \<Rightarrow> ('k, 'h) load \<Rightarrow> ('k, 'h) load" where
  "sign_with X i cancel j payload s =
     (case create_signed_transaction (lx_codec X) (lx_ecdsa X) payload (ld_wallets s ! j) of
        (r, w) \<Rightarrow>
          let k = wk_kind (ld_workers s ! i);
              s1 = s\<lparr>ld_wallets := (ld_wallets s)[j := w], ld_nonces := ld_nonces s @ [(j, wl_nonce (ld_wallets s ! j))]\<rparr> in
          case r of
            Inr tx \<Rightarrow> set_pc i (Sending cancel j tx (ld_now s)) (s1\<lparr>ld_signed := ld_signed s1 @ [(k, j, tx)]\<rparr>)
          | Inl e \<Rightarrow> set_pc i (Answered cancel j (ld_now s) (Inl (creation_error k e))) s1)"

definition submit_with ::
  "('k, 'r, 'h, 'f) load_run \<Rightarrow> nat \<Rightarrow> delivery \<Rightarrow> bool \<Rightarrow> nat \<Rightarrow> Transaction \<Rightarrow> nat \<Rightarrow> ('k, 'h) load \<Rightarrow> ('k, 'h) load" where
  "submit_with X i d cancel j tx t0 s =
     (case client_submit_transaction (lx_env X) d tx (ld_node s) of
        (r, n) \<Rightarrow>
          set_pc i (Answered cancel j t0 (map_err (submission_error (wk_kind (ld_workers s ! i)) cancel) r)) (s\<lparr>ld_node := n\<rparr>))"

text \<open>Recording an answer with its latency; an order of the spam scenario that was accepted is
  followed by the cancellation of a random order.\<close>

definition after_answer :: "worker_kind \<Rightarrow> bool \<Rightarrow> nat \<Rightarrow> string + B256 \<Rightarrow> u64 \<Rightarrow> worker_pc" where
  "after_answer k cancel j r order_id =
     (case k of
        Burst_Sender _ \<Rightarrow> Finished
      | Spam_Worker \<Rightarrow> if \<not> cancel \<and> is_ok r then Cancelling j order_id else Ready
      | _ \<Rightarrow> Ready)"

definition record_with ::
  "('k, 'r, 'h, 'f) load_run \<Rightarrow> nat \<Rightarrow> bool \<Rightarrow> nat \<Rightarrow> string + B256 \<Rightarrow> nat \<Rightarrow> u64 \<Rightarrow> ('k, 'h) load \<Rightarrow> ('k, 'h) load" where
  "record_with X i cancel j r latency order_id s =
     (let outcome = (case r of Inr _ \<Rightarrow> Inr latency | Inl e \<Rightarrow> Inl e) in
      set_pc i (after_answer (wk_kind (ld_workers s ! i)) cancel j r order_id)
        (s\<lparr>ld_metrics := collect (lx_hist X) (ld_metrics s) outcome, ld_outcomes := ld_outcomes s @ [outcome]\<rparr>))"

abbreviation all_finished :: "('k, 'h) load \<Rightarrow> bool" where
  "all_finished s \<equiv> list_all (\<lambda>w. wk_pc w = Finished) (ld_workers s)"

inductive load_step :: "('k, 'r, 'h, 'f) load_run \<Rightarrow> ('k, 'h) load \<Rightarrow> ('k, 'h) load \<Rightarrow> bool" for X where
  load_tick: "ld_now s \<le> t \<Longrightarrow> load_step X s (s\<lparr>ld_now := t\<rparr>)"
| load_serve: "node_step (le_env (lx_env X)) (ld_node s) n \<Longrightarrow> load_step X s (s\<lparr>ld_node := n\<rparr>)"
| load_stop:
    "\<lbrakk>i < length (ld_workers s); wk_pc (ld_workers s ! i) = Ready; \<not> keeps_going X (ld_now s) (ld_workers s ! i)\<rbrakk> \<Longrightarrow>
     load_step X s (set_pc i Finished s)"
| load_panic:
    "\<lbrakk>i < length (ld_workers s); wk_pc (ld_workers s ! i) = Ready; keeps_going X (ld_now s) (ld_workers s ! i);
      task_panics X (ld_now s) (ld_wallets s) (wk_kind (ld_workers s ! i))\<rbrakk> \<Longrightarrow>
     load_step X s (set_pc i Finished s)"
| load_create:
    "\<lbrakk>i < length (ld_workers s); wk_pc (ld_workers s ! i) = Ready; keeps_going X (ld_now s) (ld_workers s ! i);
      \<not> task_panics X (ld_now s) (ld_wallets s) (wk_kind (ld_workers s ! i));
      run_state (worker_job (lx_rand X) (lx_config X) (ld_wallets s) (wk_kind (ld_workers s ! i))) r = ((j, payload), r')\<rbrakk> \<Longrightarrow>
     load_step X s (sign_with X i False j payload s)"
| load_cancel:
    "\<lbrakk>i < length (ld_workers s); wk_pc (ld_workers s ! i) = Cancelling j order_id\<rbrakk> \<Longrightarrow>
     load_step X s (sign_with X i True j (TxPayload_CancelOrder \<lparr>co_order_id = order_id\<rparr>) s)"
| load_submit:
    "\<lbrakk>i < length (ld_workers s); wk_pc (ld_workers s ! i) = Sending cancel j tx t0\<rbrakk> \<Longrightarrow>
     load_step X s (submit_with X i d cancel j tx t0 s)"
| load_record:
    "\<lbrakk>i < length (ld_workers s); wk_pc (ld_workers s ! i) = Answered cancel j t0 r; latency \<le> ld_now s - t0;
      run_state (rnd_range (lx_rand X) 1 1000000) q = (order_id, q')\<rbrakk> \<Longrightarrow>
     load_step X s (record_with X i cancel j r latency (of_nat order_id) s)"
| load_next: "\<lbrakk>all_finished s; ld_plan s = ks # plan\<rbrakk> \<Longrightarrow> load_step X s (spawn ks (s\<lparr>ld_plan := plan\<rparr>))"
| load_burst:
    "\<lbrakk>all_finished s; ld_burst s = Some b; \<not> time_is_up X (ld_now s);
      burst_tick (secs (lc_burst_duration_secs (lx_config X))) (secs (lc_burst_interval_secs (lx_config X))) (ld_now s) b = Some b';
      fst b' \<Longrightarrow> ld_wallets s \<noteq> [] \<or> lc_num_workers (lx_config X) = 0\<rbrakk> \<Longrightarrow>
     load_step X s (spawn (if fst b' then map Burst_Sender [0..<lc_num_workers (lx_config X)] else []) (s\<lparr>ld_burst := Some b'\<rparr>))"

inductive_cases load_stepE: "load_step X s s'"

lemmas load_step_cases =
  load_stepE [consumes 1, case_names tick serve stop panic create cancel submit recorded group burst]

text \<open>The end of a test, at which \<open>run_load_test\<close> returns what was collected.\<close>

definition load_finished :: "('k, 'r, 'h, 'f) load_run \<Rightarrow> ('k, 'h) load \<Rightarrow> bool" where
  "load_finished X s \<longleftrightarrow> all_finished s \<and> ld_plan s = [] \<and> (ld_burst s = None \<or> time_is_up X (ld_now s))"

section \<open>Before the run\<close>

text \<open>\<open>setup_accounts\<close>: the result, whether fewer than five of the first ten balances were verified,
  and the node.\<close>

definition setup_accounts ::
  "load_env \<Rightarrow> 'k ecdsa \<Rightarrow> 'r fastrand \<Rightarrow> (nat \<Rightarrow> node \<Rightarrow> node) \<Rightarrow> (nat \<Rightarrow> node \<Rightarrow> node) \<Rightarrow> (nat \<Rightarrow> delivery) \<Rightarrow> (nat \<Rightarrow> delivery) \<Rightarrow>
     u32 \<Rightarrow> u128 \<Rightarrow> 'k Wallet list \<Rightarrow> 'k Wallet \<Rightarrow> 'r \<Rightarrow> node \<Rightarrow> (string + bool) \<times> 'r \<times> node" where
  "setup_accounts L E R between between' net net' asset balance ws operator r n =
     (case initialize_wallets L E R between net asset balance ws (operator, r, n) of
        (Inl e, _, r', n') \<Rightarrow> (Inl e, r', n')
      | (Inr _, _, r', n') \<Rightarrow>
          (case verify_balances L between' net' asset balance ws n' of (verified, n2) \<Rightarrow> (Inr (verified < 5), r', n2)))"

fun make_wallets :: "tx_codec \<Rightarrow> 'k ecdsa \<Rightarrow> 'r fastrand \<Rightarrow> nat \<Rightarrow> ('r, 'k Wallet list option) state" where
  "make_wallets c E R 0 = State_Monad.return (Some [])"
| "make_wallets c E R (Suc m) = do {
     w \<leftarrow> new_random c E R;
     ws \<leftarrow> make_wallets c E R m;
     State_Monad.return (case (w, ws) of (Some w, Some ws) \<Rightarrow> Some (w # ws) | _ \<Rightarrow> None)
   }"

text \<open>\<open>run_load_test\<close> up to the first worker: \<open>Inl\<close> is an error it returns, \<open>None\<close> a panic.\<close>

definition begin_load_test ::
  "('k, 'r, 'h, 'f) load_run \<Rightarrow> delivery \<Rightarrow> (nat \<Rightarrow> node \<Rightarrow> node) \<Rightarrow> (nat \<Rightarrow> node \<Rightarrow> node) \<Rightarrow> (nat \<Rightarrow> delivery) \<Rightarrow> (nat \<Rightarrow> delivery) \<Rightarrow>
     'r \<Rightarrow> node \<Rightarrow> (string + ('k, 'h) load) option" where
  "begin_load_test X d between between' net net' r n =
     (let L = lx_env X; E = lx_ecdsa X; R = lx_rand X; cfg = lx_config X in
      case client_health L d n of
        (Inl _, _) \<Rightarrow> Some (Inl ''Server is not responding'')
      | (Inr _, n1) \<Rightarrow>
          (case run_state (make_wallets (lx_codec X) E R (lc_num_wallets cfg)) r of
             (None, _) \<Rightarrow> None
           | (Some ws, r1) \<Rightarrow>
               if lc_operator_mode cfg then
                 (case run_state (new_random (lx_codec X) E R) r1 of
                    (None, _) \<Rightarrow> None
                  | (Some operator, r2) \<Rightarrow>
                      (case setup_accounts L E R between between' net net' (lc_asset_id cfg) (lc_initial_balance cfg) ws operator r2 n1 of
                         (Inl e, _) \<Rightarrow> Some (Inl e)
                       | (Inr _, r3, n2) \<Rightarrow> map_option Inr (load_start X ws n2)))
               else map_option Inr (load_start X ws n1)))"

section \<open>Nonces\<close>

lemma run_state_bind:
  "run_state (State_Monad.bind m f) s = (case run_state m s of (a, s') \<Rightarrow> run_state (f a) s')"
  by (cases m) (simp add: State_Monad.bind_def split: prod.split)

lemma run_state_return [simp]: "run_state (State_Monad.return a) s = (a, s)"
  by (simp add: State_Monad.return_def)

lemma set_pc_sel [simp]:
  "ld_now (set_pc i pc s) = ld_now s" "ld_node (set_pc i pc s) = ld_node s" "ld_wallets (set_pc i pc s) = ld_wallets s"
  "ld_metrics (set_pc i pc s) = ld_metrics s" "ld_plan (set_pc i pc s) = ld_plan s" "ld_burst (set_pc i pc s) = ld_burst s"
  "ld_nonces (set_pc i pc s) = ld_nonces s" "ld_signed (set_pc i pc s) = ld_signed s" "ld_outcomes (set_pc i pc s) = ld_outcomes s"
  "ld_workers (set_pc i pc s) = (ld_workers s)[i := (ld_workers s ! i)\<lparr>wk_pc := pc\<rparr>]"
  by (simp_all add: set_pc_def)

lemma spawn_sel [simp]:
  "ld_now (spawn ks s) = ld_now s" "ld_node (spawn ks s) = ld_node s" "ld_wallets (spawn ks s) = ld_wallets s"
  "ld_metrics (spawn ks s) = ld_metrics s" "ld_plan (spawn ks s) = ld_plan s" "ld_burst (spawn ks s) = ld_burst s"
  "ld_nonces (spawn ks s) = ld_nonces s" "ld_signed (spawn ks s) = ld_signed s" "ld_outcomes (spawn ks s) = ld_outcomes s"
  "ld_workers (spawn ks s) = map (\<lambda>k. \<lparr>wk_kind = k, wk_pc = Ready, wk_spawned = ld_now s\<rparr>) ks"
  by (simp_all add: spawn_def)

lemma submit_with_sel [simp]:
  "ld_now (submit_with X i d c j tx t0 s) = ld_now s" "ld_wallets (submit_with X i d c j tx t0 s) = ld_wallets s"
  "ld_metrics (submit_with X i d c j tx t0 s) = ld_metrics s" "ld_plan (submit_with X i d c j tx t0 s) = ld_plan s"
  "ld_nonces (submit_with X i d c j tx t0 s) = ld_nonces s" "ld_signed (submit_with X i d c j tx t0 s) = ld_signed s"
  "ld_outcomes (submit_with X i d c j tx t0 s) = ld_outcomes s"
  "ld_workers (submit_with X i d c j tx t0 s) = (ld_workers s)[i := (ld_workers s ! i)\<lparr>wk_pc :=
     Answered c j t0 (map_err (submission_error (wk_kind (ld_workers s ! i)) c)
       (fst (client_submit_transaction (lx_env X) d tx (ld_node s))))\<rparr>]"
  by (simp_all add: submit_with_def split: prod.split)

lemma record_with_sel [simp]:
  "ld_now (record_with X i c j r l oi s) = ld_now s" "ld_wallets (record_with X i c j r l oi s) = ld_wallets s"
  "ld_plan (record_with X i c j r l oi s) = ld_plan s"
  "ld_nonces (record_with X i c j r l oi s) = ld_nonces s" "ld_signed (record_with X i c j r l oi s) = ld_signed s"
  "ld_workers (record_with X i c j r l oi s) = (ld_workers s)[i := (ld_workers s ! i)\<lparr>wk_pc :=
     after_answer (wk_kind (ld_workers s ! i)) c j r oi\<rparr>]"
  by (simp_all add: record_with_def Let_def)

lemma sign_with_sel:
  assumes "create_signed_transaction (lx_codec X) (lx_ecdsa X) p (ld_wallets s ! j) = (r, w)"
  shows "ld_now (sign_with X i c j p s) = ld_now s" "ld_plan (sign_with X i c j p s) = ld_plan s"
    "ld_metrics (sign_with X i c j p s) = ld_metrics s" "ld_outcomes (sign_with X i c j p s) = ld_outcomes s"
    "ld_wallets (sign_with X i c j p s) = (ld_wallets s)[j := w]"
    "ld_nonces (sign_with X i c j p s) = ld_nonces s @ [(j, wl_nonce (ld_wallets s ! j))]"
    "ld_signed (sign_with X i c j p s) =
       ld_signed s @ (case r of Inr tx \<Rightarrow> [(wk_kind (ld_workers s ! i), j, tx)] | Inl _ \<Rightarrow> [])"
    "ld_workers (sign_with X i c j p s) = (ld_workers s)[i := (ld_workers s ! i)\<lparr>wk_pc :=
       (case r of Inr tx \<Rightarrow> Sending c j tx (ld_now s)
        | Inl e \<Rightarrow> Answered c j (ld_now s) (Inl (creation_error (wk_kind (ld_workers s ! i)) e)))\<rparr>]"
  using assms by (auto simp: sign_with_def Let_def split: sum.split)

text \<open>The wallet that a worker picks exists.\<close>

lemma worker_job_wallet:
  assumes "fastrand_ok R" "ws \<noteq> []" "run_state (worker_job R cfg ws k) r = ((j, p), r')"
  shows "j < length ws"
proof -
  have "pred_state (\<lambda>(j, _). j < length ws) (worker_job R cfg ws k)"
  proof (cases k)
    case Spam_Worker
    have "pred_state (\<lambda>x. 0 \<le> x \<and> x < length ws) (rnd_range R 0 (length ws))"
      using assms(1,2) by (intro rnd_range_ok) simp_all
    then show ?thesis
      unfolding Spam_Worker worker_job.simps
      by (rule pred_state_bind) (rule pred_state_bind [OF pred_state_True], rule pred_state_return, simp)
  qed (use assms(2) in \<open>auto intro!: pred_state_bind [OF pred_state_True] pred_state_return\<close>)
  from pred_stateD [OF this assms(3)] show ?thesis by simp
qed

text \<open>Every worker that is about to cancel, or may be, has the index of a wallet.\<close>

fun pc_wallet :: "nat \<Rightarrow> worker_pc \<Rightarrow> bool" where
  "pc_wallet m (Sending _ j _ _) \<longleftrightarrow> j < m"
| "pc_wallet m (Answered _ j _ _) \<longleftrightarrow> j < m"
| "pc_wallet m (Cancelling j _) \<longleftrightarrow> j < m"
| "pc_wallet m _ \<longleftrightarrow> True"

definition pcs_ok :: "('k, 'h) load \<Rightarrow> bool" where
  "pcs_ok s \<longleftrightarrow> list_all (\<lambda>w. pc_wallet (length (ld_wallets s)) (wk_pc w)) (ld_workers s)"

lemma list_all_update: "list_all P xs \<Longrightarrow> P v \<Longrightarrow> list_all P (xs[i := v])"
  using set_update_subset_insert [of xs i v] by (auto simp: list_all_iff)

lemma pc_after_answer: "j < m \<Longrightarrow> pc_wallet m (after_answer k c j r oi)"
  by (simp add: after_answer_def split: worker_kind.split)

lemma pcs_okD: "pcs_ok s \<Longrightarrow> i < length (ld_workers s) \<Longrightarrow> pc_wallet (length (ld_wallets s)) (wk_pc (ld_workers s ! i))"
  by (simp add: pcs_ok_def list_all_length)

lemma sign_with_pcs_ok:
  assumes "pcs_ok s" "j < length (ld_wallets s)"
  shows "pcs_ok (sign_with X i c j p s)"
proof -
  obtain r w where "create_signed_transaction (lx_codec X) (lx_ecdsa X) p (ld_wallets s ! j) = (r, w)" by fastforce
  note sel = sign_with_sel [OF this]
  show ?thesis
    using assms unfolding pcs_ok_def sel by (cases r) (simp_all add: list_all_update)
qed

text \<open>A step that draws a nonce draws it from an existing wallet; every other step leaves the wallets,
  the nonces and the signed transactions alone.\<close>

lemma load_step_signs:
  assumes "fastrand_ok (lx_rand X)" "load_step X s s'" "pcs_ok s"
  shows "(ld_wallets s' = ld_wallets s \<and> ld_nonces s' = ld_nonces s \<and> ld_signed s' = ld_signed s) \<or>
    (\<exists>i c j p. s' = sign_with X i c j p s \<and> i < length (ld_workers s) \<and> j < length (ld_wallets s))"
  using assms(2)
proof (cases rule: load_step_cases)
  case (create i r j payload r')
  then have "ld_wallets s \<noteq> []" by (auto simp: task_panics_def)
  from worker_job_wallet [OF assms(1) this] create show ?thesis by blast
next
  case (cancel i j oi)
  with pcs_okD [OF assms(3), of i] show ?thesis by auto
qed simp_all

lemma load_step_pcs_ok:
  assumes "fastrand_ok (lx_rand X)" "load_step X s s'" "pcs_ok s"
  shows "pcs_ok s'"
  using load_step_signs [OF assms]
proof (elim disjE exE conjE)
  assume same: "ld_wallets s' = ld_wallets s" "ld_nonces s' = ld_nonces s"
  from assms(2) show ?thesis
  proof (cases rule: load_step_cases)
    case (submit i c j tx t0 d)
    with pcs_okD [OF assms(3), of i] assms(3) show ?thesis by (simp add: pcs_ok_def list_all_update)
  next
    case (recorded i c j t0 r l q oi q')
    with pcs_okD [OF assms(3), of i] assms(3) show ?thesis by (simp add: pcs_ok_def list_all_update pc_after_answer)
  next
    case (create i r j payload r')
    obtain x w where "create_signed_transaction (lx_codec X) (lx_ecdsa X) payload (ld_wallets s ! j) = (x, w)" by fastforce
    from sign_with_sel(6) [OF this] create same show ?thesis by simp
  next
    case (cancel i j oi)
    obtain x w where "create_signed_transaction (lx_codec X) (lx_ecdsa X)
        (TxPayload_CancelOrder \<lparr>co_order_id = oi\<rparr>) (ld_wallets s ! j) = (x, w)" by fastforce
    from sign_with_sel(6) [OF this] cancel same show ?thesis by simp
  qed (use assms(3) in \<open>simp_all add: pcs_ok_def list_all_update list.pred_map comp_def list.pred_True\<close>)
qed (simp add: sign_with_pcs_ok [OF assms(3)])

text \<open>The nonces drawn from a wallet so far.\<close>

abbreviation drawn :: "nat \<Rightarrow> (nat \<times> u64) list \<Rightarrow> u64 list" where
  "drawn j nonces \<equiv> map snd (filter (\<lambda>p. fst p = j) nonces)"

abbreviation signed_nonces :: "(worker_kind \<times> nat \<times> Transaction) list \<Rightarrow> (nat \<times> u64) list" where
  "signed_nonces txs \<equiv> map (\<lambda>(k, j, tx). (j, tx_nonce tx)) txs"

text \<open>Each wallet has handed out the nonces from zero on, in order; what was signed carries some of
  them, in the order in which they were drawn, and the address of its wallet.\<close>

definition nonces_ok :: "'k Wallet list \<Rightarrow> ('k, 'h) load \<Rightarrow> bool" where
  "nonces_ok ws s \<longleftrightarrow>
     length (ld_wallets s) = length ws \<and>
     (\<forall>j<length ws. wl_address (ld_wallets s ! j) = wl_address (ws ! j) \<and>
        wl_nonce (ld_wallets s ! j) = of_nat (length (drawn j (ld_nonces s))) \<and>
        drawn j (ld_nonces s) = map of_nat [0..<length (drawn j (ld_nonces s))]) \<and>
     (\<forall>p\<in>set (ld_nonces s). fst p < length ws) \<and>
     subseq (signed_nonces (ld_signed s)) (ld_nonces s) \<and>
     (\<forall>(k, j, tx)\<in>set (ld_signed s). tx_from tx = wl_address (ws ! j))"

lemma sign_with_nonces_ok:
  assumes "nonces_ok ws s" "j < length ws"
  shows "nonces_ok ws (sign_with X i c j p s)"
proof -
  obtain r w where cs: "create_signed_transaction (lx_codec X) (lx_ecdsa X) p (ld_wallets s ! j) = (r, w)" by fastforce
  note sel = sign_with_sel [OF cs]
  have w: "w = (ld_wallets s ! j)\<lparr>wl_nonce := wl_nonce (ld_wallets s ! j) + 1\<rparr>"
    using create_signed_wallet [of "lx_codec X" "lx_ecdsa X" p "ld_wallets s ! j"] cs by simp
  have len: "length (ld_wallets s) = length ws" using assms(1) by (simp add: nonces_ok_def)
  have tx: "tx_nonce tx = wl_nonce (ld_wallets s ! j)" "tx_from tx = wl_address (ws ! j)" if "r = Inr tx" for tx
    using create_signed_fields [OF cs [unfolded that]] assms by (simp_all add: nonces_ok_def)
  have "subseq (signed_nonces (ld_signed (sign_with X i c j p s))) (ld_nonces (sign_with X i c j p s))"
    using assms(1) tx(1) unfolding sel nonces_ok_def
    by (cases r) (auto intro: list_emb_append_mono list_emb_append2)
  moreover have "\<forall>(k, j, tx)\<in>set (ld_signed (sign_with X i c j p s)). tx_from tx = wl_address (ws ! j)"
    using assms(1) tx(2) unfolding sel nonces_ok_def by (cases r) auto
  ultimately show ?thesis
    using assms len unfolding nonces_ok_def sel w by (auto simp: nth_list_update)
qed

lemma load_step_nonces_ok:
  assumes "fastrand_ok (lx_rand X)" "load_step X s s'" "pcs_ok s" "nonces_ok ws s"
  shows "nonces_ok ws s'"
  using load_step_signs [OF assms(1-3)]
proof (elim disjE exE conjE)
  fix i c j p
  assume "s' = sign_with X i c j p s" "j < length (ld_wallets s)"
  with sign_with_nonces_ok [OF assms(4)] assms(4) show ?thesis by (simp add: nonces_ok_def)
qed (use assms(4) in \<open>simp add: nonces_ok_def\<close>)

section \<open>Counting\<close>

definition in_flight :: "worker \<Rightarrow> bool" where
  "in_flight w = (case wk_pc w of Sending _ _ _ _ \<Rightarrow> True | Answered _ _ _ _ \<Rightarrow> True | _ \<Rightarrow> False)"

definition counts_ok :: "('k, 'r, 'h, 'f) load_run \<Rightarrow> ('k, 'h) load \<Rightarrow> bool" where
  "counts_ok X s \<longleftrightarrow>
     ld_metrics s = foldl (collect (lx_hist X)) (collector_new (lx_hist X)) (ld_outcomes s) \<and>
     length (ld_outcomes s) + length (filter in_flight (ld_workers s)) = length (ld_nonces s)"

lemma filter_update:
  "i < length xs \<Longrightarrow>
     length (filter P (xs[i := x])) + (if P (xs ! i) then 1 else 0) = length (filter P xs) + (if P x then 1 else 0)"
proof (induction xs arbitrary: i)
  case (Cons y xs)
  show ?case
  proof (cases i)
    case (Suc k)
    with Cons.IH [of k] Cons.prems show ?thesis by (cases "P y") simp_all
  qed simp
qed simp

lemma in_flight_update:
  "i < length ws \<Longrightarrow> in_flight v = in_flight (ws ! i) \<Longrightarrow>
     length (filter in_flight (ws[i := v])) = length (filter in_flight ws)"
  using filter_update [of i ws in_flight v] by simp

lemma sign_with_counts_ok:
  assumes "counts_ok X s" "i < length (ld_workers s)" "\<not> in_flight (ld_workers s ! i)"
  shows "counts_ok X (sign_with X i c j p s)"
proof -
  obtain r w where cs: "create_signed_transaction (lx_codec X) (lx_ecdsa X) p (ld_wallets s ! j) = (r, w)" by fastforce
  note sel = sign_with_sel [OF cs]
  show ?thesis
    using assms filter_update [OF assms(2), of in_flight] unfolding counts_ok_def sel
    by (cases r) (simp_all add: in_flight_def)
qed

lemma finished_in_flight: "all_finished s \<Longrightarrow> filter in_flight (ld_workers s) = []"
  by (auto simp: list_all_iff in_flight_def filter_empty_conv)

lemma load_step_counts_ok:
  assumes "load_step X s s'" "counts_ok X s"
  shows "counts_ok X s'"
  using assms(1)
proof (cases rule: load_step_cases)
  case (create i r j payload r')
  with sign_with_counts_ok [OF assms(2)] show ?thesis by (simp add: in_flight_def)
next
  case (cancel i j oi)
  with sign_with_counts_ok [OF assms(2)] show ?thesis by (simp add: in_flight_def)
next
  case (submit i c j tx t0 d)
  with assms(2) show ?thesis by (simp add: counts_ok_def in_flight_update in_flight_def)
next
  case (recorded i c j t0 r l q oi q')
  let ?v = "(ld_workers s ! i)\<lparr>wk_pc := after_answer (wk_kind (ld_workers s ! i)) c j r (of_nat oi)\<rparr>"
  have "\<not> in_flight ?v" by (simp add: in_flight_def after_answer_def split: worker_kind.split)
  moreover have "in_flight (ld_workers s ! i)" using recorded by (simp add: in_flight_def)
  ultimately have "length (filter in_flight ((ld_workers s)[i := ?v])) + 1 = length (filter in_flight (ld_workers s))"
    using filter_update [OF recorded(2), of in_flight ?v] by simp
  with recorded(1) assms(2) show ?thesis by (simp add: counts_ok_def) (simp add: record_with_def Let_def)
next
  case (stop i)
  with assms(2) show ?thesis by (simp add: counts_ok_def in_flight_update in_flight_def)
next
  case (panic i)
  with assms(2) show ?thesis by (simp add: counts_ok_def in_flight_update in_flight_def)
next
  case (group ks plan)
  with assms(2) finished_in_flight [OF group(2)] show ?thesis by (simp add: counts_ok_def in_flight_def comp_def)
next
  case (burst b b')
  with assms(2) finished_in_flight [OF burst(2)] show ?thesis by (simp add: counts_ok_def in_flight_def comp_def)
qed (use assms(2) in \<open>simp_all add: counts_ok_def\<close>)

section \<open>Reachable runs\<close>

definition load_ok :: "('k, 'r, 'h, 'f) load_run \<Rightarrow> 'k Wallet list \<Rightarrow> ('k, 'h) load \<Rightarrow> bool" where
  "load_ok X ws s \<longleftrightarrow> pcs_ok s \<and> nonces_ok ws s \<and> counts_ok X s"

lemma load_start_ok:
  assumes "load_start X ws n = Some s" "\<forall>w\<in>set ws. wl_nonce w = 0"
  shows "load_ok X ws s"
  using assms by (auto simp: load_start_def load_ok_def pcs_ok_def nonces_ok_def counts_ok_def)

lemma load_run_ok:
  assumes "(load_step X)\<^sup>*\<^sup>* s s'" "fastrand_ok (lx_rand X)" "load_ok X ws s"
  shows "load_ok X ws s'"
  using assms(1,3)
proof (induction rule: rtranclp_induct)
  case (step t u)
  then show ?case
    using load_step_pcs_ok [OF assms(2) step(2)] load_step_nonces_ok [OF assms(2) step(2)] load_step_counts_ok [OF step(2)]
    by (simp add: load_ok_def)
qed

lemma distinct_blocks:
  assumes "\<And>j. distinct (map snd (filter (\<lambda>p. fst p = j) xs))"
  shows "distinct xs"
  using assms
proof (induction xs)
  case (Cons x xs)
  have "distinct (map snd (filter (\<lambda>p. fst p = j) xs))" for j
    using Cons.prems [of j] by (cases "fst x = j") simp_all
  moreover have "x \<notin> set xs"
    using Cons.prems [of "fst x"] by (auto simp: image_iff)
  ultimately show ?case using Cons.IH by simp
qed simp

lemma distinct_of_nat: "n \<le> 2 ^ 64 \<Longrightarrow> distinct (map (of_nat :: nat \<Rightarrow> u64) [0..<n])"
  by (auto simp: distinct_map inj_on_def word_of_nat_eq_iff take_bit_nat_eq_self)

lemma nonces_distinct:
  assumes "nonces_ok ws s" "length (ld_nonces s) \<le> 2 ^ 64"
  shows "distinct (ld_nonces s)"
proof (rule distinct_blocks)
  fix j
  show "distinct (drawn j (ld_nonces s))"
  proof (cases "j < length ws")
    case True
    have "length (drawn j (ld_nonces s)) \<le> 2 ^ 64"
      using assms(2) by (metis length_filter_le length_map le_trans)
    from distinct_of_nat [OF this] True assms(1) show ?thesis unfolding nonces_ok_def by metis
  next
    case False
    with assms(1) have "filter (\<lambda>p. fst p = j) (ld_nonces s) = []" by (auto simp: nonces_ok_def filter_empty_conv)
    then show ?thesis by simp
  qed
qed

lemma new_random_nonce: "run_state (new_random c E R) r = (Some w, r') \<Longrightarrow> wl_nonce w = 0"
  by (auto simp: new_random_def run_state_bind split: prod.splits)

lemma make_wallets_ok:
  "run_state (make_wallets c E R m) r = (Some ws, r') \<Longrightarrow> length ws = m \<and> (\<forall>w\<in>set ws. wl_nonce w = 0)"
proof (induction m arbitrary: r ws r')
  case (Suc m)
  obtain w r1 where w: "run_state (new_random c E R) r = (w, r1)" by fastforce
  obtain vs r2 where vs: "run_state (make_wallets c E R m) r1 = (vs, r2)" by fastforce
  from Suc.prems w vs obtain w' ws' where "w = Some w'" "vs = Some ws'" "ws = w' # ws'"
    by (auto simp: run_state_bind split: option.splits)
  with Suc.IH vs w new_random_nonce show ?case by fastforce
qed simp

lemma begin_load_test_start:
  assumes "begin_load_test X d between between' net net' r n = Some (Inr s)"
  obtains ws n' where "load_start X ws n' = Some s" "length ws = lc_num_wallets (lx_config X)" "\<forall>w\<in>set ws. wl_nonce w = 0"
  using assms make_wallets_ok that
  by (fastforce simp: begin_load_test_def Let_def split: prod.splits sum.splits option.splits if_splits)

lemma load_start_wallets: "load_start X ws n = Some s \<Longrightarrow> ld_wallets s = ws"
  by (auto simp: load_start_def)

lemma begin_load_test_ok:
  assumes "begin_load_test X d between between' net net' r n = Some (Inr s)"
  shows "load_ok X (ld_wallets s) s"
  using begin_load_test_start [OF assms] load_start_ok load_start_wallets by metis

text \<open>Distinct pairs of wallet and nonce are distinct pairs of address and nonce.\<close>

lemma signed_distinct:
  assumes "nonces_ok ws s" "length (ld_nonces s) \<le> 2 ^ 64" "distinct (map wl_address ws)"
  shows "distinct (map (\<lambda>(k, j, tx). (tx_from tx, tx_nonce tx)) (ld_signed s))"
proof -
  let ?f = "\<lambda>(j, v). (wl_address (ws ! j), v)"
  have sub: "subseq (signed_nonces (ld_signed s)) (ld_nonces s)" using assms(1) by (simp add: nonces_ok_def)
  have dist: "distinct (signed_nonces (ld_signed s))"
    using sub nonces_distinct [OF assms(1,2)] by (metis subseq_conv_nths distinct_nthsI)
  have incl: "set (signed_nonces (ld_signed s)) \<subseteq> set (ld_nonces s)"
    using sub by (metis subseq_conv_nths set_nths_subset)
  have "inj_on ?f (set (ld_nonces s))"
  proof (rule inj_onI)
    fix p q
    assume p: "p \<in> set (ld_nonces s)" and q: "q \<in> set (ld_nonces s)" and eq: "?f p = ?f q"
    have lt: "fst p < length ws" "fst q < length ws" using p q assms(1) by (simp_all add: nonces_ok_def)
    have "map wl_address ws ! fst p = map wl_address ws ! fst q"
      using eq lt by (simp add: case_prod_beta)
    then have "fst p = fst q" using nth_eq_iff_index_eq [OF assms(3)] lt by simp
    with eq show "p = q" by (simp add: case_prod_beta prod_eq_iff)
  qed
  then have "inj_on ?f (set (signed_nonces (ld_signed s)))"
    using incl by (rule inj_on_subset)
  with dist have "distinct (map ?f (signed_nonces (ld_signed s)))" by (simp only: distinct_map)
  moreover have "map ?f (signed_nonces (ld_signed s)) = map (\<lambda>(k, j, tx). (tx_from tx, tx_nonce tx)) (ld_signed s)"
    using assms(1) by (auto simp: nonces_ok_def)
  ultimately show ?thesis by (simp only:)
qed

section \<open>The aggressive scenario\<close>

lemma aggressive_plan_nth:
  "k < length (aggressive_plan n) \<Longrightarrow>
     aggressive_plan n ! k = (if k < n div 2 then [Depth_Builder k] else [Market_Taker (k - n div 2)])"
  by (auto simp: aggressive_plan_def nth_append)

definition taker_ok :: "('k, 'r, 'h, 'f) load_run \<Rightarrow> nat \<Rightarrow> 'k Wallet list \<Rightarrow> worker \<Rightarrow> bool" where
  "taker_ok X now ws w \<longleftrightarrow>
     (\<forall>i. wk_kind w = Market_Taker i \<longrightarrow>
        (\<forall>j oi. wk_pc w \<noteq> Cancelling j oi) \<and> (ws \<noteq> [] \<longrightarrow> wk_pc w = Finished \<or> i > 0 \<longrightarrow> time_is_up X now))"

definition aggressive_ok :: "('k, 'r, 'h, 'f) load_run \<Rightarrow> ('k, 'h) load \<Rightarrow> bool" where
  "aggressive_ok X s \<longleftrightarrow>
     ld_burst s = None \<and>
     (\<exists>m\<le>length (aggressive_plan (lc_num_workers (lx_config X))).
        ld_plan s = drop m (aggressive_plan (lc_num_workers (lx_config X))) \<and>
        map wk_kind (ld_workers s) = (if m = 0 then [] else aggressive_plan (lc_num_workers (lx_config X)) ! (m - 1))) \<and>
     list_all (taker_ok X (ld_now s) (ld_wallets s)) (ld_workers s) \<and>
     (\<forall>k j tx i. (k, j, tx) \<in> set (ld_signed s) \<longrightarrow> k = Market_Taker i \<longrightarrow> i = 0)"

lemma taker_ok_mono: "taker_ok X now ws w \<Longrightarrow> now \<le> t \<Longrightarrow> taker_ok X t ws w"
  by (auto simp: taker_ok_def time_is_up_def)

lemma aggressive_ok_step:
  assumes "aggressive_ok X s" "ld_burst s' = None" "ld_plan s' = ld_plan s"
    and "map wk_kind (ld_workers s') = map wk_kind (ld_workers s)"
    and "list_all (taker_ok X (ld_now s') (ld_wallets s')) (ld_workers s')"
    and "\<And>k j tx i. (k, j, tx) \<in> set (ld_signed s') \<Longrightarrow> k = Market_Taker i \<Longrightarrow> i = 0"
  shows "aggressive_ok X s'"
  using assms by (auto simp: aggressive_ok_def)

lemma map_kind_update [simp]: "i < length ws \<Longrightarrow> map wk_kind (ws[i := (ws ! i)\<lparr>wk_pc := pc\<rparr>]) = map wk_kind ws"
  by (simp add: map_update) (metis length_map list_update_id nth_map)

lemma taker_ok_pc:
  "taker_ok X now ws w \<Longrightarrow> pc \<noteq> Finished \<Longrightarrow> (\<And>j oi. pc \<noteq> Cancelling j oi) \<Longrightarrow> taker_ok X now ws (w\<lparr>wk_pc := pc\<rparr>)"
  by (auto simp: taker_ok_def)

lemma taker_ok_Finished: "\<not> keeps_going X now w \<or> ws = [] \<Longrightarrow> taker_ok X now ws (w\<lparr>wk_pc := Finished\<rparr>)"
  by (auto simp: taker_ok_def keeps_going_def)

lemma taker_ok_wallets: "taker_ok X now ws w \<Longrightarrow> ws = [] \<longleftrightarrow> ws' = [] \<Longrightarrow> taker_ok X now ws' w"
  by (auto simp: taker_ok_def)

lemma aggressive_sign:
  assumes "aggressive_ok X s" "i < length (ld_workers s)"
    and "\<And>k. wk_kind (ld_workers s ! i) = Market_Taker k \<Longrightarrow> k = 0"
  shows "aggressive_ok X (sign_with X i c j p s)"
proof -
  obtain r w where cs: "create_signed_transaction (lx_codec X) (lx_ecdsa X) p (ld_wallets s ! j) = (r, w)" by fastforce
  note sel = sign_with_sel [OF cs, of i c]
  have burst: "ld_burst (sign_with X i c j p s) = ld_burst s"
    using cs by (auto simp: sign_with_def Let_def split: sum.split)
  have tk: "list_all (taker_ok X (ld_now s) ((ld_wallets s)[j := w])) (ld_workers s)"
    using assms(1) by (auto simp: aggressive_ok_def list_all_iff intro: taker_ok_wallets)
  then have "taker_ok X (ld_now s) ((ld_wallets s)[j := w]) (ld_workers s ! i)"
    using assms(2) by (simp add: list_all_length)
  with tk have "list_all (taker_ok X (ld_now s) ((ld_wallets s)[j := w])) (ld_workers (sign_with X i c j p s))"
    unfolding sel by (intro list_all_update taker_ok_pc) (auto split: sum.split)
  then show ?thesis
    using assms by (intro aggressive_ok_step [OF assms(1)]) (auto simp: burst sel aggressive_ok_def split: sum.splits)
qed

lemma aggressive_next:
  assumes "aggressive_ok X s" "all_finished s" "ld_plan s = ks # plan"
  shows "aggressive_ok X (spawn ks (s\<lparr>ld_plan := plan\<rparr>))"
proof -
  let ?P = "aggressive_plan (lc_num_workers (lx_config X))"
  obtain m where m: "m \<le> length ?P" "ks # plan = drop m ?P"
    "map wk_kind (ld_workers s) = (if m = 0 then [] else ?P ! (m - 1))"
    using assms(1,3) by (auto simp: aggressive_ok_def)
  have lt: "m < length ?P" using m(2) by (metis drop_eq_Nil leI list.discI)
  then have ks: "ks = ?P ! m" "plan = drop (Suc m) ?P" using m(2) by (simp_all flip: Cons_nth_drop_Suc)
  have "time_is_up X (ld_now s)" if "Market_Taker i \<in> set ks" "i > 0" "ld_wallets s \<noteq> []" for i
  proof -
    have i: "i = m - lc_num_workers (lx_config X) div 2" "\<not> m < lc_num_workers (lx_config X) div 2"
      using that(1) lt by (auto simp: ks(1) aggressive_plan_nth split: if_splits)
    with that(2) have "m > 0" "?P ! (m - 1) = [Market_Taker (m - 1 - lc_num_workers (lx_config X) div 2)]"
      using lt by (auto simp: aggressive_plan_nth)
    with m(3) obtain w where "ld_workers s = [w]" "wk_kind w = Market_Taker (m - 1 - lc_num_workers (lx_config X) div 2)"
      by auto
    with assms(1,2) that(3) show ?thesis by (auto simp: aggressive_ok_def taker_ok_def)
  qed
  then have "list_all (taker_ok X (ld_now s) (ld_wallets s)) (ld_workers (spawn ks (s\<lparr>ld_plan := plan\<rparr>)))"
    by (auto simp: list_all_iff taker_ok_def)
  then show ?thesis
    using assms(1) lt unfolding aggressive_ok_def
    by (auto simp: ks comp_def intro!: exI [of _ "Suc m"])
qed

lemma load_step_aggressive:
  assumes "load_step X s s'" "aggressive_ok X s"
  shows "aggressive_ok X s'"
  using assms(1)
proof (cases rule: load_step_cases)
  case (tick t)
  with assms(2) show ?thesis
    by (intro aggressive_ok_step [OF assms(2)]) (auto simp: aggressive_ok_def list_all_iff intro: taker_ok_mono)
next
  case (stop i)
  with assms(2) show ?thesis
    by (intro aggressive_ok_step [OF assms(2)]) (auto simp: aggressive_ok_def intro!: list_all_update taker_ok_Finished)
next
  case (panic i)
  have "taker_ok X (ld_now s) (ld_wallets s) ((ld_workers s ! i)\<lparr>wk_pc := Finished\<rparr>)"
    using panic by (auto simp: taker_ok_def task_panics_def)
  with panic assms(2) show ?thesis
    by (intro aggressive_ok_step [OF assms(2)]) (auto simp: aggressive_ok_def intro!: list_all_update)
next
  case (create i r j payload r')
  have "taker_ok X (ld_now s) (ld_wallets s) (ld_workers s ! i)"
    using assms(2) create(2) by (simp add: aggressive_ok_def list_all_length)
  with create have "wk_kind (ld_workers s ! i) = Market_Taker k \<Longrightarrow> k = 0" for k
    by (auto simp: taker_ok_def keeps_going_def task_panics_def)
  with create aggressive_sign [OF assms(2)] show ?thesis by blast
next
  case (submit i c j tx t0 d)
  have "taker_ok X (ld_now s) (ld_wallets s) (ld_workers s ! i)"
    using assms(2) submit(2) by (simp add: aggressive_ok_def list_all_length)
  moreover have "ld_burst (submit_with X i d c j tx t0 s) = ld_burst s" by (simp add: submit_with_def split: prod.split)
  ultimately show ?thesis using submit assms(2)
    by (intro aggressive_ok_step [OF assms(2)]) (auto simp: aggressive_ok_def intro!: list_all_update taker_ok_pc)
next
  case (cancel i j oi)
  have "taker_ok X (ld_now s) (ld_wallets s) (ld_workers s ! i)"
    using assms(2) cancel(2) by (simp add: aggressive_ok_def list_all_length)
  with cancel(3) have "wk_kind (ld_workers s ! i) \<noteq> Market_Taker k" for k by (auto simp: taker_ok_def)
  with cancel aggressive_sign [OF assms(2)] show ?thesis by blast
next
  case (recorded i c j t0 r l q oi q')
  have "taker_ok X (ld_now s) (ld_wallets s) (ld_workers s ! i)"
    using assms(2) recorded(2) by (simp add: aggressive_ok_def list_all_length)
  then have "taker_ok X (ld_now s) (ld_wallets s)
      ((ld_workers s ! i)\<lparr>wk_pc := after_answer (wk_kind (ld_workers s ! i)) c j r (of_nat oi)\<rparr>)"
    by (auto simp: taker_ok_def after_answer_def)
  moreover have "ld_burst (record_with X i c j r l (of_nat oi) s) = ld_burst s" by (simp add: record_with_def Let_def)
  ultimately show ?thesis using recorded assms(2)
    by (intro aggressive_ok_step [OF assms(2)]) (auto simp: aggressive_ok_def intro!: list_all_update)
next
  case (group ks plan)
  with aggressive_next [OF assms(2)] show ?thesis by simp
next
  case (burst b b')
  with assms(2) show ?thesis by (simp add: aggressive_ok_def)
qed (use assms(2) in \<open>auto simp: aggressive_ok_def\<close>)

section \<open>The matching scenario\<close>

definition market_empty :: "OrderbookManager \<Rightarrow> u32 \<Rightarrow> bool" where
  "market_empty ob m \<longleftrightarrow> or_default [] (bids ob m) = [] \<and> or_default [] (asks ob m) = []"

definition touched :: "OrderbookManager \<Rightarrow> Order \<Rightarrow> OrderbookManager" where
  "touched ob taker = (if opposing ob taker = None then ob else set_opposing ob taker [])"

lemma match_empty:
  assumes "market_empty ob (ord_market_id taker)"
  shows "match_order ob s taker = (Inr [], touched ob taker, s)" "market_empty (touched ob taker) (ord_market_id taker)"
proof -
  have opp: "opposing ob taker = None \<or> opposing ob taker = Some []"
    using assms by (auto simp: market_empty_def opposing_def or_default_def split: option.splits)
  then have "\<not> would_match ob taker" by (auto simp: would_match_def)
  with opp show "match_order ob s taker = (Inr [], touched ob taker, s)"
    by (auto simp: match_order_def bt_keys_def touched_def Let_def)
  show "market_empty (touched ob taker) (ord_market_id taker)"
    using assms by (auto simp: touched_def set_opposing_def market_empty_def or_default_def)
qed

definition fill_events :: "trading \<Rightarrow> Event list" where
  "fill_events t = filter (\<lambda>e. case e of Event_OrderFilled _ _ _ _ _ _ _ _ _ _ \<Rightarrow> True | _ \<Rightarrow> False) (tg_ctx t)"

lemma place_ioc_empty:
  assumes "market_empty (tg_book t) (po_market_id x)" "po_time_in_force x = IOC" "place_order t trader x = (r, t')"
  shows "market_empty (tg_book t') (po_market_id x) \<and> fill_events t' = fill_events t"
proof -
  have ord: "ord_market_id (new_order s trader x i) = po_market_id x" for s i by (simp add: new_order_def)
  have match: "match_tg u (new_order s trader x i) = (Inr [], u\<lparr>tg_book := touched (tg_book u) (new_order s trader x i)\<rparr>)"
    "market_empty (touched (tg_book u) (new_order s trader x i)) (po_market_id x)" if "tg_book u = tg_book t" for u s i
    using match_empty [of "tg_book t" "new_order s trader x i"] assms(1) that
    by (simp_all add: match_tg_def ord)
  have settle: "market_empty (tg_book (snd (settle_order u x i ord))) (po_market_id x) \<longleftrightarrow> market_empty (tg_book u) (po_market_id x)"
    "fill_events (snd (settle_order u x i ord)) = fill_events u" for u i ord
    using assms(2) by (simp_all add: settle_order_def fill_events_def)
  have emit: "fill_events (tg_emit u (Event_OrderPlaced a b c d e f g)) = fill_events u"
    "fill_events (u\<lparr>tg_book := ob\<rparr>) = fill_events u" "fill_events (u\<lparr>tg_state := s\<rparr>) = fill_events u" for u ob s a b c d e f g
    by (simp_all add: fill_events_def tg_emit_def emit_def)
  from assms(3) have "t' = snd (place_order t trader x)" by simp
  also have "market_empty (tg_book \<dots>) (po_market_id x) \<and> fill_events \<dots> = fill_events t"
    using assms(1)
    by (auto simp: place_order_def bindR_def on_tg_state_def match settle emit Let_def split: sum.splits prod.splits option.splits)
  finally show ?thesis .
qed

definition place_all :: "trading \<Rightarrow> (Address \<times> PlaceOrderTx) list \<Rightarrow> trading" where
  "place_all = foldl (\<lambda>t (trader, x). snd (place_order t trader x))"

lemma place_all_ioc:
  assumes "market_empty (tg_book t) m" "\<forall>(a, x)\<in>set xs. po_market_id x = m \<and> po_time_in_force x = IOC"
  shows "market_empty (tg_book (place_all t xs)) m \<and> fill_events (place_all t xs) = fill_events t"
  using assms
proof (induction xs arbitrary: t)
  case (Cons y xs)
  obtain a x where y: "y = (a, x)" by (cases y)
  obtain r t1 where p: "place_order t a x = (r, t1)" by fastforce
  have "market_empty (tg_book t1) m \<and> fill_events t1 = fill_events t"
    using place_ioc_empty [OF _ _ p] Cons.prems y by auto
  with Cons.IH [of t1] Cons.prems p y show ?case by (simp add: place_all_def)
qed (simp add: place_all_def)

definition trader_order :: "'r fastrand \<Rightarrow> u32 \<Rightarrow> PlaceOrderTx \<Rightarrow> bool" where
  "trader_order R market x \<longleftrightarrow> (\<exists>r r'. run_state (trader_payload R market (po_is_buy x)) r = (TxPayload_PlaceOrder x, r'))"

lemma trader_payload_ok:
  assumes "fastrand_ok R"
  shows "pred_state (\<lambda>p. \<exists>x. p = TxPayload_PlaceOrder x \<and> po_market_id x = market \<and> po_time_in_force x = IOC \<and>
    (if b then base_price \<le> po_price x else po_price x \<le> base_price)) (trader_payload R market b)"
proof -
  have "unat (of_nat off :: u64) = off" if "off < price_spread" for off
    using that by (simp add: unat_of_nat price_spread_def take_bit_nat_eq_self)
  then have "base_price \<le> base_price + of_nat off" "base_price - of_nat off \<le> base_price" if "off < price_spread" for off
    using that by (simp_all add: word_le_nat_alt unat_word_ariths base_price_def price_spread_def word_nat unat_sub_if')
  then show ?thesis
    unfolding trader_payload_def
    by (intro pred_state_bind [OF rnd_range_ok [OF assms]] pred_state_bind [OF pred_state_True] pred_state_return)
      (auto simp: with_params_def price_spread_def)
qed

lemma aggressive_start:
  assumes "load_start X ws n = Some s" "lc_scenario (lx_config X) = Aggressive"
  shows "aggressive_ok X s"
proof -
  have "test_plan (lx_config X) (length ws) = Some (aggressive_plan (lc_num_workers (lx_config X)))"
    using assms(2) by (simp add: test_plan_def)
  with assms have "ld_burst s = None" "ld_plan s = aggressive_plan (lc_num_workers (lx_config X))" "ld_workers s = []"
    "ld_signed s = []"
    by (auto simp: load_start_def is_burst_test_def)
  then show ?thesis by (simp add: aggressive_ok_def exI [of _ 0])
qed

lemma aggressive_run:
  "(load_step X)\<^sup>*\<^sup>* s s' \<Longrightarrow> aggressive_ok X s \<Longrightarrow> aggressive_ok X s'"
  by (induction rule: rtranclp_induct) (blast intro: load_step_aggressive)+

lemma aggressive_single: "aggressive_ok X s \<Longrightarrow> length (ld_workers s) \<le> 1"
proof -
  assume "aggressive_ok X s"
  then obtain m where "m \<le> length (aggressive_plan (lc_num_workers (lx_config X)))"
    "map wk_kind (ld_workers s) = (if m = 0 then [] else aggressive_plan (lc_num_workers (lx_config X)) ! (m - 1))"
    by (auto simp: aggressive_ok_def)
  then have "length (map wk_kind (ld_workers s)) \<le> 1"
    by (auto simp: aggressive_plan_nth split: if_splits)
  then show ?thesis by simp
qed

text \<open>A burst test panics at the end of its first burst if the burst is longer than the interval, and
  never otherwise.\<close>

lemma burst_tick_panics:
  "burst_tick duration interval now b = None \<longleftrightarrow> fst b \<and> snd b \<le> now \<and> interval < duration"
  by (auto simp: burst_tick_def split: prod.splits)

section \<open>Properties\<close>

text \<open>C31: However the workers of a load test interleave with each other, with blocks and with other
  clients, and whatever requests are lost: no two transactions they sign have the same sender and
  nonce, each wallet hands out the nonces 0, 1, 2 and so on, and the collector counts each attempt
  once, as a success or as a failure under its error, when its answer is recorded.\<close>

theorem load_run_accounts:
  assumes "begin_load_test X d between between' net net' r n = Some (Inr s0)" "(load_step X)\<^sup>*\<^sup>* s0 s"
    and "fastrand_ok (lx_rand X)" "distinct (map wl_address (ld_wallets s0))" "length (ld_nonces s) < 2 ^ 64"
  shows "distinct (map (\<lambda>(k, j, tx). (tx_from tx, tx_nonce tx)) (ld_signed s)) \<and>
    (\<forall>j<length (ld_wallets s0). drawn j (ld_nonces s) = map of_nat [0..<length (drawn j (ld_nonces s))]) \<and>
    unat (mc_total_requests (ld_metrics s)) + length (filter in_flight (ld_workers s)) = length (ld_nonces s) \<and>
    unat (mc_successful_requests (ld_metrics s)) + unat (mc_failed_requests (ld_metrics s)) =
      unat (mc_total_requests (ld_metrics s)) \<and>
    (\<forall>e. error_count (ld_metrics s) e = count_list (failures (ld_outcomes s)) e)"
proof -
  have "load_ok X (ld_wallets s0) s" by (rule load_run_ok [OF assms(2,3) begin_load_test_ok [OF assms(1)]])
  then have ok: "nonces_ok (ld_wallets s0) s" "counts_ok X s" by (simp_all add: load_ok_def)
  then have "length (ld_outcomes s) < 2 ^ 64" using assms(5) by (simp add: counts_ok_def)
  from collect_counts [OF this, of "lx_hist X"] ok(2) signed_distinct [OF ok(1) _ assms(4)] assms(5) ok(1)
  show ?thesis by (auto simp: counts_ok_def nonces_ok_def Let_def)
qed

text \<open>A random source that always draws the least value, and tests of one worker with one wallet.\<close>

definition sample_rand :: "unit fastrand" where
  "sample_rand = \<lparr>rnd_bool = State_Monad.return False, rnd_range = (\<lambda>lo hi. State_Monad.return lo),
     rnd_fill = (\<lambda>n. State_Monad.return (replicate n 0))\<rparr>"

definition sample_hist :: "(unit, unit) histogram" where
  "sample_hist = \<lparr>h_new = (), h_record = (\<lambda>_ _. ()), h_min = (\<lambda>_. 0), h_max = (\<lambda>_. 0), h_mean = (\<lambda>_. ()), h_quantile = (\<lambda>_ _. 0)\<rparr>"

definition sample_test :: "TestScenario \<Rightarrow> (unit, unit, unit, unit) load_run" where
  "sample_test scenario = \<lparr>lx_env = sample_load, lx_ecdsa = sample_ecdsa, lx_rand = sample_rand, lx_hist = sample_hist,
     lx_config = default_load_config\<lparr>lc_num_workers := 1, lc_num_wallets := 1, lc_mode := Stress, lc_scenario := scenario\<rparr>,
     lx_start = 0\<rparr>"

lemma sample_rand_ok: "fastrand_ok sample_rand"
  by (auto simp: fastrand_ok_def sample_rand_def intro!: pred_state_return)

abbreviation new_sample_wallet :: "unit Wallet" where
  "new_sample_wallet \<equiv> \<lparr>wl_signing_key = (), wl_address = address_of_key exec_codec sample_ecdsa (), wl_nonce = 0\<rparr>"

lemma sample_health: "client_health sample_load Delivered exec_node = (Inr ''OK'', exec_node)"
  by (simp add: client_health_def http_exchange_def create_router_def routes_def health_def ok_or_def)

lemma sample_wallets: "run_state (make_wallets exec_codec sample_ecdsa sample_rand (Suc 0)) () = (Some [new_sample_wallet], ())"
  by (simp add: new_random_def run_state_bind sample_rand_def sample_ecdsa_def)

lemma sample_begin:
  assumes "load_start (sample_test scenario) [new_sample_wallet] exec_node = Some s"
  shows "begin_load_test (sample_test scenario) Delivered between between' net net' () exec_node = Some (Inr s)"
  using assms sample_health sample_wallets
  by (simp add: begin_load_test_def sample_test_def default_load_config_def sample_load_def sample_env_def
      del: make_wallets.simps split: prod.splits option.splits)

text \<open>The first worker is spawned and signs; a transaction that was signed is submitted and recorded.\<close>

lemma sample_first_sign:
  assumes "load_start (sample_test scenario) [new_sample_wallet] exec_node = Some s0"
    and "ld_plan s0 = [k] # plan" "keeps_going (sample_test scenario) 0 \<lparr>wk_kind = k, wk_pc = Ready, wk_spawned = 0\<rparr>"
    and "run_state (worker_job sample_rand (lx_config (sample_test scenario)) [new_sample_wallet] k) () = ((0, p), ())"
  obtains s tx where "(load_step (sample_test scenario))\<^sup>*\<^sup>* s0 s" "ld_signed s = [(k, 0, tx)]" "length (ld_nonces s) = 1"
    "ld_workers s = [\<lparr>wk_kind = k, wk_pc = Sending False 0 tx 0, wk_spawned = 0\<rparr>]"
proof -
  let ?X = "sample_test scenario" and ?s1 = "spawn [k] (s0\<lparr>ld_plan := plan\<rparr>)"
  have s0: "ld_wallets s0 = [new_sample_wallet]" "ld_now s0 = 0" "ld_signed s0 = []" "ld_nonces s0 = []" "ld_workers s0 = []"
    using assms(1) by (auto simp: load_start_def sample_test_def)
  have step1: "load_step ?X s0 ?s1" by (rule load_next) (simp_all add: s0 assms(2))
  have np: "\<not> task_panics ?X 0 [new_sample_wallet] k"
    by (auto simp: task_panics_def sample_test_def split: worker_kind.split)
  have "load_step ?X ?s1 (sign_with ?X 0 False 0 p ?s1)"
    by (rule load_create [where r = "()" and r' = "()"])
      (use assms(3,4) np s0 in \<open>simp_all add: sample_test_def\<close>)
  then have run: "(load_step ?X)\<^sup>*\<^sup>* s0 (sign_with ?X 0 False 0 p ?s1)"
    using step1 by (meson rtranclp.rtrancl_into_rtrancl rtranclp.rtrancl_refl)
  obtain tx w where "create_signed_transaction (lx_codec ?X) (lx_ecdsa ?X) p (ld_wallets ?s1 ! 0) = (Inr tx, w)"
    by (simp add: create_signed_transaction_def sign_transaction_def sample_test_def sample_ecdsa_def wallet_next_nonce_def)
  note sel = sign_with_sel [OF this, of 0 False]
  show ?thesis
    by (rule that [OF run, of tx]) (simp_all add: sel s0)
qed
theorem load_run_accounts_witness:
  "\<exists>s0 s. begin_load_test (sample_test Standard) Delivered (\<lambda>_. id) (\<lambda>_. id) (\<lambda>_. Delivered) (\<lambda>_. Delivered) () exec_node = Some (Inr s0) \<and>
     (load_step (sample_test Standard))\<^sup>*\<^sup>* s0 s \<and> unat (mc_total_requests (ld_metrics s)) = 1 \<and> length (ld_signed s) = 1"
proof -
  let ?X = "sample_test Standard"
  obtain s0 where s0: "load_start ?X [new_sample_wallet] exec_node = Some s0" "ld_plan s0 = [[Load_Worker 0]]"
    "ld_wallets s0 = [new_sample_wallet]"
    by (simp add: load_start_def test_plan_def stress_plan_def load_workers_def sample_test_def)
  have job: "run_state (worker_job sample_rand (lx_config ?X) [new_sample_wallet] (Load_Worker 0)) () = ((0, fst (run_state (generate_order sample_rand 0) ())), ())"
    by (simp add: sample_test_def default_load_config_def generate_mixed_def run_state_bind sample_rand_def split: prod.split)
  have go: "keeps_going ?X 0 \<lparr>wk_kind = Load_Worker 0, wk_pc = Ready, wk_spawned = 0\<rparr>"
    by (simp add: keeps_going_def time_is_up_def sample_test_def default_load_config_def secs_def)
  obtain s tx where s: "(load_step ?X)\<^sup>*\<^sup>* s0 s" "ld_signed s = [(Load_Worker 0, 0, tx)]" "length (ld_nonces s) = 1"
    "ld_workers s = [\<lparr>wk_kind = Load_Worker 0, wk_pc = Sending False 0 tx 0, wk_spawned = 0\<rparr>]"
    by (rule sample_first_sign [OF s0(1,2) go job])
  define s2 where "s2 = submit_with ?X 0 Delivered False 0 tx 0 s"
  have w2: "ld_workers s2 = [\<lparr>wk_kind = Load_Worker 0, wk_pc = Answered False 0 0 (map_err (submission_error (Load_Worker 0) False)
      (fst (client_submit_transaction (lx_env ?X) Delivered tx (ld_node s)))), wk_spawned = 0\<rparr>]"
    by (simp add: s2_def s(4))
  define s3 where "s3 = record_with ?X 0 False 0 (map_err (submission_error (Load_Worker 0) False)
      (fst (client_submit_transaction (lx_env ?X) Delivered tx (ld_node s)))) 0 (of_nat 1) s2"
  have "load_step ?X s s2" unfolding s2_def by (rule load_submit) (simp_all add: s(4))
  moreover have "load_step ?X s2 s3"
    unfolding s3_def by (rule load_record [where q = "()" and q' = "()"]) (simp_all add: w2 sample_test_def sample_rand_def)
  ultimately have run: "(load_step ?X)\<^sup>*\<^sup>* s0 s3" using s(1) by (meson rtranclp.rtrancl_into_rtrancl)
  have s3: "length (ld_nonces s3) = 1" "ld_signed s3 = ld_signed s" "filter in_flight (ld_workers s3) = []"
    by (simp_all add: s3_def s2_def s(3,4) in_flight_def after_answer_def)
  have beg: "begin_load_test ?X Delivered (\<lambda>_. id) (\<lambda>_. id) (\<lambda>_. Delivered) (\<lambda>_. Delivered) () exec_node = Some (Inr s0)"
    by (rule sample_begin [OF s0(1)])
  have rand: "fastrand_ok (lx_rand ?X)" by (simp add: sample_test_def sample_rand_ok)
  from load_run_accounts [OF beg run rand] s3 s0(3) have "unat (mc_total_requests (ld_metrics s3)) = 1" by simp
  with beg run s3 s(2) show ?thesis by (intro exI [of _ s0] exI [of _ s3]) simp
qed

text \<open>In the aggressive scenario at most one worker runs at a time, because the handles of the
  spawned tasks are not collected before the first is awaited; and all market orders of the second
  phase come from its first worker, however many were asked for: the others are spawned only when
  the time is up.\<close>

lemma aggressive_one_taker:
  assumes "begin_load_test X d between between' net net' r n = Some (Inr s0)"
    and "lc_scenario (lx_config X) = Aggressive" "(load_step X)\<^sup>*\<^sup>* s0 s"
  shows "length (ld_workers s) \<le> 1 \<and> (\<forall>i j tx. (Market_Taker i, j, tx) \<in> set (ld_signed s) \<longrightarrow> i = 0)"
proof -
  obtain ws n' where "load_start X ws n' = Some s0" using begin_load_test_start [OF assms(1)] by blast
  from aggressive_run [OF assms(3) aggressive_start [OF this assms(2)]] show ?thesis
    using aggressive_single [of X s] by (auto simp: aggressive_ok_def)
qed

text \<open>C33: The orders of the matching scenario all cross, every buy order bids at least what every sell
  order asks, and yet none of them matches another: they are immediate-or-cancel orders, so that
  none ever rests in the book, and a market that was empty stays empty without a single fill.\<close>

theorem matching_orders_never_match:
  assumes "fastrand_ok R" "\<forall>(a, x)\<in>set orders. trader_order R market x" "market_empty (tg_book t) market"
  shows "(\<forall>(a, x)\<in>set orders. \<forall>(b, y)\<in>set orders. po_is_buy x \<longrightarrow> \<not> po_is_buy y \<longrightarrow> po_price y \<le> po_price x) \<and>
    market_empty (tg_book (place_all t orders)) market \<and> fill_events (place_all t orders) = fill_events t"
proof -
  have each: "po_market_id x = market \<and> po_time_in_force x = IOC \<and>
      (if po_is_buy x then base_price \<le> po_price x else po_price x \<le> base_price)" if mem: "(a, x) \<in> set orders" for a x
  proof -
    obtain r r' where "run_state (trader_payload R market (po_is_buy x)) r = (TxPayload_PlaceOrder x, r')"
      using bspec [OF assms(2) mem] by (auto simp: trader_order_def)
    from pred_stateD [OF trader_payload_ok [OF assms(1)] this] show ?thesis by auto
  qed
  have "po_price y \<le> po_price x" if "(a, x) \<in> set orders" "(b, y) \<in> set orders" "po_is_buy x" "\<not> po_is_buy y" for a b x y
    using each [OF that(1)] each [OF that(2)] that(3,4) by (auto intro: order_trans)
  with place_all_ioc [OF assms(3), of orders] each show ?thesis by blast
qed

definition sample_trader_order :: "bool \<Rightarrow> PlaceOrderTx" where
  "sample_trader_order is_buyer = \<lparr>po_market_id = 0, po_is_buy = is_buyer, po_order_type = OrderType_Limit,
     po_price = base_price, po_size = 1000000, po_time_in_force = IOC, po_reduce_only = False, po_post_only = False\<rparr>"

theorem matching_orders_never_match_witness:
  "let t = \<lparr>tg_state = genesis_state, tg_ctx = [], tg_book = new_orderbook\<rparr>;
       orders = [(1, sample_trader_order True), (2, sample_trader_order False)] in
     po_price (sample_trader_order False) \<le> po_price (sample_trader_order True) \<and>
     market_empty (tg_book (place_all t orders)) 0 \<and> fill_events (place_all t orders) = []"
proof -
  let ?t = "\<lparr>tg_state = genesis_state, tg_ctx = [], tg_book = new_orderbook\<rparr>"
  let ?os = "[(1, sample_trader_order True), (2, sample_trader_order False)] :: (Address \<times> PlaceOrderTx) list"
  have "trader_order sample_rand 0 (sample_trader_order b)" for b
    by (simp add: trader_order_def trader_payload_def run_state_bind sample_rand_def with_params_def sample_trader_order_def)
  then have "\<forall>(a, x)\<in>set ?os. trader_order sample_rand 0 x" by simp
  moreover have "market_empty (tg_book ?t) 0" "fill_events ?t = []"
    by (simp_all add: market_empty_def new_orderbook_def or_default_def fill_events_def)
  ultimately have "market_empty (tg_book (place_all ?t ?os)) 0 \<and> fill_events (place_all ?t ?os) = []"
    using matching_orders_never_match [OF sample_rand_ok, of ?os 0 ?t] by simp
  then show ?thesis unfolding Let_def by (simp add: sample_trader_order_def)
qed

end
