(* ===== verification/Disk_Format.thy ===== *)
theory Disk_Format
  imports Crash Event_Store
begin

text \<open>
  The bytes in the database of \<open>crates/state/src/rocksdb_storage.rs\<close>: the Borsh encoding of the keys
  (\<open>storage_key.rs\<close>), the traits through which the Merkle tree reads and writes its nodes, and the
  operations of the store on a map from byte strings to byte strings.

  The database is an ordered map, as in \<open>Event_Store\<close>.  The crate of the Merkle tree is a parameter:
  the encodings of its node keys, nodes and leaves, and the two functions of the tree that the store
  calls, which see the database through the node reader only.  The order in which the hash map of
  pending updates is iterated is a parameter too.  Database calls succeed.

  Proved: the store on bytes, with all six kinds of keys in one database, behaves like the typed store
  of \<open>Storage\<close>, in which the Merkle tree is a function of the committed value sets; this holds for
  every sequence of operations and restarts.
\<close>

section \<open>Keys\<close>

datatype 'n disk_key =
    Disk_CurrentVersion
  | Disk_JmtNode 'n
  | Disk_JmtValue B256 u64
  | Disk_LatestVersion B256
  | Disk_Snapshot u64
  | Disk_RightmostLeaf u64

record ('n, 'd, 'l) jmt_borsh =
  node_key_bytes :: "'n \<Rightarrow> u8 list"
  node_key_of :: "u8 list \<Rightarrow> 'n option"
  node_bytes :: "'d \<Rightarrow> u8 list"
  node_of :: "u8 list \<Rightarrow> string + 'd"
  leaf_of :: "u8 list \<Rightarrow> string + 'n \<times> 'l"

text \<open>Borsh: the index of the variant, then the fields.\<close>

fun disk_key_bytes :: "('n, 'd, 'l) jmt_borsh \<Rightarrow> 'n disk_key \<Rightarrow> u8 list" where
  "disk_key_bytes J Disk_CurrentVersion = [0]"
| "disk_key_bytes J (Disk_JmtNode n) = 1 # node_key_bytes J n"
| "disk_key_bytes J (Disk_JmtValue h v) = 2 # be_bytes 32 h @ le_bytes 8 v"
| "disk_key_bytes J (Disk_LatestVersion h) = 3 # be_bytes 32 h"
| "disk_key_bytes J (Disk_Snapshot v) = 4 # le_bytes 8 v"
| "disk_key_bytes J (Disk_RightmostLeaf v) = 5 # le_bytes 8 v"

fun disk_key_of :: "('n, 'd, 'l) jmt_borsh \<Rightarrow> u8 list \<Rightarrow> 'n disk_key option" where
  "disk_key_of J [] = None"
| "disk_key_of J (d # bs) =
     (if d = 0 \<and> bs = [] then Some Disk_CurrentVersion
      else if d = 1 then map_option Disk_JmtNode (node_key_of J bs)
      else if d = 2 \<and> length bs = 40 then Some (Disk_JmtValue (be_word (take 32 bs)) (le_word (drop 32 bs)))
      else if d = 3 \<and> length bs = 32 then Some (Disk_LatestVersion (be_word bs))
      else if d = 4 \<and> length bs = 8 then Some (Disk_Snapshot (le_word bs))
      else if d = 5 \<and> length bs = 8 then Some (Disk_RightmostLeaf (le_word bs))
      else None)"

definition prefix_for_jmt_values :: "u8 list" where "prefix_for_jmt_values = [2]"
definition prefix_for_snapshots :: "u8 list" where "prefix_for_snapshots = [4]"

section \<open>The store on bytes\<close>

type_synonym byte_db = "(u8 list, u8 list) btree_map"

record byte_store =
  bs_db :: byte_db
  bs_version :: u64
  bs_roots :: "u64 \<rightharpoonup> B256"
  bs_pruning :: PruningConfig
  bs_pending :: "B256 \<rightharpoonup> u8 list"

text \<open>The Merkle tree over a node reader: \<open>put_value_set\<close> gives the batch of nodes to write.\<close>

type_synonym ('n, 'd) node_reader = "'n \<Rightarrow> string + 'd option"

record ('n, 'd, 'l) jmt_env =
  jx_borsh :: "('n, 'd, 'l) jmt_borsh"
  jx_put_value_set :: "('n, 'd) node_reader \<Rightarrow> (B256 \<times> u8 list) list \<Rightarrow> u64 \<Rightarrow> string + ('n \<times> 'd) list"
  jx_get_root_hash :: "('n, 'd) node_reader \<Rightarrow> u64 \<Rightarrow> string + B256"
  jx_order :: "(B256 \<rightharpoonup> u8 list) \<Rightarrow> B256 list"

definition u64_of_bytes :: "u8 list \<Rightarrow> u64 option" where
  "u64_of_bytes bytes = (if length bytes = 8 then Some (le_word bytes) else None)"

definition bs_open :: "('n, 'd, 'l) jmt_borsh \<Rightarrow> byte_db \<Rightarrow> PruningConfig \<Rightarrow> byte_store" where
  "bs_open J d config =
     \<lparr>bs_db = d,
      bs_version = (case Option.bind (bt_get d (disk_key_bytes J Disk_CurrentVersion)) u64_of_bytes of Some v \<Rightarrow> v | None \<Rightarrow> 0),
      bs_roots = Map.empty, bs_pruning = config, bs_pending = Map.empty\<rparr>"

definition bs_put :: "('n, 'd, 'l) jmt_borsh \<Rightarrow> 'n disk_key \<Rightarrow> u8 list \<Rightarrow> byte_db \<Rightarrow> byte_db" where
  "bs_put J k bytes d = bt_insert (disk_key_bytes J k) bytes d"

subsection \<open>Reads\<close>

definition bs_get_latest_version :: "('n, 'd, 'l) jmt_borsh \<Rightarrow> byte_db \<Rightarrow> B256 \<Rightarrow> u64 option" where
  "bs_get_latest_version J d h = Option.bind (bt_get d (disk_key_bytes J (Disk_LatestVersion h))) u64_of_bytes"

definition bs_get_value_option :: "('n, 'd, 'l) jmt_borsh \<Rightarrow> byte_db \<Rightarrow> u64 \<Rightarrow> B256 \<Rightarrow> u8 list option" where
  "bs_get_value_option J d max_version h =
     (let value_at = (\<lambda>v. bt_get d (disk_key_bytes J (Disk_JmtValue h v)));
          scan = scan_back (\<lambda>n. value_at (of_nat n)) (unat max_version) in
      case bs_get_latest_version J d h of
        Some latest \<Rightarrow> if latest \<le> max_version then value_at latest else scan
      | None \<Rightarrow> scan)"

definition bs_get :: "('n, 'd, 'l) jmt_borsh \<Rightarrow> byte_store \<Rightarrow> B256 \<Rightarrow> u64 \<Rightarrow> u8 list option" where
  "bs_get J b h ver =
     (case bs_pending b h of Some bytes \<Rightarrow> Some bytes | None \<Rightarrow> bs_get_value_option J (bs_db b) ver h)"

definition get_node_option :: "('n, 'd, 'l) jmt_borsh \<Rightarrow> byte_db \<Rightarrow> ('n, 'd) node_reader" where
  "get_node_option J d n =
     (case bt_get d (disk_key_bytes J (Disk_JmtNode n)) of
        Some bytes \<Rightarrow> bindE (node_of J bytes) (\<lambda>x. Inr (Some x))
      | None \<Rightarrow> Inr None)"

definition get_rightmost_leaf :: "('n, 'd, 'l) jmt_borsh \<Rightarrow> byte_store \<Rightarrow> string + ('n \<times> 'l) option" where
  "get_rightmost_leaf J b =
     (case bt_get (bs_db b) (disk_key_bytes J (Disk_RightmostLeaf (bs_version b))) of
        Some bytes \<Rightarrow> bindE (leaf_of J bytes) (\<lambda>x. Inr (Some x))
      | None \<Rightarrow> Inr None)"

definition bs_get_root :: "byte_store \<Rightarrow> u64 \<Rightarrow> B256" where
  "bs_get_root b ver = (case bs_roots b ver of Some r \<Rightarrow> r | None \<Rightarrow> 0)"

definition bs_list_snapshots :: "('n, 'd, 'l) jmt_borsh \<Rightarrow> byte_db \<Rightarrow> u64 list" where
  "bs_list_snapshots J d =
     sort (List.map_filter (\<lambda>(k, _). case disk_key_of J k of Some (Disk_Snapshot v) \<Rightarrow> Some v | _ \<Rightarrow> None)
       (prefix_iterator d prefix_for_snapshots))"

text \<open>The sum of the lengths of all values, modulo the width of the result.\<close>

definition get_db_size :: "byte_db \<Rightarrow> u64" where
  "get_db_size d = sum_list (map (\<lambda>(_, bytes). of_nat (length bytes)) d)"

subsection \<open>Buffered writes and commit\<close>

definition bs_set :: "byte_store \<Rightarrow> B256 \<Rightarrow> u8 list \<Rightarrow> byte_store" where
  "bs_set b h bytes = b\<lparr>bs_pending := (bs_pending b)(h \<mapsto> bytes)\<rparr>"

definition bs_delete :: "byte_store \<Rightarrow> B256 \<Rightarrow> byte_store" where
  "bs_delete b h = b\<lparr>bs_pending := (bs_pending b)(h := None)\<rparr>"

definition write_node_batch :: "('n, 'd, 'l) jmt_borsh \<Rightarrow> ('n \<times> 'd) list \<Rightarrow> byte_db \<Rightarrow> byte_db" where
  "write_node_batch J nodes d = fold (\<lambda>(k, x). bs_put J (Disk_JmtNode k) (node_bytes J x)) nodes d"

definition store_latest_version :: "('n, 'd, 'l) jmt_borsh \<Rightarrow> u64 \<Rightarrow> B256 \<Rightarrow> byte_db \<Rightarrow> byte_db" where
  "store_latest_version J ver h = bs_put J (Disk_LatestVersion h) (le_bytes 8 ver)"

definition bs_write_pending ::
  "('n, 'd, 'l) jmt_env \<Rightarrow> (B256 \<rightharpoonup> u8 list) \<Rightarrow> u64 \<Rightarrow> byte_store \<Rightarrow> (StateError + unit) \<times> byte_store" where
  "bs_write_pending E pending ver b =
     (if pending = Map.empty then (Inr (), b)
      else
        (let J = jx_borsh E; keys = jx_order E pending;
             value_set = map (\<lambda>h. (h, the (pending h))) keys in
         case jx_put_value_set E (get_node_option J (bs_db b)) value_set ver of
           Inl e \<Rightarrow> (Inl (StorageError (''JMT put_value_set failed: '' @ e)), b)
         | Inr nodes \<Rightarrow>
             (let d1 = write_node_batch J nodes (bs_db b);
                  d2 = fold (\<lambda>(h, bytes). bs_put J (Disk_JmtValue h ver) bytes) value_set d1;
                  d3 = fold (store_latest_version J ver) keys d2 in
              (Inr (), b\<lparr>bs_db := d3\<rparr>))))"

definition bs_state_root :: "('n, 'd, 'l) jmt_env \<Rightarrow> byte_store \<Rightarrow> u64 \<Rightarrow> StateError + B256" where
  "bs_state_root E b ver =
     (case jx_get_root_hash E (get_node_option (jx_borsh E) (bs_db b)) ver of
        Inr root \<Rightarrow> Inr root
      | Inl e \<Rightarrow>
          if sublist ''Root node not found'' e then Inr 0
          else Inl (StorageError (''JMT get_root_hash failed: '' @ e)))"

definition bs_create_snapshot :: "('n, 'd, 'l) jmt_borsh \<Rightarrow> u64 \<Rightarrow> byte_store \<Rightarrow> byte_store" where
  "bs_create_snapshot J ver b =
     b\<lparr>bs_db := bs_put J (Disk_Snapshot ver) (be_bytes 32 (bs_get_root b ver)) (bs_db b)\<rparr>"

definition bs_batch_delete :: "u8 list list \<Rightarrow> byte_db \<Rightarrow> byte_db" where
  "bs_batch_delete ks d = fold bt_remove ks d"

fun bs_should_delete :: "u64 \<Rightarrow> u64 set \<Rightarrow> 'n disk_key option \<Rightarrow> bool" where
  "bs_should_delete before keep (Some (Disk_JmtValue _ ver)) = (ver < before \<and> ver \<notin> keep)"
| "bs_should_delete before keep _ = False"

text \<open>The iterator sees the database as it was when the loop began.\<close>

fun bs_collect ::
  "('n, 'd, 'l) jmt_borsh \<Rightarrow> u64 \<Rightarrow> u64 set \<Rightarrow> byte_db \<Rightarrow> u8 list list \<Rightarrow> nat \<Rightarrow> byte_db \<Rightarrow> nat \<times> byte_db" where
  "bs_collect J before keep [] acc n d = (n, if acc \<noteq> [] then bs_batch_delete acc d else d)"
| "bs_collect J before keep ((k, _) # items) acc n d =
     (if bs_should_delete before keep (disk_key_of J k) then
        (let acc' = acc @ [k] in
         if length acc' \<ge> 10000 then bs_collect J before keep items [] (Suc n) (bs_batch_delete acc' d)
         else bs_collect J before keep items acc' (Suc n) d)
      else bs_collect J before keep items acc n d)"

definition bs_prune_before_version :: "('n, 'd, 'l) jmt_borsh \<Rightarrow> u64 \<Rightarrow> byte_store \<Rightarrow> byte_store" where
  "bs_prune_before_version J before b =
     b\<lparr>bs_db := snd (bs_collect J before (snapshots_to_keep (bs_pruning b) before) (bs_db b) [] 0 (bs_db b))\<rparr>"

definition bs_finish_commit :: "('n, 'd, 'l) jmt_borsh \<Rightarrow> u64 \<Rightarrow> B256 \<Rightarrow> byte_store \<Rightarrow> byte_store" where
  "bs_finish_commit J ver root b =
     (let b1 = b\<lparr>bs_roots := (bs_roots b)(ver \<mapsto> root), bs_version := ver,
                 bs_db := bs_put J Disk_CurrentVersion (le_bytes 8 ver) (bs_db b)\<rparr>;
          config = bs_pruning b in
      if pruning_enabled config then
        (let b2 = (if ver mod snapshot_interval config = 0 then bs_create_snapshot J ver b1 else b1) in
         if ver > prune_before config then bs_prune_before_version J (ver - prune_before config) b2 else b2)
      else b1)"

definition bs_commit :: "('n, 'd, 'l) jmt_env \<Rightarrow> u64 \<Rightarrow> byte_store \<Rightarrow> (StateError + B256) \<times> byte_store" where
  "bs_commit E ver b =
     (let pending = bs_pending b; b0 = b\<lparr>bs_pending := Map.empty\<rparr> in
      bindR (bs_write_pending E pending ver b0) (\<lambda>_ b1.
      bindR (bs_state_root E b1 ver, b1) (\<lambda>root b2.
        (Inr root, bs_finish_commit (jx_borsh E) ver root b2))))"

definition bs_restore_from_snapshot ::
  "('n, 'd, 'l) jmt_borsh \<Rightarrow> u64 \<Rightarrow> byte_store \<Rightarrow> (StateError + unit) \<times> byte_store" where
  "bs_restore_from_snapshot J ver b =
     (case bt_get (bs_db b) (disk_key_bytes J (Disk_Snapshot ver)) of
        None \<Rightarrow> (Inl (StorageError ''Snapshot not found at version ''), b)
      | Some _ \<Rightarrow>
          (Inr (), b\<lparr>bs_version := ver, bs_db := bs_put J Disk_CurrentVersion (le_bytes 8 ver) (bs_db b)\<rparr>))"

section \<open>Encoding of keys\<close>

definition node_codec_ok :: "('n, 'd, 'l) jmt_borsh \<Rightarrow> bool" where
  "node_codec_ok J \<longleftrightarrow> (\<forall>n. node_key_of J (node_key_bytes J n) = Some n) \<and> (\<forall>x. node_of J (node_bytes J x) = Inr x)"

lemma disk_key_of_bytes [simp]: "node_codec_ok J \<Longrightarrow> disk_key_of J (disk_key_bytes J k) = Some k"
  by (cases k) (simp_all add: node_codec_ok_def word_bytes)

lemma disk_key_bytes_inj [simp]:
  "node_codec_ok J \<Longrightarrow> disk_key_bytes J k = disk_key_bytes J k' \<longleftrightarrow> k = k'"
  by (metis disk_key_of_bytes option.inject)

text \<open>In the order of the bytes, versions of a key do not follow each other.\<close>

lemma versions_not_ordered: "disk_key_bytes J (Disk_JmtValue h 256) < disk_key_bytes J (Disk_JmtValue h 1)"
proof -
  have "le_bytes 8 (256 :: u64) < le_bytes 8 (1 :: u64)" by (simp add: le_bytes_def be_bytes_def upt_rec)
  then have "xs @ le_bytes 8 (256 :: u64) < xs @ le_bytes 8 (1 :: u64)" for xs
    by (induction xs) simp_all
  then show ?thesis by simp
qed

declare disk_key_bytes.simps [simp del]

section \<open>What the bytes hold\<close>

fun key_on_disk :: "B256 StorageKey \<Rightarrow> 'n disk_key" where
  "key_on_disk CurrentVersion = Disk_CurrentVersion"
| "key_on_disk (JmtValue h v) = Disk_JmtValue h v"
| "key_on_disk (LatestVersion h) = Disk_LatestVersion h"
| "key_on_disk (Snapshot v) = Disk_Snapshot v"

fun db_value_bytes :: "u8 list db_value \<Rightarrow> u8 list" where
  "db_value_bytes (DbBytes bytes) = bytes"
| "db_value_bytes (DbVersion v) = le_bytes 8 v"
| "db_value_bytes (DbRoot r) = be_bytes 32 r"

fun kind_ok :: "'h StorageKey \<Rightarrow> 'b db_value \<Rightarrow> bool" where
  "kind_ok CurrentVersion x = (\<exists>v. x = DbVersion v)"
| "kind_ok (JmtValue _ _) x = (\<exists>bytes. x = DbBytes bytes)"
| "kind_ok (LatestVersion _) x = (\<exists>v. x = DbVersion v)"
| "kind_ok (Snapshot _) x = (\<exists>r. x = DbRoot r)"

definition value_list :: "('n, 'd, 'l) jmt_env \<Rightarrow> (B256 \<rightharpoonup> u8 list) \<Rightarrow> (B256 \<times> u8 list) list" where
  "value_list E p = map (\<lambda>h. (h, the (p h))) (jx_order E p)"

text \<open>The nodes that the value sets written so far have left, and the tree as a function of these sets.\<close>

definition add_nodes :: "('n, 'd, 'l) jmt_env \<Rightarrow> u64 \<times> (B256 \<rightharpoonup> u8 list) \<Rightarrow> ('n \<rightharpoonup> 'd) \<Rightarrow> ('n \<rightharpoonup> 'd)" where
  "add_nodes E = (\<lambda>(v, p) nodes.
     case jx_put_value_set E (\<lambda>n. Inr (nodes n)) (value_list E p) v of
       Inr batch \<Rightarrow> fold (\<lambda>(k, x) m. m(k \<mapsto> x)) batch nodes
     | Inl _ \<Rightarrow> nodes)"

definition nodes_after :: "('n, 'd, 'l) jmt_env \<Rightarrow> (u64 \<times> (B256 \<rightharpoonup> u8 list)) list \<Rightarrow> 'n \<rightharpoonup> 'd" where
  "nodes_after E log = fold (add_nodes E) log Map.empty"

definition log_jmt :: "('n, 'd, 'l) jmt_env \<Rightarrow> (B256, u8 list) Jmt" where
  "log_jmt E =
     \<lparr>put_value_set = (\<lambda>log p v.
        case jx_put_value_set E (\<lambda>n. Inr (nodes_after E log n)) (value_list E p) v of Inl e \<Rightarrow> Some e | Inr _ \<Rightarrow> None),
      get_root_hash = (\<lambda>log v. jx_get_root_hash E (\<lambda>n. Inr (nodes_after E log n)) v)\<rparr>"

fun layout ::
  "('n, 'd, 'l) jmt_env \<Rightarrow> (B256, u8 list) disk_image \<Rightarrow> 'n disk_key \<Rightarrow> u8 list option" where
  "layout E (m, log) (Disk_JmtNode n) = map_option (node_bytes (jx_borsh E)) (nodes_after E log n)"
| "layout E (m, log) Disk_CurrentVersion = map_option db_value_bytes (m CurrentVersion)"
| "layout E (m, log) (Disk_JmtValue h v) = map_option db_value_bytes (m (JmtValue h v))"
| "layout E (m, log) (Disk_LatestVersion h) = map_option db_value_bytes (m (LatestVersion h))"
| "layout E (m, log) (Disk_Snapshot v) = map_option db_value_bytes (m (Snapshot v))"
| "layout E (m, log) (Disk_RightmostLeaf v) = None"

definition holds :: "('n, 'd, 'l) jmt_env \<Rightarrow> byte_db \<Rightarrow> (B256, u8 list) disk_image \<Rightarrow> bool" where
  "holds E d i \<longleftrightarrow> bt_invar d \<and> (\<forall>k. bt_get d (disk_key_bytes (jx_borsh E) k) = layout E i k) \<and>
     dom (bt_get d) \<subseteq> range (disk_key_bytes (jx_borsh E)) \<and> (\<forall>k x. fst i k = Some x \<longrightarrow> kind_ok k x)"

lemma holds_empty: "holds E [] (Map.empty, [])"
proof -
  have "layout E (Map.empty, []) k = None" for k by (cases k) (simp_all add: nodes_after_def)
  then show ?thesis by (simp add: holds_def dom_def)
qed

lemma layout_key_on_disk [simp]: "layout E i (key_on_disk k) = map_option db_value_bytes (fst i k)"
  by (cases i; cases k) simp_all

lemma key_on_disk_inj [simp]: "key_on_disk k = key_on_disk k' \<longleftrightarrow> k = k'"
  by (cases k; cases k') simp_all

lemma holds_get: "holds E d i \<Longrightarrow> bt_get d (disk_key_bytes (jx_borsh E) (key_on_disk k)) = map_option db_value_bytes (fst i k)"
  by (simp add: holds_def)

lemma layout_put: "layout E (m(k \<mapsto> x), log) k' = (if k' = key_on_disk k then Some (db_value_bytes x) else layout E (m, log) k')"
  by (cases k; cases k') auto

lemma layout_delete: "layout E (m(k := None), log) k' = (if k' = key_on_disk k then None else layout E (m, log) k')"
  by (cases k; cases k') auto

lemma holds_put:
  assumes "node_codec_ok (jx_borsh E)" "holds E d (m, log)" "kind_ok k x"
  shows "holds E (bs_put (jx_borsh E) (key_on_disk k) (db_value_bytes x) d) (m(k \<mapsto> x), log)"
  using assms by (auto simp: holds_def bs_put_def bt_laws layout_put)

lemma holds_delete:
  assumes "node_codec_ok (jx_borsh E)" "holds E d (m, log)"
  shows "holds E (bt_remove (disk_key_bytes (jx_borsh E) (key_on_disk k)) d) (m(k := None), log)"
  using assms by (auto simp: holds_def bt_laws layout_delete split: if_splits)

text \<open>The nodes of a database, whatever its other keys.\<close>

definition node_layout ::
  "('n, 'd, 'l) jmt_borsh \<Rightarrow> ('n disk_key \<Rightarrow> u8 list option) \<Rightarrow> ('n \<rightharpoonup> 'd) \<Rightarrow> 'n disk_key \<Rightarrow> u8 list option" where
  "node_layout J f nodes k = (case k of Disk_JmtNode n \<Rightarrow> map_option (node_bytes J) (nodes n) | _ \<Rightarrow> f k)"

lemma layout_nodes: "layout E (m, log) = node_layout (jx_borsh E) (layout E (m, [])) (nodes_after E log)"
proof
  show "layout E (m, log) k = node_layout (jx_borsh E) (layout E (m, [])) (nodes_after E log) k" for k
    by (cases k) (simp_all add: node_layout_def)
qed

lemma write_node_batch_get:
  assumes "node_codec_ok J" "bt_invar d" "\<forall>k. bt_get d (disk_key_bytes J k) = node_layout J f nodes k"
    "dom (bt_get d) \<subseteq> range (disk_key_bytes J)"
  shows "bt_invar (write_node_batch J batch d) \<and> dom (bt_get (write_node_batch J batch d)) \<subseteq> range (disk_key_bytes J) \<and>
    (\<forall>k. bt_get (write_node_batch J batch d) (disk_key_bytes J k) =
       node_layout J f (fold (\<lambda>(k, x) m. m(k \<mapsto> x)) batch nodes) k)"
  using assms(2-4)
proof (induction batch arbitrary: d nodes)
  case (Cons e batch)
  obtain n x where e: "e = (n, x)" by fastforce
  let ?d = "bs_put J (Disk_JmtNode n) (node_bytes J x) d"
  have inv: "bt_invar ?d" and keys: "dom (bt_get ?d) \<subseteq> range (disk_key_bytes J)"
    using Cons.prems by (auto simp: bs_put_def bt_laws)
  have "\<forall>k. bt_get ?d (disk_key_bytes J k) = node_layout J f (nodes(n \<mapsto> x)) k"
    using Cons.prems assms(1) by (auto simp: bs_put_def bt_laws node_layout_def split: disk_key.splits)
  from Cons.IH [OF inv this keys] show ?case by (simp add: e write_node_batch_def)
qed (simp add: write_node_batch_def)

lemma holds_reader:
  assumes "node_codec_ok (jx_borsh E)" "holds E d (m, log)"
  shows "get_node_option (jx_borsh E) d = (\<lambda>n. Inr (nodes_after E log n))"
proof
  fix n
  have "bt_get d (disk_key_bytes (jx_borsh E) (Disk_JmtNode n)) = map_option (node_bytes (jx_borsh E)) (nodes_after E log n)"
    using assms(2) by (simp add: holds_def)
  then show "get_node_option (jx_borsh E) d n = Inr (nodes_after E log n)"
    using assms(1) by (simp add: get_node_option_def node_codec_ok_def split: option.splits)
qed

section \<open>Single writes\<close>

text \<open>The writes of a commit (\<open>Crash\<close>) on the bytes.\<close>

fun byte_write :: "('n, 'd, 'l) jmt_env \<Rightarrow> (B256, u8 list) db_write \<Rightarrow> byte_db \<Rightarrow> byte_db" where
  "byte_write E (Write_nodes v p) d =
     (case jx_put_value_set E (get_node_option (jx_borsh E) d) (value_list E p) v of
        Inr batch \<Rightarrow> write_node_batch (jx_borsh E) batch d
      | Inl _ \<Rightarrow> d)"
| "byte_write E (Write_put k x) d = bs_put (jx_borsh E) (key_on_disk k) (db_value_bytes x) d"
| "byte_write E (Write_delete k) d = bt_remove (disk_key_bytes (jx_borsh E) (key_on_disk k)) d"

fun write_ok :: "('h, 'b) db_write \<Rightarrow> bool" where
  "write_ok (Write_put k x) = kind_ok k x"
| "write_ok _ = True"

lemma holds_nodes:
  assumes "node_codec_ok (jx_borsh E)" "holds E d (m, log)"
  shows "holds E (byte_write E (Write_nodes v p) d) (m, log @ [(v, p)])"
proof -
  let ?J = "jx_borsh E"
  have eq: "\<forall>k. bt_get d (disk_key_bytes ?J k) = node_layout ?J (layout E (m, [])) (nodes_after E log) k"
    using assms(2) by (simp add: holds_def flip: layout_nodes)
  have na: "nodes_after E (log @ [(v, p)]) = add_nodes E (v, p) (nodes_after E log)" by (simp add: nodes_after_def)
  show ?thesis
  proof (cases "jx_put_value_set E (\<lambda>n. Inr (nodes_after E log n)) (value_list E p) v")
    case (Inl e)
    then have "layout E (m, log @ [(v, p)]) = layout E (m, log)"
      unfolding layout_nodes [of E m log] layout_nodes [of E m "log @ [(v, p)]"] by (simp add: na add_nodes_def)
    with Inl assms show ?thesis by (simp add: holds_reader [OF assms] holds_def)
  next
    case (Inr batch)
    from write_node_batch_get [OF assms(1) _ eq, of batch] assms(2)
    show ?thesis
      by (simp add: holds_reader [OF assms] holds_def layout_nodes [of E m "log @ [(v, p)]"] na add_nodes_def Inr)
  qed
qed

lemma holds_write:
  assumes "node_codec_ok (jx_borsh E)" "holds E d i" "write_ok w"
  shows "holds E (byte_write E w d) (apply_write w i)"
  using assms holds_nodes holds_put holds_delete by (cases w; cases i) (auto simp del: byte_write.simps(1))

lemma holds_writes:
  assumes "node_codec_ok (jx_borsh E)"
  shows "holds E d i \<Longrightarrow> list_all write_ok ws \<Longrightarrow> holds E (fold (byte_write E) ws d) (fold apply_write ws i)"
  by (induction ws arbitrary: d i) (simp_all add: holds_write [OF assms])

section \<open>The byte store simulates the typed store\<close>

definition order_ok :: "('n, 'd, 'l) jmt_env \<Rightarrow> bool" where
  "order_ok E \<longleftrightarrow> (\<forall>p. finite (dom p) \<longrightarrow> set (jx_order E p) = dom p)"

definition stores :: "('n, 'd, 'l) jmt_env \<Rightarrow> byte_store \<Rightarrow> (B256, u8 list) RocksDbStorage \<Rightarrow> bool" where
  "stores E b s \<longleftrightarrow> holds E (bs_db b) (disk_image s) \<and> finite (dom (pending_updates s)) \<and>
     bs_version b = current_version s \<and> bs_roots b = root_cache s \<and> bs_pruning b = pruning_config s \<and>
     bs_pending b = pending_updates s"

subsection \<open>Reads\<close>

lemma u64_of_bytes_le [simp]: "u64_of_bytes (le_bytes 8 v) = Some v"
  by (simp add: u64_of_bytes_def word_bytes)

lemma holds_kind: "holds E d i \<Longrightarrow> fst i k = Some x \<Longrightarrow> kind_ok k x"
  by (simp add: holds_def)

lemma holds_value:
  assumes "holds E d (disk_image s)"
  shows "bt_get d (disk_key_bytes (jx_borsh E) (Disk_JmtValue h v)) = db_get_value s h v"
  using holds_get [OF assms, of "JmtValue h v"] holds_kind [OF assms, of "JmtValue h v"]
    by (auto simp: db_get_value_def disk_image_def split: option.splits)

lemma holds_latest:
  assumes "holds E d (disk_image s)"
  shows "bs_get_latest_version (jx_borsh E) d h = get_latest_version s h"
  using holds_get [OF assms, of "LatestVersion h"] holds_kind [OF assms, of "LatestVersion h"]
    by (auto simp: bs_get_latest_version_def get_latest_version_def disk_image_def split: option.splits)

lemma holds_version:
  assumes "holds E d (m, log)"
  shows "Option.bind (bt_get d (disk_key_bytes (jx_borsh E) Disk_CurrentVersion)) u64_of_bytes =
    (case m CurrentVersion of Some (DbVersion v) \<Rightarrow> Some v | _ \<Rightarrow> None)"
  using holds_get [OF assms, of CurrentVersion] holds_kind [OF assms, of CurrentVersion] by (auto split: option.splits)

lemma holds_get_value_option:
  "holds E d (disk_image s) \<Longrightarrow> bs_get_value_option (jx_borsh E) d v h = get_value_option s v h"
  by (simp add: bs_get_value_option_def get_value_option_def slow_scan_def holds_latest holds_value Let_def
      split: option.split)

lemma stores_get: "stores E b s \<Longrightarrow> bs_get (jx_borsh E) b h v = raw_get s h v"
  by (simp add: stores_def bs_get_def raw_get_def holds_get_value_option split: option.split)

lemma stores_no_rightmost_leaf: "stores E b s \<Longrightarrow> get_rightmost_leaf (jx_borsh E) b = Inr None"
  by (simp add: stores_def holds_def disk_image_def get_rightmost_leaf_def)

lemma stores_open:
  "holds E d i \<Longrightarrow> stores E (bs_open (jx_borsh E) d config) (reopen config i)"
  by (cases i) (auto simp: stores_def bs_open_def reopen_def open_storage_def disk_image_def holds_version
      split: option.split db_value.split)

subsection \<open>Snapshots\<close>

definition iter_ok :: "(('h StorageKey \<rightharpoonup> 'b db_value) \<Rightarrow> 'h StorageKey list) \<Rightarrow> bool" where
  "iter_ok it \<longleftrightarrow> iter_complete it \<and> (\<forall>m. finite (dom m) \<longrightarrow> distinct (it m))"

lemma holds_finite:
  assumes "node_codec_ok (jx_borsh E)" "holds E d (m, log)"
  shows "finite (dom m)"
proof (rule inj_on_finite)
  show "inj_on (\<lambda>k. disk_key_bytes (jx_borsh E) (key_on_disk k)) (dom m)"
    using assms(1) by (simp add: inj_on_def)
  show "(\<lambda>k. disk_key_bytes (jx_borsh E) (key_on_disk k)) ` dom m \<subseteq> set (map fst d)"
  proof
    fix bs assume "bs \<in> (\<lambda>k. disk_key_bytes (jx_borsh E) (key_on_disk k)) ` dom m"
    then have "bs \<in> dom (bt_get d)" using holds_get [OF assms(2)] by auto
    then show "bs \<in> set (map fst d)"
      by (simp add: bt_get_map_of dom_map_of_conv_image_fst)
  qed
qed simp

lemma distinct_map_filter:
  assumes "distinct xs" "\<And>x y z. x \<in> set xs \<Longrightarrow> y \<in> set xs \<Longrightarrow> f x = Some z \<Longrightarrow> f y = Some z \<Longrightarrow> x = y"
  shows "distinct (List.map_filter f xs)"
  using assms
proof (induction xs)
  case (Cons x xs)
  then have "distinct (List.map_filter f xs)" by simp
  with Cons.prems show ?case
    by (fastforce simp: List.map_filter_def split: option.split)
qed (simp add: List.map_filter_def)

lemma set_map_filter: "set (List.map_filter f xs) = {z. \<exists>x\<in>set xs. f x = Some z}"
  by (force simp: List.map_filter_def)

lemma sort_unique: "distinct xs \<Longrightarrow> distinct ys \<Longrightarrow> set xs = set ys \<Longrightarrow> sort xs = sort (ys :: 'a::linorder list)"
  by (rule sorted_distinct_set_unique) simp_all

lemma typed_snapshots:
  assumes "iter_ok it" "finite (dom (db s))"
  shows "distinct (List.map_filter (\<lambda>k. case k of Snapshot v \<Rightarrow> Some v | _ \<Rightarrow> None) (it (db s)))"
    and "set (List.map_filter (\<lambda>k. case k of Snapshot v \<Rightarrow> Some v | _ \<Rightarrow> None) (it (db s))) = {v. db s (Snapshot v) \<noteq> None}"
proof -
  have it: "distinct (it (db s))" "set (it (db s)) = dom (db s)"
    using assms by (simp_all add: iter_ok_def iter_complete_def)
  have snap: "(case k of Snapshot v \<Rightarrow> Some v | _ \<Rightarrow> None) = Some v \<longleftrightarrow> k = Snapshot v" for k :: "'a StorageKey" and v
    by (cases k) auto
  show "distinct (List.map_filter (\<lambda>k. case k of Snapshot v \<Rightarrow> Some v | _ \<Rightarrow> None) (it (db s)))"
    by (rule distinct_map_filter [OF it(1)]) (simp add: snap)
  show "set (List.map_filter (\<lambda>k. case k of Snapshot v \<Rightarrow> Some v | _ \<Rightarrow> None) (it (db s))) = {v. db s (Snapshot v) \<noteq> None}"
    by (auto simp: set_map_filter it(2) snap)
qed

definition snapshot_of :: "('n, 'd, 'l) jmt_borsh \<Rightarrow> u8 list \<times> u8 list \<Rightarrow> u64 option" where
  "snapshot_of J = (\<lambda>(k, _). case disk_key_of J k of Some (Disk_Snapshot v) \<Rightarrow> Some v | _ \<Rightarrow> None)"

lemma snapshot_of_iff:
  assumes "node_codec_ok J" "fst e \<in> range (disk_key_bytes J)"
  shows "snapshot_of J e = Some v \<longleftrightarrow> fst e = disk_key_bytes J (Disk_Snapshot v)"
proof -
  obtain k where "fst e = disk_key_bytes J k" using assms(2) by blast
  with assms(1) show ?thesis by (cases e) (auto simp: snapshot_of_def split: disk_key.splits)
qed

lemma holds_snapshots:
  assumes J: "node_codec_ok (jx_borsh E)" and h: "holds E d (m, log)"
  shows "distinct (List.map_filter (snapshot_of (jx_borsh E)) (prefix_iterator d prefix_for_snapshots))"
    and "set (List.map_filter (snapshot_of (jx_borsh E)) (prefix_iterator d prefix_for_snapshots)) = {v. m (Snapshot v) \<noteq> None}"
proof -
  let ?J = "jx_borsh E"
  have d: "distinct (map fst d)" using h by (simp add: holds_def bt_invar_def strict_sorted_iff)
  have keys: "fst e \<in> range (disk_key_bytes ?J)" if "e \<in> set d" for e
    using h that by (auto simp: holds_def bt_get_map_of dom_map_of_conv_image_fst)
  then have of: "snapshot_of ?J e = Some v \<longleftrightarrow> fst e = disk_key_bytes ?J (Disk_Snapshot v)" if "e \<in> set d" for e v
    using snapshot_of_iff [OF J] that by blast
  show "distinct (List.map_filter (snapshot_of ?J) (prefix_iterator d prefix_for_snapshots))"
  proof (rule distinct_map_filter)
    show "distinct (prefix_iterator d prefix_for_snapshots)"
      using d by (simp add: prefix_iterator_def distinct_map)
    fix x y z
    assume "x \<in> set (prefix_iterator d prefix_for_snapshots)" "y \<in> set (prefix_iterator d prefix_for_snapshots)"
      "snapshot_of ?J x = Some z" "snapshot_of ?J y = Some z"
    then have "x \<in> set d" "y \<in> set d" "fst x = fst y" using of by (auto simp: prefix_iterator_def)
    with d show "x = y" by (auto simp: distinct_map dest: inj_onD)
  qed
  have "prefix_for_snapshots \<le> disk_key_bytes ?J (Disk_Snapshot v)" for v
    by (simp add: prefix_for_snapshots_def disk_key_bytes.simps)
  then have "v \<in> set (List.map_filter (snapshot_of ?J) (prefix_iterator d prefix_for_snapshots)) \<longleftrightarrow>
      disk_key_bytes ?J (Disk_Snapshot v) \<in> fst ` set d" for v
    using of by (force simp: set_map_filter prefix_iterator_def)
  moreover have "disk_key_bytes ?J (Disk_Snapshot v) \<in> fst ` set d \<longleftrightarrow> m (Snapshot v) \<noteq> None" for v
    using holds_get [OF h, of "Snapshot v"]
    by (metis bt_get_map_of dom_map_of_conv_image_fst domIff fst_conv key_on_disk.simps(4) map_option_is_None)
  ultimately show "set (List.map_filter (snapshot_of ?J) (prefix_iterator d prefix_for_snapshots)) = {v. m (Snapshot v) \<noteq> None}"
    by blast
qed

lemma stores_list_snapshots:
  assumes "node_codec_ok (jx_borsh E)" "iter_ok it" "stores E b s"
  shows "bs_list_snapshots (jx_borsh E) (bs_db b) = list_snapshots it s"
proof -
  have h: "holds E (bs_db b) (db s, jmt_log s)" using assms(3) by (simp add: stores_def disk_image_def)
  show ?thesis
    unfolding bs_list_snapshots_def list_snapshots_def snapshot_of_def [symmetric]
    using holds_snapshots [OF assms(1) h] typed_snapshots [OF assms(2) holds_finite [OF assms(1) h]]
    by (intro sort_unique) simp_all
qed

subsection \<open>Pruning\<close>

lemma batch_delete_get: "bt_get (bs_batch_delete ks d) = (\<lambda>k. if k \<in> set ks then None else bt_get d k)"
  by (induction ks arbitrary: d) (auto simp: bs_batch_delete_def bt_get_remove fun_eq_iff)

lemma batch_delete_invar: "bt_invar d \<Longrightarrow> bt_invar (bs_batch_delete ks d)"
  by (induction ks arbitrary: d) (simp_all add: bs_batch_delete_def bt_laws)

lemma bs_collect_filter:
  "bs_collect J before keep items acc n d =
     (let old = map fst (filter (\<lambda>(k, _). bs_should_delete before keep (disk_key_of J k)) items) in
      (n + length old, bs_batch_delete (acc @ old) d))"
  by (induction J before keep items acc n d rule: bs_collect.induct)
    (simp_all add: Let_def bs_batch_delete_def)

lemma layout_kept:
  "layout E (\<lambda>k. if kept config before k then m k else None, log) k =
     (if bs_should_delete before (snapshots_to_keep config before) (Some k) then None else layout E (m, log) k)"
  by (cases k) (auto simp: kept_def snapshots_to_keep_def)

lemma holds_prune:
  assumes J: "node_codec_ok (jx_borsh E)" and h: "holds E d (m, log)"
  shows "holds E (snd (bs_collect (jx_borsh E) before (snapshots_to_keep config before) d [] 0 d))
    (\<lambda>k. if kept config before k then m k else None, log)"
proof -
  let ?J = "jx_borsh E" and ?del = "bs_should_delete before (snapshots_to_keep config before)"
  let ?d = "snd (bs_collect ?J before (snapshots_to_keep config before) d [] 0 d)"
  have d: "?d = bs_batch_delete (map fst (filter (\<lambda>(k, _). ?del (disk_key_of ?J k)) d)) d"
    by (simp add: bs_collect_filter Let_def)
  have dom: "fst ` set d = dom (bt_get d)" by (simp add: bt_get_map_of dom_map_of_conv_image_fst)
  have get: "bt_get ?d bs = (if ?del (disk_key_of ?J bs) then None else bt_get d bs)" for bs
  proof (cases "bs \<in> fst ` set d")
    case True
    then show ?thesis by (force simp: d batch_delete_get)
  next
    case False
    then have "bt_get d bs = None" by (simp add: dom domIff)
    then show ?thesis by (simp add: d batch_delete_get)
  qed
  have "\<forall>k. bt_get ?d (disk_key_bytes ?J k) = layout E (\<lambda>k. if kept config before k then m k else None, log) k"
    using h J by (simp add: get layout_kept holds_def)
  moreover have "dom (bt_get ?d) \<subseteq> range (disk_key_bytes ?J)"
    using h by (force simp: holds_def get split: if_splits)
  moreover have "bt_invar ?d" using h by (simp add: d holds_def batch_delete_invar)
  ultimately show ?thesis using h by (auto simp: holds_def split: if_splits)
qed

subsection \<open>Commit\<close>

lemma pending_writes_ok: "list_all write_ok (pending_writes v p ks)"
  by (auto simp: pending_writes_def value_writes_def version_writes_def list_all_iff)

lemma byte_write_put: "byte_write E (Write_put k x) = bs_put (jx_borsh E) (key_on_disk k) (db_value_bytes x)"
  by (rule ext) simp

lemma bs_write_pending_writes:
  assumes "jx_put_value_set E (get_node_option (jx_borsh E) (bs_db b)) (value_list E p) v = Inr nodes" "p \<noteq> Map.empty"
  shows "bs_write_pending E p v b = (Inr (), b\<lparr>bs_db := fold (byte_write E) (pending_writes v p (jx_order E p)) (bs_db b)\<rparr>)"
  using assms
  by (simp add: bs_write_pending_def Let_def value_list_def pending_writes_def value_writes_def version_writes_def
      fold_map comp_def byte_write_put store_latest_version_def [abs_def])

lemma stores_write_pending:
  assumes J: "node_codec_ok (jx_borsh E)" "order_ok E" and st: "stores E b s" and fin: "finite (dom p)"
    and run: "write_pending (log_jmt E) p v s = (r, s1)"
  shows "\<exists>b1. bs_write_pending E p v b = (r, b1) \<and> stores E b1 s1"
proof (cases "p = Map.empty")
  case True
  then show ?thesis using st run by (simp add: write_pending_def bs_write_pending_def)
next
  case False
  have h: "holds E (bs_db b) (db s, jmt_log s)" using st by (simp add: stores_def disk_image_def)
  note reader = holds_reader [OF J(1) h]
  show ?thesis
  proof (cases "jx_put_value_set E (\<lambda>n. Inr (nodes_after E (jmt_log s) n)) (value_list E p) v")
    case (Inl e)
    then show ?thesis
      using st run False reader
      by (simp add: write_pending_def bs_write_pending_def log_jmt_def Let_def value_list_def)
  next
    case (Inr nodes)
    then have r: "r = Inr ()" using run False by (simp add: write_pending_def log_jmt_def)
    have "fold apply_write (pending_writes v p (jx_order E p)) (disk_image s) = disk_image s1"
      by (rule apply_pending [OF run [unfolded r]]) (use J(2) fin in \<open>simp add: order_ok_def\<close>)
    then have "holds E (fold (byte_write E) (pending_writes v p (jx_order E p)) (bs_db b)) (disk_image s1)"
      using holds_writes [OF J(1) h pending_writes_ok, of v p "jx_order E p"] by (simp add: disk_image_def)
    moreover have "current_version s1 = current_version s \<and> root_cache s1 = root_cache s \<and> pruning_config s1 = pruning_config s \<and>
        pending_updates s1 = pending_updates s"
      using run by (auto simp: write_pending_def store_values_def store_latest_versions_def split: if_splits option.splits)
    ultimately show ?thesis
      using st bs_write_pending_writes [OF Inr [folded reader] False] r by (simp add: stores_def)
  qed
qed

lemma stores_root: "node_codec_ok (jx_borsh E) \<Longrightarrow> stores E b s \<Longrightarrow> bs_state_root E b v = calculate_state_root (log_jmt E) s v"
  using holds_reader [of E "bs_db b" "db s" "jmt_log s"]
  by (simp add: stores_def disk_image_def bs_state_root_def calculate_state_root_def log_jmt_def)

lemma stores_version:
  assumes "node_codec_ok (jx_borsh E)" "stores E b s"
  shows "stores E (b\<lparr>bs_version := v, bs_db := bs_put (jx_borsh E) Disk_CurrentVersion (le_bytes 8 v) (bs_db b)\<rparr>)
    (s\<lparr>current_version := v, db := (db s)(CurrentVersion \<mapsto> DbVersion v)\<rparr>)"
  using assms holds_put [OF assms(1), of "bs_db b" "db s" "jmt_log s" CurrentVersion "DbVersion v"]
  by (simp add: stores_def disk_image_def)

lemma stores_create_snapshot:
  assumes "node_codec_ok (jx_borsh E)" "stores E b s"
  shows "stores E (bs_create_snapshot (jx_borsh E) v b) (create_snapshot s v)"
  using assms holds_put [OF assms(1), of "bs_db b" "db s" "jmt_log s" "Snapshot v" "DbRoot (get_root s v)"]
  by (simp add: stores_def disk_image_def bs_create_snapshot_def create_snapshot_def bs_get_root_def get_root_def)

lemma stores_prune:
  assumes "node_codec_ok (jx_borsh E)" "iter_complete it" "stores E b s"
  shows "stores E (bs_prune_before_version (jx_borsh E) before b) (prune_before_version it s before)"
proof -
  have h: "holds E (bs_db b) (db s, jmt_log s)" using assms(3) by (simp add: stores_def disk_image_def)
  show ?thesis
    using holds_prune [OF assms(1) h] assms(3)
    by (simp add: prune_before_version_db [OF assms(2) holds_finite [OF assms(1) h]] bs_prune_before_version_def
        stores_def disk_image_def)
qed

lemma stores_finish_commit:
  assumes "node_codec_ok (jx_borsh E)" "iter_complete it" "stores E b s"
  shows "stores E (bs_finish_commit (jx_borsh E) v root b) (finish_commit it v root s)"
proof -
  have cfg: "bs_pruning b = pruning_config s" using assms(3) by (simp add: stores_def)
  define b1 where "b1 = b\<lparr>bs_roots := (bs_roots b)(v \<mapsto> root), bs_version := v,
    bs_db := bs_put (jx_borsh E) Disk_CurrentVersion (le_bytes 8 v) (bs_db b)\<rparr>"
  define s1 where "s1 = s\<lparr>root_cache := (root_cache s)(v \<mapsto> root), current_version := v,
    db := (db s)(CurrentVersion \<mapsto> DbVersion v)\<rparr>"
  have "stores E (b\<lparr>bs_roots := (bs_roots b)(v \<mapsto> root)\<rparr>) (s\<lparr>root_cache := (root_cache s)(v \<mapsto> root)\<rparr>)"
    using assms(3) by (simp add: stores_def disk_image_def)
  from stores_version [OF assms(1) this, of v] have s1: "stores E b1 s1" by (simp add: b1_def s1_def)
  show ?thesis
    unfolding bs_finish_commit_def finish_commit_def Let_def cfg b1_def [symmetric] s1_def [symmetric]
    using s1 stores_create_snapshot [OF assms(1) s1, of v] stores_prune [OF assms(1,2)] by simp
qed

lemma stores_commit:
  assumes J: "node_codec_ok (jx_borsh E)" "order_ok E" "iter_complete it" and st: "stores E b s"
    and run: "commit (log_jmt E) it s v = (r, s')"
  shows "\<exists>b'. bs_commit E v b = (r, b') \<and> stores E b' s'"
proof -
  let ?s0 = "s\<lparr>pending_updates := Map.empty\<rparr>" and ?b0 = "b\<lparr>bs_pending := Map.empty\<rparr>"
  have st0: "stores E ?b0 ?s0" and p: "bs_pending b = pending_updates s" "finite (dom (pending_updates s))"
    using st by (simp_all add: stores_def disk_image_def)
  obtain w s1 where w: "write_pending (log_jmt E) (pending_updates s) v ?s0 = (w, s1)" by fastforce
  obtain b1 where b1: "bs_write_pending E (pending_updates s) v ?b0 = (w, b1)" "stores E b1 s1"
    using stores_write_pending [OF J(1,2) st0 p(2) w] by blast
  note simps = bs_commit_def commit_def Let_def p(1) w b1(1) bindR_def stores_root [OF J(1) b1(2)]
  show ?thesis
    using run b1(2) stores_finish_commit [OF J(1,3) b1(2)] by (auto simp: simps split: sum.splits)
qed

lemma stores_restore:
  assumes "node_codec_ok (jx_borsh E)" "stores E b s" "restore_from_snapshot s v = (r, s')"
  shows "\<exists>b'. bs_restore_from_snapshot (jx_borsh E) v b = (r, b') \<and> stores E b' s'"
proof -
  have h: "holds E (bs_db b) (disk_image s)" using assms(2) by (simp add: stores_def)
  show ?thesis
    using assms(3) holds_get [OF h, of "Snapshot v"] assms(2) stores_version [OF assms(1,2), of v]
    by (auto simp: restore_from_snapshot_def bs_restore_from_snapshot_def disk_image_def split: option.splits)
qed

text \<open>A crash during a commit leaves the same on bytes as on the typed database.\<close>

lemma commit_writes_ok: "list_all write_ok (commit_writes it ks s v root)"
  using pending_writes_ok [of v "pending_updates s" ks]
  by (auto simp: commit_writes_def Let_def snapshot_writes_def prune_writes_def list_all_iff)

lemma byte_crash_refines:
  assumes "node_codec_ok (jx_borsh E)" "stores E b s" "prefix ws (commit_writes it ks s v root)"
  shows "stores E (bs_open (jx_borsh E) (fold (byte_write E) ws (bs_db b)) config)
    (reopen config (fold apply_write ws (disk_image s)))"
proof -
  have "list_all write_ok ws"
    using commit_writes_ok [of it ks s v root] assms(3) by (auto simp: prefix_def)
  moreover have "holds E (bs_db b) (disk_image s)" using assms(2) by (simp add: stores_def)
  ultimately show ?thesis by (intro stores_open holds_writes [OF assms(1)])
qed

section \<open>Runs\<close>

datatype store_op =
    Op_set B256 "u8 list"
  | Op_delete B256
  | Op_get B256 u64
  | Op_commit u64
  | Op_root u64
  | Op_snapshots
  | Op_restore u64
  | Op_restart PruningConfig

datatype store_out =
    Out_done
  | Out_value "u8 list option"
  | Out_commit "StateError + B256"
  | Out_root B256
  | Out_snapshots "u64 list"
  | Out_restore "StateError + unit"

fun byte_step :: "('n, 'd, 'l) jmt_env \<Rightarrow> store_op \<Rightarrow> byte_store \<Rightarrow> store_out \<times> byte_store" where
  "byte_step E (Op_set h bytes) b = (Out_done, bs_set b h bytes)"
| "byte_step E (Op_delete h) b = (Out_done, bs_delete b h)"
| "byte_step E (Op_get h v) b = (Out_value (bs_get (jx_borsh E) b h v), b)"
| "byte_step E (Op_commit v) b = apfst Out_commit (bs_commit E v b)"
| "byte_step E (Op_root v) b = (Out_root (bs_get_root b v), b)"
| "byte_step E Op_snapshots b = (Out_snapshots (bs_list_snapshots (jx_borsh E) (bs_db b)), b)"
| "byte_step E (Op_restore v) b = apfst Out_restore (bs_restore_from_snapshot (jx_borsh E) v b)"
| "byte_step E (Op_restart config) b = (Out_done, bs_open (jx_borsh E) (bs_db b) config)"

fun typed_step ::
  "(B256, u8 list) Jmt \<Rightarrow> ((B256 StorageKey \<rightharpoonup> u8 list db_value) \<Rightarrow> B256 StorageKey list) \<Rightarrow> store_op \<Rightarrow>
     (B256, u8 list) RocksDbStorage \<Rightarrow> store_out \<times> (B256, u8 list) RocksDbStorage" where
  "typed_step jmt it (Op_set h bytes) s = (Out_done, raw_set s h bytes)"
| "typed_step jmt it (Op_delete h) s = (Out_done, raw_delete s h)"
| "typed_step jmt it (Op_get h v) s = (Out_value (raw_get s h v), s)"
| "typed_step jmt it (Op_commit v) s = apfst Out_commit (commit jmt it s v)"
| "typed_step jmt it (Op_root v) s = (Out_root (get_root s v), s)"
| "typed_step jmt it Op_snapshots s = (Out_snapshots (list_snapshots it s), s)"
| "typed_step jmt it (Op_restore v) s = apfst Out_restore (restore_from_snapshot s v)"
| "typed_step jmt it (Op_restart config) s = (Out_done, reopen config (disk_image s))"

fun run_ops :: "('o \<Rightarrow> 's \<Rightarrow> 'a \<times> 's) \<Rightarrow> 'o list \<Rightarrow> 's \<Rightarrow> 'a list \<times> 's" where
  "run_ops step [] s = ([], s)"
| "run_ops step (op # ops) s = (case step op s of (x, s1) \<Rightarrow> apfst (Cons x) (run_ops step ops s1))"

lemma byte_step_refines:
  assumes J: "node_codec_ok (jx_borsh E)" "order_ok E" "iter_ok it" and st: "stores E b s"
    and run: "typed_step (log_jmt E) it op s = (x, s')"
  shows "\<exists>b'. byte_step E op b = (x, b') \<and> stores E b' s'"
proof (cases op)
  case (Op_commit v)
  obtain r where r: "commit (log_jmt E) it s v = (r, s')" "x = Out_commit r"
    using run Op_commit by (cases "commit (log_jmt E) it s v") auto
  have "iter_complete it" using J(3) by (simp add: iter_ok_def)
  from stores_commit [OF J(1,2) this st r(1)] show ?thesis using Op_commit r(2) by auto
next
  case (Op_restore v)
  obtain r where r: "restore_from_snapshot s v = (r, s')" "x = Out_restore r"
    using run Op_restore by (cases "restore_from_snapshot s v") auto
  from stores_restore [OF J(1) st r(1)] show ?thesis using Op_restore r(2) by auto
next
  case (Op_restart config)
  have "holds E (bs_db b) (disk_image s)" using st by (simp add: stores_def)
  from stores_open [OF this, of config] show ?thesis using run Op_restart by auto
next
  case Op_snapshots
  then show ?thesis using run st stores_list_snapshots [OF J(1,3) st] by auto
qed (use run st stores_get [OF st] in \<open>auto simp: stores_def raw_set_def raw_delete_def bs_set_def bs_delete_def
    bs_get_root_def get_root_def disk_image_def\<close>)

lemma byte_run_refines:
  assumes "node_codec_ok (jx_borsh E)" "order_ok E" "iter_ok it"
  shows "stores E b s \<Longrightarrow> fst (run_ops (byte_step E) ops b) = fst (run_ops (typed_step (log_jmt E) it) ops s) \<and>
    stores E (snd (run_ops (byte_step E) ops b)) (snd (run_ops (typed_step (log_jmt E) it) ops s))"
proof (induction ops arbitrary: b s)
  case (Cons op ops)
  obtain x s' where t: "typed_step (log_jmt E) it op s = (x, s')" by fastforce
  then obtain b' where "byte_step E op b = (x, b')" "stores E b' s'"
    using byte_step_refines [OF assms Cons.prems] by blast
  with t Cons.IH [of b' s'] show ?case by (auto simp: apfst_def map_prod_def split: prod.split)
qed simp

section \<open>Properties\<close>

text \<open>C21: The database of bytes implements the versioned store: for every sequence of reads, buffered
  writes, commits, snapshot queries, restores and restarts that begins with an empty directory, the store
  that keeps all its keys and Merkle nodes as byte strings in one database answers as the typed store
  does, in which keys of different kinds are apart and the Merkle tree is a function of the value sets
  written.  The query for the rightmost leaf of the tree always answers that there is none.\<close>

theorem byte_store_refines:
  assumes "node_codec_ok (jx_borsh E)" "order_ok E" "iter_ok it"
  shows "fst (run_ops (byte_step E) ops (bs_open (jx_borsh E) [] config)) =
      fst (run_ops (typed_step (log_jmt E) it) ops (open_storage Map.empty [] config)) \<and>
    get_rightmost_leaf (jx_borsh E) (snd (run_ops (byte_step E) ops (bs_open (jx_borsh E) [] config))) = Inr None"
proof -
  have "stores E (bs_open (jx_borsh E) [] config) (open_storage Map.empty [] config)"
    using stores_open [OF holds_empty, of E config] by (simp add: reopen_def)
  from byte_run_refines [OF assms this] stores_no_rightmost_leaf show ?thesis by blast
qed

text \<open>A tree with one node for each key, named by its hash.\<close>

definition sample_borsh :: "(u8 list, u8 list, unit) jmt_borsh" where
  "sample_borsh = \<lparr>node_key_bytes = id, node_key_of = Some, node_bytes = id, node_of = Inr, leaf_of = (\<lambda>_. Inl [])\<rparr>"

definition sample_tree :: "(u8 list, u8 list, unit) jmt_env" where
  "sample_tree = \<lparr>jx_borsh = sample_borsh,
     jx_put_value_set = (\<lambda>_ vs _. Inr (map (\<lambda>(h, bytes). (be_bytes 32 h, bytes)) vs)),
     jx_get_root_hash = (\<lambda>_ _. Inr 42), jx_order = (\<lambda>p. sorted_list_of_set (dom p))\<rparr>"

definition sample_pruning :: PruningConfig where
  "sample_pruning = \<lparr>snapshot_interval = 1, prune_before = 10, pruning_enabled = False\<rparr>"

definition sample_ops :: "store_op list" where
  "sample_ops = [Op_set 1 [7], Op_commit 1, Op_restart sample_pruning, Op_get 1 1, Op_restore 5]"

lemma iter_ok_exists: "iter_ok (\<lambda>m. SOME ks. set ks = dom m \<and> distinct ks)"
proof -
  have "set (SOME ks. set ks = dom m \<and> distinct ks) = dom m \<and> distinct (SOME ks. set ks = dom m \<and> distinct ks)"
    if "finite (dom m)" for m :: "'a StorageKey \<rightharpoonup> 'b db_value"
    using finite_distinct_list [OF that] by (rule someI_ex)
  then show ?thesis by (simp add: iter_ok_def iter_complete_def)
qed

theorem byte_store_refines_witness:
  "fst (run_ops (byte_step sample_tree) sample_ops (bs_open sample_borsh [] sample_pruning)) =
     [Out_done, Out_commit (Inr 42), Out_done, Out_value (Some [7]),
      Out_restore (Inl (StorageError ''Snapshot not found at version ''))]"
proof -
  let ?it = "\<lambda>m. SOME ks. set ks = dom m \<and> distinct ks"
  have "jx_borsh sample_tree = sample_borsh" by (simp add: sample_tree_def)
  moreover have "node_codec_ok sample_borsh" by (simp add: node_codec_ok_def sample_borsh_def)
  moreover have "order_ok sample_tree" by (simp add: order_ok_def sample_tree_def)
  ultimately have "fst (run_ops (byte_step sample_tree) sample_ops (bs_open sample_borsh [] sample_pruning)) =
      fst (run_ops (typed_step (log_jmt sample_tree) ?it) sample_ops (open_storage Map.empty [] sample_pruning))"
    using byte_store_refines [OF _ _ iter_ok_exists, of sample_tree sample_ops sample_pruning] by simp
  also have "\<dots> = [Out_done, Out_commit (Inr 42), Out_done, Out_value (Some [7]),
      Out_restore (Inl (StorageError ''Snapshot not found at version ''))]"
    by (simp add: sample_ops_def open_storage_def raw_set_def commit_def Let_def write_pending_def log_jmt_def sample_tree_def
        store_values_def store_latest_versions_def calculate_state_root_def finish_commit_def sample_pruning_def reopen_def
        disk_image_def raw_get_def get_value_option_def get_latest_version_def db_get_value_def restore_from_snapshot_def fun_upd_def fun_eq_iff)
  finally show ?thesis .
qed

end
