(* ===== verification/Spec2Isabelle.thy ===== *)
theory Spec2Isabelle
  imports Prelude Core_Types Storage State_Manager Transactions Engine_Base Orderbook Position_Manager
    Risk Funding Accounts Orders Trading_Invariants Liquidation Auth Mempool Engine Recovery Event_Store
    Executor Query_Node Rpc Rpc_Middleware Node_Invariants Snapshot_Exporter Crash
    Block_Writes Service Restart Websocket Rpc_Server Load_Client Load_Runner
    Disk_Format
begin

text \<open>
  A verification library for \<open>pranklin\<close>, an exchange for perpetual futures that runs as the
  application of a rollup node (\<open>src/crates\<close>).  A node keeps an authenticated key-value state, a
  mempool of signed transactions, an in-memory order book and a registry of agents; a block is a
  list of transactions executed one after the other on the engine, followed by a commit.

  \<^bold>\<open>Parts and theories.\<close>  Each theory models one component, in the order of the calls:

  \<^item> \<open>Prelude\<close>: machine integers with the checked and saturating operations of Rust, results as sums,
    the combinators for \<open>?\<close> in functions with and without \<open>&mut\<close> state, ordered maps (\<open>BTreeMap\<close>)
    with their interface \<open>ordered_map\<close>.
  \<^item> \<open>Core_Types\<close>: \<open>crates/types\<close>: permissions, orders, positions, markets, funding, assets, fills,
    events, with their methods.
  \<^item> \<open>Storage\<close>: \<open>crates/state/src/rocksdb_storage.rs\<close>: the pending buffer, versioned values, the index of
    latest versions, commit, snapshots, pruning.  The interface \<open>buffered_store\<close> says what the layer
    above relies on.  The development of the layers above uses a typed store; the refinement to
    bytes under a lossless codec is proved here.
  \<^item> \<open>State_Manager\<close>: \<open>crates/state/src/lib.rs\<close> and \<open>index_manager.rs\<close>: typed getters and setters.  The
    interfaces \<open>cell\<close> and \<open>ledger\<close> are interpreted on nonces, funding rates, orders and balances.
  \<^item> \<open>Transactions\<close>: \<open>crates/tx\<close>: payloads, EIP-712 and raw signing hashes, decoding, declared accesses.
  \<^item> \<open>Engine_Base\<close>: errors and constants of \<open>crates/engine\<close>.
  \<^item> \<open>Orderbook\<close>, \<open>Position_Manager\<close>, \<open>Risk\<close>, \<open>Funding\<close>, \<open>Liquidation\<close>: the files of \<open>crates/engine/src\<close> of
    these names.
  \<^item> \<open>Accounts\<close>, \<open>Orders\<close>: the services of \<open>crates/engine/src/services\<close>.
  \<^item> \<open>Trading_Invariants\<close>: what the order operations keep, successful or not, through the interface
    \<open>trading_invariant\<close>, interpreted on the keys that trading does not own and on the typing.
  \<^item> \<open>Engine\<close>: \<open>crates/engine/src/lib.rs\<close>: the engine record, delegation, rebuilding the order book.
  \<^item> \<open>Recovery\<close>: runs of the engine, the invariant that ties the live book to the stored lists, and
    that the rebuilt book is the live one.
  \<^item> \<open>Event_Store\<close>: \<open>crates/engine/src/event_store.rs\<close> and \<open>event_store_key.rs\<close>: the in-memory and the
    RocksDB store behind the interface of both.
  \<^item> \<open>Auth\<close>: \<open>crates/auth\<close>: signer recovery, agents, nominations.
  \<^item> \<open>Mempool\<close>: \<open>crates/mempool\<close>: the pool and its index.
  \<^item> \<open>Executor\<close>: \<open>crates/exec\<close>: a transaction, a batch, the node service.
  \<^item> \<open>Query_Node\<close>: \<open>crates/exec/src/readonly_executor.rs\<close>: synchronisation with a leader, replay, queries.
  \<^item> \<open>Rpc\<close>, \<open>Rpc_Middleware\<close>: \<open>crates/rpc/src\<close>: request handlers on the node, responses and errors; the
    circuit breaker as a state machine.
  \<^item> \<open>Node_Invariants\<close>: what batches of arbitrary bytes keep of the whole node, and a running node
    whose steps are RPC requests, genesis and blocks.
  \<^item> \<open>Block_Writes\<close>: what the execution of a block keeps of the state; the interface \<open>write_invariant\<close> gives
    \<open>trading_invariant\<close>.
  \<^item> \<open>Crash\<close>: the single database writes of a commit in their order, and opening the database after any
    prefix of them.
  \<^item> \<open>Disk_Format\<close>: \<open>storage_key.rs\<close> and the store of \<open>rocksdb_storage.rs\<close> on byte strings, with the node store of
    the Merkle tree; it refines \<open>Storage\<close>, and its single writes refine those of \<open>Crash\<close>.
  \<^item> \<open>Snapshot_Exporter\<close>: \<open>crates/state/src/snapshot_exporter.rs\<close>: exports to object stores and directories,
    with calls that fail at any point.  The interface \<open>destination\<close> says what publishing relies on; it
    is interpreted on object stores and on directories.
  \<^item> \<open>Service\<close>: \<open>crates/exec/src/server.rs\<close> with its exporter and the tasks blocks spawn, the statistics of
    \<open>executor_trait.rs\<close>, and the start of the daemon (\<open>crates/app/src\<close>).  The interface
    \<open>write_invariant\<close> is interpreted on what is on disk.
  \<^item> \<open>Restart\<close>: chains of blocks, and a new process on the database of an old one.
  \<^item> \<open>Websocket\<close>: \<open>crates/rpc/src/websocket.rs\<close>: the loop of a connection.
  \<^item> \<open>Rpc_Server\<close>: \<open>crates/rpc/src/lib.rs\<close>, \<open>types.rs\<close> and \<open>metrics.rs\<close>: the router with its paths and
    request bodies, the start of the server, the metrics with their registration and labels.
  \<^item> \<open>Load_Client\<close>: \<open>crates/loadtest/src\<close>: the generators in the state monad of the random source, the
    wallets, the RPC client on top of the router, the collector of results, the funding of wallets.
  \<^item> \<open>Load_Runner\<close>: \<open>runner.rs\<close> and \<open>scenarios.rs\<close> of the same crate: a load test as a step relation in
    which the workers of a scenario sign and send, the clock advances and the node runs its blocks.

  \<^bold>\<open>How the code is translated.\<close>  A struct is a record, an enum a datatype with constructors
  \<open>Enum_Variant\<close> where names would clash, an unsigned integer a word of its width.  Plain \<open>+\<close>, \<open>-\<close> and
  \<open>*\<close> wrap around, as in the release profile; checked operations return options.  A function that
  takes \<open>&mut\<close> parameters and may fail returns the result together with the final values of these
  parameters, so that what a failing call had already written is part of the model.  A \<open>HashMap\<close> is a
  partial function, a \<open>BTreeMap\<close> a sorted association list, a \<open>BinaryHeap\<close> a multiset; the order in
  which a hash map, a heap or the database is enumerated is a parameter.  So are the cryptographic
  hashes, public-key recovery, the Borsh and JSON encodings and the Merkle tree; theorems that need
  something of them name it as a hypothesis (injectivity on the strings at hand, completeness of an
  enumeration, a lossless codec).  Numbers interpolated in error messages are left out.  A request
  that holds the write locks of the node is one step.

  \<^bold>\<open>What is proved.\<close>
  \<^item> Order book: fills follow price-time priority within the taker's limit, never against the own
    order, conserve size, and keep the book consistent with the stored orders; every operation of
    the engine keeps that invariant, failing ones included; a node restarted after any chain of
    blocks rebuilds both sides of every market exactly.
  \<^item> The whole node: batches change the supply of an asset only by deposits and withdrawals; in every
    reachable node the pool and the registry of agents hold only what was signed.
  \<^item> Positions and accounts: a fill is zero-sum; trades move the signed size exactly; the entry price
    is the weighted average; profit and loss never overflow; transfers conserve the total; only
    operators mint and burn through the bridge.
  \<^item> Risk, funding, liquidation: the margin check covers the order; both liquidation tests are
    exact; the sizes, fees, payments and insurance funds of a liquidation are as computed over the
    integers; the funding rate is bounded and payments cancel out.
  \<^item> Storage and state: what a commit keeps readable; the index of latest versions agrees with the
    scan; the store under a lossless codec refines the typed one, and so does the database of bytes with its
    Borsh keys and Merkle nodes, over every sequence of operations and restarts; typed reads never fail on a well-typed state.
  \<^item> Crashes, snapshots and starts: a commit interrupted anywhere leaves a database that opens at the
    old or the new version with its state; a block that was not committed leaves no trace on disk;
    \<open>latest.json\<close> names a complete snapshot whatever fails during exports, and a node opened on such
    a snapshot reads what the exporting node had committed; starting the daemon changes the
    assets and the bridge operators only.
  \<^item> Transactions, authentication, mempool, executor: signing hashes bind nonce, sender and payload;
    only the sender or an agent with all permissions is accepted; the pool respects its limits and
    hands out nonces in order; a transaction is executed at most once, with its sender's signature
    and current nonce; blocks respect the byte limit; synchronisation ends.
  \<^item> Events and requests: both event stores answer alike once flushed, keys round-trip, the query by
    address returns the latest events; the circuit breaker opens exactly after the configured run
    of failures and can always be closed again; no HTTP request touches the engine, and one that is
    not answered with success changes nothing.
  \<^item> Load test: a transaction of a wallet is admitted by the node under test; in every run, whatever the
    interleaving of the workers, nonces are not repeated and each attempt is counted once.
  \<^item> Behaviour that differs from what comments or names promise is stated as a theorem too: deleted
    committed values are read again, pruning loses values that were not rewritten, a failing
    fill-or-kill order leaves its fills settled, a transfer that overflows loses the amount,
    nominations and requests that set an agent can be replayed, a second transaction with a
    listed nonce orphans the first, a node exports at every block from the interval on, a block
    executed again after an interrupted commit reads what that commit had written, and the load
    test for matching orders sends none that can match while the aggressive one runs its workers
    one after the other.

  \<^bold>\<open>Bounds and termination.\<close>  All loops of the code recurse over lists or are bounded by a version
  number, except the synchronisation loop of a query node, which is a partial function in the option
  monad; that it returns is proved for a positive batch size and heights that do not overflow.
  Hypotheses such as a level size below \<open>2\<^sup>6\<^sup>4\<close> appear where the code adds without a check.

  \<^bold>\<open>Not modelled.\<close>  Sockets, connection handling and CORS headers of the HTTP and gRPC servers, the
  broadcaster of WebSocket messages and the HTTP client of the query node; RocksDB backups, tuning and
  I/O errors outside the crash model; the algorithm of the Merkle tree; the request timeout; the
  command-line parser and logging; the signer that asks another process; floating-point displays,
  rates and percentiles; derive macros.  The values of the metrics are those of another crate.  Exports
  run one at a time in the model.  The RPC handlers and the blocks of the running system interleave as
  whole requests.
\<close>

end
